(* ===== verification/Prelude.thy ===== *)
theory Prelude
  imports Main "HOL-Library.Word"
begin

section \<open>Shared vocabulary of the development\<close>

text \<open>
  The TypeScript sources of the tunnel SDK are translated into pure HOL functions. This theory
  holds what all components share:

  \<^item> the error values that a \<open>throw\<close> of the source becomes, and the sequencing of fallible steps
    (\<open>bindE\<close>, \<open>mapE\<close>), with the rewrite rules the component proofs use;
  \<^item> bytes (\<open>Uint8Array\<close> elements) as 8-bit words, and fixed-width big-endian integers with their
    round trips, which the wire formats, the protocol encodings and the randomness component share;
  \<^item> general facts on lists (cutting a concatenation at a known length).

  A JavaScript \<open>bigint\<close> and an integral \<open>number\<close> are \<open>int\<close>; an array index or a length is \<open>nat\<close>;
  a string is a list of characters.
\<close>

named_theorems result_simps \<open>rewriting of fallible computations\<close>
named_theorems byte_len \<open>lengths of encoded fields\<close>

subsection \<open>Errors\<close>

text \<open>\<open>throw new Error(msg)\<close> and \<open>throw new RangeError(msg)\<close>, where the string is the constant part of
  the message of the source; a \<open>TypeError\<close> or \<open>SyntaxError\<close> raised by the language itself; and \<open>Diverges\<close>, the value of a
  loop that never returns.\<close>

datatype js_error = Error string | RangeError string | TypeError string | SyntaxError string | Diverges

type_synonym 'a result = "js_error + 'a"

definition bindE :: "'a result \<Rightarrow> ('a \<Rightarrow> 'b result) \<Rightarrow> 'b result" where
  "bindE m f = (case m of Inl e \<Rightarrow> Inl e | Inr x \<Rightarrow> f x)"

text \<open>\<open>if (b) throw e;\<close>\<close>

definition throw_if :: "bool \<Rightarrow> js_error \<Rightarrow> unit result" where
  "throw_if b e = (if b then Inl e else Inr ())"

text \<open>A loop over an array whose body may throw.\<close>

primrec mapE :: "('a \<Rightarrow> 'b result) \<Rightarrow> 'a list \<Rightarrow> 'b list result" where
  "mapE f [] = Inr []"
| "mapE f (x # xs) = bindE (f x) (\<lambda>y. bindE (mapE f xs) (\<lambda>ys. Inr (y # ys)))"

lemma bindE_Inr [simp, result_simps]: "bindE (Inr x) f = f x"
  by (simp add: bindE_def)

lemma bindE_Inl [simp, result_simps]: "bindE (Inl e) f = Inl e"
  by (simp add: bindE_def)

lemma bindE_eq_Inr [result_simps]: "bindE m f = Inr y \<longleftrightarrow> (\<exists>x. m = Inr x \<and> f x = Inr y)"
  by (cases m) auto

lemma bindE_eq_Inl [result_simps]:
  "bindE m f = Inl e \<longleftrightarrow> m = Inl e \<or> (\<exists>x. m = Inr x \<and> f x = Inl e)"
  by (cases m) auto

lemma bindE_assoc: "bindE (bindE m f) g = bindE m (\<lambda>x. bindE (f x) g)"
  by (cases m) auto

lemma throw_if_False [simp]: "throw_if False e = Inr ()"
  and throw_if_True [simp]: "throw_if True e = Inl e"
  by (simp_all add: throw_if_def)

lemma throw_if_eq_Inr [result_simps]: "throw_if b e = Inr u \<longleftrightarrow> \<not> b"
  by (simp add: throw_if_def)

lemma throw_if_eq_Inl [result_simps]: "throw_if b e = Inl e' \<longleftrightarrow> b \<and> e = e'"
  by (simp add: throw_if_def)

lemma mapE_Inr_iff: "mapE f xs = Inr ys \<longleftrightarrow> list_all2 (\<lambda>x y. f x = Inr y) xs ys"
  by (induction xs arbitrary: ys) (auto simp: result_simps list_all2_Cons1)

lemma mapE_all_Inr: "(\<And>x. x \<in> set xs \<Longrightarrow> f x = Inr (g x)) \<Longrightarrow> mapE f xs = Inr (map g xs)"
  by (induction xs) auto

text \<open>Every value of the sum is an error or a success; \<open>isOk\<close> tells which.\<close>

definition isOk :: "'a result \<Rightarrow> bool" where
  "isOk r = (case r of Inl _ \<Rightarrow> False | Inr _ \<Rightarrow> True)"

lemma isOk_simps [simp]: "isOk (Inr x)" "\<not> isOk (Inl e)"
  by (simp_all add: isOk_def)

lemma isOk_iff: "isOk r \<longleftrightarrow> (\<exists>x. r = Inr x)"
  by (cases r) auto

subsection \<open>Bytes and big-endian integers\<close>

type_synonym byte = "8 word"
type_synonym bytes = "byte list"

text \<open>The \<open>n\<close> low-order bytes of \<open>v\<close>, most significant first: what \<open>DataView.setUint16\<close>,
  \<open>setUint32\<close> and \<open>setBigUint64\<close> write with \<open>littleEndian = false\<close>.\<close>

primrec beBytes :: "nat \<Rightarrow> int \<Rightarrow> bytes" where
  "beBytes 0 v = []"
| "beBytes (Suc n) v = beBytes n (v div 256) @ [word_of_int v]"

text \<open>The value of a big-endian byte sequence (\<open>getUint16\<close>, \<open>getUint32\<close>, \<open>getBigUint64\<close>).\<close>

definition beVal :: "bytes \<Rightarrow> int" where
  "beVal bs = foldl (\<lambda>v b. v * 256 + uint b) 0 bs"

lemma beVal_Nil [simp]: "beVal [] = 0"
  and beVal_snoc [simp]: "beVal (bs @ [b]) = beVal bs * 256 + uint b"
  by (simp_all add: beVal_def)

lemma length_beBytes [simp, byte_len]: "length (beBytes n v) = n"
  by (induction n arbitrary: v) auto

lemma uint_byte_bounds: "0 \<le> uint (b :: byte)" "uint (b :: byte) < 256"
  using uint_lt2p [of b] by simp_all

lemma uint_of_int_byte: "uint (word_of_int v :: byte) = v mod 256"
  by (simp add: uint_word_of_int)

lemma beVal_beBytes: "0 \<le> v \<Longrightarrow> v < 256 ^ n \<Longrightarrow> beVal (beBytes n v) = v"
proof (induction n arbitrary: v)
  case 0
  then show ?case by simp
next
  case (Suc n)
  have "v div 256 < 256 ^ n"
    using Suc.prems by (simp add: div_less_iff_less_mult mult.commute)
  with Suc have "beVal (beBytes n (v div 256)) = v div 256"
    by (simp add: pos_imp_zdiv_nonneg_iff)
  then show ?case
    by (simp add: uint_of_int_byte)
qed

lemma beVal_bounds: "0 \<le> beVal bs \<and> beVal bs < 256 ^ length bs"
proof (induction bs rule: rev_induct)
  case Nil
  then show ?case by simp
next
  case (snoc b bs)
  then have "beVal bs + 1 \<le> 256 ^ length bs" by simp
  then have "(beVal bs + 1) * 256 \<le> 256 ^ length bs * 256" by simp
  then have "beVal bs * 256 + 256 \<le> 256 * 256 ^ length bs" by (simp add: algebra_simps)
  with snoc uint_byte_bounds [of b] show ?case by simp
qed

lemma beBytes_beVal: "length bs = n \<Longrightarrow> beBytes n (beVal bs) = bs"
proof (induction n arbitrary: bs)
  case 0
  then show ?case by simp
next
  case (Suc n)
  then obtain cs b where bs: "bs = cs @ [b]" and "length cs = n"
    by (metis length_Suc_conv_rev)
  with Suc.IH have IH: "beBytes n (beVal cs) = cs" by simp
  have d: "(beVal cs * 256 + uint b) div 256 = beVal cs"
    using uint_byte_bounds [of b] by simp
  have "uint (word_of_int (beVal cs * 256 + uint b) :: byte) = (beVal cs * 256 + uint b) mod 256"
    by (rule uint_of_int_byte)
  also have "\<dots> = uint b"
    using uint_byte_bounds [of b] by simp
  finally have m: "(word_of_int (beVal cs * 256 + uint b) :: byte) = b"
    by (simp only: word_uint_eq_iff)
  show ?case by (simp only: bs beBytes.simps beVal_snoc d IH m)
qed

lemma beBytes_inj:
  "beBytes n v = beBytes n w \<Longrightarrow> 0 \<le> v \<Longrightarrow> v < 256 ^ n \<Longrightarrow> 0 \<le> w \<Longrightarrow> w < 256 ^ n \<Longrightarrow> v = w"
  by (metis beVal_beBytes)

subsection \<open>Lists\<close>

text \<open>\<open>arr.slice(o, o + n)\<close>: out-of-range ends are clamped, as in JavaScript.\<close>

definition slice :: "'a list \<Rightarrow> nat \<Rightarrow> nat \<Rightarrow> 'a list" where
  "slice xs o1 n = take n (drop o1 xs)"

lemma slice_append_right [simp]:
  "length xs \<le> o1 \<Longrightarrow> slice (xs @ ys) o1 n = slice ys (o1 - length xs) n"
  by (simp add: slice_def)

lemma slice_0_append [simp]: "length xs = n \<Longrightarrow> slice (xs @ ys) 0 n = xs"
  by (simp add: slice_def)

lemma slice_0_all [simp]: "length xs = n \<Longrightarrow> slice xs 0 n = xs"
  by (simp add: slice_def)

lemma length_slice: "length (slice xs o1 n) = min n (length xs - o1)"
  by (simp add: slice_def)

lemma append_split_eq:
  "length xs = length us \<Longrightarrow> xs @ ys = us @ vs \<longleftrightarrow> xs = us \<and> ys = vs"
  by simp

end
