(* ===== verification/Sample_Hash.thy ===== *)
theory Sample_Hash
  imports Prelude
begin

section \<open>A concrete hash function\<close>

text \<open>
  The hash function is a parameter of the model. This executable instance has 32-byte digests (the last
  32 bytes of its input, reversed and padded); the witnesses of the development use it.
\<close>

definition sampleHash :: "bytes \<Rightarrow> bytes" where
  "sampleHash x = take 32 (rev x @ replicate 32 0)"

lemma length_sampleHash [simp]: "length (sampleHash x) = 32"
  by (simp add: sampleHash_def)

end
