(* ===== verification/Bytes.thy ===== *)
theory Bytes
  imports Prelude
begin

section \<open>Byte utilities (core/bytes.ts)\<close>

text \<open>
  \<open>concatBytes\<close> fills a preallocated array part by part, \<open>bytesEqual\<close> compares element by element,
  \<open>toHex\<close>/\<open>fromHex\<close> convert to and from hexadecimal text. The lemmas show that the array-filling
  loop is list concatenation, that the comparison is equality, and that hexadecimal text round trips.
\<close>

subsection \<open>Definitions\<close>

text \<open>\<open>out.set(p, o)\<close> on a typed array.\<close>

definition blit :: "'a list \<Rightarrow> nat \<Rightarrow> 'a list \<Rightarrow> 'a list" where
  "blit out o1 p = take o1 out @ p @ drop (o1 + length p) out"

fun concatBytes_loop :: "bytes \<Rightarrow> nat \<Rightarrow> bytes list \<Rightarrow> bytes" where
  "concatBytes_loop out o1 [] = out"
| "concatBytes_loop out o1 (p # ps) = concatBytes_loop (blit out o1 p) (o1 + length p) ps"

definition concatBytes :: "bytes list \<Rightarrow> bytes" where
  "concatBytes parts =
     (let len = foldl (\<lambda>n p. n + length p) 0 parts
      in concatBytes_loop (replicate len 0) 0 parts)"

definition bytesEqual :: "bytes \<Rightarrow> bytes \<Rightarrow> bool" where
  "bytesEqual a b =
     (if length a \<noteq> length b then False
      else list_all (\<lambda>i. a ! i = b ! i) [0..<length a])"

text \<open>\<open>TextEncoder.encode\<close> of an ASCII string.\<close>

definition asciiBytes :: "string \<Rightarrow> bytes" where
  "asciiBytes s = map of_char s"

text \<open>\<open>i.toString(16)\<close> for one digit.\<close>

definition hexDigit :: "nat \<Rightarrow> char" where
  "hexDigit n = char_of (if n < 10 then 48 + n else 87 + n)"

definition HEX :: "nat \<Rightarrow> string" where
  "HEX i = [hexDigit (i div 16), hexDigit (i mod 16)]"

definition toHex :: "bytes \<Rightarrow> string" where
  "toHex bs = foldl (\<lambda>s b. s @ HEX (unat b)) [] bs"

text \<open>The value of a hexadecimal digit, \<open>None\<close> for any other character
  (the class \<open>[0-9a-fA-F]\<close>).\<close>

definition hexVal :: "char \<Rightarrow> nat option" where
  "hexVal c =
     (let n = of_char c :: nat
      in if 48 \<le> n \<and> n \<le> 57 then Some (n - 48)
         else if 97 \<le> n \<and> n \<le> 102 then Some (n - 87)
         else if 65 \<le> n \<and> n \<le> 70 then Some (n - 55)
         else None)"

definition isHexString :: "string \<Rightarrow> bool" where
  "isHexString h = list_all (\<lambda>c. hexVal c \<noteq> None) h"

definition hexNibble :: "char \<Rightarrow> nat" where
  "hexNibble c = (case hexVal c of None \<Rightarrow> 0 | Some n \<Rightarrow> n)"

text \<open>The loop \<open>out[i] = parseInt(h.substr(i * 2, 2), 16)\<close> over a string of hexadecimal digits of
  even length.\<close>

fun parseHexPairs :: "string \<Rightarrow> bytes" where
  "parseHexPairs (c # d # cs) = of_nat (16 * hexNibble c + hexNibble d) # parseHexPairs cs"
| "parseHexPairs _ = []"

definition strip0x :: "string \<Rightarrow> string" where
  "strip0x h = (if take 2 h = ''0x'' \<or> take 2 h = ''0X'' then drop 2 h else h)"

definition fromHex :: "string \<Rightarrow> bytes result" where
  "fromHex hex =
     (let h = strip0x hex
      in if length h mod 2 \<noteq> 0 then Inl (Error ''odd-length hex'')
         else if \<not> isHexString h then Inl (Error ''invalid hex'')
         else Inr (parseHexPairs h))"

subsection \<open>Concatenation and comparison\<close>

lemma concatBytes_loop_eq:
  "length out = length pre + length (concat ps) \<Longrightarrow> take (length pre) out = pre \<Longrightarrow>
   concatBytes_loop out (length pre) ps = pre @ concat ps"
proof (induction ps arbitrary: out pre)
  case Nil
  then show ?case by simp
next
  case (Cons p ps)
  have "concatBytes_loop (blit out (length pre) p) (length (pre @ p)) ps = (pre @ p) @ concat ps"
    by (rule Cons.IH) (use Cons.prems in \<open>auto simp: blit_def\<close>)
  then show ?case by simp
qed

lemma foldl_length_concat: "foldl (\<lambda>n p. n + length p) k ps = k + length (concat ps)"
  by (induction ps arbitrary: k) auto

lemma concatBytes_eq [simp]: "concatBytes ps = concat ps"
  using concatBytes_loop_eq [of "replicate (length (concat ps)) 0" "[]" ps]
  by (simp add: concatBytes_def foldl_length_concat)

lemma bytesEqual_iff [simp]: "bytesEqual a b \<longleftrightarrow> a = b"
  by (auto simp: bytesEqual_def list_all_iff intro: nth_equalityI)

lemma length_asciiBytes [simp, byte_len]: "length (asciiBytes s) = length s"
  by (simp add: asciiBytes_def)

subsection \<open>Hexadecimal text\<close>

lemma of_char_hexDigit:
  "n < 16 \<Longrightarrow> (of_char (hexDigit n) :: nat) = (if n < 10 then 48 + n else 87 + n)"
  by (simp add: hexDigit_def)

lemma hexVal_hexDigit [simp]: "n < 16 \<Longrightarrow> hexVal (hexDigit n) = Some n"
  by (auto simp: hexVal_def of_char_hexDigit Let_def)

lemma hexNibble_hexDigit [simp]: "n < 16 \<Longrightarrow> hexNibble (hexDigit n) = n"
  by (simp add: hexNibble_def)

lemma toHex_loop: "foldl (\<lambda>s b. s @ HEX (unat b)) acc bs = acc @ concat (map (\<lambda>b. HEX (unat b)) bs)"
  by (induction bs arbitrary: acc) auto

lemma toHex_Nil [simp]: "toHex [] = []"
  and toHex_Cons [simp]: "toHex (b # bs) = HEX (unat b) @ toHex bs"
  by (simp_all add: toHex_def toHex_loop)

lemma length_toHex [simp]: "length (toHex bs) = 2 * length bs"
  by (induction bs) (auto simp: HEX_def)

lemma unat_byte_lt: "unat (b :: byte) < 256"
proof -
  have "unat b < 2 ^ LENGTH(8)" by (rule unsigned_less)
  then show ?thesis by simp
qed

lemma isHexString_toHex [simp]: "isHexString (toHex bs)"
  by (induction bs) (use unat_byte_lt in \<open>auto simp: isHexString_def HEX_def div_less_iff_less_mult\<close>)

lemma parseHexPairs_toHex [simp]: "parseHexPairs (toHex bs) = bs"
proof (induction bs)
  case Nil
  then show ?case by simp
next
  case (Cons b bs)
  have "unat b div 16 < 16" using unat_byte_lt [of b] by (simp add: div_less_iff_less_mult)
  then show ?case using Cons by (simp add: HEX_def)
qed

lemma isHexString_char: "isHexString h \<Longrightarrow> c \<in> set h \<Longrightarrow> hexVal c \<noteq> None"
  by (auto simp: isHexString_def list_all_iff)

lemma hexVal_x [simp]: "hexVal CHR ''x'' = None" "hexVal CHR ''X'' = None"
  by code_simp+

text \<open>A string of hexadecimal digits has no \<open>0x\<close> prefix to strip.\<close>

lemma strip0x_hex [simp]: "isHexString h \<Longrightarrow> strip0x h = h"
  by (cases h rule: parseHexPairs.cases) (auto simp: strip0x_def dest: isHexString_char)

lemma strip0x_prefixed [simp]: "strip0x (CHR ''0'' # CHR ''x'' # h) = h"
  by (simp add: strip0x_def)

lemma fromHex_toHex: "fromHex (toHex bs) = Inr bs"
  by (simp add: fromHex_def)

lemma fromHex_0x_toHex: "fromHex (CHR ''0'' # CHR ''x'' # toHex bs) = Inr bs"
  by (simp add: fromHex_def)

lemma length_parseHexPairs: "length (parseHexPairs h) = length h div 2"
  by (induction h rule: parseHexPairs.induct) auto

lemma fromHex_length: "fromHex h = Inr bs \<Longrightarrow> 2 * length bs = length (strip0x h)"
  by (auto simp: fromHex_def Let_def length_parseHexPairs split: if_splits)

lemma toHex_inj: "toHex a = toHex b \<Longrightarrow> a = b"
  by (metis parseHexPairs_toHex)

end
