(* ===== verification/Wire.thy ===== *)
theory Wire
  imports Bytes
begin

section \<open>Canonical signed-message wire format (core/wire.ts)\<close>

text \<open>
  The serializers of every message the parties sign, the parser of a state update, and the
  buffer-reusing writer of the hot path. The lemmas show: \<open>u64\<close> and address encodings are exact and
  injective, parsing inverts serialization in both directions, messages of different kinds are
  never equal (a signature on one cannot be replayed as another), and the buffer-reusing writer
  produces the reference bytes whatever was written before, including writes that threw half-way.
\<close>

subsection \<open>Domain prefixes, 64-bit integers and addresses\<close>

definition DOMAIN_STATE_UPDATE :: bytes where
  "DOMAIN_STATE_UPDATE = asciiBytes ''sui_tunnel::state_update''"

definition DOMAIN_SETTLEMENT :: bytes where
  "DOMAIN_SETTLEMENT = asciiBytes ''sui_tunnel::settlement''"

definition DOMAIN_SETTLEMENT_V2 :: bytes where
  "DOMAIN_SETTLEMENT_V2 = asciiBytes ''sui_tunnel::settlement_v2''"

definition DOMAIN_HTLC_LOCK :: bytes where
  "DOMAIN_HTLC_LOCK = asciiBytes ''sui_tunnel::htlc_lock''"

definition DOMAIN_SPEND_AUTHORIZATION :: bytes where
  "DOMAIN_SPEND_AUTHORIZATION = asciiBytes ''sui_tunnel::spend_authorization''"

definition DOMAIN_REFEREE_ASSIGNMENT :: bytes where
  "DOMAIN_REFEREE_ASSIGNMENT = asciiBytes ''sui_tunnel::referee_assignment''"

lemmas domain_defs =
  DOMAIN_STATE_UPDATE_def DOMAIN_SETTLEMENT_def DOMAIN_SETTLEMENT_V2_def DOMAIN_HTLC_LOCK_def
  DOMAIN_SPEND_AUTHORIZATION_def DOMAIN_REFEREE_ASSIGNMENT_def

definition U64_MAX :: int where
  "U64_MAX = 2 ^ 64 - 1"

definition asU64 :: "int \<Rightarrow> int result" where
  "asU64 v = (if v < 0 \<or> v > U64_MAX then Inl (RangeError ''u64 out of range'') else Inr v)"

definition u64ToBeBytes :: "int \<Rightarrow> bytes result" where
  "u64ToBeBytes value = bindE (asU64 value) (\<lambda>v. Inr (beBytes 8 v))"

definition u64FromBeBytes :: "bytes \<Rightarrow> int \<Rightarrow> int result" where
  "u64FromBeBytes bs offset =
     (if offset < 0 \<or> offset + 8 > int (length bs) then Inl (RangeError ''u64 read out of range'')
      else Inr (beVal (slice bs (nat offset) 8)))"

text \<open>\<open>h.padStart(64, "0")\<close>\<close>

definition padStart :: "nat \<Rightarrow> char \<Rightarrow> string \<Rightarrow> string" where
  "padStart n c s = replicate (n - length s) c @ s"

definition addressToBytes32 :: "string \<Rightarrow> bytes result" where
  "addressToBytes32 addr =
     (let h = strip0x addr
      in if \<not> isHexString h then Inl (Error ''invalid hex address'')
         else if length h > 64 then Inl (Error ''address longer than 32 bytes'')
         else Inr (parseHexPairs (padStart 64 CHR ''0'' h)))"

subsection \<open>Message records and serializers\<close>

record StateUpdate =
  su_tunnelId :: string
  su_stateHash :: bytes
  su_nonce :: int
  su_timestamp :: int
  su_partyABalance :: int
  su_partyBBalance :: int

definition serializeRefereeAssignment :: "string \<Rightarrow> string \<Rightarrow> bytes result" where
  "serializeRefereeAssignment tunnelId referee =
     bindE (addressToBytes32 tunnelId) (\<lambda>t.
     bindE (addressToBytes32 referee) (\<lambda>r.
     Inr (concatBytes [DOMAIN_REFEREE_ASSIGNMENT, t, r])))"

definition serializeStateUpdate :: "StateUpdate \<Rightarrow> bytes result" where
  "serializeStateUpdate u =
     bindE (addressToBytes32 (su_tunnelId u)) (\<lambda>t.
     bindE (u64ToBeBytes (su_nonce u)) (\<lambda>n.
     bindE (u64ToBeBytes (su_timestamp u)) (\<lambda>ts.
     bindE (u64ToBeBytes (su_partyABalance u)) (\<lambda>a.
     bindE (u64ToBeBytes (su_partyBBalance u)) (\<lambda>b.
     Inr (concatBytes [DOMAIN_STATE_UPDATE, t, su_stateHash u, n, ts, a, b]))))))"

definition STATE_UPDATE_LEN :: nat where
  "STATE_UPDATE_LEN = length DOMAIN_STATE_UPDATE + 32 + 32 + 4 * 8"

definition parseStateUpdate :: "bytes \<Rightarrow> StateUpdate result" where
  "parseStateUpdate message =
     (if length message \<noteq> STATE_UPDATE_LEN then Inl (Error ''state update length'')
      else if \<not> list_all (\<lambda>i. message ! i = DOMAIN_STATE_UPDATE ! i)
                [0..<length DOMAIN_STATE_UPDATE]
      then Inl (Error ''state update domain prefix mismatch'')
      else
        let o1 = length DOMAIN_STATE_UPDATE;
            tunnelId = ''0x'' @ toHex (slice message o1 32);
            o2 = o1 + 32;
            stateHash = slice message o2 32;
            o3 = int (o2 + 32)
        in bindE (u64FromBeBytes message o3) (\<lambda>nonce.
           bindE (u64FromBeBytes message (o3 + 8)) (\<lambda>timestamp.
           bindE (u64FromBeBytes message (o3 + 16)) (\<lambda>partyABalance.
           bindE (u64FromBeBytes message (o3 + 24)) (\<lambda>partyBBalance.
           Inr \<lparr>su_tunnelId = tunnelId, su_stateHash = stateHash, su_nonce = nonce,
                su_timestamp = timestamp, su_partyABalance = partyABalance,
                su_partyBBalance = partyBBalance\<rparr>)))))"

record Settlement =
  st_tunnelId :: string
  st_partyABalance :: int
  st_partyBBalance :: int
  st_finalNonce :: int
  st_timestamp :: int

definition serializeSettlement :: "Settlement \<Rightarrow> bytes result" where
  "serializeSettlement s =
     bindE (addressToBytes32 (st_tunnelId s)) (\<lambda>t.
     bindE (u64ToBeBytes (st_partyABalance s)) (\<lambda>a.
     bindE (u64ToBeBytes (st_partyBBalance s)) (\<lambda>b.
     bindE (u64ToBeBytes (st_finalNonce s)) (\<lambda>n.
     bindE (u64ToBeBytes (st_timestamp s)) (\<lambda>ts.
     Inr (concatBytes [DOMAIN_SETTLEMENT, t, a, b, n, ts]))))))"

text \<open>\<open>SettlementWithRoot extends Settlement\<close> with the transcript root.\<close>

record SettlementWithRoot = Settlement +
  st_transcriptRoot :: bytes

definition serializeSettlementWithRoot :: "SettlementWithRoot \<Rightarrow> bytes result" where
  "serializeSettlementWithRoot s =
     (if length (st_transcriptRoot s) \<noteq> 32 then Inl (Error ''transcript root must be 32 bytes'')
      else
        bindE (addressToBytes32 (st_tunnelId s)) (\<lambda>t.
        bindE (u64ToBeBytes (st_partyABalance s)) (\<lambda>a.
        bindE (u64ToBeBytes (st_partyBBalance s)) (\<lambda>b.
        bindE (u64ToBeBytes (st_finalNonce s)) (\<lambda>n.
        bindE (u64ToBeBytes (st_timestamp s)) (\<lambda>ts.
        Inr (concatBytes [DOMAIN_SETTLEMENT_V2, t, a, b, n, ts, st_transcriptRoot s])))))))"

record HtlcLock =
  hl_tunnelId :: string
  hl_paymentHash :: bytes
  hl_amount :: int
  hl_sender :: string
  hl_receiver :: string
  hl_expiryMs :: int

definition serializeHtlcLock :: "HtlcLock \<Rightarrow> bytes result" where
  "serializeHtlcLock h =
     bindE (addressToBytes32 (hl_tunnelId h)) (\<lambda>t.
     bindE (u64ToBeBytes (hl_amount h)) (\<lambda>am.
     bindE (addressToBytes32 (hl_sender h)) (\<lambda>s.
     bindE (addressToBytes32 (hl_receiver h)) (\<lambda>r.
     bindE (u64ToBeBytes (hl_expiryMs h)) (\<lambda>e.
     Inr (concatBytes [DOMAIN_HTLC_LOCK, t, hl_paymentHash h, am, s, r, e]))))))"

record SpendAuthorization =
  sa_allowanceId :: string
  sa_authorizedTotal :: int

definition serializeSpendAuthorization :: "SpendAuthorization \<Rightarrow> bytes result" where
  "serializeSpendAuthorization a =
     bindE (addressToBytes32 (sa_allowanceId a)) (\<lambda>i.
     bindE (u64ToBeBytes (sa_authorizedTotal a)) (\<lambda>t.
     Inr (concatBytes [DOMAIN_SPEND_AUTHORIZATION, i, t])))"

subsection \<open>The buffer-reusing writer\<close>

record StateUpdateWriter =
  w_buf :: bytes
  w_tailOffset :: nat
  w_stateHashLen :: nat

definition newStateUpdateWriter :: "string \<Rightarrow> nat \<Rightarrow> StateUpdateWriter result" where
  "newStateUpdateWriter tunnelId stateHashLen =
     (let prefixLen = length DOMAIN_STATE_UPDATE + 32;
          buf0 = replicate (prefixLen + stateHashLen + 32) 0;
          buf1 = blit buf0 0 DOMAIN_STATE_UPDATE
      in bindE (addressToBytes32 tunnelId) (\<lambda>t.
         Inr \<lparr>w_buf = blit buf1 (length DOMAIN_STATE_UPDATE) t, w_tailOffset = prefixLen,
              w_stateHashLen = stateHashLen\<rparr>))"

text \<open>\<open>this.dv.setBigUint64(o, asU64(v), false)\<close>: the range check comes before the store, so a value
  out of range leaves the buffer as the stores before it made it.\<close>

definition setBigUint64 :: "StateUpdateWriter \<Rightarrow> nat \<Rightarrow> int \<Rightarrow> StateUpdateWriter" where
  "setBigUint64 w o1 v = w\<lparr>w_buf := blit (w_buf w) o1 (beBytes 8 v)\<rparr>"

fun write_u64s :: "StateUpdateWriter \<Rightarrow> nat \<Rightarrow> int list \<Rightarrow> StateUpdateWriter \<times> unit result" where
  "write_u64s w o1 [] = (w, Inr ())"
| "write_u64s w o1 (v # vs) =
     (case asU64 v of
        Inl e \<Rightarrow> (w, Inl e)
      | Inr u \<Rightarrow> write_u64s (setBigUint64 w o1 u) (o1 + 8) vs)"

definition writerWrite ::
  "StateUpdateWriter \<Rightarrow> bytes \<Rightarrow> int \<Rightarrow> int \<Rightarrow> int \<Rightarrow> int \<Rightarrow> StateUpdateWriter \<times> bytes result" where
  "writerWrite w stateHash nonce timestamp partyABalance partyBBalance =
     (if length stateHash \<noteq> w_stateHashLen w then (w, Inl (Error ''stateHash length''))
      else
        let o1 = w_tailOffset w;
            w1 = w\<lparr>w_buf := blit (w_buf w) o1 stateHash\<rparr>;
            (w2, r) = write_u64s w1 (o1 + w_stateHashLen w)
                        [nonce, timestamp, partyABalance, partyBBalance]
        in (w2, bindE r (\<lambda>_. Inr (w_buf w2))))"


subsection \<open>Field encodings\<close>

lemma length_domains [simp, byte_len]:
  "length DOMAIN_STATE_UPDATE = 24" "length DOMAIN_SETTLEMENT = 22"
  "length DOMAIN_SETTLEMENT_V2 = 25" "length DOMAIN_HTLC_LOCK = 21"
  "length DOMAIN_SPEND_AUTHORIZATION = 31" "length DOMAIN_REFEREE_ASSIGNMENT = 30"
  by (simp_all add: domain_defs)

lemma U64_MAX_pow: "v \<le> U64_MAX \<longleftrightarrow> v < 256 ^ 8"
  by (auto simp: U64_MAX_def)

lemma asU64_Inr_iff [result_simps]: "asU64 v = Inr u \<longleftrightarrow> u = v \<and> 0 \<le> v \<and> v < 256 ^ 8"
  by (auto simp: asU64_def U64_MAX_def)

text \<open>The values that fit a \<open>u64\<close> field.\<close>

definition u64 :: "int \<Rightarrow> bool" where
  "u64 v \<longleftrightarrow> 0 \<le> v \<and> v < 256 ^ 8"

lemma u64ToBeBytes_Inr_iff [result_simps]: "u64ToBeBytes v = Inr bs \<longleftrightarrow> u64 v \<and> bs = beBytes 8 v"
  by (auto simp: u64ToBeBytes_def result_simps u64_def)

lemma u64ToBeBytes_u64 [simp]: "u64 v \<Longrightarrow> u64ToBeBytes v = Inr (beBytes 8 v)"
  by (simp add: u64ToBeBytes_Inr_iff)

lemma beVal_beBytes_u64 [simp]: "u64 v \<Longrightarrow> beVal (beBytes 8 v) = v"
  by (simp add: u64_def beVal_beBytes)

lemma u64_beVal [simp]: "length bs = 8 \<Longrightarrow> u64 (beVal bs)"
  using beVal_bounds [of bs] by (simp add: u64_def)

lemma beBytes_8_inj: "u64 v \<Longrightarrow> u64 w \<Longrightarrow> beBytes 8 v = beBytes 8 w \<longleftrightarrow> v = w"
  by (metis beVal_beBytes_u64)

lemma addressToBytes32_length [byte_len]: "addressToBytes32 a = Inr t \<Longrightarrow> length t = 32"
  by (auto simp: addressToBytes32_def Let_def length_parseHexPairs padStart_def split: if_splits)

text \<open>An address in canonical form: \<open>0x\<close> and 64 lower-case digits.\<close>

definition canonicalAddress :: "bytes \<Rightarrow> string" where
  "canonicalAddress t = ''0x'' @ toHex t"

lemma addressToBytes32_canonical [simp]:
  "length t = 32 \<Longrightarrow> addressToBytes32 (canonicalAddress t) = Inr t"
  by (simp add: addressToBytes32_def canonicalAddress_def padStart_def)

subsection \<open>Parsing inverts serialization\<close>

lemma serializeStateUpdate_Inr_iff:
  "serializeStateUpdate u = Inr m \<longleftrightarrow>
     (\<exists>t. addressToBytes32 (su_tunnelId u) = Inr t \<and> u64 (su_nonce u) \<and> u64 (su_timestamp u) \<and>
        u64 (su_partyABalance u) \<and> u64 (su_partyBBalance u) \<and>
        m = DOMAIN_STATE_UPDATE @ t @ su_stateHash u @ beBytes 8 (su_nonce u) @
            beBytes 8 (su_timestamp u) @ beBytes 8 (su_partyABalance u) @
            beBytes 8 (su_partyBBalance u))"
  by (auto simp: serializeStateUpdate_def result_simps)

lemma u64FromBeBytes_at:
  "int (length pre) = o1 \<Longrightarrow> length f = 8 \<Longrightarrow> u64FromBeBytes (pre @ f @ post) o1 = Inr (beVal f)"
  by (auto simp: u64FromBeBytes_def)

lemma parseStateUpdate_fields:
  assumes "length t = 32" "length h = 32" "length n = 8" "length ts = 8" "length a = 8" "length b = 8"
  shows "parseStateUpdate (DOMAIN_STATE_UPDATE @ t @ h @ n @ ts @ a @ b) =
    Inr \<lparr>su_tunnelId = canonicalAddress t, su_stateHash = h, su_nonce = beVal n,
         su_timestamp = beVal ts, su_partyABalance = beVal a, su_partyBBalance = beVal b\<rparr>"
proof -
  let ?m = "DOMAIN_STATE_UPDATE @ t @ h @ n @ ts @ a @ b"
  have pre: "list_all (\<lambda>i. ?m ! i = DOMAIN_STATE_UPDATE ! i) [0..<length DOMAIN_STATE_UPDATE]"
    by (simp add: list_all_iff nth_append)
  have n: "u64FromBeBytes ?m 88 = Inr (beVal n)"
    using u64FromBeBytes_at [of "DOMAIN_STATE_UPDATE @ t @ h" 88 n "ts @ a @ b"] assms by simp
  have ts: "u64FromBeBytes ?m 96 = Inr (beVal ts)"
    using u64FromBeBytes_at [of "DOMAIN_STATE_UPDATE @ t @ h @ n" 96 ts "a @ b"] assms by simp
  have a: "u64FromBeBytes ?m 104 = Inr (beVal a)"
    using u64FromBeBytes_at [of "DOMAIN_STATE_UPDATE @ t @ h @ n @ ts" 104 a b] assms by simp
  have b: "u64FromBeBytes ?m 112 = Inr (beVal b)"
    using u64FromBeBytes_at [of "DOMAIN_STATE_UPDATE @ t @ h @ n @ ts @ a" 112 b "[]"] assms by simp
  have len: "length ?m = STATE_UPDATE_LEN"
    using assms by (simp add: STATE_UPDATE_LEN_def)
  show ?thesis
    using pre len n ts a b assms
    by (simp add: parseStateUpdate_def Let_def canonicalAddress_def slice_def)
qed

text \<open>The canonical form of an update: the same fields with the address in canonical spelling.\<close>

definition canonicalUpdate :: "StateUpdate \<Rightarrow> bytes \<Rightarrow> StateUpdate" where
  "canonicalUpdate u t = u\<lparr>su_tunnelId := canonicalAddress t\<rparr>"

lemma parse_of_serialize:
  assumes "serializeStateUpdate u = Inr m" "length (su_stateHash u) = 32"
    and "addressToBytes32 (su_tunnelId u) = Inr t"
  shows "parseStateUpdate m = Inr (canonicalUpdate u t)"
proof -
  have m: "m = DOMAIN_STATE_UPDATE @ t @ su_stateHash u @ beBytes 8 (su_nonce u) @
            beBytes 8 (su_timestamp u) @ beBytes 8 (su_partyABalance u) @
            beBytes 8 (su_partyBBalance u)"
    and r: "u64 (su_nonce u)" "u64 (su_timestamp u)" "u64 (su_partyABalance u)"
      "u64 (su_partyBBalance u)"
    using assms(1,3) by (auto simp: serializeStateUpdate_Inr_iff)
  have "length t = 32"
    using assms(3) by (rule addressToBytes32_length)
  then show ?thesis
    unfolding m using assms(2) r by (simp add: parseStateUpdate_fields canonicalUpdate_def)
qed

lemma split_at: "n \<le> length xs \<Longrightarrow> \<exists>ys zs. xs = ys @ zs \<and> length ys = n"
  by (metis append_take_drop_id length_take min.absorb2)

lemma parseStateUpdate_shape:
  assumes "parseStateUpdate m = Inr u"
  obtains t h n ts a b where
    "m = DOMAIN_STATE_UPDATE @ t @ h @ n @ ts @ a @ b" "length t = 32" "length h = 32"
    "length n = 8" "length ts = 8" "length a = 8" "length b = 8"
proof -
  have len: "length m = 120"
    and pre: "list_all (\<lambda>i. m ! i = DOMAIN_STATE_UPDATE ! i) [0..<length DOMAIN_STATE_UPDATE]"
    using assms by (auto simp: parseStateUpdate_def STATE_UPDATE_LEN_def split: if_splits)
  obtain d r0 where m: "m = d @ r0" and d: "length d = 24"
    using split_at [of 24 m] len by auto
  have "d = DOMAIN_STATE_UPDATE"
    using pre d by (auto simp: m list_all_iff nth_append intro!: nth_equalityI)
  obtain t r1 where "r0 = t @ r1" and t: "length t = 32"
    using split_at [of 32 r0] len m d by auto
  moreover obtain h r2 where "r1 = h @ r2" and h: "length h = 32"
    using split_at [of 32 r1] len m d t calculation by auto
  moreover obtain n r3 where "r2 = n @ r3" and n: "length n = 8"
    using split_at [of 8 r2] len m d t h calculation by auto
  moreover obtain ts r4 where "r3 = ts @ r4" and ts: "length ts = 8"
    using split_at [of 8 r3] len m d t h n calculation by auto
  moreover obtain a b where "r4 = a @ b" and a: "length a = 8"
    using split_at [of 8 r4] len m d t h n ts calculation by auto
  ultimately show ?thesis
    using that [of t h n ts a b] m d len \<open>d = DOMAIN_STATE_UPDATE\<close> by simp
qed

lemma serialize_of_parse:
  assumes "parseStateUpdate m = Inr u"
  shows "serializeStateUpdate u = Inr m"
proof -
  obtain t h n ts a b where m: "m = DOMAIN_STATE_UPDATE @ t @ h @ n @ ts @ a @ b"
    and l: "length t = 32" "length h = 32" "length n = 8" "length ts = 8" "length a = 8"
      "length b = 8"
    using assms by (rule parseStateUpdate_shape)
  have "u = \<lparr>su_tunnelId = canonicalAddress t, su_stateHash = h, su_nonce = beVal n,
         su_timestamp = beVal ts, su_partyABalance = beVal a, su_partyBBalance = beVal b\<rparr>"
    using assms parseStateUpdate_fields [OF l] by (simp add: m)
  then show ?thesis
    using l by (simp add: serializeStateUpdate_Inr_iff m beBytes_beVal)
qed


subsection \<open>Messages of different kinds\<close>

text \<open>Every message a party can be asked to sign, with its serializer.\<close>

datatype signed_message =
    MStateUpdate StateUpdate
  | MSettlement Settlement
  | MSettlementWithRoot SettlementWithRoot
  | MHtlcLock HtlcLock
  | MSpendAuthorization SpendAuthorization
  | MRefereeAssignment string string

fun serializeMessage :: "signed_message \<Rightarrow> bytes result" where
  "serializeMessage (MStateUpdate u) = serializeStateUpdate u"
| "serializeMessage (MSettlement s) = serializeSettlement s"
| "serializeMessage (MSettlementWithRoot s) = serializeSettlementWithRoot s"
| "serializeMessage (MHtlcLock h) = serializeHtlcLock h"
| "serializeMessage (MSpendAuthorization a) = serializeSpendAuthorization a"
| "serializeMessage (MRefereeAssignment t r) = serializeRefereeAssignment t r"

fun messageKind :: "signed_message \<Rightarrow> nat" where
  "messageKind (MStateUpdate _) = 0"
| "messageKind (MSettlement _) = 1"
| "messageKind (MSettlementWithRoot _) = 2"
| "messageKind (MHtlcLock _) = 3"
| "messageKind (MSpendAuthorization _) = 4"
| "messageKind (MRefereeAssignment _ _) = 5"

definition kindDomain :: "nat \<Rightarrow> bytes" where
  "kindDomain k =
     [DOMAIN_STATE_UPDATE, DOMAIN_SETTLEMENT, DOMAIN_SETTLEMENT_V2, DOMAIN_HTLC_LOCK,
      DOMAIN_SPEND_AUTHORIZATION, DOMAIN_REFEREE_ASSIGNMENT] ! k"

lemma serializeMessage_domain:
  "serializeMessage x = Inr m \<Longrightarrow> \<exists>rest. m = kindDomain (messageKind x) @ rest"
  by (cases x)
    (auto simp: result_simps kindDomain_def serializeStateUpdate_def serializeSettlement_def
      serializeSettlementWithRoot_def serializeHtlcLock_def serializeSpendAuthorization_def
      serializeRefereeAssignment_def split: if_splits)

lemma serializeSettlement_length: "serializeSettlement s = Inr m \<Longrightarrow> length m = 86"
  by (auto simp: serializeSettlement_def result_simps dest: addressToBytes32_length)

lemma serializeSettlementWithRoot_length: "serializeSettlementWithRoot s = Inr m \<Longrightarrow> length m = 121"
  by (auto simp: serializeSettlementWithRoot_def result_simps split: if_splits
      dest: addressToBytes32_length)

lemma kindDomain_prefixes:
  "take 17 (kindDomain 0) = asciiBytes ''sui_tunnel::state''"
  "take 17 (kindDomain 1) = asciiBytes ''sui_tunnel::settl''"
  "take 17 (kindDomain 2) = asciiBytes ''sui_tunnel::settl''"
  "take 17 (kindDomain 3) = asciiBytes ''sui_tunnel::htlc_''"
  "take 17 (kindDomain 4) = asciiBytes ''sui_tunnel::spend''"
  "take 17 (kindDomain 5) = asciiBytes ''sui_tunnel::refer''"
  by (simp_all add: kindDomain_def domain_defs asciiBytes_def)

lemma messageKind_le: "messageKind x \<le> 5"
  by (cases x) auto

lemma nat_le5_cases: "(k :: nat) \<le> 5 \<Longrightarrow> k = 0 \<or> k = 1 \<or> k = 2 \<or> k = 3 \<or> k = 4 \<or> k = 5"
  by auto

lemma length_kindDomain: "k \<le> 5 \<Longrightarrow> 17 \<le> length (kindDomain k)"
  using nat_le5_cases [of k] by (auto simp: kindDomain_def)

lemma kindDomain_prefix_eq:
  assumes "k \<le> 5" "j \<le> 5" "take 17 (kindDomain k) = take 17 (kindDomain j)"
  shows "k = j \<or> (k = 1 \<and> j = 2) \<or> (k = 2 \<and> j = 1)"
  using nat_le5_cases [OF assms(1)] nat_le5_cases [OF assms(2)] assms(3)
  by (elim disjE) (simp_all add: kindDomain_prefixes [unfolded One_nat_def] asciiBytes_def)

lemma serializeMessage_kind_aux:
  assumes "serializeMessage x = Inr m" "serializeMessage y = Inr m"
  shows "messageKind x = messageKind y \<or> (messageKind x = 1 \<and> messageKind y = 2) \<or>
    (messageKind x = 2 \<and> messageKind y = 1)"
proof -
  obtain r1 r2 where "m = kindDomain (messageKind x) @ r1" "m = kindDomain (messageKind y) @ r2"
    using serializeMessage_domain assms by blast
  moreover have "take 17 (kindDomain (messageKind z) @ r) = take 17 (kindDomain (messageKind z))" for z r
    using length_kindDomain [OF messageKind_le, of z] by simp
  ultimately have "take 17 (kindDomain (messageKind x)) = take 17 (kindDomain (messageKind y))"
    by metis
  then show ?thesis
    by (rule kindDomain_prefix_eq [OF messageKind_le messageKind_le])
qed

lemma messageKind_1: "messageKind x = 1 \<Longrightarrow> \<exists>s. x = MSettlement s"
  and messageKind_2: "messageKind x = 2 \<Longrightarrow> \<exists>s. x = MSettlementWithRoot s"
  by (cases x; simp)+

lemma serializeMessage_length_1:
  "serializeMessage x = Inr m \<Longrightarrow> messageKind x = 1 \<Longrightarrow> length m = 86"
  using messageKind_1 serializeSettlement_length by fastforce

lemma serializeMessage_length_2:
  "serializeMessage x = Inr m \<Longrightarrow> messageKind x = 2 \<Longrightarrow> length m = 121"
  using messageKind_2 serializeSettlementWithRoot_length by fastforce

subsection \<open>The writer\<close>

text \<open>The constant prefix is in place and the buffer has its full length.\<close>

definition writerOk :: "bytes \<Rightarrow> StateUpdateWriter \<Rightarrow> bool" where
  "writerOk t w \<longleftrightarrow> length t = 32 \<and> w_tailOffset w = 56 \<and>
     (\<exists>tail. w_buf w = DOMAIN_STATE_UPDATE @ t @ tail \<and> length tail = w_stateHashLen w + 32)"

lemma newStateUpdateWriter_ok:
  "addressToBytes32 tunnelId = Inr t \<Longrightarrow>
   \<exists>w. newStateUpdateWriter tunnelId n = Inr w \<and> writerOk t w \<and> w_stateHashLen w = n"
  by (auto simp: newStateUpdateWriter_def Let_def writerOk_def blit_def dest: addressToBytes32_length)

lemma blit_tail:
  "length pre + k + length f \<le> length pre + length tail \<Longrightarrow>
   blit (pre @ tail) (length pre + k) f = pre @ blit tail k f"
  by (simp add: blit_def)

lemma length_blit: "o1 + length f \<le> length xs \<Longrightarrow> length (blit xs o1 f) = length xs"
  by (simp add: blit_def)

lemma writerOk_blit:
  assumes "writerOk t w" "56 \<le> o1" "o1 + length f \<le> 88 + w_stateHashLen w"
  shows "writerOk t (w\<lparr>w_buf := blit (w_buf w) o1 f\<rparr>)"
proof -
  obtain tail where b: "w_buf w = (DOMAIN_STATE_UPDATE @ t) @ tail"
    and l: "length tail = w_stateHashLen w + 32" "length t = 32" "w_tailOffset w = 56"
    using assms(1) by (auto simp: writerOk_def)
  have "blit (w_buf w) o1 f = (DOMAIN_STATE_UPDATE @ t) @ blit tail (o1 - 56) f"
    using blit_tail [of "DOMAIN_STATE_UPDATE @ t" "o1 - 56" f tail] assms l by (simp add: b)
  moreover have "length (blit tail (o1 - 56) f) = length tail"
    using assms l by (intro length_blit) simp
  ultimately show ?thesis
    using l by (auto simp: writerOk_def)
qed

lemma write_u64s_ok:
  "writerOk t w \<Longrightarrow> 56 \<le> o1 \<Longrightarrow> o1 + 8 * length vs \<le> 88 + w_stateHashLen w \<Longrightarrow>
   writerOk t (fst (write_u64s w o1 vs)) \<and>
   w_stateHashLen (fst (write_u64s w o1 vs)) = w_stateHashLen w"
proof (induction vs arbitrary: w o1)
  case Nil
  then show ?case by simp
next
  case (Cons v vs)
  show ?case
  proof (cases "asU64 v")
    case (Inl e)
    with Cons.prems show ?thesis by simp
  next
    case (Inr u)
    have "writerOk t (setBigUint64 w o1 u)"
      unfolding setBigUint64_def by (rule writerOk_blit) (use Cons.prems in simp_all)
    with Cons.prems have "writerOk t (fst (write_u64s (setBigUint64 w o1 u) (o1 + 8) vs)) \<and>
        w_stateHashLen (fst (write_u64s (setBigUint64 w o1 u) (o1 + 8) vs)) = w_stateHashLen w"
      using Cons.IH [of "setBigUint64 w o1 u" "o1 + 8"] by (simp add: setBigUint64_def)
    with Inr show ?thesis by simp
  qed
qed

lemma writerWrite_ok:
  assumes "writerOk t w"
  shows "writerOk t (fst (writerWrite w h n ts a b)) \<and>
    w_stateHashLen (fst (writerWrite w h n ts a b)) = w_stateHashLen w"
proof (cases "length h = w_stateHashLen w")
  case False
  with assms show ?thesis by (simp add: writerWrite_def)
next
  case True
  let ?w1 = "w\<lparr>w_buf := blit (w_buf w) (w_tailOffset w) h\<rparr>"
  have o1: "w_tailOffset w = 56" using assms by (simp add: writerOk_def)
  have "writerOk t ?w1"
    by (rule writerOk_blit) (use assms True o1 in simp_all)
  then show ?thesis
    using write_u64s_ok [of t ?w1 "56 + w_stateHashLen w" "[n, ts, a, b]"] True o1
    by (simp add: writerWrite_def split_beta Let_def del: write_u64s.simps)
qed

lemma blit_blit:
  "o1 + length p + length q \<le> length xs \<Longrightarrow>
   blit (blit xs o1 p) (o1 + length p) q = blit xs o1 (p @ q)"
  by (simp add: blit_def ac_simps)

lemma write_u64s_bytes:
  "write_u64s w o1 vs = (w', Inr ()) \<Longrightarrow> o1 + 8 * length vs \<le> length (w_buf w) \<Longrightarrow>
   list_all u64 vs \<and> w' = w\<lparr>w_buf := blit (w_buf w) o1 (concat (map (beBytes 8) vs))\<rparr>"
proof (induction vs arbitrary: w o1)
  case Nil
  then show ?case by (simp add: blit_def)
next
  case (Cons v vs)
  then have v: "asU64 v = Inr v" and u: "u64 v"
    and r: "write_u64s (setBigUint64 w o1 v) (o1 + 8) vs = (w', Inr ())"
    by (auto split: sum.splits simp: asU64_Inr_iff u64_def)
  have "length (blit (w_buf w) o1 (beBytes 8 v)) = length (w_buf w)"
    using Cons.prems by (intro length_blit) simp
  with Cons.IH [OF r] Cons.prems u show ?case
    using blit_blit [of o1 "beBytes 8 v" "concat (map (beBytes 8) vs)" "w_buf w"]
    by (auto simp: setBigUint64_def length_concat sum_list_triv comp_def)
qed

text \<open>A write that does not throw returns exactly the bytes of the reference serializer.\<close>

lemma writerWrite_bytes:
  assumes ok: "writerOk t w" and w: "writerWrite w h n ts a b = (w', Inr m)"
  shows "list_all u64 [n, ts, a, b] \<and> length h = w_stateHashLen w \<and>
    m = DOMAIN_STATE_UPDATE @ t @ h @ beBytes 8 n @ beBytes 8 ts @ beBytes 8 a @ beBytes 8 b"
proof -
  let ?vs = "[n, ts, a, b]"
  let ?w1 = "w\<lparr>w_buf := blit (w_buf w) 56 h\<rparr>"
  obtain tail where b: "w_buf w = (DOMAIN_STATE_UPDATE @ t) @ tail"
    and l: "length tail = w_stateHashLen w + 32" "length t = 32" "w_tailOffset w = 56"
    using ok by (auto simp: writerOk_def)
  have h: "length h = w_stateHashLen w"
    using w by (auto simp: writerWrite_def split: if_splits)
  have wr: "write_u64s ?w1 (56 + length h) ?vs = (w', Inr ())" and m: "m = w_buf w'"
    using w h l by (auto simp: writerWrite_def result_simps Let_def split: prod.splits
        simp del: write_u64s.simps)
  have lb: "length (blit (w_buf w) 56 h) = length (w_buf w)"
    using l h by (intro length_blit) (simp add: b)
  have r: "list_all u64 ?vs \<and>
      w' = ?w1\<lparr>w_buf := blit (w_buf ?w1) (56 + length h) (concat (map (beBytes 8) ?vs))\<rparr>"
    by (rule write_u64s_bytes [OF wr]) (use l h lb in \<open>simp add: b\<close>)
  have "blit (blit (w_buf w) 56 h) (56 + length h) (concat (map (beBytes 8) ?vs))
      = blit (w_buf w) 56 (h @ concat (map (beBytes 8) ?vs))"
    by (rule blit_blit) (use l h in \<open>simp add: b\<close>)
  also have "\<dots> = (DOMAIN_STATE_UPDATE @ t) @ blit tail 0 (h @ concat (map (beBytes 8) ?vs))"
    using blit_tail [of "DOMAIN_STATE_UPDATE @ t" 0 "h @ concat (map (beBytes 8) ?vs)" tail] l h
    by (simp add: b)
  also have "blit tail 0 (h @ concat (map (beBytes 8) ?vs)) = h @ concat (map (beBytes 8) ?vs)"
    using l h by (simp add: blit_def)
  finally show ?thesis
    using r h m by simp
qed

subsection \<open>Properties of the canonical encodings\<close>

text \<open>C16. Domain separation: no byte string is the canonical form of two different kinds of signed message,
  so a signature given for a state update, a settlement, a root-anchored settlement, an HTLC lock, a
  spend authorization or a referee assignment cannot be used as one of another kind.\<close>

theorem signed_messages_separated:
  assumes "serializeMessage x = Inr m" "serializeMessage y = Inr m"
  shows "messageKind x = messageKind y"
  using serializeMessage_kind_aux [OF assms] serializeMessage_length_1 serializeMessage_length_2 assms
  by fastforce

theorem signed_messages_separated_witness:
  "\<exists>m. serializeMessage (MRefereeAssignment ''0x1'' ''0x2'') = Inr m \<and>
     serializeMessage (MRefereeAssignment ''1'' ''02'') = Inr m \<and>
     messageKind (MRefereeAssignment ''0x1'' ''0x2'') = messageKind (MRefereeAssignment ''1'' ''02'')"
proof -
  have "serializeMessage (MRefereeAssignment ''1'' ''02'') = serializeMessage (MRefereeAssignment ''0x1'' ''0x2'')"
    "isOk (serializeMessage (MRefereeAssignment ''0x1'' ''0x2''))"
    by code_simp+
  then obtain m where m: "serializeMessage (MRefereeAssignment ''0x1'' ''0x2'') = Inr m"
    "serializeMessage (MRefereeAssignment ''1'' ''02'') = Inr m"
    by (cases "serializeMessage (MRefereeAssignment ''0x1'' ''0x2'')") (auto simp: isOk_def)
  then show ?thesis using signed_messages_separated [OF m] by blast
qed

text \<open>Parsing inverts serialization: a state update with a 32-byte state hash comes back from its
  canonical bytes with the same nonce, timestamp, balances and hash and its tunnel id in canonical form,
  and serializing what was parsed gives the same bytes.\<close>

lemma stateUpdate_round_trip:
  assumes "serializeStateUpdate u = Inr m" "length (su_stateHash u) = 32"
  shows "\<exists>t. addressToBytes32 (su_tunnelId u) = Inr t \<and>
    parseStateUpdate m = Inr (u\<lparr>su_tunnelId := ''0x'' @ toHex t\<rparr>) \<and>
    serializeStateUpdate (u\<lparr>su_tunnelId := ''0x'' @ toHex t\<rparr>) = Inr m"
proof -
  obtain t where t: "addressToBytes32 (su_tunnelId u) = Inr t"
    using assms(1) by (auto simp: serializeStateUpdate_Inr_iff)
  with parse_of_serialize [OF assms t] show ?thesis
    using serialize_of_parse [of m] by (simp add: canonicalUpdate_def canonicalAddress_def)
qed

definition exampleUpdate :: StateUpdate where
  "exampleUpdate = \<lparr>su_tunnelId = ''0x2a'', su_stateHash = replicate 32 9, su_nonce = 3,
     su_timestamp = 1700000000, su_partyABalance = 40, su_partyBBalance = 60\<rparr>"

lemma exampleUpdate_ok: "isOk (serializeStateUpdate exampleUpdate)"
  by code_simp

definition writeAll :: "StateUpdateWriter \<Rightarrow> (bytes \<times> int \<times> int \<times> int \<times> int) list \<Rightarrow> StateUpdateWriter" where
  "writeAll w ops = foldl (\<lambda>w (h, n, ts, a, b). fst (writerWrite w h n ts a b)) w ops"

lemma writeAll_ok:
  "writerOk t w \<Longrightarrow> writerOk t (writeAll w ops) \<and> w_stateHashLen (writeAll w ops) = w_stateHashLen w"
proof (induction ops arbitrary: w)
  case Nil
  then show ?case by (simp add: writeAll_def)
next
  case (Cons x ops)
  obtain h n ts a b where x: "x = (h, n, ts, a, b)" by (cases x)
  with Cons.IH [of "fst (writerWrite w h n ts a b)"] writerWrite_ok [OF Cons.prems, of h n ts a b]
  show ?case by (simp add: writeAll_def)
qed

lemma write_u64s_progress:
  "list_all u64 vs \<Longrightarrow> \<exists>w'. write_u64s w o1 vs = (w', Inr ())"
proof (induction vs arbitrary: w o1)
  case Nil
  then show ?case by simp
next
  case (Cons v vs)
  then have "asU64 v = Inr v" by (simp add: asU64_Inr_iff u64_def)
  with Cons show ?case by simp
qed

lemma writerWrite_progress:
  "length h = w_stateHashLen w \<Longrightarrow> list_all u64 [n, ts, a, b] \<Longrightarrow>
   \<exists>w' m. writerWrite w h n ts a b = (w', Inr m)"
  using write_u64s_progress [of "[n, ts, a, b]" "w\<lparr>w_buf := blit (w_buf w) (w_tailOffset w) h\<rparr>"
      "w_tailOffset w + w_stateHashLen w"]
  by (auto simp: writerWrite_def Let_def simp del: write_u64s.simps list.pred_inject)

text \<open>C21. The reused-buffer writer of the hot path is equivalent to the reference serializer: after any
  sequence of earlier writes, including ones that threw half way, writing a 32-byte state hash yields
  exactly the bytes the serializer yields, and fails exactly when the serializer fails.\<close>

theorem writer_equals_serializer:
  assumes "newStateUpdateWriter tid 32 = Inr w" "length h = 32"
  shows "snd (writerWrite (writeAll w ops) h n ts a b) = Inr m \<longleftrightarrow>
    serializeStateUpdate \<lparr>su_tunnelId = tid, su_stateHash = h, su_nonce = n, su_timestamp = ts,
      su_partyABalance = a, su_partyBBalance = b\<rparr> = Inr m"
proof -
  obtain t where t: "addressToBytes32 tid = Inr t"
    using assms(1) by (auto simp: newStateUpdateWriter_def Let_def result_simps)
  then have ok: "writerOk t w" "w_stateHashLen w = 32"
    using newStateUpdateWriter_ok [OF t, of 32] assms(1) by auto
  let ?w = "writeAll w ops"
  note w = writeAll_ok [OF ok(1), of ops]
  obtain w' r where r: "writerWrite ?w h n ts a b = (w', r)" by (cases "writerWrite ?w h n ts a b")
  have prog: "\<exists>m. r = Inr m" if "list_all u64 [n, ts, a, b]"
    using writerWrite_progress [of h ?w n ts a b] that w ok(2) assms(2) r by auto
  have bytes: "list_all u64 [n, ts, a, b] \<and>
      m = DOMAIN_STATE_UPDATE @ t @ h @ beBytes 8 n @ beBytes 8 ts @ beBytes 8 a @ beBytes 8 b" if "r = Inr m" for m
    using writerWrite_bytes [of t ?w h n ts a b w' m] w r that by auto
  show ?thesis
    using t prog bytes r by (auto simp: serializeStateUpdate_Inr_iff)
qed

theorem writer_equals_serializer_witness:
  "\<exists>w m. newStateUpdateWriter ''0x2a'' 32 = Inr w \<and>
     snd (writerWrite (writeAll w [(replicate 32 1, 1, - 1, 0, 0)]) (replicate 32 9) 3 1700000000 40 60) = Inr m \<and>
     serializeStateUpdate exampleUpdate = Inr m"
proof -
  have "isOk (newStateUpdateWriter ''0x2a'' 32)" by code_simp
  then obtain w where w: "newStateUpdateWriter ''0x2a'' 32 = Inr w"
    by (cases "newStateUpdateWriter ''0x2a'' 32") (auto simp: isOk_def)
  obtain m where m: "serializeStateUpdate exampleUpdate = Inr m"
    using exampleUpdate_ok by (cases "serializeStateUpdate exampleUpdate") (auto simp: isOk_def)
  show ?thesis
    using writer_equals_serializer [OF w, of "replicate 32 9" "[(replicate 32 1, 1, - 1, 0, 0)]" 3 1700000000 40 60 m] w m
    by (auto simp: exampleUpdate_def)
qed

end
