(* ===== verification/Commitment.thy ===== *)
theory Commitment
  imports Wire
begin

section \<open>Two-party commit-reveal (core/commitment.ts)\<close>

text \<open>
  A commitment hashes a domain tag and the length-prefixed value and salt; a reveal is checked by
  recomputing the hash, and two reveals are combined into a joint seed. The hash function
  (\<open>blake2b256\<close>, from a third-party package) is the parameter \<open>H\<close>. The lemmas show that an honest
  reveal always verifies, that the hashed bytes determine value and salt (which is what the length
  prefixes are for), and that a commitment therefore binds its author as long as \<open>H\<close> has no
  collision on the two openings.
\<close>

definition DOMAIN_COMMIT_REVEAL :: bytes where
  "DOMAIN_COMMIT_REVEAL = asciiBytes ''sui_tunnel::randomness::commit_reveal''"

definition MIN_SALT_LEN :: nat where
  "MIN_SALT_LEN = 16"

definition lengthPrefixed :: "bytes \<Rightarrow> bytes list result" where
  "lengthPrefixed x = bindE (u64ToBeBytes (int (length x))) (\<lambda>n. Inr [n, x])"

text \<open>The bytes \<open>hashCommitment\<close> and \<open>combineReveals\<close> hand to the hash function.\<close>

definition commitPreimage :: "bytes list \<Rightarrow> bytes result" where
  "commitPreimage fs =
     bindE (mapE lengthPrefixed fs) (\<lambda>ps. Inr (concatBytes (DOMAIN_COMMIT_REVEAL # concat ps)))"

definition hashCommitment :: "(bytes \<Rightarrow> bytes) \<Rightarrow> bytes \<Rightarrow> bytes \<Rightarrow> bytes result" where
  "hashCommitment H value salt = bindE (commitPreimage [value, salt]) (\<lambda>p. Inr (H p))"

definition computeCommitment :: "(bytes \<Rightarrow> bytes) \<Rightarrow> bytes \<Rightarrow> bytes \<Rightarrow> bytes result" where
  "computeCommitment H value salt =
     (if length salt < MIN_SALT_LEN then Inl (Error ''salt must be >= 16 bytes'')
      else hashCommitment H value salt)"

definition verifyCommitment :: "(bytes \<Rightarrow> bytes) \<Rightarrow> bytes \<Rightarrow> bytes \<Rightarrow> bytes \<Rightarrow> bool result" where
  "verifyCommitment H commitmentHash value salt =
     bindE (hashCommitment H value salt) (\<lambda>h. Inr (bytesEqual h commitmentHash))"

definition combineReveals ::
  "(bytes \<Rightarrow> bytes) \<Rightarrow> bytes \<Rightarrow> bytes \<Rightarrow> bytes \<Rightarrow> bytes \<Rightarrow> bytes result" where
  "combineReveals H valueA saltA valueB saltB =
     bindE (commitPreimage [valueA, saltA, valueB, saltB]) (\<lambda>p. Inr (H p))"

subsection \<open>Length prefixes make the preimage unambiguous\<close>

definition lpBytes :: "bytes \<Rightarrow> bytes" where
  "lpBytes x = beBytes 8 (int (length x)) @ x"

lemma lengthPrefixed_Inr_iff [result_simps]:
  "lengthPrefixed x = Inr ps \<longleftrightarrow> u64 (int (length x)) \<and> ps = [beBytes 8 (int (length x)), x]"
  by (auto simp: lengthPrefixed_def result_simps)

lemma lpBytes_append_inj:
  assumes "u64 (int (length x))" "u64 (int (length y))" "lpBytes x @ r = lpBytes y @ s"
  shows "x = y \<and> r = s"
proof -
  have "beBytes 8 (int (length x)) = beBytes 8 (int (length y))" and xy: "x @ r = y @ s"
    using assms(3) by (simp_all add: lpBytes_def)
  then have "length x = length y"
    using assms(1,2) by (simp add: beBytes_8_inj)
  with xy show ?thesis by simp
qed

lemma mapE_lengthPrefixed:
  "mapE lengthPrefixed fs = Inr ps \<Longrightarrow>
   list_all (\<lambda>x. u64 (int (length x))) fs \<and> concat (concat ps) = concat (map lpBytes fs)"
  by (induction fs arbitrary: ps) (auto simp: result_simps lpBytes_def)

lemma concat_lpBytes_append_inj:
  "length fs = length gs \<Longrightarrow> list_all (\<lambda>x. u64 (int (length x))) fs \<Longrightarrow>
   list_all (\<lambda>x. u64 (int (length x))) gs \<Longrightarrow> concat (map lpBytes fs) @ r = concat (map lpBytes gs) @ q \<Longrightarrow>
   fs = gs \<and> r = q"
proof (induction fs gs rule: list_induct2)
  case Nil
  then show ?case by simp
next
  case (Cons x fs y gs)
  have "x = y \<and> concat (map lpBytes fs) @ r = concat (map lpBytes gs) @ q"
    using Cons.prems by (intro lpBytes_append_inj) auto
  with Cons show ?case by simp
qed

lemma concat_lpBytes_inj:
  "length fs = length gs \<Longrightarrow> list_all (\<lambda>x. u64 (int (length x))) fs \<Longrightarrow>
   list_all (\<lambda>x. u64 (int (length x))) gs \<Longrightarrow> concat (map lpBytes fs) = concat (map lpBytes gs) \<Longrightarrow>
   fs = gs"
  using concat_lpBytes_append_inj [of fs gs "[]" "[]"] by simp

lemma commitPreimage_inj:
  assumes "commitPreimage fs = Inr p" "commitPreimage gs = Inr p" "length fs = length gs"
  shows "fs = gs"
proof -
  obtain ps qs where ps: "mapE lengthPrefixed fs = Inr ps" and qs: "mapE lengthPrefixed gs = Inr qs"
    and eq: "concat (concat ps) = concat (concat qs)"
    using assms(1,2) by (auto simp: commitPreimage_def result_simps)
  have "list_all (\<lambda>x. u64 (int (length x))) fs" "list_all (\<lambda>x. u64 (int (length x))) gs"
    "concat (map lpBytes fs) = concat (map lpBytes gs)"
    using mapE_lengthPrefixed [OF ps] mapE_lengthPrefixed [OF qs] eq by simp_all
  then show ?thesis
    using concat_lpBytes_inj [OF assms(3)] by blast
qed

lemma commitPreimage_ok:
  "list_all (\<lambda>x. u64 (int (length x))) fs \<Longrightarrow>
   commitPreimage fs = Inr (DOMAIN_COMMIT_REVEAL @ concat (map lpBytes fs))"
  by (induction fs)
    (auto simp: commitPreimage_def result_simps lengthPrefixed_def lpBytes_def)

subsection \<open>Reveals\<close>

lemma computeCommitment_Inr_iff:
  "computeCommitment H v s = Inr c \<longleftrightarrow> 16 \<le> length s \<and> hashCommitment H v s = Inr c"
  by (auto simp: computeCommitment_def MIN_SALT_LEN_def)

lemma verifyCommitment_True_iff:
  "verifyCommitment H c v s = Inr True \<longleftrightarrow> hashCommitment H v s = Inr c"
  by (auto simp: verifyCommitment_def result_simps)

lemma hashCommitment_binding:
  assumes "hashCommitment H v s = Inr c" "hashCommitment H v' s' = Inr c"
    and "commitPreimage [v, s] = Inr p" "commitPreimage [v', s'] = Inr q" "inj_on H {p, q}"
  shows "v = v' \<and> s = s'"
proof -
  have "H p = H q" using assms(1-4) by (auto simp: hashCommitment_def)
  with assms(5) have "p = q" by (auto dest: inj_onD)
  with assms(3,4) show ?thesis
    using commitPreimage_inj [of "[v, s]" p "[v', s']"] by simp
qed

subsection \<open>Binding\<close>

text \<open>C24. A commitment can be opened in exactly one way: if the hash does not collide on the two preimages,
  a commitment made to a value under a salt verifies for that value and salt and for nothing else.\<close>

theorem commitment_binds:
  assumes "computeCommitment H v s = Inr c" "commitPreimage [v, s] = Inr p" "commitPreimage [v', s'] = Inr q"
    and "inj_on H {p, q}"
  shows "verifyCommitment H c v' s' = Inr (v' = v \<and> s' = s)"
proof -
  have h: "hashCommitment H v s = Inr c" and len: "16 \<le> length s"
    using assms(1) by (simp_all add: computeCommitment_Inr_iff)
  have h': "hashCommitment H v' s' = Inr (H q)" using assms(3) by (simp add: hashCommitment_def)
  have "H q = c \<longleftrightarrow> v' = v \<and> s' = s"
    using hashCommitment_binding [OF _ h assms(3,2)] h h' assms(4) by (auto simp: insert_commute)
  then show ?thesis using h' by (simp add: verifyCommitment_def bytesEqual_iff)
qed

theorem commitment_binds_witness:
  "\<exists>c. computeCommitment rev [1, 2] (replicate 16 5) = Inr c \<and>
     verifyCommitment rev c [1, 3] (replicate 16 5) = Inr False"
proof -
  have u: "list_all (\<lambda>x. u64 (int (length x))) [[1, 2 :: byte], replicate 16 5]"
    "list_all (\<lambda>x. u64 (int (length x))) [[1, 3 :: byte], replicate 16 5]"
    by (simp_all add: u64_def)
  note p = commitPreimage_ok [OF u(1)] and q = commitPreimage_ok [OF u(2)]
  obtain c where c: "computeCommitment rev [1, 2] (replicate 16 5) = Inr c"
    using p by (auto simp: computeCommitment_Inr_iff hashCommitment_def)
  have "inj_on rev {DOMAIN_COMMIT_REVEAL @ concat (map lpBytes [[1, 2], replicate 16 5]),
      DOMAIN_COMMIT_REVEAL @ concat (map lpBytes [[1, 3], replicate 16 5])}"
    by (auto simp: inj_on_def)
  from commitment_binds [OF c p q this] c show ?thesis by simp
qed

end
