(* ===== verification/Json.thy ===== *)
theory Json
  imports Bytes
begin

section \<open>JSON text and decimal integers (JSON.stringify, JSON.parse, BigInt)\<close>

text \<open>
  The relay frames are UTF-8 JSON with 64-bit integers as decimal strings. This theory models what
  the sources use of the language for that: \<open>bigint.toString()\<close>, \<open>BigInt(value)\<close>,
  \<open>JSON.stringify\<close> and \<open>JSON.parse\<close>.

  A JavaScript string is represented by its UTF-8 bytes, one character per byte, so
  \<open>TextEncoder.encode\<close> and \<open>TextDecoder.decode\<close> (on well-formed input) are \<open>asciiBytes\<close> and its
  inverse; a surrogate without its pair takes three bytes. JSON numbers are integers: no modelled
  frame or codec carries another number, and the parser rejects a fraction or an exponent.

  The parser is a recursive descent over the characters with fuel; \<open>JSON_parse\<close> gives it
  \<open>2 * length + 2\<close> units, and \<open>pVal_fuel\<close> shows that more fuel never changes its answer.
  The main facts are the two round trips \<open>BigInt_toString\<close> and \<open>JSON_parse_stringify\<close>.
\<close>

subsection \<open>Decimal text\<close>

text \<open>\<open>n.toString()\<close>.\<close>

definition digitChar :: "nat \<Rightarrow> char" where
  "digitChar d = char_of (48 + d)"

fun showNat :: "nat \<Rightarrow> string" where
  "showNat n = (if n < 10 then [digitChar n] else showNat (n div 10) @ [digitChar (n mod 10)])"

definition toStringInt :: "int \<Rightarrow> string" where
  "toStringInt n = (if n < 0 then ''-'' @ showNat (nat (- n)) else showNat (nat n))"

definition isDigit :: "char \<Rightarrow> bool" where
  "isDigit c = (48 \<le> (of_char c :: nat) \<and> (of_char c :: nat) \<le> 57)"

definition digitVal :: "char \<Rightarrow> nat" where
  "digitVal c = of_char c - 48"

definition readDigits :: "string \<Rightarrow> nat" where
  "readDigits s = foldl (\<lambda>n c. 10 * n + digitVal c) 0 s"

subsection \<open>JSON values\<close>

datatype json = JNull | JBool bool | JNum int | JStr string | JArr "json list"
  | JObj "(string \<times> json) list"

text \<open>\<open>o.key\<close>: \<open>None\<close> is \<open>undefined\<close>. The last of several equal keys is the one \<open>JSON.parse\<close> keeps;
  a property of \<open>null\<close> is a \<open>TypeError\<close>; no other value than an object has the properties read here.\<close>

definition jget :: "json \<Rightarrow> string \<Rightarrow> json option result" where
  "jget v k = (case v of JNull \<Rightarrow> Inl (TypeError ''Cannot read properties of null'')
     | JObj fs \<Rightarrow> Inr (map_of (rev fs) k) | _ \<Rightarrow> Inr None)"

subsection \<open>BigInt\<close>

text \<open>\<open>String(v)\<close>: an array joins its elements, with \<open>null\<close> as the empty string.\<close>

fun joinComma :: "string list \<Rightarrow> string" where
  "joinComma [] = []"
| "joinComma [x] = x"
| "joinComma (x # y # zs) = x @ CHR '','' # joinComma (y # zs)"

fun toStringJson :: "json \<Rightarrow> string" where
  "toStringJson JNull = ''null''"
| "toStringJson (JBool b) = (if b then ''true'' else ''false'')"
| "toStringJson (JNum n) = toStringInt n"
| "toStringJson (JStr s) = s"
| "toStringJson (JArr vs) = joinComma (map (\<lambda>v. if v = JNull then [] else toStringJson v) vs)"
| "toStringJson (JObj fs) = ''[object Object]''"

text \<open>\<open>StringToBigInt\<close>: white space around, a signed decimal, or an unsigned literal of base 16, 8 or 2;
  the empty string is zero.\<close>

definition isStrWs :: "char \<Rightarrow> bool" where
  "isStrWs c = (of_char c \<in> {9, 10, 11, 12, 13, 32 :: nat})"

definition trim :: "string \<Rightarrow> string" where
  "trim s = rev (dropWhile isStrWs (rev (dropWhile isStrWs s)))"

definition readDecimal :: "string \<Rightarrow> nat option" where
  "readDecimal s = (if s \<noteq> [] \<and> list_all isDigit s then Some (readDigits s) else None)"

definition readBase :: "nat \<Rightarrow> string \<Rightarrow> nat option" where
  "readBase b s =
     (if s \<noteq> [] \<and> list_all (\<lambda>c. case hexVal c of None \<Rightarrow> False | Some d \<Rightarrow> d < b) s
      then Some (foldl (\<lambda>n c. b * n + the (hexVal c)) 0 s) else None)"

definition StringToBigInt :: "string \<Rightarrow> int option" where
  "StringToBigInt s0 =
     (let s = trim s0
      in if s = [] then Some 0
         else if hd s = CHR ''-'' then map_option (\<lambda>n. - int n) (readDecimal (tl s))
         else if hd s = CHR ''+'' then map_option int (readDecimal (tl s))
         else if take 2 s = ''0x'' \<or> take 2 s = ''0X'' then map_option int (readBase 16 (drop 2 s))
         else if take 2 s = ''0o'' \<or> take 2 s = ''0O'' then map_option int (readBase 8 (drop 2 s))
         else if take 2 s = ''0b'' \<or> take 2 s = ''0B'' then map_option int (readBase 2 (drop 2 s))
         else map_option int (readDecimal s))"

definition BigInt :: "json option \<Rightarrow> int result" where
  "BigInt v =
     (case v of
        None \<Rightarrow> Inl (TypeError ''Cannot convert undefined to a BigInt'')
      | Some JNull \<Rightarrow> Inl (TypeError ''Cannot convert null to a BigInt'')
      | Some (JBool b) \<Rightarrow> Inr (if b then 1 else 0)
      | Some (JNum n) \<Rightarrow> Inr n
      | Some w \<Rightarrow> (case StringToBigInt (toStringJson w) of
          None \<Rightarrow> Inl (SyntaxError ''Cannot convert to a BigInt'') | Some n \<Rightarrow> Inr n))"

subsection \<open>JSON.stringify\<close>

text \<open>The escapes of \<open>QuoteJSONString\<close>.\<close>

definition escapeChar :: "char \<Rightarrow> string" where
  "escapeChar c =
     (let n = of_char c :: nat
      in if c = CHR 0x22 then [CHR 0x5C, CHR 0x22]
         else if c = CHR 0x5C then [CHR 0x5C, CHR 0x5C]
         else if n = 8 then [CHR 0x5C, CHR ''b'']
         else if n = 9 then [CHR 0x5C, CHR ''t'']
         else if n = 10 then [CHR 0x5C, CHR ''n'']
         else if n = 12 then [CHR 0x5C, CHR ''f'']
         else if n = 13 then [CHR 0x5C, CHR ''r'']
         else if n < 32 then [CHR 0x5C, CHR ''u'', CHR ''0'', CHR ''0'', hexDigit (n div 16), hexDigit (n mod 16)]
         else [c])"

definition quote :: "string \<Rightarrow> string" where
  "quote s = [CHR 0x22] @ concat (map escapeChar s) @ [CHR 0x22]"

fun JSON_stringify :: "json \<Rightarrow> string" where
  "JSON_stringify JNull = ''null''"
| "JSON_stringify (JBool b) = (if b then ''true'' else ''false'')"
| "JSON_stringify (JNum n) = toStringInt n"
| "JSON_stringify (JStr s) = quote s"
| "JSON_stringify (JArr vs) = CHR ''['' # joinComma (map JSON_stringify vs) @ '']''"
| "JSON_stringify (JObj fs) =
     CHR ''{'' # joinComma (map (\<lambda>(k, v). quote k @ CHR '':'' # JSON_stringify v) fs) @ ''}''"

subsection \<open>JSON.parse\<close>

definition isWs :: "char \<Rightarrow> bool" where
  "isWs c = (of_char c \<in> {9, 10, 13, 32 :: nat})"

definition skipWs :: "string \<Rightarrow> string" where
  "skipWs s = dropWhile isWs s"

text \<open>The UTF-8 bytes of a code point.\<close>

definition utf8 :: "nat \<Rightarrow> string" where
  "utf8 n =
     (if n < 128 then [char_of n]
      else if n < 2048 then [char_of (192 + n div 64), char_of (128 + n mod 64)]
      else if n < 65536 then
        [char_of (224 + n div 4096), char_of (128 + n div 64 mod 64), char_of (128 + n mod 64)]
      else [char_of (240 + n div 262144), char_of (128 + n div 4096 mod 64),
            char_of (128 + n div 64 mod 64), char_of (128 + n mod 64)])"

text \<open>Four hexadecimal digits.\<close>

fun hex4 :: "string \<Rightarrow> (nat \<times> string) option" where
  "hex4 (a # b # c # d # r) =
     (case (hexVal a, hexVal b, hexVal c, hexVal d) of
        (Some w, Some x, Some y, Some z) \<Rightarrow> Some (w * 4096 + x * 256 + y * 16 + z, r)
      | _ \<Rightarrow> None)"
| "hex4 _ = None"

text \<open>One \<open>\u\<close> escape after its \<open>u\<close>, joining a surrogate pair.\<close>

definition unicodeEscape :: "string \<Rightarrow> (string \<times> string) option" where
  "unicodeEscape s =
     (case hex4 s of None \<Rightarrow> None
      | Some (n, r) \<Rightarrow>
        (if 0xD800 \<le> n \<and> n < 0xDC00 then
           (case r of
              bs # u # r1 \<Rightarrow>
                (if bs = CHR 0x5C \<and> u = CHR ''u'' then
                   (case hex4 r1 of
                      Some (m, r2) \<Rightarrow>
                        (if 0xDC00 \<le> m \<and> m < 0xE000
                         then Some (utf8 (65536 + (n - 0xD800) * 1024 + (m - 0xDC00)), r2)
                         else Some (utf8 n, r))
                    | None \<Rightarrow> Some (utf8 n, r))
                 else Some (utf8 n, r))
            | _ \<Rightarrow> Some (utf8 n, r))
         else Some (utf8 n, r)))"

text \<open>The character a one-letter escape stands for.\<close>

definition simpleEscape :: "char \<Rightarrow> char option" where
  "simpleEscape c =
     (if c = CHR 0x22 \<or> c = CHR 0x5C \<or> c = CHR ''/'' then Some c
      else if c = CHR ''b'' then Some (CHR 0x08)
      else if c = CHR ''f'' then Some (CHR 0x0C)
      else if c = CHR ''n'' then Some (CHR 0x0A)
      else if c = CHR ''r'' then Some (CHR 0x0D)
      else if c = CHR ''t'' then Some (CHR 0x09)
      else None)"

text \<open>The characters of a string up to its closing quote.\<close>

fun pStr :: "nat \<Rightarrow> string \<Rightarrow> (string \<times> string) option" where
  "pStr 0 s = None"
| "pStr (Suc n) [] = None"
| "pStr (Suc n) (c # s) =
     (if c = CHR 0x22 then Some ([], s)
      else if c = CHR 0x5C then
        (case s of [] \<Rightarrow> None
         | e # s' \<Rightarrow>
           (if e = CHR ''u'' then
              (case unicodeEscape s' of None \<Rightarrow> None
               | Some (cs, r) \<Rightarrow>
                 (case pStr n r of None \<Rightarrow> None | Some (t, r') \<Rightarrow> Some (cs @ t, r')))
            else
              (case simpleEscape e of None \<Rightarrow> None
               | Some d \<Rightarrow>
                 (case pStr n s' of None \<Rightarrow> None | Some (t, r') \<Rightarrow> Some (d # t, r')))))
      else if (of_char c :: nat) < 32 then None
      else (case pStr n s of None \<Rightarrow> None | Some (t, r') \<Rightarrow> Some (c # t, r')))"

text \<open>An integer: no leading zero before another digit.\<close>

definition pNat :: "string \<Rightarrow> (nat \<times> string) option" where
  "pNat s =
     (let ds = takeWhile isDigit s; r = dropWhile isDigit s
      in if ds = [] \<or> (hd ds = CHR ''0'' \<and> length ds > 1) then None
         else Some (readDigits ds, r))"

definition pNum :: "string \<Rightarrow> (json \<times> string) option" where
  "pNum s =
     (case s of
        c # r \<Rightarrow>
          (if c = CHR ''-''
           then (case pNat r of None \<Rightarrow> None | Some (n, r') \<Rightarrow> Some (JNum (- int n), r'))
           else (case pNat s of None \<Rightarrow> None | Some (n, r') \<Rightarrow> Some (JNum (int n), r')))
      | [] \<Rightarrow> None)"

text \<open>\<open>null\<close>, \<open>true\<close>, \<open>false\<close>.\<close>

definition pKeyword :: "string \<Rightarrow> (json \<times> string) option" where
  "pKeyword s =
     (if take 4 s = ''null'' then Some (JNull, drop 4 s)
      else if take 4 s = ''true'' then Some (JBool True, drop 4 s)
      else if take 5 s = ''false'' then Some (JBool False, drop 5 s)
      else None)"

fun pVal :: "nat \<Rightarrow> string \<Rightarrow> (json \<times> string) option"
  and pElems :: "nat \<Rightarrow> string \<Rightarrow> (json list \<times> string) option"
  and pMembers :: "nat \<Rightarrow> string \<Rightarrow> ((string \<times> json) list \<times> string) option" where
  "pVal 0 s = None"
| "pVal (Suc n) s =
     (case skipWs s of
        [] \<Rightarrow> None
      | c # r \<Rightarrow>
        (if c = CHR 0x22 then
           (case pStr (Suc (length r)) r of None \<Rightarrow> None | Some (t, r') \<Rightarrow> Some (JStr t, r'))
         else if c = CHR ''['' then
           (case skipWs r of
              [] \<Rightarrow> None
            | d # r' \<Rightarrow>
              (if d = CHR '']'' then Some (JArr [], r')
               else (case pElems n r of None \<Rightarrow> None | Some (vs, r'') \<Rightarrow> Some (JArr vs, r''))))
         else if c = CHR ''{'' then
           (case skipWs r of
              [] \<Rightarrow> None
            | d # r' \<Rightarrow>
              (if d = CHR ''}'' then Some (JObj [], r')
               else (case pMembers n r of None \<Rightarrow> None | Some (fs, r'') \<Rightarrow> Some (JObj fs, r''))))
         else if c = CHR ''-'' \<or> isDigit c then pNum (c # r)
         else pKeyword (c # r)))"
| "pElems 0 s = None"
| "pElems (Suc n) s =
     (case pVal n s of
        None \<Rightarrow> None
      | Some (v, r) \<Rightarrow>
        (case skipWs r of
           [] \<Rightarrow> None
         | c # r' \<Rightarrow>
           (if c = CHR '','' then
              (case pElems n r' of None \<Rightarrow> None | Some (vs, r'') \<Rightarrow> Some (v # vs, r''))
            else if c = CHR '']'' then Some ([v], r')
            else None)))"
| "pMembers 0 s = None"
| "pMembers (Suc n) s =
     (case skipWs s of
        [] \<Rightarrow> None
      | q # r0 \<Rightarrow>
        (if q \<noteq> CHR 0x22 then None
         else
           (case pStr (Suc (length r0)) r0 of
              None \<Rightarrow> None
            | Some (k, r1) \<Rightarrow>
              (case skipWs r1 of
                 [] \<Rightarrow> None
               | c # r2 \<Rightarrow>
                 (if c \<noteq> CHR '':'' then None
                  else
                    (case pVal n r2 of
                       None \<Rightarrow> None
                     | Some (v, r3) \<Rightarrow>
                       (case skipWs r3 of
                          [] \<Rightarrow> None
                        | d # r4 \<Rightarrow>
                          (if d = CHR '','' then
                             (case pMembers n r4 of
                                None \<Rightarrow> None
                              | Some (fs, r5) \<Rightarrow> Some ((k, v) # fs, r5))
                           else if d = CHR ''}'' then Some ([(k, v)], r4)
                           else None))))))))"

definition JSON_parse :: "string \<Rightarrow> json result" where
  "JSON_parse s =
     (case pVal (2 * length s + 2) s of
        None \<Rightarrow> Inl (SyntaxError ''JSON.parse'')
      | Some (v, r) \<Rightarrow> if skipWs r = [] then Inr v else Inl (SyntaxError ''JSON.parse''))"

subsection \<open>Decimal round trip\<close>

declare showNat.simps [simp del]

lemma of_char_digitChar: "d < 10 \<Longrightarrow> (of_char (digitChar d) :: nat) = 48 + d"
  by (simp add: digitChar_def)

lemma digitChar_simps [simp]:
  "d < 10 \<Longrightarrow> isDigit (digitChar d)" "d < 10 \<Longrightarrow> digitVal (digitChar d) = d"
  by (simp_all add: isDigit_def digitVal_def of_char_digitChar)

lemma readDigits_snoc [simp]: "readDigits (s @ [c]) = 10 * readDigits s + digitVal c"
  by (simp add: readDigits_def)

lemma showNat_digits:
  "showNat n \<noteq> [] \<and> list_all isDigit (showNat n) \<and> readDigits (showNat n) = n"
proof (induction n rule: showNat.induct)
  case (1 n)
  show ?case
  proof (cases "n < 10")
    case True
    then show ?thesis
      using digitChar_simps by (simp add: showNat.simps [of n] readDigits_def)
  next
    case False
    with 1 show ?thesis
      by (simp add: showNat.simps [of n])
  qed
qed

lemma digitChar_0: "digitChar 0 = CHR ''0''"
proof -
  have "(of_char (digitChar 0) :: nat) = of_char (CHR ''0'')"
    by (simp add: of_char_digitChar)
  then show ?thesis by (simp only: of_char_eq_iff)
qed

lemma showNat_hd_zero: "hd (showNat n) = CHR ''0'' \<longleftrightarrow> n = 0"
proof (induction n rule: showNat.induct)
  case (1 n)
  show ?case
  proof (cases "n < 10")
    case True
    then have "digitChar n = CHR ''0'' \<longleftrightarrow> n = 0"
      using of_char_digitChar [of n] digitChar_0 by auto
    with True show ?thesis by (simp add: showNat.simps [of n])
  next
    case False
    with 1 showNat_digits [of "n div 10"] show ?thesis
      by (simp add: showNat.simps [of n] hd_append)
  qed
qed

lemma showNat_0: "showNat 0 = ''0''"
  by (simp add: showNat.simps digitChar_0)

lemma isDigit_simps [simp]:
  "\<not> isDigit (CHR ''-'')" "\<not> isDigit (CHR ''+'')" "\<not> isDigit (CHR ''x'')" "\<not> isDigit (CHR ''X'')"
  "\<not> isDigit (CHR ''o'')" "\<not> isDigit (CHR ''O'')" "\<not> isDigit (CHR ''b'')" "\<not> isDigit (CHR ''B'')"
  "\<not> isDigit (CHR '','')" "\<not> isDigit (CHR '']'')" "\<not> isDigit (CHR ''}'')"
  by (simp_all add: isDigit_def)

lemma isDigit_not_ws: "isDigit c \<Longrightarrow> \<not> isStrWs c" "isDigit c \<Longrightarrow> \<not> isWs c"
  by (auto simp: isDigit_def isStrWs_def isWs_def)

lemma trim_id:
  assumes "s \<noteq> []" "\<not> isStrWs (hd s)" "\<not> isStrWs (last s)"
  shows "trim s = s"
proof -
  have "dropWhile isStrWs s = s" "dropWhile isStrWs (rev s) = rev s"
    using assms by (simp_all only: dropWhile_eq_self_iff hd_rev simp_thms)
  then show ?thesis
    by (simp add: trim_def)
qed

lemma trim_digits:
  assumes "list_all isDigit s" "s \<noteq> []"
  shows "trim s = s" "trim (CHR ''-'' # s) = CHR ''-'' # s"
proof -
  have "isDigit (hd s)" "isDigit (last s)"
    using assms by (auto simp: list_all_iff)
  then show "trim s = s" "trim (CHR ''-'' # s) = CHR ''-'' # s"
    using assms isDigit_not_ws by (auto intro!: trim_id simp: isStrWs_def [of "CHR ''-''"])
qed

lemma StringToBigInt_digits:
  assumes "list_all isDigit s" "s \<noteq> []"
  shows "StringToBigInt s = Some (int (readDigits s))"
    "StringToBigInt (CHR ''-'' # s) = Some (- int (readDigits s))"
proof -
  obtain c r where s: "s = c # r" "isDigit c" "list_all isDigit r"
    using assms by (cases s) auto
  have "hd s \<noteq> CHR ''-''" "hd s \<noteq> CHR ''+''"
    using s by auto
  moreover have "list_all isDigit (take 2 s)"
    using s by (cases r) (auto simp: numeral_2_eq_2)
  then have "take 2 s \<noteq> ''0x''" "take 2 s \<noteq> ''0X''" "take 2 s \<noteq> ''0o''" "take 2 s \<noteq> ''0O''"
    "take 2 s \<noteq> ''0b''" "take 2 s \<noteq> ''0B''"
    by auto
  ultimately show "StringToBigInt s = Some (int (readDigits s))"
    "StringToBigInt (CHR ''-'' # s) = Some (- int (readDigits s))"
    using assms by (simp_all add: StringToBigInt_def trim_digits readDecimal_def)
qed

lemma BigInt_toString [simp]: "BigInt (Some (JStr (toStringInt n))) = Inr n"
  using showNat_digits [of "nat n"] showNat_digits [of "nat (- n)"]
  by (simp add: BigInt_def toStringInt_def StringToBigInt_digits)

subsection \<open>Round trip of the text\<close>

lemma hexVal_hexDigit_lt: "n < 16 \<Longrightarrow> hexVal (hexDigit n) = Some n"
  by (auto simp: hexVal_def hexDigit_def Let_def)

lemma unicodeEscape_control:
  assumes "n < 32"
  shows "unicodeEscape ([CHR ''0'', CHR ''0'', hexDigit (n div 16), hexDigit (n mod 16)] @ r) =
    Some ([char_of n], r)"
proof -
  have "hexVal (CHR ''0'') = Some 0" by (simp add: hexVal_def)
  moreover have "hexVal (hexDigit (n div 16)) = Some (n div 16)" "hexVal (hexDigit (n mod 16)) = Some (n mod 16)"
    using assms by (auto intro: hexVal_hexDigit_lt)
  ultimately show ?thesis
    using assms by (simp add: unicodeEscape_def utf8_def)
qed

text \<open>One printed character is read back, whatever follows.\<close>

lemma pStr_escapeChar:
  "pStr (Suc k) (escapeChar c @ s) =
     (case pStr k s of None \<Rightarrow> None | Some (t, r) \<Rightarrow> Some (c # t, r))"
proof -
  consider "c = CHR 0x22" | "c = CHR 0x5C" | "c = CHR 0x08" | "c = CHR 0x09" | "c = CHR 0x0A"
    | "c = CHR 0x0C" | "c = CHR 0x0D"
    | "c \<notin> {CHR 0x22, CHR 0x5C, CHR 0x08, CHR 0x09, CHR 0x0A, CHR 0x0C, CHR 0x0D}" by auto
  then show ?thesis
  proof cases
    case 8
    let ?n = "of_char c :: nat"
    have ne: "?n \<noteq> 8" "?n \<noteq> 9" "?n \<noteq> 10" "?n \<noteq> 12" "?n \<noteq> 13"
      using 8 of_char_eq_iff [of c "CHR 0x08", where 'a = nat] of_char_eq_iff [of c "CHR 0x09", where 'a = nat]
        of_char_eq_iff [of c "CHR 0x0A", where 'a = nat] of_char_eq_iff [of c "CHR 0x0C", where 'a = nat]
        of_char_eq_iff [of c "CHR 0x0D", where 'a = nat] by auto
    show ?thesis
    proof (cases "?n < 32")
      case True
      then have "escapeChar c @ s =
        CHR 0x5C # CHR ''u'' # [CHR ''0'', CHR ''0'', hexDigit (?n div 16), hexDigit (?n mod 16)] @ s"
        using 8 ne by (simp add: escapeChar_def Let_def)
      then show ?thesis
        using unicodeEscape_control [OF True, of s] by (simp split: option.splits)
    next
      case False
      then have "escapeChar c = [c]"
        using 8 ne by (simp add: escapeChar_def Let_def)
      with False 8 show ?thesis by simp
    qed
  qed (simp_all add: escapeChar_def simpleEscape_def cong: option.case_cong split: option.splits)
qed

lemma pStr_quote:
  "k > length s \<Longrightarrow> pStr k (concat (map escapeChar s) @ CHR 0x22 # r) = Some (s, r)"
proof (induction s arbitrary: k)
  case Nil
  then show ?case by (cases k) auto
next
  case (Cons c s)
  then obtain j where "k = Suc j" "j > length s" by (cases k) auto
  with Cons.IH show ?case by (simp add: pStr_escapeChar)
qed

lemma length_escapeChar: "length (escapeChar c) \<ge> 1"
  by (simp add: escapeChar_def Let_def)

lemma length_escapes: "length (concat (map escapeChar s)) \<ge> length s"
proof (induction s)
  case (Cons c s)
  with length_escapeChar [of c] show ?case by simp
qed simp

text \<open>What may follow a number in the text.\<close>

definition endsNumber :: "string \<Rightarrow> bool" where
  "endsNumber r \<longleftrightarrow> r = [] \<or> \<not> isDigit (hd r)"

lemma takeWhile_digits:
  assumes "list_all isDigit s" "endsNumber r"
  shows "takeWhile isDigit (s @ r) = s" "dropWhile isDigit (s @ r) = r"
  using assms by (induction s) (auto simp: endsNumber_def, (cases r; simp)+)

lemma pNat_showNat: "endsNumber r \<Longrightarrow> pNat (showNat n @ r) = Some (n, r)"
proof -
  assume r: "endsNumber r"
  have "hd (showNat n) = CHR ''0'' \<Longrightarrow> length (showNat n) = 1"
    using showNat_hd_zero [of n] showNat_0 by auto
  then show ?thesis
    using takeWhile_digits [of "showNat n" r] showNat_digits [of n] r by (auto simp: pNat_def Let_def)
qed

lemma showNat_Cons: "\<exists>c s. showNat n = c # s \<and> isDigit c"
  using showNat_digits [of n] by (cases "showNat n") auto

lemma pNum_toString: "endsNumber r \<Longrightarrow> pNum (toStringInt n @ r) = Some (JNum n, r)"
proof -
  assume r: "endsNumber r"
  obtain c s where c: "showNat (nat n) = c # s" "isDigit c"
    using showNat_Cons by blast
  then have "c \<noteq> CHR ''-''" by auto
  then show ?thesis
    using pNat_showNat [OF r, of "nat n"] pNat_showNat [OF r, of "nat (- n)"] c
    by (auto simp: pNum_def toStringInt_def)
qed

lemma toStringInt_Cons: "\<exists>c s. toStringInt n = c # s \<and> (c = CHR ''-'' \<or> isDigit c)"
  using showNat_Cons [of "nat n"] by (auto simp: toStringInt_def)

text \<open>The first character of printed JSON tells its kind.\<close>

lemma isDigit_distinct [simp]:
  "isDigit c \<Longrightarrow> c \<noteq> CHR 0x22" "isDigit c \<Longrightarrow> c \<noteq> CHR ''[''" "isDigit c \<Longrightarrow> c \<noteq> CHR ''{''"
  "isDigit c \<Longrightarrow> c \<noteq> CHR '']''" "isDigit c \<Longrightarrow> c \<noteq> CHR ''}''" "isDigit c \<Longrightarrow> \<not> isWs c"
  by (auto simp: isDigit_def isWs_def)

lemma stringify_Cons:
  "\<exists>c s. JSON_stringify v = c # s \<and> \<not> isWs c \<and> c \<noteq> CHR '']'' \<and> c \<noteq> CHR ''}''"
proof (cases v)
  case (JNum n)
  then show ?thesis
    using toStringInt_Cons [of n] by (auto simp: isWs_def [of "CHR ''-''"])
qed (auto simp: isWs_def quote_def)

lemma skipWs_Cons [simp]: "\<not> isWs c \<Longrightarrow> skipWs (c # s) = c # s"
  by (simp add: skipWs_def)

lemma isWs_simps [simp]:
  "\<not> isWs (CHR '','')" "\<not> isWs (CHR '']'')" "\<not> isWs (CHR ''}'')" "\<not> isWs (CHR '':'')"
  "\<not> isWs (CHR 0x22)" "\<not> isWs (CHR ''['')" "\<not> isWs (CHR ''{'')" "\<not> isWs (CHR ''-'')"
  by (simp_all add: isWs_def)

lemma skipWs_stringify [simp]: "skipWs (JSON_stringify v @ r) = JSON_stringify v @ r"
  using stringify_Cons [of v] by auto

lemma joinComma_Cons:
  "joinComma (x # xs) = (if xs = [] then x else x @ CHR '','' # joinComma xs)"
  by (cases xs) auto

lemma endsNumber_simps [simp]:
  "endsNumber []" "endsNumber (CHR '','' # r)" "endsNumber (CHR '']'' # r)" "endsNumber (CHR ''}'' # r)"
  by (simp_all add: endsNumber_def)

text \<open>The parser reads back a printed value with any sufficient fuel.\<close>

definition readsBack :: "json \<Rightarrow> bool" where
  "readsBack v \<longleftrightarrow> (\<forall>n r. endsNumber r \<longrightarrow> 2 * length (JSON_stringify v) + 1 \<le> n \<longrightarrow>
     pVal n (JSON_stringify v @ r) = Some (v, r))"

lemma pElems_stringify:
  assumes "\<And>v. v \<in> set vs \<Longrightarrow> readsBack v" "vs \<noteq> []"
    "2 * length (joinComma (map JSON_stringify vs)) + 2 \<le> n"
  shows "pElems n (joinComma (map JSON_stringify vs) @ CHR '']'' # r) = Some (vs, r)"
  using assms
proof (induction vs arbitrary: n)
  case (Cons v vs)
  obtain m where n: "n = Suc m"
    using Cons.prems(3) by (cases n) auto
  have v: "endsNumber r' \<Longrightarrow> pVal m (JSON_stringify v @ r') = Some (v, r')" for r'
    using Cons.prems(1) [of v] Cons.prems(3) n
    by (simp add: readsBack_def joinComma_Cons split: if_splits)
  show ?case
  proof (cases "vs = []")
    case True
    with v n show ?thesis by simp
  next
    case False
    moreover have "2 * length (joinComma (map JSON_stringify vs)) + 2 \<le> m"
      using Cons.prems(3) n False by (simp add: joinComma_Cons)
    ultimately show ?thesis
      using v n Cons.IH [of m] Cons.prems(1) by (simp add: joinComma_Cons)
  qed
qed simp

abbreviation printMember :: "string \<times> json \<Rightarrow> string" where
  "printMember \<equiv> \<lambda>(k, v). quote k @ CHR '':'' # JSON_stringify v"

lemma pMembers_stringify:
  assumes "\<And>k v. (k, v) \<in> set fs \<Longrightarrow> readsBack v" "fs \<noteq> []"
    "2 * length (joinComma (map printMember fs)) + 2 \<le> n"
  shows "pMembers n (joinComma (map printMember fs) @ CHR ''}'' # r) = Some (fs, r)"
  using assms
proof (induction fs arbitrary: n)
  case (Cons kv fs)
  obtain k v where kv: "kv = (k, v)" by (cases kv)
  obtain m where n: "n = Suc m"
    using Cons.prems(3) by (cases n) auto
  have v: "endsNumber r' \<Longrightarrow> pVal m (JSON_stringify v @ r') = Some (v, r')" for r'
    using Cons.prems(1) [of k v] Cons.prems(3) n kv
    by (simp add: readsBack_def joinComma_Cons split: if_splits)
  note q = pStr_quote [of k] length_escapes [of k]
  show ?case
  proof (cases "fs = []")
    case True
    with v n kv q show ?thesis by (simp add: quote_def)
  next
    case False
    moreover have "2 * length (joinComma (map printMember fs)) + 2 \<le> m"
      using Cons.prems(3) n False kv by (simp add: joinComma_Cons)
    moreover have "readsBack v'" if "(k', v') \<in> set fs" for k' v'
      using that Cons.prems(1) by auto
    ultimately show ?thesis
      using v n kv q Cons.IH [of m] by (simp add: joinComma_Cons quote_def)
  qed
qed simp

lemma readsBackI:
  assumes "\<And>m r. endsNumber r \<Longrightarrow> 2 * length (JSON_stringify v) \<le> m \<Longrightarrow>
    pVal (Suc m) (JSON_stringify v @ r) = Some (v, r)"
  shows "readsBack v"
  unfolding readsBack_def
proof (intro allI impI)
  fix n r
  assume r: "endsNumber r" and "2 * length (JSON_stringify v) + 1 \<le> n"
  then obtain m where "n = Suc m" "2 * length (JSON_stringify v) \<le> m"
    by (cases n) auto
  with assms [OF r] show "pVal n (JSON_stringify v @ r) = Some (v, r)" by simp
qed

lemma pKeyword_simps:
  "pKeyword (''null'' @ r) = Some (JNull, r)" "pKeyword (''true'' @ r) = Some (JBool True, r)"
  "pKeyword (''false'' @ r) = Some (JBool False, r)"
  by (simp_all add: pKeyword_def)

lemma readsBack_keyword: "readsBack JNull" "readsBack (JBool b)"
  using pKeyword_simps
  by (auto intro!: readsBackI simp: isWs_def isDigit_def simp del: pKeyword_simps)

lemma readsBack_JNum: "readsBack (JNum n)"
proof (rule readsBackI)
  fix m r
  assume r: "endsNumber r"
  obtain c s where c: "toStringInt n = c # s" "c = CHR ''-'' \<or> isDigit c"
    using toStringInt_Cons by blast
  then show "pVal (Suc m) (JSON_stringify (JNum n) @ r) = Some (JNum n, r)"
    using pNum_toString [OF r, of n] by auto
qed

lemma readsBack_JStr: "readsBack (JStr s)"
  by (rule readsBackI) (use pStr_quote [of s] length_escapes [of s] in \<open>simp add: quote_def\<close>)

lemma readsBack_JArr:
  assumes "\<And>v. v \<in> set vs \<Longrightarrow> readsBack v"
  shows "readsBack (JArr vs)"
proof (rule readsBackI)
  fix m r
  assume m: "2 * length (JSON_stringify (JArr vs)) \<le> m"
  show "pVal (Suc m) (JSON_stringify (JArr vs) @ r) = Some (JArr vs, r)"
  proof (cases vs)
    case Nil
    then show ?thesis by simp
  next
    case (Cons v ws)
    obtain c s where c: "joinComma (map JSON_stringify vs) = c # s" "\<not> isWs c" "c \<noteq> CHR '']''"
      using stringify_Cons [of v] Cons by (cases "ws = []") (auto simp: joinComma_Cons)
    have "pElems m (joinComma (map JSON_stringify vs) @ CHR '']'' # r) = Some (vs, r)"
      by (rule pElems_stringify) (use assms Cons m in auto)
    with c show ?thesis by simp
  qed
qed

lemma readsBack_JObj:
  assumes "\<And>k v. (k, v) \<in> set fs \<Longrightarrow> readsBack v"
  shows "readsBack (JObj fs)"
proof (rule readsBackI)
  fix m r
  assume m: "2 * length (JSON_stringify (JObj fs)) \<le> m"
  show "pVal (Suc m) (JSON_stringify (JObj fs) @ r) = Some (JObj fs, r)"
  proof (cases fs)
    case Nil
    then show ?thesis by simp
  next
    case (Cons kv gs)
    obtain s where c: "joinComma (map printMember fs) = CHR 0x22 # s"
      using Cons by (cases kv; cases "gs = []") (auto simp: joinComma_Cons quote_def)
    have "pMembers m (joinComma (map printMember fs) @ CHR ''}'' # r) = Some (fs, r)"
      by (rule pMembers_stringify) (use assms Cons m in auto)
    with c show ?thesis by simp
  qed
qed

lemma readsBack_all: "readsBack v"
  by (induction v)
    (auto intro: readsBack_keyword readsBack_JNum readsBack_JStr readsBack_JArr readsBack_JObj
      simp: snds.simps)

lemma JSON_parse_stringify [simp]: "JSON_parse (JSON_stringify v) = Inr v"
proof -
  have "pVal (2 * length (JSON_stringify v) + 2) (JSON_stringify v @ []) = Some (v, [])"
    by (rule readsBack_all [unfolded readsBack_def, rule_format]) simp_all
  then show ?thesis by (simp add: JSON_parse_def skipWs_def)
qed

subsection \<open>The fuel of the parser\<close>

text \<open>Each parsing function consumes at least one character of what it reads.\<close>

lemma length_skipWs: "length (skipWs s) \<le> length s"
  by (simp add: skipWs_def length_dropWhile_le)

lemma skipWs_ConsD: "skipWs s = c # r \<Longrightarrow> length r < length s"
  using length_skipWs [of s] by simp

lemma hex4_length: "hex4 s = Some (n, r) \<Longrightarrow> length r < length s"
  by (cases s rule: hex4.cases) (auto split: option.splits)

lemma unicodeEscape_length: "unicodeEscape s = Some (cs, r) \<Longrightarrow> length r < length s"
  by (fastforce simp: unicodeEscape_def split: option.splits if_splits list.splits prod.splits
      dest!: hex4_length)

lemma pStr_length: "pStr n s = Some (t, r) \<Longrightarrow> length r < length s"
proof (induction n arbitrary: s t r)
  case (Suc n)
  then show ?case
    by (cases s) (fastforce split: if_splits option.splits list.splits dest: unicodeEscape_length)+
qed simp

lemma pNat_length: "pNat s = Some (n, r) \<Longrightarrow> length r < length s"
proof -
  assume "pNat s = Some (n, r)"
  then have "takeWhile isDigit s \<noteq> []" "r = dropWhile isDigit s"
    by (auto simp: pNat_def Let_def split: if_splits)
  then show ?thesis
    using takeWhile_dropWhile_id [of isDigit s]
    by (metis append_self_conv2 length_append length_greater_0_conv less_add_same_cancel2)
qed

lemma pNum_length: "pNum s = Some (v, r) \<Longrightarrow> length r < length s"
  by (auto simp: pNum_def split: list.splits if_splits option.splits dest!: pNat_length)

lemma pKeyword_length: "pKeyword s = Some (v, r) \<Longrightarrow> length r < length s"
  by (cases s) (auto simp: pKeyword_def split: if_splits)

lemma parse_length:
  "(\<forall>s v r. pVal n s = Some (v, r) \<longrightarrow> length r < length s) \<and>
   (\<forall>s vs r. pElems n s = Some (vs, r) \<longrightarrow> length r < length s) \<and>
   (\<forall>s fs r. pMembers n s = Some (fs, r) \<longrightarrow> length r < length s)"
proof (induction n)
  case (Suc n)
  then have v: "\<And>s v r. pVal n s = Some (v, r) \<Longrightarrow> length r < length s"
    and e: "\<And>s vs r. pElems n s = Some (vs, r) \<Longrightarrow> length r < length s"
    and m: "\<And>s fs r. pMembers n s = Some (fs, r) \<Longrightarrow> length r < length s"
    by blast+
  have "length r < length s" if "pVal (Suc n) s = Some (w, r)" for s w r
    using that
    by (auto split: list.splits if_splits option.splits
        dest!: skipWs_ConsD pStr_length e m pNum_length pKeyword_length)
  moreover have "length r < length s" if "pElems (Suc n) s = Some (vs, r)" for s vs r
    using that by (auto split: list.splits if_splits option.splits dest!: skipWs_ConsD e v)
  moreover have "length r < length s" if "pMembers (Suc n) s = Some (fs, r)" for s fs r
    using that by (auto split: list.splits if_splits option.splits dest!: skipWs_ConsD pStr_length m v)
  ultimately show ?case by blast
qed simp

text \<open>With at least twice the length of the input, the answer does not depend on the fuel.\<close>

lemma parse_fuel:
  "(\<forall>s m. 2 * length s + 1 \<le> n \<longrightarrow> 2 * length s + 1 \<le> m \<longrightarrow> pVal m s = pVal n s) \<and>
   (\<forall>s m. 2 * length s + 2 \<le> n \<longrightarrow> 2 * length s + 2 \<le> m \<longrightarrow> pElems m s = pElems n s) \<and>
   (\<forall>s m. 2 * length s + 2 \<le> n \<longrightarrow> 2 * length s + 2 \<le> m \<longrightarrow> pMembers m s = pMembers n s)"
proof (induction n)
  case (Suc n)
  then have v: "\<And>s m. 2 * length s + 1 \<le> n \<Longrightarrow> 2 * length s + 1 \<le> m \<Longrightarrow> pVal m s = pVal n s"
    and e: "\<And>s m. 2 * length s + 2 \<le> n \<Longrightarrow> 2 * length s + 2 \<le> m \<Longrightarrow> pElems m s = pElems n s"
    and b: "\<And>s m. 2 * length s + 2 \<le> n \<Longrightarrow> 2 * length s + 2 \<le> m \<Longrightarrow> pMembers m s = pMembers n s"
    by blast+
  have "pVal k s = pVal (Suc n) s" if *: "2 * length s + 1 \<le> Suc n" "2 * length s + 1 \<le> k" for s k
  proof -
    obtain m where m: "k = Suc m" using * by (cases k) auto
    have "pElems m r = pElems n r" "pMembers m r = pMembers n r" if "skipWs s = c # r" for c r
      using skipWs_ConsD [OF that] * m by (auto intro!: e b)
    then show ?thesis
      unfolding m by (cases "skipWs s") (auto split: list.split)
  qed
  moreover have "pElems k s = pElems (Suc n) s"
    if *: "2 * length s + 2 \<le> Suc n" "2 * length s + 2 \<le> k" for s k
  proof -
    obtain m where m: "k = Suc m" using * by (cases k) auto
    have "pVal m s = pVal n s" using * m by (auto intro!: v)
    moreover have "pElems m r' = pElems n r'"
      if "pVal n s = Some (w, r)" "skipWs r = c # r'" for w r c r'
      using skipWs_ConsD [OF that(2)] parse_length [of n] that(1) * m by (intro e) fastforce+
    ultimately show ?thesis
      unfolding m by (auto split: option.split list.split)
  qed
  moreover have "pMembers k s = pMembers (Suc n) s"
    if *: "2 * length s + 2 \<le> Suc n" "2 * length s + 2 \<le> k" for s k
  proof -
    obtain m where m: "k = Suc m" using * by (cases k) auto
    have 1: "pVal m r2 = pVal n r2"
      if "skipWs s = q # r0" "pStr j r0 = Some (t, r1)" "skipWs r1 = c # r2" for q r0 j t r1 c r2
      using skipWs_ConsD [OF that(1)] pStr_length [OF that(2)] skipWs_ConsD [OF that(3)] * m
      by (intro v) auto
    have 2: "pMembers m r4 = pMembers n r4"
      if "skipWs s = q # r0" "pStr j r0 = Some (t, r1)" "skipWs r1 = c # r2"
        "pVal n r2 = Some (w, r3)" "skipWs r3 = d # r4" for q r0 j t r1 c r2 w r3 d r4
      using skipWs_ConsD [OF that(1)] pStr_length [OF that(2)] skipWs_ConsD [OF that(3)]
        parse_length [of n] that(4) skipWs_ConsD [OF that(5)] * m by (intro b) fastforce+
    show ?thesis
      unfolding m using 1 2 by (auto split: option.split list.split)
  qed
  ultimately show ?case by blast
qed simp

lemma pVal_fuel: "2 * length s + 1 \<le> n \<Longrightarrow> pVal n s = pVal (2 * length s + 2) s"
  using parse_fuel [of "2 * length s + 2"] by simp

declare JSON_stringify.simps [simp del]

end
