(* ===== verification/Protocol.thy ===== *)
theory Protocol
  imports Commitment Json
begin

section \<open>The interaction-protocol interface (protocol/Protocol.ts)\<close>

text \<open>
  The interface every game or payment protocol implements, as a record of functions, with the
  encoding helpers for protocol authors. The interface's contract in the source (balances always
  sum to the locked total, moves never change that total) is the locale \<open>conserving_protocol\<close>;
  every protocol theory interprets it on its own definitions, and the engines' lemmas are proved
  once inside it.
\<close>

subsection \<open>Parties, balances, the protocol record\<close>

text \<open>The type \<open>"A" | "B"\<close> of the source is not checked at run time where a party is read from a frame, so
  any other value that arrives there (\<open>undefined\<close> is \<open>None\<close>) is a value of the model as well.
  \<open>seat\<close> says that a value is one of the two parties.\<close>

datatype Party = PartyA | PartyB | PartyOther "json option"

definition seat :: "Party \<Rightarrow> bool" where
  "seat p \<longleftrightarrow> p = PartyA \<or> p = PartyB"

definition otherParty :: "Party \<Rightarrow> Party" where
  "otherParty p = (if p = PartyA then PartyB else PartyA)"

record Balances =
  bal_a :: int
  bal_b :: int

record ProtocolContext =
  ctx_tunnelId :: string
  ctx_initialBalances :: Balances

record ('s, 'm) Protocol =
  p_name :: string
  p_movesCarrySecrets :: bool
  p_initialState :: "ProtocolContext \<Rightarrow> 's"
  p_applyMove :: "'s \<Rightarrow> 'm \<Rightarrow> Party \<Rightarrow> 's result"
  p_encodeState :: "'s \<Rightarrow> bytes result"
  p_balances :: "'s \<Rightarrow> Balances"
  p_isTerminal :: "'s \<Rightarrow> bool"

subsection \<open>Encoding helpers\<close>

definition protocolDomain :: "string \<Rightarrow> bytes" where
  "protocolDomain name = asciiBytes (''sui_tunnel::proto::'' @ name)"

definition lengthPrefixedConcat :: "bytes list \<Rightarrow> bytes result" where
  "lengthPrefixedConcat parts =
     bindE (mapE (\<lambda>p. bindE (u64ToBeBytes (int (length p))) (\<lambda>n. Inr [n, p])) parts) (\<lambda>out.
     Inr (concatBytes (concat out)))"

definition rollingDigest :: "(bytes \<Rightarrow> bytes) \<Rightarrow> bytes \<Rightarrow> bytes \<Rightarrow> bytes" where
  "rollingDigest H prevDigest delta = H (concatBytes [prevDigest, delta])"

text \<open>The fixed-width part of a state encoding: \<open>concatBytes([head, u64ToBeBytes(v1), ...])\<close>.\<close>

definition encodeU64s :: "bytes \<Rightarrow> int list \<Rightarrow> bytes result" where
  "encodeU64s hd1 vs = bindE (mapE u64ToBeBytes vs) (\<lambda>ws. Inr (concatBytes (hd1 # ws)))"

lemma mapE_u64_Inr_iff:
  "mapE u64ToBeBytes vs = Inr ws \<longleftrightarrow> list_all u64 vs \<and> ws = map (beBytes 8) vs"
  by (induction vs arbitrary: ws) (auto simp: result_simps)

lemma encodeU64s_Inr_iff:
  "encodeU64s h vs = Inr bs \<longleftrightarrow> list_all u64 vs \<and> bs = h @ concat (map (beBytes 8) vs)"
  by (auto simp: encodeU64s_def result_simps mapE_u64_Inr_iff)

lemma concat_beBytes_inj:
  assumes "length vs = length ws" "list_all u64 vs" "list_all u64 ws"
    "concat (map (beBytes 8) vs) @ r = concat (map (beBytes 8) ws) @ r'"
  shows "vs = ws \<and> r = r'"
  using assms by (induction vs ws rule: list_induct2) (auto simp: append_split_eq beBytes_8_inj)

subsection \<open>Runs of a protocol\<close>

text \<open>A sequence of moves, each made by the party named with it; the first illegal move ends it.\<close>

fun applyMoves :: "('s, 'm) Protocol \<Rightarrow> 's \<Rightarrow> ('m \<times> Party) list \<Rightarrow> 's result" where
  "applyMoves P s [] = Inr s"
| "applyMoves P s ((m, by1) # ms) = bindE (p_applyMove P s m by1) (\<lambda>s'. applyMoves P s' ms)"

definition balanceSum :: "('s, 'm) Protocol \<Rightarrow> 's \<Rightarrow> int" where
  "balanceSum P s = bal_a (p_balances P s) + bal_b (p_balances P s)"

lemma seat_simps [simp]: "seat PartyA" "seat PartyB" "\<not> seat (PartyOther v)" "seat (otherParty p)"
  by (simp_all add: seat_def otherParty_def)

lemma otherParty_simps [simp]:
  "otherParty PartyA = PartyB" "otherParty PartyB = PartyA" "otherParty (PartyOther v) = PartyA"
  "seat p \<Longrightarrow> otherParty (otherParty p) = p" "otherParty p \<noteq> p" "p \<noteq> otherParty p"
  by (cases p; simp add: otherParty_def)+

lemma party_neq: "seat p \<Longrightarrow> seat q \<Longrightarrow> p \<noteq> q \<longleftrightarrow> p = otherParty q"
  by (cases p; cases q) auto

lemma lengthPrefixedConcat_Inr_iff:
  "lengthPrefixedConcat ps = Inr r \<longleftrightarrow>
     list_all (\<lambda>x. u64 (int (length x))) ps \<and> r = concat (map lpBytes ps)"
proof -
  have e: "lengthPrefixedConcat ps = bindE (mapE lengthPrefixed ps) (\<lambda>out. Inr (concat (concat out)))"
    by (simp add: lengthPrefixedConcat_def lengthPrefixed_def [abs_def])
  have "list_all (\<lambda>x. u64 (int (length x))) ps \<Longrightarrow> \<exists>out. mapE lengthPrefixed ps = Inr out"
    using mapE_all_Inr [of ps lengthPrefixed "\<lambda>x. [beBytes 8 (int (length x)), x]"]
    by (auto simp: list_all_iff lengthPrefixed_def)
  then show ?thesis
    unfolding e using mapE_lengthPrefixed [of ps] by (auto simp: result_simps)
qed

subsection \<open>The conservation contract\<close>

text \<open>
  \<open>inv\<close> is the protocol's well-formedness invariant and \<open>tot\<close> the locked total a state carries.
  \<open>funded\<close> says which opening balances the protocol is meant for (both deposits non-negative).
\<close>

definition funded :: "Balances \<Rightarrow> bool" where
  "funded b \<longleftrightarrow> 0 \<le> bal_a b \<and> 0 \<le> bal_b b"

locale conserving_protocol =
  fixes P :: "('s, 'm) Protocol"
    and inv :: "'s \<Rightarrow> bool"
    and tot :: "'s \<Rightarrow> int"
  assumes init_inv: "funded (ctx_initialBalances ctx) \<Longrightarrow> inv (p_initialState P ctx)"
    and init_tot: "tot (p_initialState P ctx) =
      bal_a (ctx_initialBalances ctx) + bal_b (ctx_initialBalances ctx)"
    and step_inv: "inv s \<Longrightarrow> seat by1 \<Longrightarrow> p_applyMove P s m by1 = Inr s' \<Longrightarrow> inv s'"
    and step_tot: "p_applyMove P s m by1 = Inr s' \<Longrightarrow> tot s' = tot s"
    and inv_sum: "inv s \<Longrightarrow> balanceSum P s = tot s"
    and inv_nonneg: "inv s \<Longrightarrow> funded (p_balances P s)"
begin

lemma run_inv:
  "inv s \<Longrightarrow> list_all (\<lambda>(m, by1). seat by1) ms \<Longrightarrow> applyMoves P s ms = Inr s' \<Longrightarrow>
   inv s' \<and> tot s' = tot s"
proof (induction ms arbitrary: s)
  case Nil
  then show ?case by simp
next
  case (Cons x ms)
  obtain m by1 where x: "x = (m, by1)" by (cases x)
  then obtain s1 where s1: "p_applyMove P s m by1 = Inr s1" "applyMoves P s1 ms = Inr s'"
    using Cons.prems by (auto simp: result_simps)
  with Cons x step_inv [OF _ _ s1(1)] step_tot [OF s1(1)] show ?case by simp
qed

text \<open>Whatever legal moves the two parties play from a funded opening, the settleable balances are
  non-negative and sum to what was locked.\<close>

lemma run_conserves:
  assumes "funded (ctx_initialBalances ctx)" "list_all (\<lambda>(m, by1). seat by1) ms"
    "applyMoves P (p_initialState P ctx) ms = Inr s"
  shows "funded (p_balances P s) \<and>
    balanceSum P s = bal_a (ctx_initialBalances ctx) + bal_b (ctx_initialBalances ctx)"
  using run_inv [OF init_inv [OF assms(1)] assms(2,3)] inv_sum inv_nonneg init_tot by simp

end

end
