(* ===== verification/Offchain_Tunnel.thy ===== *)
theory Offchain_Tunnel
  imports Protocol
begin

section \<open>The self-play tunnel engine (core/tunnel.ts)\<close>

text \<open>
  Party endpoints, co-signed updates and settlements, and the engine \<open>OffchainTunnel\<close> that applies a
  protocol move, checks conservation, hashes the state, has both parties sign the canonical message
  through the reused buffer and advances the nonce. A method that may throw after it has touched
  the reused buffer returns the tunnel next to its result, so what an exception leaves behind is
  part of the model. The hash function \<open>H\<close> and the signature primitives are parameters.
\<close>

subsection \<open>Endpoints and co-signed artifacts\<close>

record CryptoBackend =
  makeSigner :: "bytes \<Rightarrow> bytes \<Rightarrow> bytes"
  makeVerifier :: "bytes \<Rightarrow> bytes \<Rightarrow> bytes \<Rightarrow> bool"

text \<open>The portable backend of core/crypto.ts over the package's \<open>ed25519.sign(message, secretKey)\<close> and
  the exception-free \<open>verify(signature, message, publicKey)\<close>.\<close>

definition nobleBackend ::
  "(bytes \<Rightarrow> bytes \<Rightarrow> bytes) \<Rightarrow> (bytes \<Rightarrow> bytes \<Rightarrow> bytes \<Rightarrow> bool) \<Rightarrow> CryptoBackend" where
  "nobleBackend edSign edVerify =
     \<lparr>makeSigner = (\<lambda>secretKey message. edSign message secretKey),
      makeVerifier = (\<lambda>publicKey message signature. edVerify signature message publicKey)\<rparr>"

definition ED25519 :: int where
  "ED25519 = 0"

record KeyPair =
  kp_publicKey :: bytes
  kp_scheme :: int
  kp_secretKey :: "bytes option"

record PartyEndpoint =
  ep_address :: string
  ep_publicKey :: bytes
  ep_scheme :: int
  ep_secretKey :: "bytes option"
  ep_sign :: "(bytes \<Rightarrow> bytes) option"
  ep_verify :: "bytes \<Rightarrow> bytes \<Rightarrow> bool"

definition makeEndpoint :: "CryptoBackend \<Rightarrow> string \<Rightarrow> KeyPair \<Rightarrow> bool \<Rightarrow> PartyEndpoint" where
  "makeEndpoint backend address keyPair controlled =
     \<lparr>ep_address = address,
      ep_publicKey = kp_publicKey keyPair,
      ep_scheme = kp_scheme keyPair,
      ep_secretKey = (if controlled then kp_secretKey keyPair else None),
      ep_sign = (if controlled then map_option (makeSigner backend) (kp_secretKey keyPair) else None),
      ep_verify = makeVerifier backend (kp_publicKey keyPair)\<rparr>"

record CoSignedUpdate =
  cu_update :: StateUpdate
  cu_sigA :: bytes
  cu_sigB :: bytes

record CoSignedSettlement =
  cs_settlement :: Settlement
  cs_sigA :: bytes
  cs_sigB :: bytes

record CoSignedSettlementWithRoot =
  cr_settlement :: SettlementWithRoot
  cr_sigA :: bytes
  cr_sigB :: bytes

definition verifyCoSignedUpdate ::
  "(bytes \<Rightarrow> bytes \<Rightarrow> bytes \<Rightarrow> bool) \<Rightarrow> CoSignedUpdate \<Rightarrow> PartyEndpoint \<Rightarrow> PartyEndpoint \<Rightarrow> bool result" where
  "verifyCoSignedUpdate edVerify u partyA partyB =
     (if ep_scheme partyA \<noteq> ED25519 \<or> ep_scheme partyB \<noteq> ED25519
      then Inl (Error ''verifyCoSignedUpdate currently supports ed25519 only'')
      else
        bindE (serializeStateUpdate (cu_update u)) (\<lambda>msg.
        Inr (edVerify (cu_sigA u) msg (ep_publicKey partyA) \<and>
             edVerify (cu_sigB u) msg (ep_publicKey partyB))))"

subsection \<open>The engine\<close>

datatype SignMode = ModeFull | ModeSignOnly | ModeNone

record StepOptions =
  so_timestamp :: "int option"
  so_mode :: "SignMode option"

record StepResult =
  sr_nonce :: int
  sr_signed :: "CoSignedUpdate option"
  sr_verified :: bool
  sr_messageBytes :: nat

record ('s, 'm) OffchainTunnel =
  ot_tunnelId :: string
  ot_protocol :: "('s, 'm) Protocol"
  ot_partyA :: PartyEndpoint
  ot_partyB :: PartyEndpoint
  ot_total :: int
  ot_state :: 's
  ot_nonce :: int
  ot_latest :: "CoSignedUpdate option"
  ot_writer :: StateUpdateWriter

definition newOffchainTunnel ::
  "('s, 'm) Protocol \<Rightarrow> string \<Rightarrow> PartyEndpoint \<Rightarrow> PartyEndpoint \<Rightarrow> Balances \<Rightarrow>
   ('s, 'm) OffchainTunnel result" where
  "newOffchainTunnel protocol tunnelId partyA partyB initialBalances =
     (let total = bal_a initialBalances + bal_b initialBalances;
          state = p_initialState protocol
                    \<lparr>ctx_tunnelId = tunnelId, ctx_initialBalances = initialBalances\<rparr>;
          b = p_balances protocol state
      in if bal_a b + bal_b b \<noteq> total
         then Inl (Error ''protocol initial balances != locked total'')
         else
           bindE (newStateUpdateWriter tunnelId 32) (\<lambda>writer.
           Inr \<lparr>ot_tunnelId = tunnelId, ot_protocol = protocol, ot_partyA = partyA,
                ot_partyB = partyB, ot_total = total, ot_state = state, ot_nonce = 0,
                ot_latest = None, ot_writer = writer\<rparr>))"

definition selfPlay ::
  "('s, 'm) Protocol \<Rightarrow> string \<Rightarrow> KeyPair \<Rightarrow> KeyPair \<Rightarrow> string \<Rightarrow> string \<Rightarrow> Balances \<Rightarrow> CryptoBackend \<Rightarrow>
   ('s, 'm) OffchainTunnel result" where
  "selfPlay protocol tunnelId keyA keyB addrA addrB initialBalances backend =
     newOffchainTunnel protocol tunnelId (makeEndpoint backend addrA keyA True)
       (makeEndpoint backend addrB keyB True) initialBalances"

text \<open>\<open>endpoint.sign ? endpoint.sign(msg) : EMPTY\<close>\<close>

definition signOrEmpty :: "PartyEndpoint \<Rightarrow> bytes \<Rightarrow> bytes" where
  "signOrEmpty ep msg = (case ep_sign ep of None \<Rightarrow> [] | Some signer \<Rightarrow> signer msg)"

definition tunnelStep ::
  "(bytes \<Rightarrow> bytes) \<Rightarrow> ('s, 'm) OffchainTunnel \<Rightarrow> 'm \<Rightarrow> Party \<Rightarrow> StepOptions \<Rightarrow>
   ('s, 'm) OffchainTunnel \<times> StepResult result" where
  "tunnelStep H t move by1 opts =
     (let mode = (case so_mode opts of None \<Rightarrow> ModeFull | Some m \<Rightarrow> m)
      in case p_applyMove (ot_protocol t) (ot_state t) move by1 of
        Inl e \<Rightarrow> (t, Inl e)
      | Inr nxt \<Rightarrow>
        (let bals = p_balances (ot_protocol t) nxt; a = bal_a bals; b = bal_b bals
         in if a + b \<noteq> ot_total t then (t, Inl (Error ''balance sum != locked total''))
         else
           (let nonce = ot_nonce t + 1;
                timestamp = (case so_timestamp opts of None \<Rightarrow> 0 | Some ts \<Rightarrow> ts)
            in case p_encodeState (ot_protocol t) nxt of
              Inl e \<Rightarrow> (t, Inl e)
            | Inr es \<Rightarrow>
              (let stateHash = H es;
                   update = \<lparr>su_tunnelId = ot_tunnelId t, su_stateHash = stateHash,
                             su_nonce = nonce, su_timestamp = timestamp,
                             su_partyABalance = a, su_partyBBalance = b\<rparr>
               in if mode \<noteq> ModeNone then
                 (case writerWrite (ot_writer t) stateHash nonce timestamp a b of
                    (w, Inl e) \<Rightarrow> (t\<lparr>ot_writer := w\<rparr>, Inl e)
                  | (w, Inr msg) \<Rightarrow>
                    (let t1 = t\<lparr>ot_writer := w\<rparr>;
                         sigA = signOrEmpty (ot_partyA t) msg;
                         sigB = signOrEmpty (ot_partyB t) msg;
                         verified = (mode = ModeFull \<and> ep_verify (ot_partyA t) msg sigA \<and>
                                     ep_verify (ot_partyB t) msg sigB)
                     in if mode = ModeFull \<and> \<not> verified
                        then (t1, Inl (Error ''self co-signed update failed verification (bug)''))
                        else
                          let signed = \<lparr>cu_update = update, cu_sigA = sigA, cu_sigB = sigB\<rparr>
                          in (t1\<lparr>ot_latest := Some signed, ot_state := nxt, ot_nonce := nonce\<rparr>,
                              Inr \<lparr>sr_nonce = nonce, sr_signed = Some signed,
                                   sr_verified = verified, sr_messageBytes = length msg\<rparr>)))
                 else
                   (case serializeStateUpdate update of
                      Inl e \<Rightarrow> (t, Inl e)
                    | Inr msg \<Rightarrow>
                      (t\<lparr>ot_state := nxt, ot_nonce := nonce\<rparr>,
                       Inr \<lparr>sr_nonce = nonce, sr_signed = None, sr_verified = False,
                            sr_messageBytes = length msg\<rparr>))))))"

definition buildSettlement ::
  "('s, 'm) OffchainTunnel \<Rightarrow> int \<Rightarrow> int \<Rightarrow> CoSignedSettlement result" where
  "buildSettlement t timestamp onchainNonce =
     (case (ep_sign (ot_partyA t), ep_sign (ot_partyB t)) of
        (Some signA, Some signB) \<Rightarrow>
          (let b = p_balances (ot_protocol t) (ot_state t);
               settlement = \<lparr>st_tunnelId = ot_tunnelId t, st_partyABalance = bal_a b,
                 st_partyBBalance = bal_b b, st_finalNonce = onchainNonce + 1,
                 st_timestamp = timestamp\<rparr>
           in bindE (serializeSettlement settlement) (\<lambda>msg.
              Inr \<lparr>cs_settlement = settlement, cs_sigA = signA msg, cs_sigB = signB msg\<rparr>))
      | _ \<Rightarrow> Inl (Error ''buildSettlement requires both signers (self-play)''))"

definition buildSettlementWithRoot ::
  "('s, 'm) OffchainTunnel \<Rightarrow> int \<Rightarrow> bytes \<Rightarrow> int \<Rightarrow> CoSignedSettlementWithRoot result" where
  "buildSettlementWithRoot t timestamp transcriptRoot onchainNonce =
     (case (ep_sign (ot_partyA t), ep_sign (ot_partyB t)) of
        (Some signA, Some signB) \<Rightarrow>
          (if length transcriptRoot \<noteq> 32 then Inl (Error ''transcriptRoot must be 32 bytes'')
           else
             let b = p_balances (ot_protocol t) (ot_state t);
                 settlement = \<lparr>st_tunnelId = ot_tunnelId t, st_partyABalance = bal_a b,
                   st_partyBBalance = bal_b b, st_finalNonce = onchainNonce + 1,
                   st_timestamp = timestamp, st_transcriptRoot = transcriptRoot\<rparr>
             in bindE (serializeSettlementWithRoot settlement) (\<lambda>msg.
                Inr \<lparr>cr_settlement = settlement, cr_sigA = signA msg, cr_sigB = signB msg\<rparr>))
      | _ \<Rightarrow> Inl (Error ''buildSettlementWithRoot requires both signers (self-play)''))"

text \<open>A sequence of steps that all succeed, with the updates the observer \<open>onUpdate\<close> receives.\<close>

fun tunnelRun ::
  "(bytes \<Rightarrow> bytes) \<Rightarrow> ('s, 'm) OffchainTunnel \<Rightarrow> ('m \<times> Party \<times> StepOptions) list \<Rightarrow>
   (('s, 'm) OffchainTunnel \<times> CoSignedUpdate list) result" where
  "tunnelRun H t [] = Inr (t, [])"
| "tunnelRun H t ((m, by1, opts) # ms) =
     (case tunnelStep H t m by1 opts of
        (t', Inl e) \<Rightarrow> Inl e
      | (t', Inr r) \<Rightarrow>
        bindE (tunnelRun H t' ms) (\<lambda>(t'', us).
        Inr (t'', (case sr_signed r of None \<Rightarrow> us | Some u \<Rightarrow> u # us))))"


subsection \<open>What a successful step does\<close>

text \<open>Both parties' verifiers accept the two signatures of a co-signed update.\<close>

definition coSignedBy :: "PartyEndpoint \<Rightarrow> PartyEndpoint \<Rightarrow> CoSignedUpdate \<Rightarrow> bool" where
  "coSignedBy pA pB u \<longleftrightarrow>
     (\<exists>msg. serializeStateUpdate (cu_update u) = Inr msg \<and>
        ep_verify pA msg (cu_sigA u) \<and> ep_verify pB msg (cu_sigB u))"

text \<open>The update describes a state: it carries the hash of its encoding and its balances.\<close>

definition describes ::
  "(bytes \<Rightarrow> bytes) \<Rightarrow> ('s, 'm) Protocol \<Rightarrow> 's \<Rightarrow> StateUpdate \<Rightarrow> bool" where
  "describes H P s u \<longleftrightarrow>
     (\<exists>es. p_encodeState P s = Inr es \<and> su_stateHash u = H es) \<and>
     su_partyABalance u = bal_a (p_balances P s) \<and> su_partyBBalance u = bal_b (p_balances P s)"

text \<open>The engine's own invariant: the reused buffer holds the constant prefix of this tunnel and the
  current state's balances sum to the locked total.\<close>

definition tunnelOk :: "('s, 'm) OffchainTunnel \<Rightarrow> bool" where
  "tunnelOk t \<longleftrightarrow>
     (\<exists>tb. addressToBytes32 (ot_tunnelId t) = Inr tb \<and> writerOk tb (ot_writer t)) \<and>
     w_stateHashLen (ot_writer t) = 32 \<and> balanceSum (ot_protocol t) (ot_state t) = ot_total t"

text \<open>The fields a step never changes.\<close>

definition sameChannel :: "('s, 'm) OffchainTunnel \<Rightarrow> ('s, 'm) OffchainTunnel \<Rightarrow> bool" where
  "sameChannel t t' \<longleftrightarrow> ot_tunnelId t' = ot_tunnelId t \<and> ot_protocol t' = ot_protocol t \<and>
     ot_partyA t' = ot_partyA t \<and> ot_partyB t' = ot_partyB t \<and> ot_total t' = ot_total t"

lemma sameChannel_refl [simp]: "sameChannel t t"
  by (simp add: sameChannel_def)

lemma sameChannel_trans: "sameChannel t t' \<Longrightarrow> sameChannel t' t'' \<Longrightarrow> sameChannel t t''"
  by (simp add: sameChannel_def)

lemma newOffchainTunnel_ok:
  assumes "newOffchainTunnel P tid pA pB ib = Inr t"
  shows "tunnelOk t \<and> ot_nonce t = 0 \<and> ot_latest t = None \<and> ot_protocol t = P \<and>
    ot_partyA t = pA \<and> ot_partyB t = pB \<and> ot_tunnelId t = tid \<and>
    ot_total t = bal_a ib + bal_b ib \<and>
    ot_state t = p_initialState P \<lparr>ctx_tunnelId = tid, ctx_initialBalances = ib\<rparr>"
proof -
  obtain w where w: "newStateUpdateWriter tid 32 = Inr w"
    using assms by (auto simp: newOffchainTunnel_def Let_def result_simps split: if_splits)
  then obtain tb where tb: "addressToBytes32 tid = Inr tb"
    by (auto simp: newStateUpdateWriter_def Let_def result_simps)
  then have "writerOk tb w \<and> w_stateHashLen w = 32"
    using newStateUpdateWriter_ok [OF tb, of 32] w by auto
  with assms w tb show ?thesis
    by (auto simp: newOffchainTunnel_def Let_def tunnelOk_def balanceSum_def split: if_splits)
qed

text \<open>The mode and timestamp a step uses.\<close>

definition stepMode :: "StepOptions \<Rightarrow> SignMode" where
  "stepMode opts = (case so_mode opts of None \<Rightarrow> ModeFull | Some m \<Rightarrow> m)"

definition stepTimestamp :: "StepOptions \<Rightarrow> int" where
  "stepTimestamp opts = (case so_timestamp opts of None \<Rightarrow> 0 | Some ts \<Rightarrow> ts)"

definition stepUpdate ::
  "(bytes \<Rightarrow> bytes) \<Rightarrow> ('s, 'm) OffchainTunnel \<Rightarrow> 's \<Rightarrow> bytes \<Rightarrow> StepOptions \<Rightarrow> StateUpdate" where
  "stepUpdate H t nxt es opts =
     \<lparr>su_tunnelId = ot_tunnelId t, su_stateHash = H es, su_nonce = ot_nonce t + 1,
      su_timestamp = stepTimestamp opts,
      su_partyABalance = bal_a (p_balances (ot_protocol t) nxt),
      su_partyBBalance = bal_b (p_balances (ot_protocol t) nxt)\<rparr>"

lemma tunnelStep_success:
  assumes "tunnelStep H t m by1 opts = (t', Inr r)"
  obtains nxt es where
    "p_applyMove (ot_protocol t) (ot_state t) m by1 = Inr nxt"
    "balanceSum (ot_protocol t) nxt = ot_total t"
    "p_encodeState (ot_protocol t) nxt = Inr es"
    "ot_state t' = nxt" "ot_nonce t' = ot_nonce t + 1" "sr_nonce r = ot_nonce t + 1"
    "sameChannel t t'"
    "stepMode opts = ModeNone \<Longrightarrow>
       sr_signed r = None \<and> ot_latest t' = ot_latest t \<and> ot_writer t' = ot_writer t"
    "stepMode opts \<noteq> ModeNone \<Longrightarrow>
       \<exists>w msg. writerWrite (ot_writer t) (H es) (ot_nonce t + 1) (stepTimestamp opts)
           (bal_a (p_balances (ot_protocol t) nxt)) (bal_b (p_balances (ot_protocol t) nxt)) =
           (w, Inr msg) \<and> ot_writer t' = w \<and>
         ot_latest t' = Some \<lparr>cu_update = stepUpdate H t nxt es opts,
           cu_sigA = signOrEmpty (ot_partyA t) msg, cu_sigB = signOrEmpty (ot_partyB t) msg\<rparr> \<and>
         sr_signed r = ot_latest t' \<and>
         (stepMode opts = ModeFull \<longrightarrow> ep_verify (ot_partyA t) msg (signOrEmpty (ot_partyA t) msg) \<and>
            ep_verify (ot_partyB t) msg (signOrEmpty (ot_partyB t) msg))"
proof -
  obtain nxt where nxt: "p_applyMove (ot_protocol t) (ot_state t) m by1 = Inr nxt"
    using assms by (cases "p_applyMove (ot_protocol t) (ot_state t) m by1") (auto simp: tunnelStep_def Let_def)
  have sum: "balanceSum (ot_protocol t) nxt = ot_total t"
    using assms nxt by (auto simp: tunnelStep_def Let_def balanceSum_def split: if_splits)
  obtain es where es: "p_encodeState (ot_protocol t) nxt = Inr es"
    using assms nxt sum
    by (cases "p_encodeState (ot_protocol t) nxt") (auto simp: tunnelStep_def Let_def balanceSum_def)
  show ?thesis
    by (rule that [OF nxt sum es])
      (use assms nxt sum es in \<open>auto simp: tunnelStep_def Let_def balanceSum_def stepMode_def
        stepTimestamp_def stepUpdate_def sameChannel_def split: if_splits sum.splits prod.splits\<close>)
qed


lemma writerWrite_fst_ok:
  "writerWrite w h n ts a b = (w', r) \<Longrightarrow> writerOk tb w \<Longrightarrow>
   writerOk tb w' \<and> w_stateHashLen w' = w_stateHashLen w"
  using writerWrite_ok [of tb w h n ts a b] by simp

lemma tunnelStep_ok:
  assumes "tunnelOk t"
  shows "tunnelOk (fst (tunnelStep H t m by1 opts))"
proof (cases "tunnelStep H t m by1 opts")
  case (Pair t' res)
  obtain tb where tb: "addressToBytes32 (ot_tunnelId t) = Inr tb" "writerOk tb (ot_writer t)"
    using assms by (auto simp: tunnelOk_def)
  show ?thesis
  proof (cases res)
    case (Inr r)
    with Pair have "tunnelStep H t m by1 opts = (t', Inr r)" by simp
    then show ?thesis
    proof (rule tunnelStep_success)
      fix nxt es
      assume sum: "balanceSum (ot_protocol t) nxt = ot_total t" and st: "ot_state t' = nxt"
        and ch: "sameChannel t t'"
        and none: "stepMode opts = ModeNone \<Longrightarrow>
          sr_signed r = None \<and> ot_latest t' = ot_latest t \<and> ot_writer t' = ot_writer t"
        and some: "stepMode opts \<noteq> ModeNone \<Longrightarrow>
          \<exists>w msg. writerWrite (ot_writer t) (H es) (ot_nonce t + 1) (stepTimestamp opts)
             (bal_a (p_balances (ot_protocol t) nxt)) (bal_b (p_balances (ot_protocol t) nxt)) =
             (w, Inr msg) \<and> ot_writer t' = w \<and>
           ot_latest t' = Some \<lparr>cu_update = stepUpdate H t nxt es opts,
             cu_sigA = signOrEmpty (ot_partyA t) msg, cu_sigB = signOrEmpty (ot_partyB t) msg\<rparr> \<and>
           sr_signed r = ot_latest t' \<and>
           (stepMode opts = ModeFull \<longrightarrow> ep_verify (ot_partyA t) msg (signOrEmpty (ot_partyA t) msg) \<and>
              ep_verify (ot_partyB t) msg (signOrEmpty (ot_partyB t) msg))"
      have "writerOk tb (ot_writer t') \<and> w_stateHashLen (ot_writer t') = w_stateHashLen (ot_writer t)"
        using none some tb by (cases "stepMode opts = ModeNone") (auto dest: writerWrite_fst_ok)
      then show ?thesis
        using assms tb sum st ch Pair by (auto simp: tunnelOk_def sameChannel_def)
    qed
  next
    case (Inl e)
    have "t' = t \<or>
        (\<exists>w. t' = t\<lparr>ot_writer := w\<rparr> \<and> writerOk tb w \<and> w_stateHashLen w = w_stateHashLen (ot_writer t))"
      using Pair Inl tb
      by (auto simp: tunnelStep_def Let_def split: if_splits sum.splits prod.splits
          dest: writerWrite_fst_ok)
    then show ?thesis
      using assms tb Pair by (auto simp: tunnelOk_def)
  qed
qed

text \<open>Every step in the default mode yields an update that both parties' verifiers accept, with the next
  nonce, describing exactly the state the tunnel now holds.\<close>

lemma tunnelStep_full_cosigned:
  assumes ok: "tunnelOk t" and st: "tunnelStep H t m by1 opts = (t', Inr r)"
    and full: "stepMode opts = ModeFull"
  shows "\<exists>u. ot_latest t' = Some u \<and> sr_signed r = Some u \<and>
    coSignedBy (ot_partyA t) (ot_partyB t) u \<and>
    su_nonce (cu_update u) = ot_nonce t' \<and> su_tunnelId (cu_update u) = ot_tunnelId t \<and>
    describes H (ot_protocol t) (ot_state t') (cu_update u) \<and>
    su_partyABalance (cu_update u) + su_partyBBalance (cu_update u) = ot_total t \<and>
    (\<exists>msg. cu_sigA u = signOrEmpty (ot_partyA t) msg \<and> cu_sigB u = signOrEmpty (ot_partyB t) msg)"
proof (rule tunnelStep_success [OF st])
  fix nxt es
  let ?a = "bal_a (p_balances (ot_protocol t) nxt)" and ?b = "bal_b (p_balances (ot_protocol t) nxt)"
  assume sum: "balanceSum (ot_protocol t) nxt = ot_total t"
    and es: "p_encodeState (ot_protocol t) nxt = Inr es" and nx: "ot_state t' = nxt"
    and no: "ot_nonce t' = ot_nonce t + 1"
    and "stepMode opts \<noteq> ModeNone \<Longrightarrow>
       \<exists>w msg. writerWrite (ot_writer t) (H es) (ot_nonce t + 1) (stepTimestamp opts) ?a ?b =
           (w, Inr msg) \<and> ot_writer t' = w \<and>
         ot_latest t' = Some \<lparr>cu_update = stepUpdate H t nxt es opts,
           cu_sigA = signOrEmpty (ot_partyA t) msg, cu_sigB = signOrEmpty (ot_partyB t) msg\<rparr> \<and>
         sr_signed r = ot_latest t' \<and>
         (stepMode opts = ModeFull \<longrightarrow> ep_verify (ot_partyA t) msg (signOrEmpty (ot_partyA t) msg) \<and>
            ep_verify (ot_partyB t) msg (signOrEmpty (ot_partyB t) msg))"
  then obtain w msg where
    w: "writerWrite (ot_writer t) (H es) (ot_nonce t + 1) (stepTimestamp opts) ?a ?b = (w, Inr msg)"
    and l: "ot_latest t' = Some \<lparr>cu_update = stepUpdate H t nxt es opts,
           cu_sigA = signOrEmpty (ot_partyA t) msg, cu_sigB = signOrEmpty (ot_partyB t) msg\<rparr>"
    and r: "sr_signed r = ot_latest t'"
    and v: "ep_verify (ot_partyA t) msg (signOrEmpty (ot_partyA t) msg)"
      "ep_verify (ot_partyB t) msg (signOrEmpty (ot_partyB t) msg)"
    using full by auto
  obtain tb where tb: "addressToBytes32 (ot_tunnelId t) = Inr tb" "writerOk tb (ot_writer t)"
    using ok by (auto simp: tunnelOk_def)
  have "serializeStateUpdate (stepUpdate H t nxt es opts) = Inr msg"
    using writerWrite_bytes [OF tb(2) w] tb(1)
    by (auto simp: serializeStateUpdate_Inr_iff stepUpdate_def)
  then show ?thesis
    using l r v sum es nx no
    by (auto simp: coSignedBy_def describes_def stepUpdate_def balanceSum_def)
qed

subsection \<open>Progress\<close>

text \<open>A party that can sign, and whose own verifier accepts its signatures.\<close>

definition correctEndpoint :: "PartyEndpoint \<Rightarrow> bool" where
  "correctEndpoint ep \<longleftrightarrow> (\<exists>f. ep_sign ep = Some f \<and> (\<forall>m. ep_verify ep m (f m)))"

text \<open>The endpoint's verifier is the signature check of core/crypto.ts under its public key.\<close>

definition verifies :: "(bytes \<Rightarrow> bytes \<Rightarrow> bytes \<Rightarrow> bool) \<Rightarrow> PartyEndpoint \<Rightarrow> bool" where
  "verifies edVerify ep \<longleftrightarrow> (\<forall>m s. ep_verify ep m s = edVerify s m (ep_publicKey ep))"

lemma verifies_makeEndpoint:
  "verifies edVerify (makeEndpoint (nobleBackend edSign edVerify) addr kp c)"
  by (simp add: verifies_def makeEndpoint_def nobleBackend_def)

lemma tunnelStep_progress:
  assumes ok: "tunnelOk t" and mv: "p_applyMove (ot_protocol t) (ot_state t) m by1 = Inr nxt"
    and sum: "balanceSum (ot_protocol t) nxt = ot_total t"
    and es: "p_encodeState (ot_protocol t) nxt = Inr es" and h: "length (H es) = 32"
    and r: "list_all u64 [ot_nonce t + 1, stepTimestamp opts,
        bal_a (p_balances (ot_protocol t) nxt), bal_b (p_balances (ot_protocol t) nxt)]"
    and A: "correctEndpoint (ot_partyA t)" and B: "correctEndpoint (ot_partyB t)"
  shows "\<exists>t' res. tunnelStep H t m by1 opts = (t', Inr res)"
proof -
  let ?a = "bal_a (p_balances (ot_protocol t) nxt)" and ?b = "bal_b (p_balances (ot_protocol t) nxt)"
  have "w_stateHashLen (ot_writer t) = 32" using ok by (simp add: tunnelOk_def)
  then obtain w msg where
    w: "writerWrite (ot_writer t) (H es) (ot_nonce t + 1) (stepTimestamp opts) ?a ?b = (w, Inr msg)"
    using writerWrite_progress [OF _ r] h by metis
  have s: "\<exists>msg. serializeStateUpdate (stepUpdate H t nxt es opts) = Inr msg"
    using ok r by (auto simp: serializeStateUpdate_Inr_iff stepUpdate_def tunnelOk_def)
  have v: "ep_verify (ot_partyA t) msg (signOrEmpty (ot_partyA t) msg)"
    "ep_verify (ot_partyB t) msg (signOrEmpty (ot_partyB t) msg)"
    using A B by (auto simp: correctEndpoint_def signOrEmpty_def)
  show ?thesis
    using mv sum es w s v
    by (cases "stepMode opts")
      (auto simp: tunnelStep_def Let_def balanceSum_def stepMode_def stepTimestamp_def stepUpdate_def)
qed

subsection \<open>Sequences of attempted steps\<close>

text \<open>The tunnel after a sequence of calls of \<open>step\<close>, of which any may have thrown.\<close>

definition attempts ::
  "(bytes \<Rightarrow> bytes) \<Rightarrow> ('s, 'm) OffchainTunnel \<Rightarrow> ('m \<times> Party \<times> StepOptions) list \<Rightarrow> ('s, 'm) OffchainTunnel" where
  "attempts H t ms = foldl (\<lambda>t (m, by1, opts). fst (tunnelStep H t m by1 opts)) t ms"

lemma tunnelStep_sameChannel: "sameChannel t (fst (tunnelStep H t m by1 opts))"
  by (auto simp: tunnelStep_def sameChannel_def Let_def split: sum.splits prod.splits)

lemma attempts_ok:
  assumes "tunnelOk t"
  shows "tunnelOk (attempts H t ms) \<and> sameChannel t (attempts H t ms)"
  using assms
proof (induction ms arbitrary: t)
  case Nil
  then show ?case by (simp add: attempts_def)
next
  case (Cons x ms)
  obtain m by1 opts where x: "x = (m, by1, opts)" by (cases x)
  have "sameChannel t (fst (tunnelStep H t m by1 opts))"
    by (rule tunnelStep_sameChannel)
  with Cons.IH [OF tunnelStep_ok [OF Cons.prems]] x show ?case
    by (auto simp: attempts_def intro: sameChannel_trans)
qed

text \<open>A step that throws leaves state, nonce and latest update as they were.\<close>

lemma tunnelStep_failed:
  assumes "tunnelStep H t m by1 opts = (t', Inl e)"
  shows "ot_state t' = ot_state t \<and> ot_nonce t' = ot_nonce t \<and> ot_latest t' = ot_latest t"
  using assms by (auto simp: tunnelStep_def Let_def split: sum.splits prod.splits if_splits)

end
