(* ===== verification/Settle_Binary.thy ===== *)
theory Settle_Binary
  imports Offchain_Tunnel Json
begin

section \<open>The binary settlement body (proof/settleBinary.ts, proof/limits.ts)\<close>

text \<open>
  A fixed 229-byte header (version, tunnel id, balances, nonce, timestamp, transcript root, the two
  settlement signatures, entry count) followed by length-prefixed co-signed entries. The lemmas give
  the round trip of body and entry runs, what each decoder rejects, and where they differ.
\<close>

subsection \<open>Definitions\<close>

definition SETTLE_BODY_VERSION :: byte where
  "SETTLE_BODY_VERSION = 1"

definition HEADER_LEN :: nat where
  "HEADER_LEN = 229"

record SettleEntry =
  se_message :: bytes
  se_sigA :: bytes
  se_sigB :: bytes

record SettleBody =
  sb_tunnelId :: string
  sb_partyABalance :: int
  sb_partyBBalance :: int
  sb_finalNonce :: int
  sb_timestamp :: int
  sb_transcriptRoot :: bytes
  sb_sigA :: bytes
  sb_sigB :: bytes
  sb_entries :: "SettleEntry list"

text \<open>\<open>parseInt(s, 16)\<close>; \<open>None\<close> is \<open>NaN\<close>, which a typed array stores as 0.\<close>

definition parseIntHex :: "string \<Rightarrow> int option" where
  "parseIntHex s =
     (let s1 = dropWhile isStrWs s;
          neg = (s1 \<noteq> [] \<and> hd s1 = CHR ''-'');
          s2 = (if s1 \<noteq> [] \<and> (hd s1 = CHR ''-'' \<or> hd s1 = CHR ''+'') then tl s1 else s1);
          s3 = (if take 2 s2 = ''0x'' \<or> take 2 s2 = ''0X'' then drop 2 s2 else s2);
          ds = takeWhile (\<lambda>c. hexVal c \<noteq> None) s3
      in if ds = [] then None
         else
           let v = foldl (\<lambda>n c. 16 * n + int (the (hexVal c))) 0 ds
           in Some (if neg then - v else v))"

definition id32 :: "string \<Rightarrow> bytes" where
  "id32 tunnelId =
     (let h = (if take 2 tunnelId = ''0x'' then drop 2 tunnelId else tunnelId);
          b = padStart 64 (CHR ''0'') h
      in map (\<lambda>i. case parseIntHex (slice b (i * 2) 2) of None \<Rightarrow> 0 | Some v \<Rightarrow> word_of_int v) [0..<32])"

definition u16 :: "nat \<Rightarrow> bytes" where
  "u16 n = beBytes 2 (int n)"

definition u32 :: "nat \<Rightarrow> bytes" where
  "u32 n = beBytes 4 (int n)"

definition encodeEntry :: "SettleEntry \<Rightarrow> bytes list result" where
  "encodeEntry e =
     (if length (se_sigA e) \<noteq> 64 \<or> length (se_sigB e) \<noteq> 64
      then Inl (Error ''entry sigs must be 64 bytes'')
      else Inr [u16 (length (se_message e)), se_message e, se_sigA e, se_sigB e])"

definition encodeSettleBody :: "SettleBody \<Rightarrow> bytes result" where
  "encodeSettleBody b =
     (if length (sb_transcriptRoot b) \<noteq> 32 then Inl (Error ''transcriptRoot must be 32 bytes'')
      else if length (sb_sigA b) \<noteq> 64 \<or> length (sb_sigB b) \<noteq> 64
      then Inl (Error ''settlement sigs must be 64 bytes'')
      else
        bindE (mapE u64ToBeBytes
          [sb_partyABalance b, sb_partyBBalance b, sb_finalNonce b, sb_timestamp b]) (\<lambda>ws.
        bindE (mapE encodeEntry (sb_entries b)) (\<lambda>es.
        Inr (concatBytes
          ([[SETTLE_BODY_VERSION], id32 (sb_tunnelId b)] @ ws @
           [sb_transcriptRoot b, sb_sigA b, sb_sigB b, u32 (length (sb_entries b))] @ concat es)))))"

text \<open>One entry at an offset, its parts cut with \<open>slice\<close> (which clamps at the end of the array).\<close>

definition entryAt :: "bytes \<Rightarrow> nat \<Rightarrow> nat \<Rightarrow> SettleEntry" where
  "entryAt bs off msgLen =
     \<lparr>se_message = slice bs off msgLen, se_sigA = slice bs (off + msgLen) 64,
      se_sigB = slice bs (off + msgLen + 64) 64\<rparr>"

function decodeEntriesFrom :: "bytes \<Rightarrow> nat \<Rightarrow> SettleEntry list result" where
  "decodeEntriesFrom bs off =
     (if off < length bs then
        if off + 2 > length bs then Inl (Error ''truncated entry length prefix'')
        else
          let msgLen = nat (beVal (slice bs off 2))
          in if off + 2 + msgLen + 128 > length bs then Inl (Error ''truncated entry body'')
             else
               bindE (decodeEntriesFrom bs (off + 2 + msgLen + 128)) (\<lambda>es.
               Inr (entryAt bs (off + 2) msgLen # es))
      else Inr [])"
  by pat_completeness auto
termination
  by (relation "measure (\<lambda>(bs, off). length bs - off)") auto

definition decodeSettleEntries :: "bytes \<Rightarrow> SettleEntry list result" where
  "decodeSettleEntries bs = decodeEntriesFrom bs 0"

text \<open>The entry loop of the whole-body decoder: \<open>getUint16\<close> throws past the end, \<open>slice\<close> does not.\<close>

fun decodeEntriesN :: "bytes \<Rightarrow> nat \<Rightarrow> nat \<Rightarrow> SettleEntry list result" where
  "decodeEntriesN bs off 0 = Inr []"
| "decodeEntriesN bs off (Suc n) =
     (if off + 2 > length bs then Inl (RangeError ''Offset is outside the bounds of the DataView'')
      else
        let msgLen = nat (beVal (slice bs off 2))
        in bindE (decodeEntriesN bs (off + 2 + msgLen + 128) n) (\<lambda>es.
           Inr (entryAt bs (off + 2) msgLen # es)))"

definition decodeSettleBody :: "bytes \<Rightarrow> SettleBody result" where
  "decodeSettleBody bs =
     (if length bs < HEADER_LEN then Inl (Error ''settle body too short'')
      else if bs ! 0 \<noteq> SETTLE_BODY_VERSION then Inl (Error ''unexpected settle version'')
      else
        bindE (u64FromBeBytes bs 33) (\<lambda>a.
        bindE (u64FromBeBytes bs 41) (\<lambda>b.
        bindE (u64FromBeBytes bs 49) (\<lambda>finalNonce.
        bindE (u64FromBeBytes bs 57) (\<lambda>timestamp.
        bindE (decodeEntriesN bs HEADER_LEN (nat (beVal (slice bs 225 4)))) (\<lambda>entries.
        Inr \<lparr>sb_tunnelId = ''0x'' @ toHex (slice bs 1 32), sb_partyABalance = a,
             sb_partyBBalance = b, sb_finalNonce = finalNonce, sb_timestamp = timestamp,
             sb_transcriptRoot = slice bs 65 32, sb_sigA = slice bs 97 64,
             sb_sigB = slice bs 161 64, sb_entries = entries\<rparr>))))))"

definition MAX_MOVES_PER_TUNNEL :: nat where
  "MAX_MOVES_PER_TUNNEL = 100000"

definition shouldRotateTunnel :: "nat \<Rightarrow> bool" where
  "shouldRotateTunnel updateCount = (updateCount \<ge> MAX_MOVES_PER_TUNNEL)"

subsection \<open>Tunnel identifiers\<close>

lemma hexDigit_plain:
  assumes "n < 16"
  shows "\<not> isStrWs (hexDigit n)" "hexDigit n \<noteq> CHR ''-''" "hexDigit n \<noteq> CHR ''+''"
    "hexDigit n \<noteq> CHR ''x''" "hexDigit n \<noteq> CHR ''X''"
proof -
  have n: "(of_char (hexDigit n) :: nat) = (if n < 10 then 48 + n else 87 + n)"
    by (rule of_char_hexDigit [OF assms])
  then show "\<not> isStrWs (hexDigit n)" using assms by (auto simp: isStrWs_def)
  have ne: "hexDigit n \<noteq> c" if "of_char c \<noteq> (of_char (hexDigit n) :: nat)" for c
    using that by auto
  show "hexDigit n \<noteq> CHR ''-''" "hexDigit n \<noteq> CHR ''+''" "hexDigit n \<noteq> CHR ''x''" "hexDigit n \<noteq> CHR ''X''"
    using assms by (intro ne; simp add: n)+
qed

lemma parseIntHex_HEX:
  assumes "n < 256"
  shows "parseIntHex (HEX n) = Some (int n)"
proof -
  have d: "n div 16 < 16" "n mod 16 < 16" using assms by (auto simp: div_less_iff_less_mult)
  have "int n = 16 * int (n div 16) + int (n mod 16)"
    by (metis mult_div_mod_eq of_nat_add of_nat_mult of_nat_numeral)
  then show ?thesis
    using d hexDigit_plain [OF d(1)] hexDigit_plain [OF d(2)]
    by (simp add: parseIntHex_def HEX_def Let_def)
qed

lemma slice_toHex: "i < length t \<Longrightarrow> slice (toHex t) (i * 2) 2 = HEX (unat (t ! i))"
proof (induction t arbitrary: i)
  case (Cons b t)
  then show ?case
    by (cases i) (auto simp: slice_def HEX_def numeral_2_eq_2)
qed simp

lemma id32_canonical: "length t = 32 \<Longrightarrow> id32 (canonicalAddress t) = t"
proof -
  assume t: "length t = 32"
  have "id32 (canonicalAddress t) =
      map (\<lambda>i. case parseIntHex (slice (toHex t) (i * 2) 2) of None \<Rightarrow> 0 | Some v \<Rightarrow> word_of_int v) [0..<32]"
    using t by (simp add: id32_def canonicalAddress_def padStart_def)
  also have "\<dots> = map ((!) t) [0..<32]"
    using t unat_byte_lt by (intro map_cong refl) (simp add: slice_toHex parseIntHex_HEX)
  finally show ?thesis
    using t map_nth [of t] by simp
qed

lemma length_id32 [simp]: "length (id32 x) = 32"
  by (simp add: id32_def Let_def)

subsection \<open>Round trips\<close>

definition entryBytes :: "SettleEntry \<Rightarrow> bytes" where
  "entryBytes e = beBytes 2 (int (length (se_message e))) @ se_message e @ se_sigA e @ se_sigB e"

text \<open>An entry the format can hold: both signatures of 64 bytes, the message length in 16 bits.\<close>

definition entryOk :: "SettleEntry \<Rightarrow> bool" where
  "entryOk e \<longleftrightarrow> length (se_sigA e) = 64 \<and> length (se_sigB e) = 64 \<and> length (se_message e) < 65536"

lemma mapE_encodeEntry:
  "mapE encodeEntry es = Inr ps \<Longrightarrow>
   list_all (\<lambda>e. length (se_sigA e) = 64 \<and> length (se_sigB e) = 64) es \<and>
   concat (concat ps) = concat (map entryBytes es)"
  by (induction es arbitrary: ps)
    (auto simp: result_simps encodeEntry_def entryBytes_def u16_def split: if_splits)

lemma mapE_encodeEntry_ok: "list_all entryOk es \<Longrightarrow> \<exists>ps. mapE encodeEntry es = Inr ps"
  by (induction es) (auto simp: encodeEntry_def entryOk_def)

lemma slice_mid:
  "length pre = o1 \<Longrightarrow> length x = n \<Longrightarrow> slice (pre @ x @ post) o1 n = x"
  by (simp add: slice_def)

text \<open>Reading one entry from the middle of an array.\<close>

lemma entry_read:
  assumes e: "entryOk e" and pre: "length pre = off" and bs: "bs = pre @ entryBytes e @ post"
  shows "nat (beVal (slice bs off 2)) = length (se_message e)"
    "entryAt bs (off + 2) (length (se_message e)) = e"
    "off + 2 + length (se_message e) + 128 \<le> length bs"
proof -
  let ?l = "length (se_message e)"
  have v: "beVal (beBytes 2 (int ?l)) = int ?l"
    using e by (intro beVal_beBytes) (auto simp: entryOk_def)
  have s: "slice bs off 2 = beBytes 2 (int ?l)"
    using pre bs slice_mid [of pre off "beBytes 2 (int ?l)" 2] by (simp add: entryBytes_def)
  show "nat (beVal (slice bs off 2)) = ?l" by (simp add: s v)
  have "slice bs (off + 2) ?l = se_message e"
    using slice_mid [of "pre @ beBytes 2 (int ?l)" "off + 2" "se_message e" ?l] pre bs
    by (simp add: entryBytes_def)
  moreover have "slice bs (off + 2 + ?l) 64 = se_sigA e"
    using slice_mid [of "pre @ beBytes 2 (int ?l) @ se_message e" "off + 2 + ?l" "se_sigA e" 64] pre bs e
    by (simp add: entryBytes_def entryOk_def)
  moreover have "slice bs (off + 2 + ?l + 64) 64 = se_sigB e"
    using slice_mid [of "pre @ beBytes 2 (int ?l) @ se_message e @ se_sigA e" "off + 2 + ?l + 64" "se_sigB e" 64]
      pre bs e
    by (simp add: entryBytes_def entryOk_def)
  ultimately show "entryAt bs (off + 2) ?l = e"
    by (simp add: entryAt_def)
  show "off + 2 + ?l + 128 \<le> length bs"
    using e pre bs by (simp add: entryBytes_def entryOk_def)
qed

lemma length_entryBytes: "entryOk e \<Longrightarrow> length (entryBytes e) = 2 + length (se_message e) + 128"
  by (simp add: entryBytes_def entryOk_def)

declare decodeEntriesFrom.simps [simp del]

lemma decodeEntriesFrom_entries:
  "list_all entryOk es \<Longrightarrow> length pre = off \<Longrightarrow>
   decodeEntriesFrom (pre @ concat (map entryBytes es)) off = Inr es"
proof (induction es arbitrary: pre off)
  case Nil
  then show ?case by (simp add: decodeEntriesFrom.simps)
next
  case (Cons e es)
  let ?bs = "pre @ entryBytes e @ concat (map entryBytes es)"
  have e: "entryOk e" using Cons.prems(1) by simp
  note r = entry_read [OF e Cons.prems(2) refl, of "concat (map entryBytes es)"]
  have "decodeEntriesFrom ((pre @ entryBytes e) @ concat (map entryBytes es))
      (off + 2 + length (se_message e) + 128) = Inr es"
    by (rule Cons.IH) (use Cons.prems in \<open>auto simp: length_entryBytes\<close>)
  then have "decodeEntriesFrom ?bs (off + 2 + length (se_message e) + 128) = Inr es" by simp
  then have "decodeEntriesFrom ?bs off = Inr (e # es)"
    using r by (subst decodeEntriesFrom.simps) (simp add: Let_def)
  then show ?case by simp
qed

lemma decodeEntriesN_entries:
  "list_all entryOk es \<Longrightarrow> length pre = off \<Longrightarrow>
   decodeEntriesN (pre @ concat (map entryBytes es) @ post) off (length es) = Inr es"
proof (induction es arbitrary: pre off)
  case Nil
  then show ?case by simp
next
  case (Cons e es)
  let ?bs = "pre @ entryBytes e @ concat (map entryBytes es) @ post"
  have e: "entryOk e" using Cons.prems(1) by simp
  note r = entry_read [OF e Cons.prems(2) refl, of "concat (map entryBytes es) @ post"]
  have "decodeEntriesN ((pre @ entryBytes e) @ concat (map entryBytes es) @ post)
      (off + 2 + length (se_message e) + 128) (length es) = Inr es"
    by (rule Cons.IH) (use Cons.prems in \<open>auto simp: length_entryBytes\<close>)
  then have "decodeEntriesN ?bs (off + 2 + length (se_message e) + 128) (length es) = Inr es" by simp
  then have "decodeEntriesN ?bs off (Suc (length es)) = Inr (e # es)"
    using r by (simp add: Let_def)
  then show ?case by simp
qed

text \<open>The header of a body, field by field.\<close>

definition bodyHeader :: "SettleBody \<Rightarrow> bytes list" where
  "bodyHeader b = [[SETTLE_BODY_VERSION], id32 (sb_tunnelId b), beBytes 8 (sb_partyABalance b),
     beBytes 8 (sb_partyBBalance b), beBytes 8 (sb_finalNonce b), beBytes 8 (sb_timestamp b),
     sb_transcriptRoot b, sb_sigA b, sb_sigB b, beBytes 4 (int (length (sb_entries b)))]"

definition bodyOk :: "SettleBody \<Rightarrow> bool" where
  "bodyOk b \<longleftrightarrow> list_all u64 [sb_partyABalance b, sb_partyBBalance b, sb_finalNonce b, sb_timestamp b] \<and>
     length (sb_transcriptRoot b) = 32 \<and> length (sb_sigA b) = 64 \<and> length (sb_sigB b) = 64"

lemma encodeSettleBody_Inr:
  assumes "encodeSettleBody b = Inr bs"
  shows "bodyOk b" "list_all (\<lambda>e. length (se_sigA e) = 64 \<and> length (se_sigB e) = 64) (sb_entries b)"
    "bs = concat (bodyHeader b) @ concat (map entryBytes (sb_entries b))"
proof -
  obtain ws es where ws: "mapE u64ToBeBytes [sb_partyABalance b, sb_partyBBalance b, sb_finalNonce b, sb_timestamp b] = Inr ws"
    and es: "mapE encodeEntry (sb_entries b) = Inr es"
    and l: "length (sb_transcriptRoot b) = 32" "length (sb_sigA b) = 64" "length (sb_sigB b) = 64"
    and bs: "bs = concat ([[SETTLE_BODY_VERSION], id32 (sb_tunnelId b)] @ ws @
           [sb_transcriptRoot b, sb_sigA b, sb_sigB b, u32 (length (sb_entries b))] @ concat es)"
    using assms by (auto simp: encodeSettleBody_def bindE_eq_Inr simp del: mapE.simps split: if_splits)
  have w: "list_all u64 [sb_partyABalance b, sb_partyBBalance b, sb_finalNonce b, sb_timestamp b]"
    "ws = map (beBytes 8) [sb_partyABalance b, sb_partyBBalance b, sb_finalNonce b, sb_timestamp b]"
    using ws by (simp_all only: mapE_u64_Inr_iff)
  show "bodyOk b" using l w(1) by (simp add: bodyOk_def)
  show "list_all (\<lambda>e. length (se_sigA e) = 64 \<and> length (se_sigB e) = 64) (sb_entries b)"
    "bs = concat (bodyHeader b) @ concat (map entryBytes (sb_entries b))"
    using mapE_encodeEntry [OF es] bs w(2) by (simp_all add: bodyHeader_def u32_def)
qed

lemma encodeSettleBody_ok:
  assumes "bodyOk b" "list_all entryOk (sb_entries b)"
  shows "encodeSettleBody b = Inr (concat (bodyHeader b) @ concat (map entryBytes (sb_entries b)))"
proof -
  obtain es where es: "mapE encodeEntry (sb_entries b) = Inr es"
    using mapE_encodeEntry_ok [OF assms(2)] by blast
  then have "\<exists>bs. encodeSettleBody b = Inr bs"
    using assms(1) by (auto simp: encodeSettleBody_def bodyOk_def)
  with encodeSettleBody_Inr(3) show ?thesis by blast
qed

lemma decodeSettleBody_layout:
  assumes b: "bodyOk b" and es: "list_all entryOk (sb_entries b)" and n: "length (sb_entries b) < 2 ^ 32"
  shows "decodeSettleBody (concat (bodyHeader b) @ concat (map entryBytes (sb_entries b)) @ post) =
    Inr (b\<lparr>sb_tunnelId := canonicalAddress (id32 (sb_tunnelId b))\<rparr>)"
proof -
  let ?h = "concat (bodyHeader b)" and ?r = "concat (map entryBytes (sb_entries b)) @ post"
  have len: "length ?h = 229"
    using b by (simp add: bodyHeader_def bodyOk_def)
  have cnt: "beVal (beBytes 4 (int (length (sb_entries b)))) = int (length (sb_entries b))"
    using n by (intro beVal_beBytes) auto
  have u: "u64 (sb_partyABalance b)" "u64 (sb_partyBBalance b)" "u64 (sb_finalNonce b)" "u64 (sb_timestamp b)"
    using b by (simp_all add: bodyOk_def)
  have s: "slice (?h @ ?r) 1 32 = id32 (sb_tunnelId b)"
    "slice (?h @ ?r) 33 8 = beBytes 8 (sb_partyABalance b)" "slice (?h @ ?r) 41 8 = beBytes 8 (sb_partyBBalance b)"
    "slice (?h @ ?r) 49 8 = beBytes 8 (sb_finalNonce b)" "slice (?h @ ?r) 57 8 = beBytes 8 (sb_timestamp b)"
    "slice (?h @ ?r) 65 32 = sb_transcriptRoot b" "slice (?h @ ?r) 97 64 = sb_sigA b"
    "slice (?h @ ?r) 161 64 = sb_sigB b" "slice (?h @ ?r) 225 4 = beBytes 4 (int (length (sb_entries b)))"
    "(?h @ ?r) ! 0 = SETTLE_BODY_VERSION"
    using b by (simp_all add: bodyHeader_def bodyOk_def slice_def)
  have e: "decodeEntriesN (?h @ ?r) 229 (length (sb_entries b)) = Inr (sb_entries b)"
    using decodeEntriesN_entries [OF es len] by simp
  show ?thesis
    unfolding decodeSettleBody_def HEADER_LEN_def u64FromBeBytes_def
    using s u e cnt len by (simp add: canonicalAddress_def)
qed

subsection \<open>Properties of the settlement body\<close>

text \<open>C23. The settlement body round-trips: what the encoder accepts (with messages and counts that fit their
  length fields) is decoded to the same fields and entries, the tunnel id in canonical form, and the
  entries part alone is decoded to the same entries by the archive decoder.\<close>

theorem settleBody_round_trip:
  assumes "encodeSettleBody b = Inr bs" "list_all (\<lambda>e. length (se_message e) < 65536) (sb_entries b)"
    and "length (sb_entries b) < 2 ^ 32"
  shows "decodeSettleBody bs = Inr (b\<lparr>sb_tunnelId := ''0x'' @ toHex (id32 (sb_tunnelId b))\<rparr>) \<and>
    decodeSettleEntries (drop HEADER_LEN bs) = Inr (sb_entries b)"
proof -
  note e = encodeSettleBody_Inr [OF assms(1)]
  have ok: "list_all entryOk (sb_entries b)"
    using e(2) assms(2) by (auto simp: list_all_iff entryOk_def)
  have len: "length (concat (bodyHeader b)) = HEADER_LEN"
    using e(1) by (simp add: bodyHeader_def bodyOk_def HEADER_LEN_def byte_len)
  then have "drop HEADER_LEN bs = concat (map entryBytes (sb_entries b))"
    unfolding e(3) by simp
  then show ?thesis
    using decodeSettleBody_layout [OF e(1) ok assms(3), of "[]"] decodeEntriesFrom_entries [OF ok, of "[]" 0] e(3)
    by (simp add: decodeSettleEntries_def canonicalAddress_def)
qed

definition exampleBody :: SettleBody where
  "exampleBody = \<lparr>sb_tunnelId = canonicalAddress (replicate 32 5), sb_partyABalance = 40, sb_partyBBalance = 60,
     sb_finalNonce = 1, sb_timestamp = 9, sb_transcriptRoot = replicate 32 1, sb_sigA = replicate 64 2,
     sb_sigB = replicate 64 3,
     sb_entries = [\<lparr>se_message = [7], se_sigA = replicate 64 4, se_sigB = replicate 64 5\<rparr>]\<rparr>"

lemma exampleBody_ok: "bodyOk exampleBody" "list_all entryOk (sb_entries exampleBody)"
  by (simp_all add: bodyOk_def exampleBody_def entryOk_def u64_def)

theorem settleBody_round_trip_witness:
  "\<exists>bs. encodeSettleBody exampleBody = Inr bs \<and> decodeSettleBody bs = Inr exampleBody"
proof -
  note e = encodeSettleBody_ok [OF exampleBody_ok]
  have "exampleBody\<lparr>sb_tunnelId := ''0x'' @ toHex (id32 (sb_tunnelId exampleBody))\<rparr> = exampleBody"
    by (simp add: exampleBody_def id32_canonical) (simp add: canonicalAddress_def)
  then show ?thesis
    using settleBody_round_trip [OF e] e exampleBody_ok(2) by (auto simp: entryOk_def list_all_iff exampleBody_def)
qed

text \<open>The two decoders disagree on truncated entries. A body whose header announces one entry and that
  ends right after the entry's length field is accepted by the body decoder, with an entry of empty
  message and empty signatures; the archive decoder rejects the same entry bytes.\<close>

lemma decodeSettleBody_accepts_truncated_entry:
  assumes "bodyOk b" "length (sb_entries b) = 1"
  shows "\<exists>b'. decodeSettleBody (concat (bodyHeader b) @ [0, 0]) = Inr b' \<and>
    sb_entries b' = [\<lparr>se_message = [], se_sigA = [], se_sigB = []\<rparr>] \<and>
    decodeSettleEntries [0, 0] = Inl (Error ''truncated entry body'')"
proof -
  let ?h = "concat (bodyHeader b)"
  have len: "length ?h = 229"
    using assms(1) by (simp add: bodyHeader_def bodyOk_def byte_len)
  have v: "(?h @ [0, 0]) ! 0 = SETTLE_BODY_VERSION" by (simp add: bodyHeader_def)
  have cnt: "slice (?h @ [0, 0]) 225 4 = beBytes 4 1"
    using slice_mid [of "concat (butlast (bodyHeader b))" 225 "beBytes 4 1" 4 "[0, 0]"] assms
    by (simp add: bodyHeader_def bodyOk_def byte_len)
  have bv: "beVal (beBytes 4 1) = 1" by code_simp
  have zv: "beVal [0, 0] = 0" by code_simp
  have u: "\<exists>w. u64FromBeBytes (?h @ [0, 0]) k = Inr w" if "0 \<le> k" "k \<le> 57" for k
    using len that by (simp add: u64FromBeBytes_def)
  have n: "decodeEntriesN (?h @ [0, 0]) HEADER_LEN (nat (beVal (slice (?h @ [0, 0]) 225 4))) =
      Inr [\<lparr>se_message = [], se_sigA = [], se_sigB = []\<rparr>]"
    unfolding cnt bv using len by (simp add: HEADER_LEN_def zv entryAt_def slice_def)
  obtain w1 w2 w3 w4 where w: "u64FromBeBytes (?h @ [0, 0]) 33 = Inr w1" "u64FromBeBytes (?h @ [0, 0]) 41 = Inr w2"
    "u64FromBeBytes (?h @ [0, 0]) 49 = Inr w3" "u64FromBeBytes (?h @ [0, 0]) 57 = Inr w4"
    using u [of 33] u [of 41] u [of 49] u [of 57] by auto
  have e: "decodeSettleEntries [0, 0] = Inl (Error ''truncated entry body'')"
    by (simp add: decodeSettleEntries_def decodeEntriesFrom.simps slice_def zv)
  show ?thesis
    unfolding decodeSettleBody_def using len v w n e by (simp add: HEADER_LEN_def)
qed

end
