(* ===== verification/Transcript.thy ===== *)
theory Transcript
  imports Settle_Binary Sample_Hash
begin

section \<open>Proof-of-existence transcripts (proof/transcript.ts)\<close>

text \<open>
  A transcript collects the co-signed updates of a tunnel and commits to them with a Merkle root that
  both parties sign at close; the verifier replays a stored transcript against the anchored root.

  The lemmas show that the root binds the whole list of entries (order, count and content) unless the
  hash function has a collision among the inputs hashed, what an accepting verification guarantees,
  and that an honest transcript is accepted.
\<close>

subsection \<open>Leaves and the Merkle root\<close>

definition LEAF :: bytes where
  "LEAF = asciiBytes ''sui_tunnel::transcript::leaf''"

definition NODE :: bytes where
  "NODE = asciiBytes ''sui_tunnel::transcript::node''"

definition ZERO32 :: bytes where
  "ZERO32 = replicate 32 0"

record TranscriptEntry =
  te_nonce :: int
  te_message :: bytes
  te_sigA :: bytes
  te_sigB :: bytes

definition transcriptLeaf :: "(bytes \<Rightarrow> bytes) \<Rightarrow> TranscriptEntry \<Rightarrow> bytes" where
  "transcriptLeaf H e = H (concatBytes [LEAF, te_message e, te_sigA e, te_sigB e])"

text \<open>One pass of the loop over a level of even length, for any way \<open>nd\<close> of joining two nodes.\<close>

fun joinPairs :: "('a \<Rightarrow> 'a \<Rightarrow> 'a) \<Rightarrow> 'a list \<Rightarrow> 'a list" where
  "joinPairs nd (x # y # r) = nd x y # joinPairs nd r"
| "joinPairs nd _ = []"

definition padLevel :: "'a \<Rightarrow> 'a list \<Rightarrow> 'a list" where
  "padLevel zero level = (if length level mod 2 = 1 then level @ [zero] else level)"

lemma length_joinPairs [simp]: "length (joinPairs nd xs) = length xs div 2"
  by (induction nd xs rule: joinPairs.induct) auto

lemma length_padLevel: "length (padLevel z xs) = (length xs + length xs mod 2)"
  by (auto simp: padLevel_def)

function merkleLoop :: "('a \<Rightarrow> 'a \<Rightarrow> 'a) \<Rightarrow> 'a \<Rightarrow> 'a list \<Rightarrow> 'a list" where
  "merkleLoop nd zero level =
     (if length level > 1 then merkleLoop nd zero (joinPairs nd (padLevel zero level)) else level)"
  by pat_completeness auto
termination
proof (relation "measure (\<lambda>(nd, zero, level). length level)", goal_cases)
  case (2 nd zero level)
  then have "(length level + length level mod 2) div 2 < length level" by presburger
  then show ?case by (simp add: length_padLevel)
qed simp

declare merkleLoop.simps [simp del]

definition hashNode :: "(bytes \<Rightarrow> bytes) \<Rightarrow> bytes \<Rightarrow> bytes \<Rightarrow> bytes" where
  "hashNode H x y = H (concatBytes [NODE, x, y])"

definition transcriptRoot :: "(bytes \<Rightarrow> bytes) \<Rightarrow> bytes list \<Rightarrow> bytes" where
  "transcriptRoot H leaves =
     (if leaves = [] then ZERO32 else hd (merkleLoop (hashNode H) ZERO32 leaves))"

subsection \<open>Verification\<close>

record PartyKey =
  pk_publicKey :: bytes
  pk_scheme :: int

record VerifyParams =
  vp_partyA :: PartyKey
  vp_partyB :: PartyKey
  vp_onchainRoot :: string
  vp_lockedTotal :: "int option"

record VerifyStep =
  vs_nonce :: int
  vs_sigAValid :: bool
  vs_sigBValid :: bool
  vs_partyABalance :: int
  vs_partyBBalance :: int

record TranscriptVerification =
  tv_ok :: bool
  tv_rootMatches :: bool
  tv_allSigsValid :: bool
  tv_nonceMonotonic :: bool
  tv_balancesConserved :: bool
  tv_stepCount :: nat
  tv_steps :: "VerifyStep list"
  tv_failures :: "string list"

definition toLowerCase :: "string \<Rightarrow> string" where
  "toLowerCase s = map (\<lambda>c. if 65 \<le> (of_char c :: nat) \<and> (of_char c :: nat) \<le> 90
     then char_of ((of_char c :: nat) + 32) else c) s"

definition normRoot :: "string \<Rightarrow> string" where
  "normRoot hex =
     (let h = (if take 2 hex = ''0x'' \<or> take 2 hex = ''0X'' then drop 2 hex else hex)
      in toLowerCase h)"

text \<open>The variables of the verification loop.\<close>

record VerifyLoop =
  vl_allSigsValid :: bool
  vl_nonceMonotonic :: bool
  vl_balancesConserved :: bool
  vl_prevNonce :: "int option"
  vl_total :: "int option"
  vl_leaves :: "bytes list"
  vl_steps :: "VerifyStep list"

definition verifyStep ::
  "(bytes \<Rightarrow> bytes) \<Rightarrow> (bytes \<Rightarrow> bytes \<Rightarrow> bytes \<Rightarrow> bool) \<Rightarrow> VerifyParams \<Rightarrow> SettleEntry \<Rightarrow> VerifyLoop \<Rightarrow>
   VerifyLoop result" where
  "verifyStep H edVerify params e l =
     bindE (parseStateUpdate (se_message e)) (\<lambda>su.
     let sigAValid = edVerify (se_sigA e) (se_message e) (pk_publicKey (vp_partyA params));
         sigBValid = edVerify (se_sigB e) (se_message e) (pk_publicKey (vp_partyB params));
         sum = su_partyABalance su + su_partyBBalance su
     in Inr
       \<lparr>vl_allSigsValid = (if \<not> sigAValid \<or> \<not> sigBValid then False else vl_allSigsValid l),
        vl_nonceMonotonic =
          (case vl_prevNonce l of
             Some p \<Rightarrow> if su_nonce su \<le> p then False else vl_nonceMonotonic l
           | None \<Rightarrow> vl_nonceMonotonic l),
        vl_balancesConserved =
          (case vl_total l of
             None \<Rightarrow> vl_balancesConserved l
           | Some t \<Rightarrow> if sum \<noteq> t then False else vl_balancesConserved l),
        vl_prevNonce = Some (su_nonce su),
        vl_total = (case vl_total l of None \<Rightarrow> Some sum | Some t \<Rightarrow> Some t),
        vl_leaves = vl_leaves l @ [transcriptLeaf H
          \<lparr>te_nonce = su_nonce su, te_message = se_message e, te_sigA = se_sigA e, te_sigB = se_sigB e\<rparr>],
        vl_steps = vl_steps l @
          [\<lparr>vs_nonce = su_nonce su, vs_sigAValid = sigAValid, vs_sigBValid = sigBValid,
            vs_partyABalance = su_partyABalance su, vs_partyBBalance = su_partyBBalance su\<rparr>]\<rparr>)"

fun verifyLoop ::
  "(bytes \<Rightarrow> bytes) \<Rightarrow> (bytes \<Rightarrow> bytes \<Rightarrow> bytes \<Rightarrow> bool) \<Rightarrow> VerifyParams \<Rightarrow> SettleEntry list \<Rightarrow> VerifyLoop \<Rightarrow>
   VerifyLoop result" where
  "verifyLoop H edVerify params [] l = Inr l"
| "verifyLoop H edVerify params (e # es) l =
     bindE (verifyStep H edVerify params e l) (verifyLoop H edVerify params es)"

definition verifyLoopStart :: "VerifyParams \<Rightarrow> VerifyLoop" where
  "verifyLoopStart params =
     \<lparr>vl_allSigsValid = True, vl_nonceMonotonic = True, vl_balancesConserved = True,
      vl_prevNonce = None, vl_total = vp_lockedTotal params, vl_leaves = [], vl_steps = []\<rparr>"

definition verifyEntries ::
  "(bytes \<Rightarrow> bytes) \<Rightarrow> (bytes \<Rightarrow> bytes \<Rightarrow> bytes \<Rightarrow> bool) \<Rightarrow> SettleEntry list \<Rightarrow> VerifyParams \<Rightarrow> string option \<Rightarrow>
   TranscriptVerification result" where
  "verifyEntries H edVerify entries params bodyHeaderRoot =
     (if pk_scheme (vp_partyA params) \<noteq> ED25519 \<or> pk_scheme (vp_partyB params) \<noteq> ED25519
      then Inl (Error ''verifyTranscript currently supports ed25519 only'')
      else
        bindE (verifyLoop H edVerify params entries (verifyLoopStart params)) (\<lambda>l.
        let recomputed = toHex (transcriptRoot H (vl_leaves l));
            rootMatches = (recomputed = normRoot (vp_onchainRoot params) \<and>
              (case bodyHeaderRoot of None \<Rightarrow> True | Some r \<Rightarrow> recomputed = normRoot r));
            failures =
              (if \<not> rootMatches then [''merkle root does not match the on-chain anchor''] else []) @
              (if \<not> vl_allSigsValid l then [''one or more dual signatures are invalid''] else []) @
              (if \<not> vl_nonceMonotonic l then [''nonces are not strictly increasing''] else []) @
              (if \<not> vl_balancesConserved l then [''balance conservation violated''] else [])
        in Inr
          \<lparr>tv_ok = (rootMatches \<and> vl_allSigsValid l \<and> vl_nonceMonotonic l \<and> vl_balancesConserved l),
           tv_rootMatches = rootMatches, tv_allSigsValid = vl_allSigsValid l,
           tv_nonceMonotonic = vl_nonceMonotonic l, tv_balancesConserved = vl_balancesConserved l,
           tv_stepCount = length entries, tv_steps = vl_steps l, tv_failures = failures\<rparr>))"

definition verifyTranscript ::
  "(bytes \<Rightarrow> bytes) \<Rightarrow> (bytes \<Rightarrow> bytes \<Rightarrow> bytes \<Rightarrow> bool) \<Rightarrow> bytes \<Rightarrow> VerifyParams \<Rightarrow>
   TranscriptVerification result" where
  "verifyTranscript H edVerify blob params =
     bindE (decodeSettleBody blob) (\<lambda>decoded.
     verifyEntries H edVerify (sb_entries decoded) params (Some (toHex (sb_transcriptRoot decoded))))"

definition verifyTranscriptEntries ::
  "(bytes \<Rightarrow> bytes) \<Rightarrow> (bytes \<Rightarrow> bytes \<Rightarrow> bytes \<Rightarrow> bool) \<Rightarrow> bytes \<Rightarrow> VerifyParams \<Rightarrow>
   TranscriptVerification result" where
  "verifyTranscriptEntries H edVerify entriesBlob params =
     bindE (decodeSettleEntries entriesBlob) (\<lambda>entries.
     verifyEntries H edVerify entries params None)"

subsection \<open>The accumulator\<close>

record TranscriptAcc =
  tr_tunnelId :: string
  tr_entries :: "TranscriptEntry list"
  tr_leaves :: "bytes list"

definition newTranscript :: "string \<Rightarrow> TranscriptAcc" where
  "newTranscript tunnelId = \<lparr>tr_tunnelId = tunnelId, tr_entries = [], tr_leaves = []\<rparr>"

definition appendUpdate ::
  "(bytes \<Rightarrow> bytes) \<Rightarrow> TranscriptAcc \<Rightarrow> CoSignedUpdate \<Rightarrow> TranscriptAcc result" where
  "appendUpdate H t u =
     bindE (serializeStateUpdate (cu_update u)) (\<lambda>msg.
     let e = \<lparr>te_nonce = su_nonce (cu_update u), te_message = msg, te_sigA = cu_sigA u, te_sigB = cu_sigB u\<rparr>
     in Inr (t\<lparr>tr_entries := tr_entries t @ [e], tr_leaves := tr_leaves t @ [transcriptLeaf H e]\<rparr>))"

definition rawEntries :: "TranscriptAcc \<Rightarrow> TranscriptEntry list" where
  "rawEntries t = tr_entries t"

definition transcriptRootOf :: "(bytes \<Rightarrow> bytes) \<Rightarrow> TranscriptAcc \<Rightarrow> bytes" where
  "transcriptRootOf H t = transcriptRoot H (tr_leaves t)"

record RecordEntry =
  re_nonce :: string
  re_message :: string
  re_sigA :: string
  re_sigB :: string

record ProofRecord =
  pr_tunnelId :: string
  pr_root :: string
  pr_updateCount :: nat
  pr_finalBalances :: "(string \<times> string) option"
  pr_closedAtMs :: "int option"
  pr_entries :: "RecordEntry list"

definition toRecord ::
  "(bytes \<Rightarrow> bytes) \<Rightarrow> TranscriptAcc \<Rightarrow> Balances option \<Rightarrow> int option \<Rightarrow> ProofRecord" where
  "toRecord H t finalBalances closedAtMs =
     \<lparr>pr_tunnelId = tr_tunnelId t, pr_root = toHex (transcriptRootOf H t),
      pr_updateCount = length (tr_entries t),
      pr_finalBalances = map_option (\<lambda>b. (toStringInt (bal_a b), toStringInt (bal_b b))) finalBalances,
      pr_closedAtMs = closedAtMs,
      pr_entries = map (\<lambda>e. \<lparr>re_nonce = toStringInt (te_nonce e), re_message = toHex (te_message e),
        re_sigA = toHex (te_sigA e), re_sigB = toHex (te_sigB e)\<rparr>) (tr_entries t)\<rparr>"

subsection \<open>Merkle trees\<close>

text \<open>The tree a root computation builds: leaves carry the bytes hashed after the leaf domain.\<close>

datatype mtree = MLeaf bytes | MZero | MNode mtree mtree

fun treeVal :: "(bytes \<Rightarrow> bytes) \<Rightarrow> mtree \<Rightarrow> bytes" where
  "treeVal H (MLeaf b) = H (LEAF @ b)"
| "treeVal H MZero = ZERO32"
| "treeVal H (MNode x y) = hashNode H (treeVal H x) (treeVal H y)"

text \<open>Every input given to the hash function while evaluating a tree.\<close>

fun treeInputs :: "(bytes \<Rightarrow> bytes) \<Rightarrow> mtree \<Rightarrow> bytes set" where
  "treeInputs H (MLeaf b) = {LEAF @ b}"
| "treeInputs H MZero = {}"
| "treeInputs H (MNode x y) =
     insert (NODE @ treeVal H x @ treeVal H y) (treeInputs H x \<union> treeInputs H y)"

lemma LEAF_neq_NODE [simp]: "LEAF @ x \<noteq> NODE @ y"
proof -
  have "LEAF ! 24 \<noteq> NODE ! 24" by (simp add: LEAF_def NODE_def asciiBytes_def)
  moreover have "length LEAF = 28" "length NODE = 28" by (simp_all add: LEAF_def NODE_def)
  ultimately show ?thesis by (metis append_eq_append_conv)
qed

lemma length_treeVal: "(\<And>x. length (H x) = 32) \<Longrightarrow> length (treeVal H t) = 32"
  by (cases t) (auto simp: ZERO32_def hashNode_def)

text \<open>Without collisions among the hashed inputs, and with no input hashing to the zero padding, a
  value determines its tree.\<close>

lemma treeVal_inj:
  assumes len: "\<And>x. length (H x) = 32"
    and inj: "inj_on H (treeInputs H t \<union> treeInputs H t')"
    and nz: "\<forall>x \<in> treeInputs H t \<union> treeInputs H t'. H x \<noteq> ZERO32"
    and eq: "treeVal H t = treeVal H t'"
  shows "t = t'"
  using inj nz eq
proof (induction t arbitrary: t')
  case (MLeaf b)
  show ?case
  proof (cases t')
    case (MLeaf b')
    have "LEAF @ b = LEAF @ b'"
      by (rule inj_onD [OF MLeaf.prems(1)]) (use MLeaf.prems(3) MLeaf in auto)
    with MLeaf show ?thesis by simp
  next
    case MZero
    then show ?thesis using MLeaf.prems(2,3) by auto
  next
    case (MNode x y)
    have "LEAF @ b = NODE @ treeVal H x @ treeVal H y"
      by (rule inj_onD [OF MLeaf.prems(1)]) (use MLeaf.prems(3) MNode in \<open>auto simp: hashNode_def\<close>)
    then show ?thesis by simp
  qed
next
  case MZero
  then show ?case
    by (cases t') (auto simp: hashNode_def)
next
  case (MNode x y)
  show ?case
  proof (cases t')
    case (MNode x' y')
    have "NODE @ treeVal H x @ treeVal H y = NODE @ treeVal H x' @ treeVal H y'"
      by (rule inj_onD [OF MNode.prems(1)]) (use MNode.prems(3) MNode in \<open>auto simp: hashNode_def\<close>)
    then have e: "treeVal H x = treeVal H x'" "treeVal H y = treeVal H y'"
      using length_treeVal [OF len] by auto
    have "x = x'"
      by (rule MNode.IH(1) [OF _ _ e(1)])
        (use MNode.prems(2) MNode in \<open>auto intro: inj_on_subset [OF MNode.prems(1)]\<close>)
    moreover have "y = y'"
      by (rule MNode.IH(2) [OF _ _ e(2)])
        (use MNode.prems(2) MNode in \<open>auto intro: inj_on_subset [OF MNode.prems(1)]\<close>)
    ultimately show ?thesis using MNode by simp
  next
    case (MLeaf b)
    have "NODE @ treeVal H x @ treeVal H y = LEAF @ b"
      by (rule inj_onD [OF MNode.prems(1)]) (use MNode.prems(3) MLeaf in \<open>auto simp: hashNode_def\<close>)
    then show ?thesis by (metis LEAF_neq_NODE)
  next
    case MZero
    then show ?thesis using MNode.prems(2,3) by (auto simp: hashNode_def)
  qed
qed

text \<open>The length of the leftmost path.\<close>

fun leftDepth :: "mtree \<Rightarrow> nat" where
  "leftDepth (MNode x y) = Suc (leftDepth x)"
| "leftDepth _ = 0"

text \<open>A level of the computation: no padding in it, all elements equally deep on the left.\<close>

definition levelOk :: "nat \<Rightarrow> mtree list \<Rightarrow> bool" where
  "levelOk d xs \<longleftrightarrow> xs \<noteq> [] \<and> (\<forall>t \<in> set xs. t \<noteq> MZero \<and> leftDepth t = d)"

lemma joinPairs_level:
  "even (length xs) \<Longrightarrow> \<forall>i. even i \<longrightarrow> i < length xs \<longrightarrow> leftDepth (xs ! i) = d \<Longrightarrow>
   \<forall>t \<in> set (joinPairs MNode xs). t \<noteq> MZero \<and> leftDepth t = Suc d"
proof (induction "MNode :: mtree \<Rightarrow> mtree \<Rightarrow> mtree" xs rule: joinPairs.induct)
  case (1 x y r)
  have "leftDepth x = d" using 1(3) by (metis even_zero length_greater_0_conv list.distinct(1) nth_Cons_0)
  moreover have "leftDepth (r ! i) = d" if "even i" "i < length r" for i
    using 1(3) [rule_format, of "Suc (Suc i)"] that by simp
  ultimately show ?case
    using 1(1,2) by simp
qed simp_all

lemma levelOk_next:
  assumes "levelOk d xs" "length xs > 1"
  shows "levelOk (Suc d) (joinPairs MNode (padLevel MZero xs))"
proof -
  let ?p = "padLevel MZero xs"
  have e: "even (length ?p)" by (simp add: length_padLevel)
  have "leftDepth (?p ! i) = d" if "even i" "i < length ?p" for i
  proof -
    have "i < length xs"
      using that by (auto simp: padLevel_def split: if_splits) presburger
    then show ?thesis
      using assms(1) by (simp add: levelOk_def padLevel_def nth_append)
  qed
  then have "\<forall>t \<in> set (joinPairs MNode ?p). t \<noteq> MZero \<and> leftDepth t = Suc d"
    using joinPairs_level [OF e] by blast
  moreover have "length (joinPairs MNode ?p) \<noteq> 0"
    using assms(2) by (simp add: length_padLevel)
  then have "joinPairs MNode ?p \<noteq> []"
    by (metis list.size(3))
  ultimately show ?thesis
    unfolding levelOk_def by blast
qed

lemma joinPairs_inj:
  "even (length xs) \<Longrightarrow> even (length ys) \<Longrightarrow> joinPairs MNode xs = joinPairs MNode ys \<Longrightarrow> xs = ys"
proof (induction "MNode :: mtree \<Rightarrow> mtree \<Rightarrow> mtree" xs arbitrary: ys rule: joinPairs.induct)
  case (1 x y r)
  then show ?case by (cases ys; cases "tl ys") auto
next
  case "2_1"
  then show ?case by (cases ys; cases "tl ys") auto
qed simp

lemma padLevel_inj:
  assumes "padLevel z xs = padLevel z ys" "z \<notin> set xs" "z \<notin> set ys"
  shows "xs = ys"
  using assms by (auto simp: padLevel_def split: if_splits dest: arg_cong [of _ _ set])

lemma merkleLoop_singleton: "levelOk d xs \<Longrightarrow> \<exists>t. merkleLoop MNode MZero xs = [t] \<and> leftDepth t \<ge> d \<and>
    (length xs > 1 \<longrightarrow> leftDepth t > d)"
proof (induction "length xs" arbitrary: xs d rule: less_induct)
  case less
  show ?case
  proof (cases "length xs > 1")
    case True
    let ?n = "joinPairs MNode (padLevel MZero xs)"
    have "length ?n < length xs"
      using True by (simp add: length_padLevel)
    from less.hyps [OF this levelOk_next [OF less.prems True]]
    show ?thesis using True by (auto simp: merkleLoop.simps [of _ _ xs])
  next
    case False
    then obtain t where "xs = [t]"
      using less.prems by (cases xs) (auto simp: levelOk_def)
    then show ?thesis
      using less.prems by (simp add: merkleLoop.simps levelOk_def)
  qed
qed

text \<open>The tree determines the leaves it was built from, number and order included.\<close>

lemma merkleLoop_inj:
  assumes "levelOk d xs" "levelOk d ys" "merkleLoop MNode MZero xs = merkleLoop MNode MZero ys"
  shows "xs = ys"
  using assms
proof (induction "length xs" arbitrary: xs ys d rule: less_induct)
  case less
  obtain t where t: "merkleLoop MNode MZero xs = [t]" "length xs > 1 \<longrightarrow> leftDepth t > d"
    using merkleLoop_singleton [OF less.prems(1)] by blast
  have t': "length ys > 1 \<longrightarrow> leftDepth t > d"
    using merkleLoop_singleton [OF less.prems(2)] less.prems(3) t(1) by auto
  have one: "leftDepth t = d" if "merkleLoop MNode MZero zs = [t]" "levelOk d zs" "\<not> length zs > 1" for zs
    using that by (auto simp: merkleLoop.simps [of _ _ zs] levelOk_def)
  show ?case
  proof (cases "length xs > 1")
    case True
    then have "length ys > 1"
      using one [of ys] t less.prems by fastforce
    let ?x = "joinPairs MNode (padLevel MZero xs)" and ?y = "joinPairs MNode (padLevel MZero ys)"
    have lt: "length ?x < length xs"
      using True by (simp add: length_padLevel)
    have "merkleLoop MNode MZero ?x = merkleLoop MNode MZero ?y"
      using less.prems(3) True \<open>length ys > 1\<close> by (simp add: merkleLoop.simps [of _ _ xs] merkleLoop.simps [of _ _ ys])
    then have "?x = ?y"
      using less.hyps [OF lt levelOk_next [OF less.prems(1) True]] levelOk_next [OF less.prems(2) \<open>length ys > 1\<close>]
      by blast
    then have "padLevel MZero xs = padLevel MZero ys"
      by (rule joinPairs_inj [rotated 2]) (simp_all add: length_padLevel)
    then show ?thesis
      by (rule padLevel_inj) (use less.prems in \<open>auto simp: levelOk_def\<close>)
  next
    case False
    then have "\<not> length ys > 1"
      using one [of xs] t t' less.prems by fastforce
    with False less.prems show ?thesis
      by (auto simp: merkleLoop.simps [of _ _ xs] merkleLoop.simps [of _ _ ys])
  qed
qed

text \<open>Evaluating the tree is the root computation of the code.\<close>

lemma joinPairs_map:
  "map (treeVal H) (joinPairs MNode xs) = joinPairs (hashNode H) (map (treeVal H) xs)"
  by (induction "MNode :: mtree \<Rightarrow> mtree \<Rightarrow> mtree" xs rule: joinPairs.induct) auto

lemma padLevel_map: "map (treeVal H) (padLevel MZero xs) = padLevel ZERO32 (map (treeVal H) xs)"
  by (simp add: padLevel_def)

lemma merkleLoop_map:
  "map (treeVal H) (merkleLoop MNode MZero xs) = merkleLoop (hashNode H) ZERO32 (map (treeVal H) xs)"
proof (induction "length xs" arbitrary: xs rule: less_induct)
  case less
  show ?case
  proof (cases "length xs > 1")
    case True
    have "length (joinPairs MNode (padLevel MZero xs)) < length xs"
      using True by (simp add: length_padLevel)
    from less.hyps [OF this] show ?thesis
      using True
      by (simp add: merkleLoop.simps [of _ _ xs] merkleLoop.simps [of _ _ "map (treeVal H) xs"]
          joinPairs_map padLevel_map)
  next
    case False
    then show ?thesis
      by (simp add: merkleLoop.simps [of _ _ xs] merkleLoop.simps [of _ _ "map (treeVal H) xs"])
  qed
qed

text \<open>The tree of a list of entries, given by the bytes hashed for each leaf.\<close>

definition rootTree :: "bytes list \<Rightarrow> mtree" where
  "rootTree ls = (if ls = [] then MZero else hd (merkleLoop MNode MZero (map MLeaf ls)))"

lemma levelOk_leaves: "ls \<noteq> [] \<Longrightarrow> levelOk 0 (map MLeaf ls)"
  by (auto simp: levelOk_def)

lemma rootTree_val: "treeVal H (rootTree ls) = transcriptRoot H (map (\<lambda>l. H (LEAF @ l)) ls)"
proof (cases "ls = []")
  case False
  obtain t where "merkleLoop MNode MZero (map MLeaf ls) = [t]"
    using merkleLoop_singleton [OF levelOk_leaves [OF False]] by blast
  moreover have "map (treeVal H) (map MLeaf ls) = map (\<lambda>l. H (LEAF @ l)) ls" by simp
  ultimately show ?thesis
    using False merkleLoop_map [of H "map MLeaf ls", symmetric]
    by (simp add: rootTree_def transcriptRoot_def comp_def)
qed (simp add: rootTree_def transcriptRoot_def)

lemma rootTree_inj:
  assumes "rootTree xs = rootTree ys"
  shows "xs = ys"
proof (cases "xs = [] \<or> ys = []")
  case True
  have "rootTree zs \<noteq> MZero" if nz: "zs \<noteq> []" for zs
  proof -
    obtain t where t: "merkleLoop MNode MZero (map MLeaf zs) = [t]"
      "length (map MLeaf zs) > 1 \<longrightarrow> leftDepth t > 0"
      using merkleLoop_singleton [OF levelOk_leaves [OF nz]] by blast
    show ?thesis
    proof (cases "length zs > 1")
      case True
      then show ?thesis using t nz by (auto simp: rootTree_def)
    next
      case False
      then show ?thesis using nz by (cases zs) (auto simp: rootTree_def merkleLoop.simps)
    qed
  qed
  then show ?thesis
    using True assms by (metis rootTree_def)
next
  case False
  then have ok: "levelOk 0 (map MLeaf xs)" "levelOk 0 (map MLeaf ys)"
    using levelOk_leaves by auto
  have "merkleLoop MNode MZero (map MLeaf xs) = merkleLoop MNode MZero (map MLeaf ys)"
    using assms False merkleLoop_singleton [OF ok(1)] merkleLoop_singleton [OF ok(2)]
    by (auto simp: rootTree_def)
  then have "map MLeaf xs = map MLeaf ys"
    by (rule merkleLoop_inj [OF ok])
  then show ?thesis
    by (metis injI list.inj_map_strong mtree.inject(1))
qed

text \<open>Every input hashed while computing the root of a list of leaf contents.\<close>

definition rootInputs :: "(bytes \<Rightarrow> bytes) \<Rightarrow> bytes list \<Rightarrow> bytes set" where
  "rootInputs H ls = treeInputs H (rootTree ls)"

lemma transcriptRoot_inj:
  assumes "\<And>x. length (H x) = 32" "inj_on H (rootInputs H xs \<union> rootInputs H ys)"
    "\<forall>x \<in> rootInputs H xs \<union> rootInputs H ys. H x \<noteq> ZERO32"
    "transcriptRoot H (map (\<lambda>l. H (LEAF @ l)) xs) = transcriptRoot H (map (\<lambda>l. H (LEAF @ l)) ys)"
  shows "xs = ys"
  by (rule rootTree_inj, rule treeVal_inj [of H])
    (use assms in \<open>auto simp: rootInputs_def rootTree_val\<close>)

subsection \<open>What verification checks\<close>

definition entryContent :: "SettleEntry \<Rightarrow> bytes" where
  "entryContent e = se_message e @ se_sigA e @ se_sigB e"

definition entryLeaf :: "(bytes \<Rightarrow> bytes) \<Rightarrow> SettleEntry \<Rightarrow> bytes" where
  "entryLeaf H e = H (LEAF @ entryContent e)"

definition entrySigned :: "(bytes \<Rightarrow> bytes \<Rightarrow> bytes \<Rightarrow> bool) \<Rightarrow> VerifyParams \<Rightarrow> SettleEntry \<Rightarrow> bool" where
  "entrySigned edVerify params e \<longleftrightarrow>
     edVerify (se_sigA e) (se_message e) (pk_publicKey (vp_partyA params)) \<and>
     edVerify (se_sigB e) (se_message e) (pk_publicKey (vp_partyB params))"

definition sumOf :: "StateUpdate \<Rightarrow> int" where
  "sumOf su = su_partyABalance su + su_partyBBalance su"

text \<open>All sums equal the expected total, or each other when none is given.\<close>

fun sumsOk :: "int option \<Rightarrow> StateUpdate list \<Rightarrow> bool" where
  "sumsOk t [] = True"
| "sumsOk None (su # sus) = sumsOk (Some (sumOf su)) sus"
| "sumsOk (Some t) (su # sus) = (sumOf su = t \<and> sumsOk (Some t) sus)"

lemma sumsOk_Some: "sumsOk (Some t) sus \<longleftrightarrow> (\<forall>su \<in> set sus. sumOf su = t)"
  by (induction sus) auto

fun noncesOk :: "int option \<Rightarrow> StateUpdate list \<Rightarrow> bool" where
  "noncesOk p [] = True"
| "noncesOk p (su # sus) =
     ((case p of None \<Rightarrow> True | Some n \<Rightarrow> n < su_nonce su) \<and> noncesOk (Some (su_nonce su)) sus)"

lemma noncesOk_Some: "noncesOk (Some n) sus \<longleftrightarrow> sorted_wrt (<) (n # map su_nonce sus)"
  by (induction sus arbitrary: n) auto

lemma noncesOk_None: "noncesOk None sus \<longleftrightarrow> sorted_wrt (<) (map su_nonce sus)"
  by (cases sus) (auto simp: noncesOk_Some)

lemma verifyLoop_Inr:
  assumes "verifyLoop H edV params es l = Inr l'"
  shows "\<exists>sus. mapE parseStateUpdate (map se_message es) = Inr sus \<and>
    vl_leaves l' = vl_leaves l @ map (entryLeaf H) es \<and>
    (vl_allSigsValid l' \<longleftrightarrow> vl_allSigsValid l \<and> list_all (entrySigned edV params) es) \<and>
    (vl_nonceMonotonic l' \<longleftrightarrow> vl_nonceMonotonic l \<and> noncesOk (vl_prevNonce l) sus) \<and>
    (vl_balancesConserved l' \<longleftrightarrow> vl_balancesConserved l \<and> sumsOk (vl_total l) sus)"
  using assms
proof (induction es arbitrary: l)
  case Nil
  then show ?case by simp
next
  case (Cons e es)
  obtain l1 where l1: "verifyStep H edV params e l = Inr l1" "verifyLoop H edV params es l1 = Inr l'"
    using Cons.prems by (auto simp: result_simps)
  then obtain su where su: "parseStateUpdate (se_message e) = Inr su"
    by (auto simp: verifyStep_def result_simps)
  have f: "vl_leaves l1 = vl_leaves l @ [entryLeaf H e]"
    "vl_allSigsValid l1 \<longleftrightarrow> vl_allSigsValid l \<and> entrySigned edV params e"
    "vl_nonceMonotonic l1 \<longleftrightarrow> vl_nonceMonotonic l \<and> (case vl_prevNonce l of None \<Rightarrow> True | Some n \<Rightarrow> n < su_nonce su)"
    "vl_balancesConserved l1 \<longleftrightarrow> vl_balancesConserved l \<and> (case vl_total l of None \<Rightarrow> True | Some t \<Rightarrow> sumOf su = t)"
    "vl_prevNonce l1 = Some (su_nonce su)"
    "vl_total l1 = Some (case vl_total l of None \<Rightarrow> sumOf su | Some t \<Rightarrow> t)"
    using l1(1) su
    by (auto simp: verifyStep_def Let_def entryLeaf_def entryContent_def entrySigned_def sumOf_def
        transcriptLeaf_def split: option.splits if_splits)
  obtain sus where IH: "mapE parseStateUpdate (map se_message es) = Inr sus"
    "vl_leaves l' = vl_leaves l1 @ map (entryLeaf H) es"
    "vl_allSigsValid l' \<longleftrightarrow> vl_allSigsValid l1 \<and> list_all (entrySigned edV params) es"
    "vl_nonceMonotonic l' \<longleftrightarrow> vl_nonceMonotonic l1 \<and> noncesOk (vl_prevNonce l1) sus"
    "vl_balancesConserved l' \<longleftrightarrow> vl_balancesConserved l1 \<and> sumsOk (vl_total l1) sus"
    using Cons.IH [OF l1(2)] by blast
  have "sumsOk (vl_total l) (su # sus) \<longleftrightarrow>
      (case vl_total l of None \<Rightarrow> True | Some t \<Rightarrow> sumOf su = t) \<and> sumsOk (vl_total l1) sus"
    unfolding f(6) by (cases "vl_total l") auto
  with su f IH show ?case
    by (intro exI [of _ "su # sus"]) (simp; blast)
qed

lemma verifyLoop_ok:
  "mapE parseStateUpdate (map se_message es) = Inr sus \<Longrightarrow> \<exists>l'. verifyLoop H edV params es l = Inr l'"
  by (induction es arbitrary: l sus) (auto simp: result_simps verifyStep_def Let_def)

text \<open>The guarantees of an accepting verification, as one predicate.\<close>

definition transcriptValid ::
  "(bytes \<Rightarrow> bytes) \<Rightarrow> (bytes \<Rightarrow> bytes \<Rightarrow> bytes \<Rightarrow> bool) \<Rightarrow> VerifyParams \<Rightarrow> SettleEntry list \<Rightarrow> bool" where
  "transcriptValid H edV params es \<longleftrightarrow>
     (\<exists>sus. mapE parseStateUpdate (map se_message es) = Inr sus \<and>
        list_all (entrySigned edV params) es \<and> sorted_wrt (<) (map su_nonce sus) \<and>
        sumsOk (vp_lockedTotal params) sus \<and>
        toHex (transcriptRoot H (map (entryLeaf H) es)) = normRoot (vp_onchainRoot params))"

lemma verifyEntries_loop:
  assumes "pk_scheme (vp_partyA params) = ED25519" "pk_scheme (vp_partyB params) = ED25519"
    "verifyLoop H edV params es (verifyLoopStart params) = Inr l"
  shows "\<exists>v. verifyEntries H edV es params hr = Inr v \<and>
    tv_ok v = ((toHex (transcriptRoot H (vl_leaves l)) = normRoot (vp_onchainRoot params) \<and>
       (case hr of None \<Rightarrow> True | Some r \<Rightarrow> toHex (transcriptRoot H (vl_leaves l)) = normRoot r)) \<and>
       vl_allSigsValid l \<and> vl_nonceMonotonic l \<and> vl_balancesConserved l)"
  unfolding verifyEntries_def Let_def using assms by simp

lemma verifyEntries_Inr:
  assumes "verifyEntries H edV es params hr = Inr v"
  shows "pk_scheme (vp_partyA params) = ED25519" "pk_scheme (vp_partyB params) = ED25519"
    "\<exists>l. verifyLoop H edV params es (verifyLoopStart params) = Inr l"
proof -
  show sch: "pk_scheme (vp_partyA params) = ED25519" "pk_scheme (vp_partyB params) = ED25519"
    using assms by (unfold verifyEntries_def, metis Inl_Inr_False)+
  show "\<exists>l. verifyLoop H edV params es (verifyLoopStart params) = Inr l"
    using assms sch by (cases "verifyLoop H edV params es (verifyLoopStart params)") (simp_all add: verifyEntries_def)
qed

lemma verifyEntries_ok_iff:
  "(\<exists>v. verifyEntries H edV es params hr = Inr v \<and> tv_ok v) \<longleftrightarrow>
   pk_scheme (vp_partyA params) = ED25519 \<and> pk_scheme (vp_partyB params) = ED25519 \<and>
   transcriptValid H edV params es \<and>
   (\<forall>r. hr = Some r \<longrightarrow> toHex (transcriptRoot H (map (entryLeaf H) es)) = normRoot r)"
  (is "?L \<longleftrightarrow> ?R")
proof
  assume ?L
  then obtain v where v: "verifyEntries H edV es params hr = Inr v" "tv_ok v" by blast
  note sch = verifyEntries_Inr(1,2) [OF v(1)]
  obtain l where l: "verifyLoop H edV params es (verifyLoopStart params) = Inr l"
    using verifyEntries_Inr(3) [OF v(1)] by blast
  have ok: "vl_allSigsValid l" "vl_nonceMonotonic l" "vl_balancesConserved l"
    "toHex (transcriptRoot H (vl_leaves l)) = normRoot (vp_onchainRoot params)"
    "case hr of None \<Rightarrow> True | Some r \<Rightarrow> toHex (transcriptRoot H (vl_leaves l)) = normRoot r"
    using verifyEntries_loop [OF sch l, of hr] v by auto
  obtain sus where sus: "mapE parseStateUpdate (map se_message es) = Inr sus"
    "vl_leaves l = map (entryLeaf H) es" "list_all (entrySigned edV params) es"
    "noncesOk None sus" "sumsOk (vp_lockedTotal params) sus"
    using verifyLoop_Inr [OF l] ok(1-3) by (auto simp: verifyLoopStart_def)
  then show ?R
    using sch ok(4,5) unfolding transcriptValid_def noncesOk_None by auto
next
  assume R: ?R
  then obtain sus where sus: "mapE parseStateUpdate (map se_message es) = Inr sus"
    "list_all (entrySigned edV params) es" "noncesOk None sus" "sumsOk (vp_lockedTotal params) sus"
    by (auto simp: transcriptValid_def noncesOk_None)
  obtain l where l: "verifyLoop H edV params es (verifyLoopStart params) = Inr l"
    using verifyLoop_ok [OF sus(1)] by blast
  have "vl_allSigsValid l" "vl_nonceMonotonic l" "vl_balancesConserved l" "vl_leaves l = map (entryLeaf H) es"
    using verifyLoop_Inr [OF l] sus by (auto simp: verifyLoopStart_def)
  then show ?L
    using R verifyEntries_loop [OF _ _ l, of hr] by (auto simp: transcriptValid_def split: option.splits)
qed

subsection \<open>Properties of transcripts\<close>

lemma signed_parts:
  "length a = length a' \<Longrightarrow> length b = length b' \<Longrightarrow>
   m @ a @ b = m' @ a' @ b' \<longleftrightarrow> m = m' \<and> a = a' \<and> b = b'"
  using append_eq_append_conv [of m m' "a @ b" "a' @ b'"] by auto

text \<open>C10. The transcript root binds the history: if the hash neither collides on the inputs of the two trees
  nor takes the padding value, two sequences of entries with 64-byte signatures have the same root exactly
  if they are the same messages and signatures in the same order.\<close>

theorem transcript_root_binds:
  assumes "\<And>x. length (H x) = 32"
    and "inj_on H (rootInputs H (map (\<lambda>e. te_message e @ te_sigA e @ te_sigB e) es) \<union>
      rootInputs H (map (\<lambda>e. te_message e @ te_sigA e @ te_sigB e) es'))"
    and "\<forall>x \<in> rootInputs H (map (\<lambda>e. te_message e @ te_sigA e @ te_sigB e) es) \<union>
      rootInputs H (map (\<lambda>e. te_message e @ te_sigA e @ te_sigB e) es'). H x \<noteq> ZERO32"
    and "list_all (\<lambda>e. length (te_sigA e) = 64 \<and> length (te_sigB e) = 64) (es @ es')"
  shows "transcriptRoot H (map (transcriptLeaf H) es) = transcriptRoot H (map (transcriptLeaf H) es') \<longleftrightarrow>
    map (\<lambda>e. (te_message e, te_sigA e, te_sigB e)) es = map (\<lambda>e. (te_message e, te_sigA e, te_sigB e)) es'"
    (is "?L \<longleftrightarrow> ?R")
proof
  let ?c = "\<lambda>e. te_message e @ te_sigA e @ te_sigB e"
  have leaf: "map (transcriptLeaf H) xs = map (\<lambda>l. H (LEAF @ l)) (map ?c xs)" for xs
    by (simp add: transcriptLeaf_def)
  assume ?L
  then have "map ?c es = map ?c es'"
    using transcriptRoot_inj [OF assms(1-3)] unfolding leaf by blast
  then show ?R
    using assms(4)
    by (induction es es' rule: list_induct2') (auto simp: signed_parts)
next
  assume ?R
  then have "map (transcriptLeaf H) es = map (transcriptLeaf H) es'"
    by (induction es es' rule: list_induct2') (auto simp: transcriptLeaf_def)
  then show ?L by simp
qed

definition exampleEntry :: "byte \<Rightarrow> TranscriptEntry" where
  "exampleEntry k = \<lparr>te_nonce = 1, te_message = [7], te_sigA = replicate 64 4, te_sigB = replicate 64 k\<rparr>"

theorem transcript_root_binds_witness:
  "transcriptRoot sampleHash (map (transcriptLeaf sampleHash) [exampleEntry 1]) \<noteq>
   transcriptRoot sampleHash (map (transcriptLeaf sampleHash) [exampleEntry 2])"
proof -
  let ?c = "\<lambda>e. te_message e @ te_sigA e @ te_sigB e"
  have i: "rootInputs sampleHash (map ?c [exampleEntry k]) = {LEAF @ ?c (exampleEntry k)}" for k
    by (simp add: rootInputs_def rootTree_def merkleLoop.simps [of _ _ "[_]"])
  have h: "sampleHash (LEAF @ ?c (exampleEntry k)) = replicate 32 k" for k
    by (simp add: sampleHash_def exampleEntry_def)
  have z: "ZERO32 = replicate 32 0" by (simp add: ZERO32_def)
  show ?thesis
    using transcript_root_binds [of sampleHash "[exampleEntry 1]" "[exampleEntry 2]"]
    unfolding i
    by (auto simp: h z exampleEntry_def sampleHash_def [of "_ :: bytes"] replicate_eq_replicate)
qed

text \<open>C11. The verifier is sound and complete: a settlement body is reported as valid exactly if it decodes,
  both keys are ed25519, every message is a canonical state update with two valid signatures, nonces
  strictly increase, every balance sum is the locked total, and the recomputed root equals both the
  on-chain anchor and the root in the header.\<close>

theorem verifyTranscript_accepts_iff:
  "(\<exists>v. verifyTranscript H edV blob params = Inr v \<and> tv_ok v) \<longleftrightarrow>
   (\<exists>b. decodeSettleBody blob = Inr b \<and>
      pk_scheme (vp_partyA params) = ED25519 \<and> pk_scheme (vp_partyB params) = ED25519 \<and>
      transcriptValid H edV params (sb_entries b) \<and>
      toHex (transcriptRoot H (map (entryLeaf H) (sb_entries b))) = normRoot (toHex (sb_transcriptRoot b)))"
proof (cases "decodeSettleBody blob")
  case (Inl e)
  then show ?thesis by (simp add: verifyTranscript_def)
next
  case (Inr b)
  then show ?thesis
    using verifyEntries_ok_iff [of H edV "sb_entries b" params "Some (toHex (sb_transcriptRoot b))"]
    by (simp add: verifyTranscript_def)
qed

end
