(* ===== verification/End_To_End.thy ===== *)
theory End_To_End
  imports Transcript
begin

section \<open>From play to an accepted proof\<close>

text \<open>
  The chain through the components: an engine run in the default signing mode, its transcript, the
  binary settlement body, and the verifier. The lemmas show that an honest run of any protocol is
  accepted by the verifier with the anchored root and locked total of the tunnel.
\<close>

subsection \<open>The settlement request (frontend/src/backend/settleRequest.ts)\<close>

text \<open>A raw entry as the settlement body takes it, and the body built from a co-signed settlement and the
  raw transcript.\<close>

definition settleEntry :: "TranscriptEntry \<Rightarrow> SettleEntry" where
  "settleEntry e = \<lparr>se_message = te_message e, se_sigA = te_sigA e, se_sigB = te_sigB e\<rparr>"

definition settleBodyOf :: "CoSignedSettlementWithRoot \<Rightarrow> TranscriptEntry list \<Rightarrow> SettleBody" where
  "settleBodyOf coSigned entries =
     (let s = cr_settlement coSigned
      in \<lparr>sb_tunnelId = st_tunnelId s, sb_partyABalance = st_partyABalance s,
          sb_partyBBalance = st_partyBBalance s, sb_finalNonce = st_finalNonce s,
          sb_timestamp = st_timestamp s, sb_transcriptRoot = st_transcriptRoot s,
          sb_sigA = cr_sigA coSigned, sb_sigB = cr_sigB coSigned,
          sb_entries = map settleEntry entries\<rparr>)"

definition coSignedToSettleBody :: "CoSignedSettlementWithRoot \<Rightarrow> TranscriptEntry list \<Rightarrow> bytes result" where
  "coSignedToSettleBody coSigned entries = encodeSettleBody (settleBodyOf coSigned entries)"

subsection \<open>Engine runs\<close>

definition fullMode :: "('m \<times> Party \<times> StepOptions) list \<Rightarrow> bool" where
  "fullMode ms \<longleftrightarrow> list_all (\<lambda>(m, by1, opts). stepMode opts = ModeFull) ms"

text \<open>What every update of a run satisfies.\<close>

definition runUpdate :: "(bytes \<Rightarrow> bytes) \<Rightarrow> ('s, 'm) OffchainTunnel \<Rightarrow> CoSignedUpdate \<Rightarrow> bool" where
  "runUpdate H t u \<longleftrightarrow> coSignedBy (ot_partyA t) (ot_partyB t) u \<and> su_tunnelId (cu_update u) = ot_tunnelId t \<and>
     sumOf (cu_update u) = ot_total t \<and> (\<exists>x. su_stateHash (cu_update u) = H x) \<and>
     (\<exists>msg. cu_sigA u = signOrEmpty (ot_partyA t) msg \<and> cu_sigB u = signOrEmpty (ot_partyB t) msg)"

lemma tunnelStep_same:
  assumes "tunnelStep H t m by1 opts = (t', Inr r)"
  shows "sameChannel t t'" "ot_nonce t' = ot_nonce t + 1"
  using assms by (auto elim!: tunnelStep_success)

lemma runUpdate_same: "sameChannel t t' \<Longrightarrow> runUpdate H t' u = runUpdate H t u"
  by (simp add: runUpdate_def sameChannel_def)

lemma tunnelRun_updates:
  assumes "tunnelOk t" "tunnelRun H t ms = Inr (t', us)" "fullMode ms"
  shows "tunnelOk t' \<and> sameChannel t t' \<and> ot_nonce t' = ot_nonce t + int (length ms) \<and>
    map (\<lambda>u. su_nonce (cu_update u)) us = map (\<lambda>i. ot_nonce t + 1 + int i) [0..<length ms] \<and>
    list_all (runUpdate H t) us"
  using assms
proof (induction ms arbitrary: t us)
  case Nil
  then show ?case by simp
next
  case (Cons x ms)
  obtain m by1 opts where x: "x = (m, by1, opts)" by (cases x)
  obtain t1 r where st: "tunnelStep H t m by1 opts = (t1, Inr r)"
    using Cons.prems(2) x by (auto split: prod.splits sum.splits)
  obtain us1 where run: "tunnelRun H t1 ms = Inr (t', us1)"
    and us: "us = (case sr_signed r of None \<Rightarrow> us1 | Some u \<Rightarrow> u # us1)"
    using Cons.prems(2) x st by (auto simp: result_simps)
  have full: "stepMode opts = ModeFull" "fullMode ms"
    using Cons.prems(3) x by (auto simp: fullMode_def)
  obtain u where u: "sr_signed r = Some u" "coSignedBy (ot_partyA t) (ot_partyB t) u"
    "su_nonce (cu_update u) = ot_nonce t1" "su_tunnelId (cu_update u) = ot_tunnelId t"
    "describes H (ot_protocol t) (ot_state t1) (cu_update u)" "sumOf (cu_update u) = ot_total t"
    "\<exists>msg. cu_sigA u = signOrEmpty (ot_partyA t) msg \<and> cu_sigB u = signOrEmpty (ot_partyB t) msg"
    using tunnelStep_full_cosigned [OF Cons.prems(1) st full(1)] by (auto simp: sumOf_def)
  have s: "sameChannel t t1" "ot_nonce t1 = ot_nonce t + 1"
    using tunnelStep_same [OF st] .
  have ok: "tunnelOk t1"
    using tunnelStep_ok [OF Cons.prems(1), of H m by1 opts] st by simp
  note IH = Cons.IH [OF ok run full(2)]
  have "map (\<lambda>i. ot_nonce t + 1 + int i) [0..<length (x # ms)] =
      (ot_nonce t + 1) # map (\<lambda>i. ot_nonce t1 + 1 + int i) [0..<length ms]"
    using s(2) by (simp add: upt_conv_Cons map_Suc_upt [symmetric] comp_def algebra_simps del: upt_Suc)
  then show ?case
    using IH u s us runUpdate_same [OF s(1)]
    by (auto simp: runUpdate_def describes_def algebra_simps intro: sameChannel_trans)
qed

subsection \<open>The transcript of a run\<close>

fun appendAll :: "(bytes \<Rightarrow> bytes) \<Rightarrow> TranscriptAcc \<Rightarrow> CoSignedUpdate list \<Rightarrow> TranscriptAcc result" where
  "appendAll H t [] = Inr t"
| "appendAll H t (u # us) = bindE (appendUpdate H t u) (\<lambda>t'. appendAll H t' us)"

definition entryOfUpdate :: "CoSignedUpdate \<Rightarrow> SettleEntry \<Rightarrow> bool" where
  "entryOfUpdate u e \<longleftrightarrow> serializeStateUpdate (cu_update u) = Inr (se_message e) \<and>
     se_sigA e = cu_sigA u \<and> se_sigB e = cu_sigB u"


lemma appendAll_entries:
  assumes "appendAll H t us = Inr t'"
  shows "\<exists>es. list_all2 entryOfUpdate us es \<and> map settleEntry (tr_entries t') = map settleEntry (tr_entries t) @ es \<and>
    tr_leaves t' = tr_leaves t @ map (entryLeaf H) es"
  using assms
proof (induction us arbitrary: t)
  case Nil
  then show ?case by simp
next
  case (Cons u us)
  obtain t1 where t1: "appendUpdate H t u = Inr t1" "appendAll H t1 us = Inr t'"
    using Cons.prems by (auto simp: result_simps)
  obtain msg where msg: "serializeStateUpdate (cu_update u) = Inr msg"
    using t1(1) by (auto simp: appendUpdate_def result_simps)
  let ?e = "\<lparr>se_message = msg, se_sigA = cu_sigA u, se_sigB = cu_sigB u\<rparr>"
  have "map settleEntry (tr_entries t1) = map settleEntry (tr_entries t) @ [?e]"
    "tr_leaves t1 = tr_leaves t @ [entryLeaf H ?e]" "entryOfUpdate u ?e"
    using t1(1) msg
    by (auto simp: appendUpdate_def Let_def settleEntry_def entryLeaf_def entryContent_def transcriptLeaf_def
        entryOfUpdate_def)
  with Cons.IH [OF t1(2)] show ?case by force
qed

lemma appendAll_ok:
  assumes "list_all (\<lambda>u. \<exists>m. serializeStateUpdate (cu_update u) = Inr m) us"
  shows "\<exists>t'. appendAll H t us = Inr t'"
  using assms by (induction us arbitrary: t) (auto simp: appendUpdate_def Let_def)

lemma entry_parses:
  assumes "entryOfUpdate u e" "length (su_stateHash (cu_update u)) = 32"
  shows "\<exists>su. parseStateUpdate (se_message e) = Inr su \<and> su_nonce su = su_nonce (cu_update u) \<and>
    sumOf su = sumOf (cu_update u)"
proof -
  obtain tb where "addressToBytes32 (su_tunnelId (cu_update u)) = Inr tb"
    using assms(1) by (auto simp: entryOfUpdate_def serializeStateUpdate_Inr_iff)
  then show ?thesis
    using parse_of_serialize [OF _ assms(2)] assms(1)
    by (auto simp: entryOfUpdate_def canonicalUpdate_def sumOf_def)
qed

lemma entries_parse:
  assumes "list_all2 entryOfUpdate us es" "list_all (\<lambda>u. length (su_stateHash (cu_update u)) = 32) us"
  shows "\<exists>sus. mapE parseStateUpdate (map se_message es) = Inr sus \<and>
    map su_nonce sus = map (\<lambda>u. su_nonce (cu_update u)) us \<and> map sumOf sus = map (\<lambda>u. sumOf (cu_update u)) us"
  using assms
proof (induction us es rule: list_all2_induct)
  case (Cons u us e es)
  with entry_parses [of u e] show ?case by fastforce
qed simp

lemma sumsOk_const: "\<forall>su \<in> set sus. sumOf su = T \<Longrightarrow> t \<in> {None, Some T} \<Longrightarrow> sumsOk t sus"
  by (cases sus) (auto simp: sumsOk_Some)

lemma normRoot_toHex [simp]: "normRoot (toHex bs) = toHex bs"
proof -
  have low: "toLowerCase (toHex bs) = toHex bs"
  proof (induction bs)
    case Nil
    then show ?case by (simp add: toLowerCase_def)
  next
    case (Cons b bs)
    have d: "unat b div 16 < 16" "unat b mod 16 < 16"
      using unat_byte_lt [of b] by (auto simp: div_less_iff_less_mult)
    have "toLowerCase (HEX (unat b)) = HEX (unat b)"
      using of_char_hexDigit [OF d(1)] of_char_hexDigit [OF d(2)] by (simp add: toLowerCase_def HEX_def)
    with Cons show ?case by (simp add: toLowerCase_def)
  qed
  have "normRoot (toHex bs) = toLowerCase (strip0x (toHex bs))"
    by (simp add: normRoot_def strip0x_def Let_def)
  then show ?thesis using low by simp
qed

lemma serialized_length:
  "serializeStateUpdate u = Inr m \<Longrightarrow> length (su_stateHash u) = 32 \<Longrightarrow> length m = 120"
  by (auto simp: serializeStateUpdate_Inr_iff dest: addressToBytes32_length)

lemma run_entries_ok:
  assumes "list_all2 entryOfUpdate us es" "list_all (runUpdate H t) us" "\<And>x. length (H x) = 32"
    "\<And>m. length (signOrEmpty (ot_partyA t) m) = 64" "\<And>m. length (signOrEmpty (ot_partyB t) m) = 64"
  shows "list_all entryOk es"
  using assms(1,2)
proof (induction us es rule: list_all2_induct)
  case (Cons u us e es)
  have "length (se_message e) = 120"
    using Cons.hyps(1) Cons.prems assms(3) serialized_length
    by (fastforce simp: entryOfUpdate_def runUpdate_def)
  then show ?case
    using Cons assms(4,5) by (auto simp: entryOk_def entryOfUpdate_def runUpdate_def)
qed simp

lemma run_entries_signed:
  assumes "list_all2 entryOfUpdate us es" "list_all (runUpdate H t) us"
    "verifies edV (ot_partyA t)" "verifies edV (ot_partyB t)"
    "pk_publicKey (vp_partyA params) = ep_publicKey (ot_partyA t)"
    "pk_publicKey (vp_partyB params) = ep_publicKey (ot_partyB t)"
  shows "list_all (entrySigned edV params) es"
  using assms(1,2)
  by (induction us es rule: list_all2_induct)
    (use assms(3-6) in \<open>auto simp: entrySigned_def entryOfUpdate_def runUpdate_def coSignedBy_def verifies_def\<close>)

text \<open>The verifier's parameters for a tunnel: the two public keys, the anchored root and the total.\<close>

definition paramsFor ::
  "('s, 'm) OffchainTunnel \<Rightarrow> bytes \<Rightarrow> VerifyParams \<Rightarrow> bool" where
  "paramsFor t root params \<longleftrightarrow>
     pk_publicKey (vp_partyA params) = ep_publicKey (ot_partyA t) \<and> pk_scheme (vp_partyA params) = ED25519 \<and>
     pk_publicKey (vp_partyB params) = ep_publicKey (ot_partyB t) \<and> pk_scheme (vp_partyB params) = ED25519 \<and>
     normRoot (vp_onchainRoot params) = toHex root \<and> vp_lockedTotal params \<in> {None, Some (ot_total t)}"

lemma run_transcript_valid:
  assumes ok: "tunnelOk t" and run: "tunnelRun H t ms = Inr (t', us)" and full: "fullMode ms"
    and es: "list_all2 entryOfUpdate us es" and len: "\<And>x. length (H x) = 32"
    and v: "verifies edV (ot_partyA t)" "verifies edV (ot_partyB t)"
    and p: "paramsFor t (transcriptRoot H (map (entryLeaf H) es)) params"
  shows "transcriptValid H edV params es"
proof -
  have r: "list_all (runUpdate H t) us"
    "map (\<lambda>u. su_nonce (cu_update u)) us = map (\<lambda>i. ot_nonce t + 1 + int i) [0..<length ms]"
    using tunnelRun_updates [OF ok run full] by auto
  have "list_all (\<lambda>u. length (su_stateHash (cu_update u)) = 32) us"
    using r(1) len by (auto simp: list_all_iff runUpdate_def)
  then obtain sus where sus: "mapE parseStateUpdate (map se_message es) = Inr sus"
    "map su_nonce sus = map (\<lambda>i. ot_nonce t + 1 + int i) [0..<length ms]"
    "map sumOf sus = map (\<lambda>u. sumOf (cu_update u)) us"
    using entries_parse [OF es] r(2) by auto
  have "sorted_wrt (<) (map (\<lambda>i. ot_nonce t + 1 + int i) [0..<length ms])"
    by (simp add: sorted_wrt_map sorted_wrt_upt)
  moreover have "\<forall>su \<in> set sus. sumOf su = ot_total t"
  proof -
    have "sumOf ` set sus = (\<lambda>u. sumOf (cu_update u)) ` set us"
      using arg_cong [OF sus(3), of set] by simp
    then show ?thesis
      using r(1) by (auto simp: list_all_iff runUpdate_def)
  qed
  moreover have "list_all (entrySigned edV params) es"
    using run_entries_signed [OF es r(1) v] p by (simp add: paramsFor_def)
  ultimately show ?thesis
    unfolding transcriptValid_def
    using sus(1,2) sumsOk_const [of sus "ot_total t" "vp_lockedTotal params"] p
    by (auto simp: paramsFor_def)
qed

subsection \<open>The settlement of a run\<close>

lemma buildSettlementWithRoot_body:
  assumes "buildSettlementWithRoot t ts root n = Inr co"
    "\<And>m. length (signOrEmpty (ot_partyA t) m) = 64" "\<And>m. length (signOrEmpty (ot_partyB t) m) = 64"
  shows "bodyOk (settleBodyOf co es) \<and> sb_transcriptRoot (settleBodyOf co es) = root"
  using assms
  by (auto simp: buildSettlementWithRoot_def bodyOk_def settleBodyOf_def Let_def signOrEmpty_def
      serializeSettlementWithRoot_def result_simps split: if_splits option.splits)

lemma appendAll_root_length:
  assumes "appendAll H (newTranscript tid) us = Inr tr" "\<And>x. length (H x) = 32"
  shows "length (transcriptRootOf H tr) = 32"
proof -
  have "\<exists>es. tr_leaves tr = map (entryLeaf H) es"
    using appendAll_entries [OF assms(1)] by (metis append_Nil newTranscript_def TranscriptAcc.select_convs(3))
  then obtain es where "tr_leaves tr = map (entryLeaf H) es" ..
  then have "transcriptRootOf H tr = treeVal H (rootTree (map entryContent es))"
    by (simp add: transcriptRootOf_def rootTree_val entryLeaf_def [abs_def] comp_def)
  then show ?thesis using length_treeVal [OF assms(2)] by simp
qed

text \<open>The settlement of an honest run is accepted, whatever protocol was played.\<close>

lemma run_accepted:
  assumes ok: "tunnelOk t" and run: "tunnelRun H t ms = Inr (t', us)" and full: "fullMode ms"
    and tr: "appendAll H (newTranscript tid) us = Inr tr" and n: "length ms < 2 ^ 32"
    and co: "buildSettlementWithRoot t' ts (transcriptRootOf H tr) n1 = Inr co"
    and len: "\<And>x. length (H x) = 32"
    and sg: "\<And>m. length (signOrEmpty (ot_partyA t) m) = 64" "\<And>m. length (signOrEmpty (ot_partyB t) m) = 64"
    and v: "verifies edV (ot_partyA t)" "verifies edV (ot_partyB t)"
    and p: "paramsFor t (transcriptRootOf H tr) params"
  shows "\<exists>blob r. coSignedToSettleBody co (rawEntries tr) = Inr blob \<and>
    verifyTranscript H edV blob params = Inr r \<and> tv_ok r \<and> tv_stepCount r = length ms"
proof -
  have u: "sameChannel t t'" "list_all (runUpdate H t) us" "length us = length ms"
    using tunnelRun_updates [OF ok run full] map_eq_imp_length_eq by fastforce+
  obtain es where es: "list_all2 entryOfUpdate us es" "map settleEntry (rawEntries tr) = es"
    "tr_leaves tr = map (entryLeaf H) es"
    using appendAll_entries [OF tr] by (auto simp: newTranscript_def rawEntries_def)
  have eo: "list_all entryOk es" using run_entries_ok [OF es(1) u(2) len sg] .
  have len_es: "length es = length ms" using es(1) u(3) by (simp add: list_all2_lengthD)
  let ?b = "settleBodyOf co (rawEntries tr)"
  have "ot_partyA t' = ot_partyA t" "ot_partyB t' = ot_partyB t"
    using u(1) by (simp_all add: sameChannel_def)
  with sg have b: "bodyOk ?b" "sb_transcriptRoot ?b = transcriptRootOf H tr"
    using buildSettlementWithRoot_body [OF co, of "rawEntries tr"] by simp_all
  have b3: "sb_entries ?b = es" using es(2) by (simp add: settleBodyOf_def Let_def)
  note b = b b3
  have root: "transcriptRootOf H tr = transcriptRoot H (map (entryLeaf H) es)"
    using es(3) by (simp add: transcriptRootOf_def)
  have valid: "transcriptValid H edV params es"
    using run_transcript_valid [OF ok run full es(1) len v] p root by simp
  have dec: "decodeSettleBody (concat (bodyHeader ?b) @ concat (map entryBytes es)) =
      Inr (?b\<lparr>sb_tunnelId := canonicalAddress (id32 (sb_tunnelId ?b))\<rparr>)"
    using decodeSettleBody_layout [OF b(1), of "[]"] b(3) eo n len_es by simp
  obtain r where r: "verifyEntries H edV es params (Some (toHex (transcriptRootOf H tr))) = Inr r" "tv_ok r"
    using verifyEntries_ok_iff [of H edV es params "Some (toHex (transcriptRootOf H tr))"] valid p root
    by (auto simp: paramsFor_def)
  have "tv_stepCount r = length es"
    using r(1) by (auto simp: verifyEntries_def Let_def result_simps split: if_splits)
  then show ?thesis
    using encodeSettleBody_ok [OF b(1)] b eo dec r len_es
    by (auto simp: coSignedToSettleBody_def verifyTranscript_def)
qed

end
