(* ===== verification/Distributed_Frame.thy ===== *)
theory Distributed_Frame
  imports Protocol
begin

section \<open>The two PvP frames and their byte codec (core/distributedFrame.ts)\<close>

text \<open>
  A MOVE frame carries a proposed move with the proposer's signature, an ACK frame the responder's
  signature. Frames travel as UTF-8 JSON: 64-bit integers as decimal strings, bytes as hexadecimal.
  Moves go through a \<open>MoveCodec\<close> the protocol supplies; either of its functions may throw, and
  \<open>None\<close> is the value \<open>undefined\<close>.
  \<open>decode_encodeFrame\<close> is the round trip of the codec for every frame whose move the move codec
  round trips.
\<close>

subsection \<open>Definitions\<close>

record 'm MoveFrame =
  mf_nonce :: int
  mf_by :: Party
  mf_move :: 'm
  mf_timestamp :: int
  mf_stateHash :: bytes
  mf_partyABalance :: int
  mf_partyBBalance :: int
  mf_sigProposer :: bytes

record AckFrame =
  af_nonce :: int
  af_sigResponder :: bytes

datatype 'm Frame = FMove "'m MoveFrame" | FAck AckFrame

record 'm MoveCodec =
  mc_encode :: "'m \<Rightarrow> json option result"
  mc_decode :: "json option \<Rightarrow> 'm result"

definition identityMoveCodec :: "json option MoveCodec" where
  "identityMoveCodec = \<lparr>mc_encode = Inr, mc_decode = Inr\<rparr>"

text \<open>A party as a JSON string; the value of a JSON property read as a party.\<close>

definition partyJson :: "Party \<Rightarrow> json option" where
  "partyJson p = (case p of PartyA \<Rightarrow> Some (JStr ''A'') | PartyB \<Rightarrow> Some (JStr ''B'') | PartyOther v \<Rightarrow> v)"

definition partyOfJson :: "json option \<Rightarrow> Party" where
  "partyOfJson v = (if v = Some (JStr ''A'') then PartyA else if v = Some (JStr ''B'') then PartyB
     else PartyOther v)"

text \<open>A property whose value is \<open>undefined\<close> is left out of the text.\<close>

definition jprop :: "string \<Rightarrow> json option \<Rightarrow> (string \<times> json) list" where
  "jprop k v = (case v of None \<Rightarrow> [] | Some j \<Rightarrow> [(k, j)])"

definition frameObject :: "'m MoveCodec \<Rightarrow> 'm Frame \<Rightarrow> json result" where
  "frameObject codec frame =
     (case frame of
        FMove f \<Rightarrow>
          bindE (mc_encode codec (mf_move f)) (\<lambda>move.
          Inr (JObj
            ([(''kind'', JStr ''move''),
              (''nonce'', JStr (toStringInt (mf_nonce f)))] @
             jprop ''by'' (partyJson (mf_by f)) @
             jprop ''move'' move @
             [(''timestamp'', JStr (toStringInt (mf_timestamp f))),
              (''stateHash'', JStr (toHex (mf_stateHash f))),
              (''partyABalance'', JStr (toStringInt (mf_partyABalance f))),
              (''partyBBalance'', JStr (toStringInt (mf_partyBBalance f))),
              (''sigProposer'', JStr (toHex (mf_sigProposer f)))])))
      | FAck f \<Rightarrow>
          Inr (JObj [(''kind'', JStr ''ack''),
                     (''nonce'', JStr (toStringInt (af_nonce f))),
                     (''sigResponder'', JStr (toHex (af_sigResponder f)))]))"

text \<open>\<open>textDecoder.decode\<close>, the inverse of \<open>asciiBytes\<close>.\<close>

definition textDecode :: "bytes \<Rightarrow> string" where
  "textDecode bs = map (\<lambda>b. char_of (unat b)) bs"

definition encodeFrame :: "'m Frame \<Rightarrow> 'm MoveCodec \<Rightarrow> bytes result" where
  "encodeFrame frame codec =
     bindE (frameObject codec frame) (\<lambda>obj. Inr (asciiBytes (JSON_stringify obj)))"

text \<open>\<open>fromHex(o.k)\<close>: a value that is not a string has no \<open>startsWith\<close>.\<close>

definition fromHexJson :: "json option \<Rightarrow> bytes result" where
  "fromHexJson v = (case v of Some (JStr s) \<Rightarrow> fromHex s | _ \<Rightarrow> Inl (TypeError ''startsWith''))"

definition bigIntAt :: "json \<Rightarrow> string \<Rightarrow> int result" where
  "bigIntAt o1 k = bindE (jget o1 k) BigInt"

definition hexAt :: "json \<Rightarrow> string \<Rightarrow> bytes result" where
  "hexAt o1 k = bindE (jget o1 k) fromHexJson"

definition decodeFrame :: "bytes \<Rightarrow> 'm MoveCodec \<Rightarrow> 'm Frame result" where
  "decodeFrame bs codec =
     bindE (JSON_parse (textDecode bs)) (\<lambda>o1.
     bindE (jget o1 ''kind'') (\<lambda>kind.
     if kind = Some (JStr ''move'') then
       bindE (bigIntAt o1 ''nonce'') (\<lambda>nonce.
       bindE (jget o1 ''by'') (\<lambda>by1.
       bindE (bindE (jget o1 ''move'') (mc_decode codec)) (\<lambda>move.
       bindE (bigIntAt o1 ''timestamp'') (\<lambda>timestamp.
       bindE (hexAt o1 ''stateHash'') (\<lambda>stateHash.
       bindE (bigIntAt o1 ''partyABalance'') (\<lambda>a.
       bindE (bigIntAt o1 ''partyBBalance'') (\<lambda>b.
       bindE (hexAt o1 ''sigProposer'') (\<lambda>sig.
       Inr (FMove \<lparr>mf_nonce = nonce, mf_by = partyOfJson by1, mf_move = move,
         mf_timestamp = timestamp, mf_stateHash = stateHash, mf_partyABalance = a,
         mf_partyBBalance = b, mf_sigProposer = sig\<rparr>)))))))))
     else if kind = Some (JStr ''ack'') then
       bindE (bigIntAt o1 ''nonce'') (\<lambda>nonce.
       bindE (hexAt o1 ''sigResponder'') (\<lambda>sig.
       Inr (FAck \<lparr>af_nonce = nonce, af_sigResponder = sig\<rparr>)))
     else Inl (Error ''unknown frame kind'')))"

text \<open>The relay envelope around a frame: \<open>undefined\<close> for a missing \<open>kind\<close> leaves the key out.\<close>

definition wrapInnerFrameJson :: "string \<Rightarrow> string result" where
  "wrapInnerFrameJson innerJson =
     bindE (JSON_parse innerJson) (\<lambda>o1.
     bindE (jget o1 ''kind'') (\<lambda>kind.
     Inr (JSON_stringify (JObj
       ([(''t'', JStr ''frame'')] @ jprop ''kind'' kind @ [(''data'', JStr innerJson)])))))"

definition encodeRelayEnvelope :: "'m Frame \<Rightarrow> 'm MoveCodec \<Rightarrow> string result" where
  "encodeRelayEnvelope frame codec =
     bindE (encodeFrame frame codec) (\<lambda>bs. wrapInnerFrameJson (textDecode bs))"

definition innerFrameJsonFromRawBytes :: "bytes \<Rightarrow> bytes option" where
  "innerFrameJsonFromRawBytes bs =
     (case JSON_parse (textDecode bs) of
        Inl e \<Rightarrow> None
      | Inr o1 \<Rightarrow>
        (case (jget o1 ''t'', jget o1 ''data'') of
           (Inr (Some (JStr t)), Inr (Some (JStr d))) \<Rightarrow>
             (if t = ''frame'' then Some (asciiBytes d) else None)
         | _ \<Rightarrow> None))"

subsection \<open>Round trips\<close>

lemma unat_of_char_byte [simp]: "unat (of_char c :: byte) = of_char c"
proof -
  have "(of_char c :: nat) < 256"
    by (rule nat_of_char_less_256)
  moreover have "(of_char c :: byte) = of_nat (of_char c)"
    by (rule of_nat_of_char [symmetric])
  ultimately show ?thesis
    by (simp only: unsigned_of_nat take_bit_eq_mod) simp
qed

lemma textDecode_asciiBytes [simp]: "textDecode (asciiBytes s) = s"
  by (simp add: textDecode_def asciiBytes_def comp_def)

lemma jget_JObj [simp]: "jget (JObj fs) k = Inr (map_of (rev fs) k)"
  by (simp add: jget_def)

lemma fromHexJson_toHex [simp]: "fromHexJson (Some (JStr (toHex bs))) = Inr bs"
  by (simp add: fromHexJson_def fromHex_toHex)

lemma partyOfJson_partyJson: "seat p \<Longrightarrow> partyOfJson (partyJson p) = p"
  by (cases p) (auto simp: partyOfJson_def partyJson_def)

text \<open>The frame's move survives its codec.\<close>

definition moveRoundTrips :: "'m MoveCodec \<Rightarrow> 'm \<Rightarrow> bool" where
  "moveRoundTrips codec m \<longleftrightarrow> (\<exists>j. mc_encode codec m = Inr j \<and> mc_decode codec j = Inr m)"

fun frameOk :: "'m MoveCodec \<Rightarrow> 'm Frame \<Rightarrow> bool" where
  "frameOk codec (FMove f) \<longleftrightarrow> seat (mf_by f) \<and> moveRoundTrips codec (mf_move f)"
| "frameOk codec (FAck f) \<longleftrightarrow> True"

lemma decode_encodeFrame:
  assumes "frameOk codec f"
  shows "\<exists>bs. encodeFrame f codec = Inr bs \<and> decodeFrame bs codec = Inr f"
proof (cases f)
  case (FMove g)
  with assms obtain j where j: "mc_encode codec (mf_move g) = Inr j" "mc_decode codec j = Inr (mf_move g)"
    and by1: "seat (mf_by g)"
    by (auto simp: moveRoundTrips_def)
  obtain p where p: "partyJson (mf_by g) = Some p" "partyOfJson (Some p) = mf_by g"
    using by1 partyOfJson_partyJson [OF by1] by (cases "mf_by g") (auto simp: partyJson_def)
  show ?thesis
    using j p FMove
    by (cases j)
      (simp_all add: encodeFrame_def frameObject_def decodeFrame_def jprop_def bigIntAt_def hexAt_def)
next
  case (FAck g)
  then show ?thesis
    by (simp add: encodeFrame_def frameObject_def decodeFrame_def bigIntAt_def hexAt_def)
qed

lemma envelope_round_trip:
  assumes "encodeFrame f codec = Inr bs"
  shows "\<exists>env. encodeRelayEnvelope f codec = Inr env \<and>
    innerFrameJsonFromRawBytes (asciiBytes env) = Some bs"
proof -
  obtain obj where obj: "frameObject codec f = Inr obj" "bs = asciiBytes (JSON_stringify obj)"
    using assms by (auto simp: encodeFrame_def result_simps)
  moreover have "\<exists>fs. obj = JObj fs"
    using obj(1) by (auto simp: frameObject_def result_simps split: Frame.splits)
  ultimately show ?thesis
    using assms
    by (auto simp: encodeRelayEnvelope_def wrapInnerFrameJson_def innerFrameJsonFromRawBytes_def
        jprop_def split: option.splits)
qed

subsection \<open>Frames survive the relay\<close>

text \<open>C22. A frame whose sender is one of the two parties and whose move the codec preserves is decoded to
  itself from its bytes, and the peer recovers exactly those bytes from the envelope the relay forwards.\<close>

theorem frame_survives_relay:
  assumes "frameOk codec f"
  shows "\<exists>bs env. encodeFrame f codec = Inr bs \<and> decodeFrame bs codec = Inr f \<and>
    encodeRelayEnvelope f codec = Inr env \<and> innerFrameJsonFromRawBytes (asciiBytes env) = Some bs"
  using decode_encodeFrame [OF assms] envelope_round_trip [of f codec] by metis

theorem frame_survives_relay_witness:
  "\<exists>bs. encodeFrame (FMove \<lparr>mf_nonce = 7, mf_by = PartyB, mf_move = Some (JObj [(''cell'', JNum 4)]), mf_timestamp = 12,
      mf_stateHash = [1, 255], mf_partyABalance = 10, mf_partyBBalance = 20, mf_sigProposer = [0]\<rparr>) identityMoveCodec = Inr bs \<and>
    decodeFrame bs identityMoveCodec = Inr (FMove \<lparr>mf_nonce = 7, mf_by = PartyB, mf_move = Some (JObj [(''cell'', JNum 4)]),
      mf_timestamp = 12, mf_stateHash = [1, 255], mf_partyABalance = 10, mf_partyBBalance = 20, mf_sigProposer = [0]\<rparr>)"
proof -
  let ?f = "FMove \<lparr>mf_nonce = 7, mf_by = PartyB, mf_move = Some (JObj [(''cell'', JNum 4)]), mf_timestamp = 12,
      mf_stateHash = [1, 255], mf_partyABalance = 10, mf_partyBBalance = 20, mf_sigProposer = [0 :: byte]\<rparr>"
  have "frameOk identityMoveCodec ?f" by (simp add: moveRoundTrips_def identityMoveCodec_def)
  from frame_survives_relay [OF this] show ?thesis by blast
qed

end
