(* ===== verification/Distributed_Tunnel.thy ===== *)
theory Distributed_Tunnel
  imports Offchain_Tunnel Distributed_Frame
begin

section \<open>The two-process PvP engine (core/distributedTunnel.ts)\<close>

text \<open>
  One seat of a tunnel whose other seat is a remote process. The object is the record
  \<open>DistributedTunnel\<close>; a method is a function from the object and its arguments to the object it
  leaves behind, next to its result, so that the state after an exception is part of the model.
  \<open>transport.send\<close> appends to \<open>dt_sent\<close>, a call of the observer \<open>onConfirmed\<close> appends to
  \<open>dt_confirmed\<close>; the observer \<open>onProposed\<close> takes no argument and has no effect on the tunnel.

  \<open>H\<close> stands for blake2b-256 and \<open>edVerify\<close> for the signature check of core/crypto.ts.
\<close>

subsection \<open>State\<close>

record ('s, 'm) PendingProposal =
  pp_next :: 's
  pp_update :: StateUpdate
  pp_msg :: bytes
  pp_sigSelf :: bytes
  pp_move :: 'm
  pp_timestamp :: int

record 'm DistributedConfig =
  cfg_tunnelId :: string
  cfg_self :: PartyEndpoint
  cfg_opponent :: PartyEndpoint
  cfg_selfParty :: Party
  cfg_moveCodec :: "'m MoveCodec option"

record ('s, 'm) DistributedTunnel =
  dt_tunnelId :: string
  dt_protocol :: "('s, 'm) Protocol"
  dt_self :: PartyEndpoint
  dt_opponent :: PartyEndpoint
  dt_selfParty :: Party
  dt_total :: int
  dt_state :: 's
  dt_nonce :: int
  dt_latest :: "CoSignedUpdate option"
  dt_pending :: "('s, 'm) PendingProposal option"
  dt_codec :: "'m MoveCodec"
  dt_sent :: "bytes list"
  dt_confirmed :: "CoSignedUpdate list"

record ('s, 'm) TunnelSnapshot =
  sn_state :: 's
  sn_nonce :: int
  sn_latest :: "CoSignedUpdate option"
  sn_pending :: "('m \<times> int) option"

subsection \<open>Operations\<close>

text \<open>\<open>identity\<close> is the cast \<open>identityMoveCodec as MoveCodec<Move>\<close>.\<close>

definition newDistributedTunnel ::
  "'m MoveCodec \<Rightarrow> ('s, 'm) Protocol \<Rightarrow> 'm DistributedConfig \<Rightarrow> Balances \<Rightarrow>
   ('s, 'm) DistributedTunnel result" where
  "newDistributedTunnel identity protocol cfg initialBalances =
     (if ep_sign (cfg_self cfg) = None
      then Inl (Error ''DistributedTunnel: self endpoint must carry a signer'')
      else if p_movesCarrySecrets protocol \<and> cfg_moveCodec cfg = None
      then Inl (Error ''DistributedTunnel: protocol has secret-bearing moves and requires an explicit moveCodec'')
      else
        let total = bal_a initialBalances + bal_b initialBalances;
            state = p_initialState protocol
              \<lparr>ctx_tunnelId = cfg_tunnelId cfg, ctx_initialBalances = initialBalances\<rparr>;
            b = p_balances protocol state
        in if bal_a b + bal_b b \<noteq> total
           then Inl (Error ''protocol initial balances != locked total'')
           else Inr
             \<lparr>dt_tunnelId = cfg_tunnelId cfg, dt_protocol = protocol, dt_self = cfg_self cfg,
              dt_opponent = cfg_opponent cfg, dt_selfParty = cfg_selfParty cfg, dt_total = total,
              dt_state = state, dt_nonce = 0, dt_latest = None, dt_pending = None,
              dt_codec = (case cfg_moveCodec cfg of None \<Rightarrow> identity | Some c \<Rightarrow> c),
              dt_sent = [], dt_confirmed = []\<rparr>)"

definition displayState :: "('s, 'm) DistributedTunnel \<Rightarrow> 's" where
  "displayState t =
     (case dt_pending t of
        Some p \<Rightarrow> if su_nonce (pp_update p) > dt_nonce t then pp_next p else dt_state t
      | None \<Rightarrow> dt_state t)"

definition selfIsA :: "('s, 'm) DistributedTunnel \<Rightarrow> bool" where
  "selfIsA t = (dt_selfParty t = PartyA)"

definition coSign ::
  "('s, 'm) DistributedTunnel \<Rightarrow> StateUpdate \<Rightarrow> bytes \<Rightarrow> bytes \<Rightarrow> CoSignedUpdate" where
  "coSign t update sigSelf sigOther =
     (if selfIsA t then \<lparr>cu_update = update, cu_sigA = sigSelf, cu_sigB = sigOther\<rparr>
      else \<lparr>cu_update = update, cu_sigA = sigOther, cu_sigB = sigSelf\<rparr>)"

text \<open>\<open>this.self.sign!(msg)\<close>\<close>

definition selfSign :: "('s, 'm) DistributedTunnel \<Rightarrow> bytes \<Rightarrow> bytes result" where
  "selfSign t msg = (case ep_sign (dt_self t) of
     None \<Rightarrow> Inl (TypeError ''this.self.sign is not a function'') | Some f \<Rightarrow> Inr (f msg))"

definition transportSend :: "('s, 'm) DistributedTunnel \<Rightarrow> bytes \<Rightarrow> ('s, 'm) DistributedTunnel" where
  "transportSend t frame = t\<lparr>dt_sent := dt_sent t @ [frame]\<rparr>"

definition sendFrame ::
  "('s, 'm) DistributedTunnel \<Rightarrow> 'm Frame \<Rightarrow> ('s, 'm) DistributedTunnel \<times> unit result" where
  "sendFrame t f =
     (case encodeFrame f (dt_codec t) of
        Inl e \<Rightarrow> (t, Inl e) | Inr bs \<Rightarrow> (transportSend t bs, Inr ()))"

definition makeProposal ::
  "(bytes \<Rightarrow> bytes) \<Rightarrow> ('s, 'm) DistributedTunnel \<Rightarrow> 'm \<Rightarrow> int \<Rightarrow> ('s, 'm) PendingProposal result" where
  "makeProposal H t move timestamp =
     bindE (p_applyMove (dt_protocol t) (dt_state t) move (dt_selfParty t)) (\<lambda>nxt.
     let b = p_balances (dt_protocol t) nxt
     in if bal_a b + bal_b b \<noteq> dt_total t then Inl (Error ''balance sum != locked total'')
        else
          bindE (p_encodeState (dt_protocol t) nxt) (\<lambda>es.
          let update = \<lparr>su_tunnelId = dt_tunnelId t, su_stateHash = H es, su_nonce = dt_nonce t + 1,
                su_timestamp = timestamp, su_partyABalance = bal_a b, su_partyBBalance = bal_b b\<rparr>
          in bindE (serializeStateUpdate update) (\<lambda>msg.
             bindE (selfSign t msg) (\<lambda>sigSelf.
             Inr \<lparr>pp_next = nxt, pp_update = update, pp_msg = msg, pp_sigSelf = sigSelf,
                  pp_move = move, pp_timestamp = timestamp\<rparr>))))"

definition seatPending ::
  "(bytes \<Rightarrow> bytes) \<Rightarrow> ('s, 'm) DistributedTunnel \<Rightarrow> 'm \<Rightarrow> int \<Rightarrow>
   ('s, 'm) DistributedTunnel \<times> unit result" where
  "seatPending H t move timestamp =
     (if dt_pending t \<noteq> None then (t, Inl (Error ''a proposal is already awaiting ACK''))
      else
        case makeProposal H t move timestamp of
          Inl e \<Rightarrow> (t, Inl e)
        | Inr p \<Rightarrow> (t\<lparr>dt_pending := Some p\<rparr>, Inr ()))"

definition pendingMoveFrame ::
  "('s, 'm) DistributedTunnel \<Rightarrow> ('s, 'm) PendingProposal \<Rightarrow> 'm MoveFrame" where
  "pendingMoveFrame t p =
     \<lparr>mf_nonce = su_nonce (pp_update p), mf_by = dt_selfParty t, mf_move = pp_move p,
      mf_timestamp = pp_timestamp p, mf_stateHash = su_stateHash (pp_update p),
      mf_partyABalance = su_partyABalance (pp_update p),
      mf_partyBBalance = su_partyBBalance (pp_update p), mf_sigProposer = pp_sigSelf p\<rparr>"

definition resendPending ::
  "('s, 'm) DistributedTunnel \<Rightarrow> ('s, 'm) DistributedTunnel \<times> unit result" where
  "resendPending t =
     (case dt_pending t of
        None \<Rightarrow> (t, Inr ())
      | Some p \<Rightarrow> sendFrame t (FMove (pendingMoveFrame t p)))"

definition propose ::
  "(bytes \<Rightarrow> bytes) \<Rightarrow> ('s, 'm) DistributedTunnel \<Rightarrow> 'm \<Rightarrow> int \<Rightarrow>
   ('s, 'm) DistributedTunnel \<times> unit result" where
  "propose H t move timestamp =
     (case seatPending H t move timestamp of
        (t1, Inl e) \<Rightarrow> (t1, Inl e)
      | (t1, Inr u) \<Rightarrow>
        (case dt_pending t1 of
           None \<Rightarrow> (t1, Inl (TypeError ''pending is null''))
         | Some p \<Rightarrow> sendFrame t1 (FMove (pendingMoveFrame t1 p))))"

text \<open>\<open>if (this.pending && this.pending.update.nonce <= n) this.pending = null;\<close>\<close>

definition dropPendingUpTo :: "int \<Rightarrow> ('s, 'm) DistributedTunnel \<Rightarrow> ('s, 'm) DistributedTunnel" where
  "dropPendingUpTo n t =
     (case dt_pending t of
        None \<Rightarrow> t
      | Some p \<Rightarrow> if su_nonce (pp_update p) \<le> n then t\<lparr>dt_pending := None\<rparr> else t)"

definition partyAOf :: "('s, 'm) DistributedTunnel \<Rightarrow> PartyEndpoint" where
  "partyAOf t = (if selfIsA t then dt_self t else dt_opponent t)"

definition partyBOf :: "('s, 'm) DistributedTunnel \<Rightarrow> PartyEndpoint" where
  "partyBOf t = (if selfIsA t then dt_opponent t else dt_self t)"

definition checkCheckpoint ::
  "(bytes \<Rightarrow> bytes) \<Rightarrow> (bytes \<Rightarrow> bytes \<Rightarrow> bytes \<Rightarrow> bool) \<Rightarrow> ('s, 'm) DistributedTunnel \<Rightarrow> 's \<Rightarrow>
   CoSignedUpdate \<Rightarrow> unit result" where
  "checkCheckpoint H edVerify t state coSigned =
     (let u = cu_update coSigned
      in if su_partyABalance u + su_partyBBalance u \<noteq> dt_total t
         then Inl (Error ''adoptCheckpoint: balance sum != locked total'')
         else
           bindE (p_encodeState (dt_protocol t) state) (\<lambda>es.
           if \<not> bytesEqual (H es) (su_stateHash u)
           then Inl (Error ''adoptCheckpoint: state hash mismatch'')
           else
             bindE (verifyCoSignedUpdate edVerify coSigned (partyAOf t) (partyBOf t)) (\<lambda>ok.
             if \<not> ok then Inl (Error ''adoptCheckpoint: co-signature verification failed'')
             else Inr ())))"

definition adoptCheckpoint ::
  "(bytes \<Rightarrow> bytes) \<Rightarrow> (bytes \<Rightarrow> bytes \<Rightarrow> bytes \<Rightarrow> bool) \<Rightarrow> ('s, 'm) DistributedTunnel \<Rightarrow> 's \<Rightarrow>
   CoSignedUpdate \<Rightarrow> ('s, 'm) DistributedTunnel \<times> unit result" where
  "adoptCheckpoint H edVerify t state coSigned =
     (let u = cu_update coSigned
      in if su_tunnelId u \<noteq> dt_tunnelId t
         then (t, Inl (Error ''adoptCheckpoint: tunnelId mismatch''))
         else if su_nonce u < dt_nonce t then (t, Inr ())
         else
           case checkCheckpoint H edVerify t state coSigned of
             Inl e \<Rightarrow> (t, Inl e)
           | Inr _ \<Rightarrow>
             (dropPendingUpTo (su_nonce u)
                (t\<lparr>dt_state := state, dt_nonce := su_nonce u, dt_latest := Some coSigned\<rparr>),
              Inr ()))"

definition snapshot :: "('s, 'm) DistributedTunnel \<Rightarrow> ('s, 'm) TunnelSnapshot" where
  "snapshot t = \<lparr>sn_state = dt_state t, sn_nonce = dt_nonce t, sn_latest = dt_latest t,
     sn_pending = map_option (\<lambda>p. (pp_move p, pp_timestamp p)) (dt_pending t)\<rparr>"

text \<open>The replay branch of \<open>onMove\<close>: re-acknowledge the current nonce, ignore an older one.\<close>

definition onMoveReplay ::
  "('s, 'm) DistributedTunnel \<Rightarrow> 'm MoveFrame \<Rightarrow> ('s, 'm) DistributedTunnel \<times> unit result" where
  "onMoveReplay t frame =
     (case (dt_latest t, ep_sign (dt_self t)) of
        (Some latest, Some sign) \<Rightarrow>
          (if mf_nonce frame = dt_nonce t \<and> su_nonce (cu_update latest) = mf_nonce frame then
             (case serializeStateUpdate (cu_update latest) of
                Inl e \<Rightarrow> (t, Inl e)
              | Inr msg \<Rightarrow>
                sendFrame t (FAck \<lparr>af_nonce = mf_nonce frame, af_sigResponder = sign msg\<rparr>))
           else (t, Inr ()))
      | _ \<Rightarrow> (t, Inr ()))"

text \<open>The checks of \<open>onMove\<close> on a fresh move, up to the responder's signature.\<close>

definition checkMove ::
  "(bytes \<Rightarrow> bytes) \<Rightarrow> ('s, 'm) DistributedTunnel \<Rightarrow> 'm MoveFrame \<Rightarrow>
   ('s \<times> StateUpdate \<times> bytes) result" where
  "checkMove H t frame =
     (if mf_nonce frame \<noteq> dt_nonce t + 1 then Inl (Error ''nonce gap'')
      else
        bindE (p_applyMove (dt_protocol t) (dt_state t) (mf_move frame) (mf_by frame)) (\<lambda>nxt.
        let b = p_balances (dt_protocol t) nxt
        in if bal_a b + bal_b b \<noteq> dt_total t then Inl (Error ''balance sum != locked total'')
           else if bal_a b \<noteq> mf_partyABalance frame \<or> bal_b b \<noteq> mf_partyBBalance frame
           then Inl (Error ''frame balances != re-derived balances'')
           else
             bindE (p_encodeState (dt_protocol t) nxt) (\<lambda>es.
             if \<not> bytesEqual (H es) (mf_stateHash frame)
             then Inl (Error ''frame stateHash != re-derived stateHash'')
             else
               let update = \<lparr>su_tunnelId = dt_tunnelId t, su_stateHash = H es,
                     su_nonce = mf_nonce frame, su_timestamp = mf_timestamp frame,
                     su_partyABalance = bal_a b, su_partyBBalance = bal_b b\<rparr>
               in bindE (serializeStateUpdate update) (\<lambda>msg.
                  if \<not> ep_verify (dt_opponent t) msg (mf_sigProposer frame)
                  then Inl (Error ''proposer signature failed verification'')
                  else bindE (selfSign t msg) (\<lambda>sigResponder. Inr (nxt, update, sigResponder))))))"

definition confirm :: "CoSignedUpdate \<Rightarrow> ('s, 'm) DistributedTunnel \<Rightarrow> ('s, 'm) DistributedTunnel" where
  "confirm u t = t\<lparr>dt_confirmed := dt_confirmed t @ [u]\<rparr>"

definition onMove ::
  "(bytes \<Rightarrow> bytes) \<Rightarrow> ('s, 'm) DistributedTunnel \<Rightarrow> 'm MoveFrame \<Rightarrow>
   ('s, 'm) DistributedTunnel \<times> unit result" where
  "onMove H t frame =
     (if mf_by frame = dt_selfParty t
      then (t, Inl (Error ''received a MOVE attributed to self''))
      else if mf_nonce frame \<le> dt_nonce t then onMoveReplay t frame
      else
        case checkMove H t frame of
          Inl e \<Rightarrow> (t, Inl e)
        | Inr (nxt, update, sigResponder) \<Rightarrow>
          (let latest = coSign t update sigResponder (mf_sigProposer frame);
               t1 = dropPendingUpTo (mf_nonce frame)
                      (t\<lparr>dt_latest := Some latest, dt_state := nxt, dt_nonce := mf_nonce frame\<rparr>)
           in case sendFrame t1 (FAck \<lparr>af_nonce = mf_nonce frame, af_sigResponder = sigResponder\<rparr>) of
                (t2, Inl e) \<Rightarrow> (t2, Inl e)
              | (t2, Inr _) \<Rightarrow> (confirm latest t2, Inr ())))"

definition onAck ::
  "('s, 'm) DistributedTunnel \<Rightarrow> AckFrame \<Rightarrow> ('s, 'm) DistributedTunnel \<times> unit result" where
  "onAck t frame =
     (if af_nonce frame \<le> dt_nonce t then (t, Inr ())
      else
        case dt_pending t of
          None \<Rightarrow> (t, Inl (Error ''unexpected ACK''))
        | Some p \<Rightarrow>
          (if af_nonce frame \<noteq> su_nonce (pp_update p) then (t, Inl (Error ''unexpected ACK''))
           else if \<not> ep_verify (dt_opponent t) (pp_msg p) (af_sigResponder frame)
           then (t, Inl (Error ''responder signature failed verification''))
           else
             let latest = coSign t (pp_update p) (pp_sigSelf p) (af_sigResponder frame)
             in (confirm latest
                   (t\<lparr>dt_latest := Some latest, dt_state := pp_next p,
                      dt_nonce := su_nonce (pp_update p), dt_pending := None\<rparr>), Inr ())))"

definition onFrame ::
  "(bytes \<Rightarrow> bytes) \<Rightarrow> ('s, 'm) DistributedTunnel \<Rightarrow> bytes \<Rightarrow>
   ('s, 'm) DistributedTunnel \<times> unit result" where
  "onFrame H t bs =
     (case decodeFrame bs (dt_codec t) of
        Inl e \<Rightarrow> (t, Inl e)
      | Inr (FMove f) \<Rightarrow> onMove H t f
      | Inr (FAck f) \<Rightarrow> onAck t f)"

subsection \<open>Cooperative settlement\<close>

definition buildSettlementHalf ::
  "('s, 'm) DistributedTunnel \<Rightarrow> int \<Rightarrow> int \<Rightarrow> (Settlement \<times> bytes) result" where
  "buildSettlementHalf t timestamp onchainNonce =
     (let b = p_balances (dt_protocol t) (dt_state t);
          settlement = \<lparr>st_tunnelId = dt_tunnelId t, st_partyABalance = bal_a b,
            st_partyBBalance = bal_b b, st_finalNonce = onchainNonce + 1, st_timestamp = timestamp\<rparr>
      in bindE (serializeSettlement settlement) (\<lambda>msg.
         bindE (selfSign t msg) (\<lambda>sigSelf. Inr (settlement, sigSelf))))"

definition combineSettlement ::
  "('s, 'm) DistributedTunnel \<Rightarrow> Settlement \<Rightarrow> bytes \<Rightarrow> bytes \<Rightarrow> CoSignedSettlement result" where
  "combineSettlement t settlement sigSelf sigOther =
     bindE (serializeSettlement settlement) (\<lambda>msg.
     if \<not> ep_verify (dt_opponent t) msg sigOther
     then Inl (Error ''opponent settlement signature failed verification'')
     else Inr (if selfIsA t
       then \<lparr>cs_settlement = settlement, cs_sigA = sigSelf, cs_sigB = sigOther\<rparr>
       else \<lparr>cs_settlement = settlement, cs_sigA = sigOther, cs_sigB = sigSelf\<rparr>))"

definition buildSettlementHalfWithRoot ::
  "('s, 'm) DistributedTunnel \<Rightarrow> int \<Rightarrow> bytes \<Rightarrow> int \<Rightarrow> (SettlementWithRoot \<times> bytes) result" where
  "buildSettlementHalfWithRoot t timestamp transcriptRoot onchainNonce =
     (if length transcriptRoot \<noteq> 32 then Inl (Error ''transcriptRoot must be 32 bytes'')
      else
        let b = p_balances (dt_protocol t) (dt_state t);
            settlement = \<lparr>st_tunnelId = dt_tunnelId t, st_partyABalance = bal_a b,
              st_partyBBalance = bal_b b, st_finalNonce = onchainNonce + 1,
              st_timestamp = timestamp, st_transcriptRoot = transcriptRoot\<rparr>
        in bindE (serializeSettlementWithRoot settlement) (\<lambda>msg.
           bindE (selfSign t msg) (\<lambda>sigSelf. Inr (settlement, sigSelf))))"

definition combineSettlementWithRoot ::
  "('s, 'm) DistributedTunnel \<Rightarrow> SettlementWithRoot \<Rightarrow> bytes \<Rightarrow> bytes \<Rightarrow>
   CoSignedSettlementWithRoot result" where
  "combineSettlementWithRoot t settlement sigSelf sigOther =
     bindE (serializeSettlementWithRoot settlement) (\<lambda>msg.
     if \<not> ep_verify (dt_opponent t) msg sigOther
     then Inl (Error ''opponent settlement signature failed verification'')
     else Inr (if selfIsA t
       then \<lparr>cr_settlement = settlement, cr_sigA = sigSelf, cr_sigB = sigOther\<rparr>
       else \<lparr>cr_settlement = settlement, cr_sigA = sigOther, cr_sigB = sigSelf\<rparr>))"

subsection \<open>The steps of one seat\<close>

text \<open>Everything that can happen to a seat: its user proposes, seats or re-sends a move or adopts a
  checkpoint, and the transport delivers arbitrary bytes. The seat left behind by a call that throws
  is a successor as well.\<close>

inductive seatStep ::
  "(bytes \<Rightarrow> bytes) \<Rightarrow> (bytes \<Rightarrow> bytes \<Rightarrow> bytes \<Rightarrow> bool) \<Rightarrow> ('s, 'm) DistributedTunnel \<Rightarrow>
   ('s, 'm) DistributedTunnel \<Rightarrow> bool"
  for H edVerify where
  step_propose: "seatStep H edVerify t (fst (propose H t move timestamp))"
| step_seat: "seatStep H edVerify t (fst (seatPending H t move timestamp))"
| step_resend: "seatStep H edVerify t (fst (resendPending t))"
| step_adopt: "seatStep H edVerify t (fst (adoptCheckpoint H edVerify t state coSigned))"
| step_frame: "seatStep H edVerify t (fst (onFrame H t bs))"

text \<open>The fields no step changes.\<close>

definition sameSeat :: "('s, 'm) DistributedTunnel \<Rightarrow> ('s, 'm) DistributedTunnel \<Rightarrow> bool" where
  "sameSeat t t' \<longleftrightarrow> dt_tunnelId t' = dt_tunnelId t \<and> dt_protocol t' = dt_protocol t \<and>
     dt_self t' = dt_self t \<and> dt_opponent t' = dt_opponent t \<and> dt_selfParty t' = dt_selfParty t \<and>
     dt_total t' = dt_total t \<and> dt_codec t' = dt_codec t"

text \<open>An update that belongs to the tunnel, carries the hash of a state's encoding, and splits exactly
  the locked total.\<close>

definition bindsState ::
  "(bytes \<Rightarrow> bytes) \<Rightarrow> ('s, 'm) DistributedTunnel \<Rightarrow> 's \<Rightarrow> StateUpdate \<Rightarrow> bool" where
  "bindsState H t s u \<longleftrightarrow> su_tunnelId u = dt_tunnelId t \<and>
     (\<exists>es. p_encodeState (dt_protocol t) s = Inr es \<and> su_stateHash u = H es) \<and>
     su_partyABalance u + su_partyBBalance u = dt_total t"

text \<open>A well-formed proposal for the next nonce: it describes its own next state and its message is
  signed by this seat.\<close>

definition proposalOk ::
  "(bytes \<Rightarrow> bytes) \<Rightarrow> ('s, 'm) DistributedTunnel \<Rightarrow> ('s, 'm) PendingProposal \<Rightarrow> bool" where
  "proposalOk H t p \<longleftrightarrow> su_nonce (pp_update p) = dt_nonce t + 1 \<and>
     bindsState H t (pp_next p) (pp_update p) \<and>
     describes H (dt_protocol t) (pp_next p) (pp_update p) \<and>
     su_timestamp (pp_update p) = pp_timestamp p \<and>
     serializeStateUpdate (pp_update p) = Inr (pp_msg p) \<and>
     selfSign t (pp_msg p) = Inr (pp_sigSelf p)"

definition seatOk :: "(bytes \<Rightarrow> bytes) \<Rightarrow> ('s, 'm) DistributedTunnel \<Rightarrow> bool" where
  "seatOk H t \<longleftrightarrow>
     (\<forall>u. dt_latest t = Some u \<longrightarrow> coSignedBy (partyAOf t) (partyBOf t) u \<and>
        su_nonce (cu_update u) = dt_nonce t \<and> bindsState H t (dt_state t) (cu_update u)) \<and>
     (dt_latest t = None \<longrightarrow> dt_nonce t = 0) \<and>
     (\<forall>p. dt_pending t = Some p \<longrightarrow> proposalOk H t p)"

text \<open>The observer's log: co-signed updates with strictly increasing nonces, none beyond the
  current one.\<close>

definition logOk :: "('s, 'm) DistributedTunnel \<Rightarrow> bool" where
  "logOk t \<longleftrightarrow> sorted_wrt (<) (map (\<lambda>u. su_nonce (cu_update u)) (dt_confirmed t)) \<and>
     (\<forall>u \<in> set (dt_confirmed t). su_nonce (cu_update u) \<le> dt_nonce t \<and>
        coSignedBy (partyAOf t) (partyBOf t) u)"

text \<open>What the two endpoints are assumed to be: the seat's own signatures pass its own verifier, and
  both verifiers are the signature check of core/crypto.ts under the endpoint's public key.\<close>

definition endpointsOk ::
  "(bytes \<Rightarrow> bytes \<Rightarrow> bytes \<Rightarrow> bool) \<Rightarrow> ('s, 'm) DistributedTunnel \<Rightarrow> bool" where
  "endpointsOk edVerify t \<longleftrightarrow> correctEndpoint (dt_self t) \<and>
     verifies edVerify (dt_self t) \<and> verifies edVerify (dt_opponent t)"

subsection \<open>What each operation does\<close>

lemmas seat_defs = sameSeat_def bindsState_def proposalOk_def selfSign_def coSignedBy_def
  partyAOf_def partyBOf_def selfIsA_def

lemma makeProposal_Inr:
  assumes "makeProposal H t m ts = Inr p"
  shows "p_applyMove (dt_protocol t) (dt_state t) m (dt_selfParty t) = Inr (pp_next p)"
    "pp_move p = m" "pp_timestamp p = ts" "proposalOk H t p"
  using assms
  by (auto simp: makeProposal_def proposalOk_def bindsState_def describes_def Let_def result_simps
      split: if_splits)

lemma checkMove_Inr:
  assumes "checkMove H t f = Inr (nxt, u, sg)"
  shows "p_applyMove (dt_protocol t) (dt_state t) (mf_move f) (mf_by f) = Inr nxt"
    "mf_nonce f = dt_nonce t + 1" "su_nonce u = mf_nonce f" "su_timestamp u = mf_timestamp f"
    "bindsState H t nxt u" "describes H (dt_protocol t) nxt u" "su_stateHash u = mf_stateHash f"
    "\<exists>msg. serializeStateUpdate u = Inr msg \<and> ep_verify (dt_opponent t) msg (mf_sigProposer f) \<and>
       selfSign t msg = Inr sg"
  using assms
  by (auto simp: checkMove_def bindsState_def describes_def Let_def result_simps split: if_splits)

lemma sendFrame_cases:
  "sendFrame t f = (t', r) \<Longrightarrow> (\<exists>bs. t' = transportSend t bs \<and> r = Inr () \<and> encodeFrame f (dt_codec t) = Inr bs) \<or>
     (\<exists>e. t' = t \<and> r = Inl e)"
  by (auto simp: sendFrame_def split: sum.splits)

lemma sendFrame_ack: "\<exists>bs. sendFrame t (FAck a) = (transportSend t bs, Inr ())"
  by (auto simp: sendFrame_def encodeFrame_def frameObject_def)

text \<open>A step that at most sends something.\<close>

definition quiet :: "('s, 'm) DistributedTunnel \<Rightarrow> ('s, 'm) DistributedTunnel \<Rightarrow> bool" where
  "quiet t t' \<longleftrightarrow> t' = t \<or> (\<exists>bs. t' = transportSend t bs)"

lemma quiet_refl [simp]: "quiet t t"
  by (simp add: quiet_def)

lemma quiet_send [simp]: "quiet t (fst (sendFrame t f))"
  using sendFrame_cases [of t f] by (cases "sendFrame t f") (auto simp: quiet_def)

lemma quiet_fields:
  "quiet t t' \<Longrightarrow> sameSeat t t' \<and> dt_state t' = dt_state t \<and> dt_nonce t' = dt_nonce t \<and>
     dt_latest t' = dt_latest t \<and> dt_pending t' = dt_pending t \<and> dt_confirmed t' = dt_confirmed t"
  by (auto simp: quiet_def transportSend_def sameSeat_def)

lemma onMoveReplay_quiet: "quiet t (fst (onMoveReplay t f))"
  using quiet_send by (auto simp: onMoveReplay_def split: option.splits sum.splits)

text \<open>The seat after confirming an update \<open>u\<close> and its state.\<close>

definition advanced ::
  "CoSignedUpdate \<Rightarrow> 's \<Rightarrow> int \<Rightarrow> ('s, 'm) PendingProposal option \<Rightarrow> ('s, 'm) DistributedTunnel \<Rightarrow>
   ('s, 'm) DistributedTunnel" where
  "advanced u s n p t = t\<lparr>dt_latest := Some u, dt_state := s, dt_nonce := n, dt_pending := p\<rparr>"

lemma dropPending_advanced:
  "dropPendingUpTo n (t\<lparr>dt_latest := Some u, dt_state := s, dt_nonce := k\<rparr>) =
     advanced u s k
       (case dt_pending t of None \<Rightarrow> None
        | Some p \<Rightarrow> if su_nonce (pp_update p) \<le> n then None else Some p) t"
  by (auto simp: dropPendingUpTo_def advanced_def split: option.splits)

lemma onMove_fresh:
  assumes "checkMove H t f = Inr (nxt, u, sg)" "mf_by f \<noteq> dt_selfParty t"
    "\<And>p. dt_pending t = Some p \<Longrightarrow> su_nonce (pp_update p) = dt_nonce t + 1"
  shows "\<exists>bs. onMove H t f =
    (let L = coSign t u sg (mf_sigProposer f)
     in confirm L (transportSend (advanced L nxt (mf_nonce f) None t) bs), Inr ())"
proof -
  note n = checkMove_Inr(2) [OF assms(1)]
  define L where "L = coSign t u sg (mf_sigProposer f)"
  have "dropPendingUpTo (mf_nonce f) (t\<lparr>dt_latest := Some L, dt_state := nxt, dt_nonce := mf_nonce f\<rparr>) =
      advanced L nxt (mf_nonce f) None t"
    using assms(3) n by (auto simp: dropPending_advanced split: option.splits)
  moreover obtain bs where "sendFrame (advanced L nxt (mf_nonce f) None t)
      (FAck \<lparr>af_nonce = mf_nonce f, af_sigResponder = sg\<rparr>) =
      (transportSend (advanced L nxt (mf_nonce f) None t) bs, Inr ())"
    using sendFrame_ack by blast
  ultimately have "onMove H t f = (confirm L (transportSend (advanced L nxt (mf_nonce f) None t) bs), Inr ())"
    using assms(1,2) n by (simp add: onMove_def Let_def L_def [symmetric])
  then show ?thesis
    by (auto simp: Let_def L_def)
qed

lemma onMove_cases:
  assumes "\<And>p. dt_pending t = Some p \<Longrightarrow> su_nonce (pp_update p) = dt_nonce t + 1"
  shows "quiet t (fst (onMove H t f)) \<or>
    (\<exists>nxt u sg bs. checkMove H t f = Inr (nxt, u, sg) \<and> mf_by f \<noteq> dt_selfParty t \<and>
       fst (onMove H t f) =
         (let L = coSign t u sg (mf_sigProposer f)
          in confirm L (transportSend (advanced L nxt (mf_nonce f) None t) bs)))"
proof (cases "mf_by f = dt_selfParty t \<or> mf_nonce f \<le> dt_nonce t")
  case True
  then show ?thesis
    using onMoveReplay_quiet by (auto simp: onMove_def)
next
  case False
  show ?thesis
  proof (cases "checkMove H t f")
    case (Inl e)
    with False show ?thesis by (simp add: onMove_def)
  next
    case (Inr x)
    obtain nxt u sg where x: "x = (nxt, u, sg)" by (cases x)
    with Inr onMove_fresh [of H t f nxt u sg, OF _ _ assms] False show ?thesis
      by fastforce
  qed
qed

lemma onAck_cases:
  "fst (onAck t f) = t \<or>
   (\<exists>p. dt_pending t = Some p \<and> dt_nonce t < af_nonce f \<and> af_nonce f = su_nonce (pp_update p) \<and>
      ep_verify (dt_opponent t) (pp_msg p) (af_sigResponder f) \<and>
      onAck t f =
        (let L = coSign t (pp_update p) (pp_sigSelf p) (af_sigResponder f)
         in confirm L (advanced L (pp_next p) (su_nonce (pp_update p)) None t), Inr ()))"
  by (auto simp: onAck_def advanced_def Let_def split: option.splits)

lemma seatPending_cases:
  "fst (seatPending H t m ts) = t \<or>
   (\<exists>p. dt_pending t = None \<and> makeProposal H t m ts = Inr p \<and>
      seatPending H t m ts = (t\<lparr>dt_pending := Some p\<rparr>, Inr ()))"
  by (auto simp: seatPending_def split: sum.splits)

lemma propose_quiet: "quiet (fst (seatPending H t m ts)) (fst (propose H t m ts))"
  using quiet_send
  by (auto simp: propose_def split: prod.splits sum.splits option.splits)

lemma resendPending_quiet: "quiet t (fst (resendPending t))"
  by (auto simp: resendPending_def split: option.splits)

lemma adoptCheckpoint_cases:
  "fst (adoptCheckpoint H edV t s c) = t \<or>
   (su_tunnelId (cu_update c) = dt_tunnelId t \<and> dt_nonce t \<le> su_nonce (cu_update c) \<and>
    checkCheckpoint H edV t s c = Inr () \<and>
    fst (adoptCheckpoint H edV t s c) =
      advanced c s (su_nonce (cu_update c))
        (case dt_pending t of None \<Rightarrow> None
         | Some p \<Rightarrow> if su_nonce (pp_update p) \<le> su_nonce (cu_update c) then None else Some p) t)"
proof -
  have "dropPendingUpTo n (t\<lparr>dt_state := s, dt_nonce := n, dt_latest := Some c\<rparr>) =
    advanced c s n (case dt_pending t of None \<Rightarrow> None
         | Some p \<Rightarrow> if su_nonce (pp_update p) \<le> n then None else Some p) t" for n
    by (auto simp: dropPendingUpTo_def advanced_def split: option.splits)
  then show ?thesis
    by (auto simp: adoptCheckpoint_def Let_def split: sum.splits)
qed

subsection \<open>The invariant of a seat\<close>

lemma coSign_coSignedBy:
  assumes "serializeStateUpdate u = Inr msg" "selfSign t msg = Inr sg" "correctEndpoint (dt_self t)"
    "ep_verify (dt_opponent t) msg other"
  shows "coSignedBy (partyAOf t) (partyBOf t) (coSign t u sg other)"
  using assms
  by (auto simp: seat_defs coSign_def correctEndpoint_def split: option.splits)

lemma sameSeat_preds:
  assumes "sameSeat t t'"
  shows "partyAOf t' = partyAOf t" "partyBOf t' = partyBOf t" "bindsState H t' = bindsState H t"
    "selfSign t' = selfSign t" "endpointsOk edV t' = endpointsOk edV t"
  using assms by (auto simp: seat_defs endpointsOk_def intro!: ext)

lemma sameSeat_refl [simp]: "sameSeat t t"
  by (simp add: sameSeat_def)

lemma sameSeat_trans: "sameSeat t t' \<Longrightarrow> sameSeat t' t'' \<Longrightarrow> sameSeat t t''"
  by (simp add: sameSeat_def)

lemma advanced_simps [simp]:
  "dt_latest (advanced u s n p t) = Some u" "dt_state (advanced u s n p t) = s"
  "dt_nonce (advanced u s n p t) = n" "dt_pending (advanced u s n p t) = p"
  "dt_confirmed (advanced u s n p t) = dt_confirmed t" "sameSeat t (advanced u s n p t)"
  by (simp_all add: advanced_def sameSeat_def)

lemma effect_simps [simp]:
  "dt_latest (transportSend t b) = dt_latest t" "dt_state (transportSend t b) = dt_state t"
  "dt_nonce (transportSend t b) = dt_nonce t" "dt_pending (transportSend t b) = dt_pending t"
  "dt_confirmed (transportSend t b) = dt_confirmed t" "sameSeat t (transportSend t b)"
  "dt_latest (confirm u t) = dt_latest t" "dt_state (confirm u t) = dt_state t"
  "dt_nonce (confirm u t) = dt_nonce t" "dt_pending (confirm u t) = dt_pending t"
  "dt_confirmed (confirm u t) = dt_confirmed t @ [u]" "sameSeat t (confirm u t)"
  by (simp_all add: transportSend_def confirm_def sameSeat_def)

lemma proposalOk_cong:
  "sameSeat t t' \<Longrightarrow> dt_nonce t' = dt_nonce t \<Longrightarrow> proposalOk H t' p = proposalOk H t p"
  by (auto simp: proposalOk_def sameSeat_preds) (auto simp: sameSeat_def)

text \<open>One transition that keeps everything: same configuration, same or larger nonce, invariant and log.\<close>

definition keeps ::
  "(bytes \<Rightarrow> bytes) \<Rightarrow> ('s, 'm) DistributedTunnel \<Rightarrow> ('s, 'm) DistributedTunnel \<Rightarrow> bool" where
  "keeps H t t' \<longleftrightarrow> sameSeat t t' \<and> dt_nonce t \<le> dt_nonce t' \<and>
     (seatOk H t \<longrightarrow> seatOk H t') \<and> (seatOk H t \<longrightarrow> logOk t \<longrightarrow> logOk t')"

lemma keeps_refl [simp]: "keeps H t t"
  by (simp add: keeps_def)

lemma keeps_trans: "keeps H t t' \<Longrightarrow> keeps H t' t'' \<Longrightarrow> keeps H t t''"
  by (auto simp: keeps_def intro: sameSeat_trans)

lemma keeps_quiet:
  assumes "quiet t t'"
  shows "keeps H t t'"
proof -
  note q = quiet_fields [OF assms]
  then have "seatOk H t' = seatOk H t" "logOk t' = logOk t"
    by (auto simp: seatOk_def logOk_def sameSeat_preds [of t t'] proposalOk_cong [of t t'])
  with q show ?thesis by (simp add: keeps_def)
qed

text \<open>A seat that confirms a co-signed update for its new state keeps the invariant; the log may grow by it.\<close>

lemma keeps_advance:
  assumes seat: "sameSeat t t'" and lat: "dt_latest t' = Some u"
    and co: "coSignedBy (partyAOf t) (partyBOf t) u" and bs: "bindsState H t (dt_state t') (cu_update u)"
    and n: "su_nonce (cu_update u) = dt_nonce t'"
    and ge: "dt_nonce t \<le> dt_nonce t'"
    and pend: "\<And>p. dt_pending t' = Some p \<Longrightarrow> seatOk H t \<Longrightarrow> proposalOk H t' p"
    and log: "dt_confirmed t' = dt_confirmed t \<or> dt_nonce t < dt_nonce t' \<and> dt_confirmed t' = dt_confirmed t @ [u]"
  shows "keeps H t t'"
proof -
  have "seatOk H t'" if "seatOk H t"
    using co bs n lat pend [OF _ that] by (auto simp: seatOk_def sameSeat_preds [OF seat])
  moreover have "logOk t'" if "logOk t"
    using that log ge n co by (fastforce simp: logOk_def sameSeat_preds [OF seat] sorted_wrt_append)
  ultimately show ?thesis
    using seat ge by (simp add: keeps_def)
qed

lemma seatOk_pending_nonce:
  "seatOk H t \<Longrightarrow> dt_pending t = Some p \<Longrightarrow> su_nonce (pp_update p) = dt_nonce t + 1"
  by (simp add: seatOk_def proposalOk_def)

lemma keeps_onMove:
  assumes "correctEndpoint (dt_self t)" "seatOk H t"
  shows "keeps H t (fst (onMove H t f))"
proof -
  have "keeps H t (confirm L (transportSend (advanced L nxt (mf_nonce f) None t) bs))"
    if "checkMove H t f = Inr (nxt, u, sg)" "L = coSign t u sg (mf_sigProposer f)" for nxt u sg L bs
  proof (rule keeps_advance)
    note c = checkMove_Inr [OF that(1)]
    have u: "cu_update L = u" by (simp add: that(2) coSign_def)
    show "coSignedBy (partyAOf t) (partyBOf t) L"
      using c(8) assms(1) unfolding that(2) by (auto intro: coSign_coSignedBy)
    show "sameSeat t (confirm L (transportSend (advanced L nxt (mf_nonce f) None t) bs))"
      by (meson advanced_simps(6) effect_simps(6,12) sameSeat_trans)
  qed (use checkMove_Inr [OF that(1)] that(2) in \<open>auto simp: coSign_def\<close>)
  then show ?thesis
    using onMove_cases [of t H f] seatOk_pending_nonce [OF assms(2)] keeps_quiet
    by (auto simp: Let_def)
qed

lemma keeps_onAck:
  assumes "correctEndpoint (dt_self t)" "seatOk H t"
  shows "keeps H t (fst (onAck t f))"
proof -
  have "keeps H t (confirm L (advanced L (pp_next p) (su_nonce (pp_update p)) None t))"
    if p: "dt_pending t = Some p" "ep_verify (dt_opponent t) (pp_msg p) (af_sigResponder f)"
      "L = coSign t (pp_update p) (pp_sigSelf p) (af_sigResponder f)" for p L
  proof (rule keeps_advance)
    have ok: "proposalOk H t p" using assms(2) p(1) by (simp add: seatOk_def)
    have u: "cu_update L = pp_update p" by (simp add: p(3) coSign_def)
    show "coSignedBy (partyAOf t) (partyBOf t) L"
      using ok p(2) assms(1) unfolding p(3) by (auto simp: proposalOk_def intro: coSign_coSignedBy)
    show "sameSeat t (confirm L (advanced L (pp_next p) (su_nonce (pp_update p)) None t))"
      by (meson advanced_simps(6) effect_simps(12) sameSeat_trans)
    show "bindsState H t (dt_state (confirm L (advanced L (pp_next p) (su_nonce (pp_update p)) None t))) (cu_update L)"
      using ok u by (simp add: proposalOk_def)
  qed (use seatOk_pending_nonce [OF assms(2) p(1)] p(3) in \<open>auto simp: coSign_def\<close>)
  then show ?thesis
    using onAck_cases [of t f] by (auto simp: Let_def)
qed

lemma checkCheckpoint_Inr:
  assumes "checkCheckpoint H edV t s c = Inr ()" "su_tunnelId (cu_update c) = dt_tunnelId t"
    "verifies edV (dt_self t)" "verifies edV (dt_opponent t)"
  shows "bindsState H t s (cu_update c)" "coSignedBy (partyAOf t) (partyBOf t) c"
  using assms
  by (auto simp: checkCheckpoint_def verifyCoSignedUpdate_def Let_def seat_defs verifies_def result_simps
      split: if_splits)

lemma keeps_adopt:
  assumes "endpointsOk edV t"
  shows "keeps H t (fst (adoptCheckpoint H edV t s c))"
proof -
  let ?p = "case dt_pending t of None \<Rightarrow> None
         | Some p \<Rightarrow> if su_nonce (pp_update p) \<le> su_nonce (cu_update c) then None else Some p"
  have "keeps H t (advanced c s (su_nonce (cu_update c)) ?p t)"
    if c: "su_tunnelId (cu_update c) = dt_tunnelId t" "dt_nonce t \<le> su_nonce (cu_update c)"
      "checkCheckpoint H edV t s c = Inr ()"
  proof (rule keeps_advance)
    show "bindsState H t (dt_state (advanced c s (su_nonce (cu_update c)) ?p t)) (cu_update c)"
      "coSignedBy (partyAOf t) (partyBOf t) c"
      using checkCheckpoint_Inr [OF c(3,1)] assms by (auto simp: endpointsOk_def)
    fix p
    assume p: "dt_pending (advanced c s (su_nonce (cu_update c)) ?p t) = Some p" and ok: "seatOk H t"
    then have d: "dt_pending t = Some p" "\<not> su_nonce (pp_update p) \<le> su_nonce (cu_update c)"
      by (auto split: option.splits if_splits)
    then have "su_nonce (cu_update c) = dt_nonce t"
      using seatOk_pending_nonce [OF ok d(1)] c(2) by simp
    then show "proposalOk H (advanced c s (su_nonce (cu_update c)) ?p t) p"
      using ok d(1) proposalOk_cong [of t "advanced c s (su_nonce (cu_update c)) ?p t" H p]
      by (simp add: seatOk_def)
  qed (use c in auto)
  then show ?thesis
    using adoptCheckpoint_cases [of H edV t s c] by (auto simp del: option.case_distrib)
qed

lemma keeps_seatPending: "keeps H t (fst (seatPending H t m ts))"
proof -
  have "keeps H t (t\<lparr>dt_pending := Some p\<rparr>)" if "makeProposal H t m ts = Inr p" for p
  proof -
    have s: "sameSeat t (t\<lparr>dt_pending := Some p\<rparr>)" by (simp add: sameSeat_def)
    have "proposalOk H (t\<lparr>dt_pending := Some p\<rparr>) p"
      using makeProposal_Inr(4) [OF that] proposalOk_cong [OF s] by simp
    then show ?thesis
      using s by (auto simp: keeps_def seatOk_def logOk_def sameSeat_preds [OF s])
  qed
  then show ?thesis
    using seatPending_cases [of H t m ts] by auto
qed

lemma keeps_propose: "keeps H t (fst (propose H t m ts))"
  using keeps_trans [OF keeps_seatPending keeps_quiet [OF propose_quiet]] .

lemma keeps_onFrame:
  assumes "correctEndpoint (dt_self t)" "seatOk H t"
  shows "keeps H t (fst (onFrame H t bs))"
  using keeps_onMove [OF assms] keeps_onAck [OF assms]
  by (auto simp: onFrame_def split: sum.splits Frame.splits)

lemma keeps_step:
  assumes "seatStep H edV t t'" "endpointsOk edV t" "seatOk H t"
  shows "keeps H t t'"
  using assms
  by cases (auto intro: keeps_propose keeps_seatPending keeps_quiet [OF resendPending_quiet]
      keeps_adopt keeps_onFrame simp: endpointsOk_def)

text \<open>Whatever the transport delivers and whatever its user does, a seat stays well-formed, never
  loses a nonce and logs only co-signed updates in order.\<close>

lemma keeps_reachable:
  assumes "(seatStep H edV)\<^sup>*\<^sup>* t t'" "endpointsOk edV t" "seatOk H t"
  shows "keeps H t t'"
  using assms(1)
proof (induction rule: rtranclp_induct)
  case base
  then show ?case by simp
next
  case (step t1 t2)
  have "endpointsOk edV t1" "seatOk H t1"
    using step.IH assms(2,3) sameSeat_preds(5) [of t t1 edV] by (auto simp: keeps_def)
  with step keeps_step show ?case by (blast intro: keeps_trans)
qed

lemma newDistributedTunnel_ok:
  assumes "newDistributedTunnel identity P cfg ib = Inr t"
  shows "seatOk H t" "logOk t" "dt_nonce t = 0" "dt_total t = bal_a ib + bal_b ib"
    "dt_self t = cfg_self cfg" "dt_opponent t = cfg_opponent cfg" "dt_selfParty t = cfg_selfParty cfg"
    "dt_tunnelId t = cfg_tunnelId cfg" "dt_protocol t = P" "dt_pending t = None" "dt_latest t = None"
    "dt_state t = p_initialState P \<lparr>ctx_tunnelId = cfg_tunnelId cfg, ctx_initialBalances = ib\<rparr>"
    "balanceSum P (dt_state t) = dt_total t"
  using assms
  by (auto simp: newDistributedTunnel_def seatOk_def logOk_def Let_def balanceSum_def split: if_splits)

end
