(* ===== verification/Two_Seats.thy ===== *)
theory Two_Seats
  imports Distributed_Tunnel
begin

section \<open>Two honest seats over an unreliable relay\<close>

text \<open>
  The joint behaviour of the two \<open>DistributedTunnel\<close> processes of one game. The relay may lose,
  repeat, delay and reorder frames: a seat may be handed any frame its peer ever sent, any number of
  times. Seats may also exchange resume views (state and highest co-signed update) and adopt them.

  For a protocol that enforces turns (locale \<open>turn_protocol\<close>) the seats never disagree: their nonces
  differ by at most one, and at equal nonces they hold the same state.
\<close>

subsection \<open>The joint system\<close>

text \<open>A seat with the resume views it has sent so far.\<close>

record ('s, 'm) Side =
  sd_tunnel :: "('s, 'm) DistributedTunnel"
  sd_views :: "('s \<times> CoSignedUpdate) list"

text \<open>What side \<open>x\<close> can do, facing side \<open>y\<close>.\<close>

inductive sideStep ::
  "(bytes \<Rightarrow> bytes) \<Rightarrow> (bytes \<Rightarrow> bytes \<Rightarrow> bytes \<Rightarrow> bool) \<Rightarrow> ('s, 'm) Side \<Rightarrow> ('s, 'm) Side \<Rightarrow>
   ('s, 'm) Side \<Rightarrow> bool"
  for H edV y where
  side_propose: "moveRoundTrips (dt_codec (sd_tunnel x)) m \<Longrightarrow>
    sideStep H edV y x (x\<lparr>sd_tunnel := fst (propose H (sd_tunnel x) m ts)\<rparr>)"
| side_seat: "moveRoundTrips (dt_codec (sd_tunnel x)) m \<Longrightarrow>
    sideStep H edV y x (x\<lparr>sd_tunnel := fst (seatPending H (sd_tunnel x) m ts)\<rparr>)"
| side_resend: "sideStep H edV y x (x\<lparr>sd_tunnel := fst (resendPending (sd_tunnel x))\<rparr>)"
| side_receive: "bs \<in> set (dt_sent (sd_tunnel y)) \<Longrightarrow>
    sideStep H edV y x (x\<lparr>sd_tunnel := fst (onFrame H (sd_tunnel x) bs)\<rparr>)"
| side_view: "dt_latest (sd_tunnel x) = Some u \<Longrightarrow>
    sideStep H edV y x (x\<lparr>sd_views := (dt_state (sd_tunnel x), u) # sd_views x\<rparr>)"
| side_adopt: "(s, u) \<in> set (sd_views y) \<Longrightarrow>
    sideStep H edV y x (x\<lparr>sd_tunnel := fst (adoptCheckpoint H edV (sd_tunnel x) s u)\<rparr>)"

inductive jointStep ::
  "(bytes \<Rightarrow> bytes) \<Rightarrow> (bytes \<Rightarrow> bytes \<Rightarrow> bytes \<Rightarrow> bool) \<Rightarrow> ('s, 'm) Side \<times> ('s, 'm) Side \<Rightarrow>
   ('s, 'm) Side \<times> ('s, 'm) Side \<Rightarrow> bool"
  for H edV where
  joint_left: "sideStep H edV y x x' \<Longrightarrow> jointStep H edV (x, y) (x', y)"
| joint_right: "sideStep H edV x y y' \<Longrightarrow> jointStep H edV (x, y) (x, y')"

text \<open>Two fresh seats of the same tunnel.\<close>

definition mirrored :: "('s, 'm) DistributedTunnel \<Rightarrow> ('s, 'm) DistributedTunnel \<Rightarrow> bool" where
  "mirrored a b \<longleftrightarrow> dt_tunnelId b = dt_tunnelId a \<and> dt_protocol b = dt_protocol a \<and>
     dt_total b = dt_total a \<and> dt_codec b = dt_codec a \<and>
     seat (dt_selfParty a) \<and> dt_selfParty b = otherParty (dt_selfParty a)"

definition freshPair :: "('s, 'm) DistributedTunnel \<Rightarrow> ('s, 'm) DistributedTunnel \<Rightarrow> bool" where
  "freshPair a b \<longleftrightarrow> mirrored a b \<and> dt_state b = dt_state a \<and>
     (\<forall>t \<in> {a, b}. dt_nonce t = 0 \<and> dt_latest t = None \<and> dt_pending t = None \<and> dt_sent t = [])"

definition startPair :: "('s, 'm) DistributedTunnel \<Rightarrow> ('s, 'm) DistributedTunnel \<Rightarrow>
    ('s, 'm) Side \<times> ('s, 'm) Side" where
  "startPair a b = (\<lparr>sd_tunnel = a, sd_views = []\<rparr>, \<lparr>sd_tunnel = b, sd_views = []\<rparr>)"

text \<open>The two configurations of one game: same tunnel and codec, opposite parties.\<close>

definition peerConfigs :: "'m DistributedConfig \<Rightarrow> 'm DistributedConfig \<Rightarrow> bool" where
  "peerConfigs c d \<longleftrightarrow> cfg_tunnelId d = cfg_tunnelId c \<and> cfg_moveCodec d = cfg_moveCodec c \<and>
     seat (cfg_selfParty c) \<and> cfg_selfParty d = otherParty (cfg_selfParty c)"

lemma newPair_fresh:
  assumes "newDistributedTunnel idc P c ib = Inr a" "newDistributedTunnel idc P d ib = Inr b" "peerConfigs c d"
  shows "freshPair a b \<and> dt_protocol a = P"
  using assms
  by (auto simp: newDistributedTunnel_def Let_def freshPair_def mirrored_def peerConfigs_def split: if_splits)

subsection \<open>The agreement invariant\<close>

text \<open>\<open>c\<close> is the agreed history: the state at each nonce. A frame a seat has sent is either old or
  its current proposal, and was made when it was that seat's turn.\<close>

fun frameInv :: "('s \<Rightarrow> Party option) \<Rightarrow> (int \<Rightarrow> 's) \<Rightarrow> ('s, 'm) DistributedTunnel \<Rightarrow> 'm Frame \<Rightarrow> bool" where
  "frameInv turn c t (FMove g) \<longleftrightarrow> mf_by g = dt_selfParty t \<and> mf_nonce g \<le> dt_nonce t + 1 \<and>
     turn (c (mf_nonce g - 1)) = Some (dt_selfParty t) \<and>
     (mf_nonce g = dt_nonce t + 1 \<longrightarrow> (\<exists>p. dt_pending t = Some p \<and> mf_move g = pp_move p))"
| "frameInv turn c t (FAck g) \<longleftrightarrow> af_nonce g \<le> dt_nonce t"

definition sideInv :: "('s \<Rightarrow> Party option) \<Rightarrow> (int \<Rightarrow> 's) \<Rightarrow> ('s, 'm) Side \<Rightarrow> bool" where
  "sideInv turn c x \<longleftrightarrow> (let t = sd_tunnel x in
     dt_state t = c (dt_nonce t) \<and>
     (\<forall>u. dt_latest t = Some u \<longrightarrow> su_nonce (cu_update u) = dt_nonce t) \<and>
     (\<forall>p. dt_pending t = Some p \<longrightarrow> su_nonce (pp_update p) = dt_nonce t + 1 \<and>
        moveRoundTrips (dt_codec t) (pp_move p) \<and>
        p_applyMove (dt_protocol t) (dt_state t) (pp_move p) (dt_selfParty t) = Inr (pp_next p)) \<and>
     (\<forall>bs \<in> set (dt_sent t). \<exists>f. decodeFrame bs (dt_codec t) = Inr f \<and> frameInv turn c t f) \<and>
     (\<forall>(s, u) \<in> set (sd_views x). su_nonce (cu_update u) \<le> dt_nonce t \<and> s = c (su_nonce (cu_update u))))"

text \<open>A seat one nonce ahead holds the state its peer has proposed.\<close>

definition aheadOf :: "('s, 'm) DistributedTunnel \<Rightarrow> ('s, 'm) DistributedTunnel \<Rightarrow> bool" where
  "aheadOf x y \<longleftrightarrow> dt_nonce x \<le> dt_nonce y + 1 \<and>
     (dt_nonce x = dt_nonce y + 1 \<longrightarrow> (\<exists>p. dt_pending y = Some p \<and> dt_state x = pp_next p))"

definition jointInv ::
  "('s \<Rightarrow> Party option) \<Rightarrow> ('s, 'm) Protocol \<Rightarrow> (int \<Rightarrow> 's) \<Rightarrow> ('s, 'm) Side \<Rightarrow> ('s, 'm) Side \<Rightarrow> bool" where
  "jointInv turn P c x y \<longleftrightarrow> mirrored (sd_tunnel x) (sd_tunnel y) \<and> dt_protocol (sd_tunnel x) = P \<and>
     sideInv turn c x \<and> sideInv turn c y \<and>
     aheadOf (sd_tunnel x) (sd_tunnel y) \<and> aheadOf (sd_tunnel y) (sd_tunnel x)"

lemma mirrored_sym: "mirrored a b \<Longrightarrow> mirrored b a"
  by (auto simp: mirrored_def)

lemma jointInv_sym: "jointInv turn P c x y \<Longrightarrow> jointInv turn P c y x"
  by (auto simp: jointInv_def intro: mirrored_sym simp: mirrored_def)

lemma startPair_inv:
  assumes "freshPair a b" "dt_protocol a = P"
  shows "jointInv turn P (\<lambda>_. dt_state a) (fst (startPair a b)) (snd (startPair a b))"
  using assms
  by (auto simp: freshPair_def startPair_def jointInv_def sideInv_def aheadOf_def Let_def)

text \<open>What happens to one side when only its tunnel changes.\<close>

lemma quiet_sent:
  "encodeFrame f (dt_codec t) = Inr bs \<Longrightarrow> fst (sendFrame t f) = transportSend t bs"
  by (simp add: sendFrame_def)

lemma sideInv_send:
  assumes "sideInv turn c x" "frameInv turn c (sd_tunnel x) f" "frameOk (dt_codec (sd_tunnel x)) f"
  shows "sideInv turn c (x\<lparr>sd_tunnel := fst (sendFrame (sd_tunnel x) f)\<rparr>)"
proof -
  obtain bs where bs: "encodeFrame f (dt_codec (sd_tunnel x)) = Inr bs"
    "decodeFrame bs (dt_codec (sd_tunnel x)) = Inr f"
    using decode_encodeFrame [OF assms(3)] by blast
  let ?t = "transportSend (sd_tunnel x) bs"
  have "frameInv turn c ?t g = frameInv turn c (sd_tunnel x) g" for g
    by (cases g) (auto simp: transportSend_def)
  moreover have "set (dt_sent ?t) = insert bs (set (dt_sent (sd_tunnel x)))"
    "dt_codec ?t = dt_codec (sd_tunnel x)" "dt_protocol ?t = dt_protocol (sd_tunnel x)"
    "dt_selfParty ?t = dt_selfParty (sd_tunnel x)"
    by (simp_all add: transportSend_def)
  ultimately show ?thesis
    using assms(1,2) bs by (auto simp: sideInv_def Let_def quiet_sent)
qed

lemma jointInv_quiet:
  assumes "jointInv turn P c x y" "sideInv turn c x'" "quiet (sd_tunnel x) (sd_tunnel x')"
  shows "jointInv turn P c x' y"
  using assms(1,2) quiet_fields [OF assms(3)]
  by (auto simp: jointInv_def mirrored_def aheadOf_def sameSeat_def)

lemma sideInv_upd_same [simp]: "x\<lparr>sd_tunnel := sd_tunnel x\<rparr> = x"
  by (cases x) simp

lemma jointInv_send:
  assumes "jointInv turn P c x y" "frameInv turn c (sd_tunnel x) f" "frameOk (dt_codec (sd_tunnel x)) f"
  shows "jointInv turn P c (x\<lparr>sd_tunnel := fst (sendFrame (sd_tunnel x) f)\<rparr>) y"
  by (rule jointInv_quiet [OF assms(1) sideInv_send [OF _ assms(2,3)]])
    (use assms(1) in \<open>auto simp: jointInv_def\<close>)

text \<open>The history below a seat's nonce determines what the invariant says of its frames and views.\<close>

lemma frameInv_hist:
  assumes "\<And>k. k \<le> dt_nonce t \<Longrightarrow> c' k = c k"
  shows "frameInv turn c' t f = frameInv turn c t f"
proof (cases f)
  case (FMove g)
  have "mf_nonce g \<le> dt_nonce t + 1 \<Longrightarrow> c' (mf_nonce g - 1) = c (mf_nonce g - 1)"
    by (rule assms) simp
  with FMove show ?thesis by auto
qed simp

lemma sideInv_hist:
  assumes "sideInv turn c x" "\<And>k. k \<le> dt_nonce (sd_tunnel x) \<Longrightarrow> c' k = c k"
  shows "sideInv turn c' x"
  using assms(1) frameInv_hist [where t = "sd_tunnel x", OF assms(2)] assms(2)
  by (fastforce simp: sideInv_def Let_def)

text \<open>A seat that moves on to a larger nonce of the history, dropping its proposal, keeps its invariant.\<close>

lemma frameInv_advance:
  assumes "frameInv turn c t f" "dt_nonce t < dt_nonce t'" "sameSeat t t'"
  shows "frameInv turn c t' f"
  using assms by (cases f) (auto simp: sameSeat_def)

lemma sideInv_advance:
  assumes "sideInv turn c x" "dt_nonce (sd_tunnel x) < dt_nonce t'" "sameSeat (sd_tunnel x) t'"
    "dt_pending t' = None" "dt_state t' = c (dt_nonce t')" "dt_sent t' = dt_sent (sd_tunnel x)"
    "\<And>u. dt_latest t' = Some u \<Longrightarrow> su_nonce (cu_update u) = dt_nonce t'"
  shows "sideInv turn c (x\<lparr>sd_tunnel := t'\<rparr>)"
proof -
  have "dt_codec t' = dt_codec (sd_tunnel x)" using assms(3) by (simp add: sameSeat_def)
  with assms frameInv_advance [OF _ assms(2,3)] show ?thesis
    by (fastforce simp: sideInv_def Let_def)
qed

lemma frameInv_confirm [simp]: "frameInv turn c (confirm u t) f = frameInv turn c t f"
  by (cases f) (auto simp: confirm_def)

lemma confirm_static:
  "dt_codec (confirm u t) = dt_codec t" "dt_sent (confirm u t) = dt_sent t"
  "dt_protocol (confirm u t) = dt_protocol t" "dt_selfParty (confirm u t) = dt_selfParty t"
  "dt_tunnelId (confirm u t) = dt_tunnelId t" "dt_total (confirm u t) = dt_total t"
  by (simp_all add: confirm_def)

lemma side_upd: "sd_tunnel (x\<lparr>sd_tunnel := t\<rparr>) = t" "sd_views (x\<lparr>sd_tunnel := t\<rparr>) = sd_views x"
  by simp_all

lemma jointInv_confirm:
  "jointInv turn P c (x\<lparr>sd_tunnel := confirm u t\<rparr>) y = jointInv turn P c (x\<lparr>sd_tunnel := t\<rparr>) y"
  by (simp only: jointInv_def sideInv_def mirrored_def aheadOf_def Let_def confirm_static
      effect_simps frameInv_confirm side_upd)

locale turn_protocol =
  fixes P :: "('s, 'm) Protocol" and turn :: "'s \<Rightarrow> Party option"
  assumes turn_enforced: "p_applyMove P s m by1 = Inr s' \<Longrightarrow> turn s = Some by1"
begin

lemma pending_turn:
  assumes "jointInv turn P c x y" "dt_pending (sd_tunnel x) = Some p"
  shows "turn (c (dt_nonce (sd_tunnel x))) = Some (dt_selfParty (sd_tunnel x))"
  using assms turn_enforced by (fastforce simp: jointInv_def sideInv_def Let_def)

lemma seat_step:
  assumes inv: "jointInv turn P c x y" and rt: "moveRoundTrips (dt_codec (sd_tunnel x)) m"
  shows "jointInv turn P c (x\<lparr>sd_tunnel := fst (seatPending H (sd_tunnel x) m ts)\<rparr>) y"
proof -
  let ?t = "sd_tunnel x"
  have "jointInv turn P c (x\<lparr>sd_tunnel := ?t\<lparr>dt_pending := Some p\<rparr>\<rparr>) y"
    if p: "dt_pending ?t = None" "makeProposal H ?t m ts = Inr p" for p
  proof -
    note mp = makeProposal_Inr [OF p(2)]
    have n: "su_nonce (pp_update p) = dt_nonce ?t + 1" using mp(4) by (simp add: proposalOk_def)
    have "frameInv turn c (?t\<lparr>dt_pending := Some p\<rparr>) f" if "frameInv turn c ?t f" for f
      using that p(1) by (cases f) auto
    then have "sideInv turn c (x\<lparr>sd_tunnel := ?t\<lparr>dt_pending := Some p\<rparr>\<rparr>)"
      using inv n mp rt p(1) by (fastforce simp: jointInv_def sideInv_def Let_def)
    with inv p(1) show ?thesis
      by (auto simp: jointInv_def mirrored_def aheadOf_def)
  qed
  then show ?thesis
    using seatPending_cases [of H ?t m ts] inv by auto
qed

lemma pending_frame:
  assumes "jointInv turn P c x y" "dt_pending (sd_tunnel x) = Some p"
  shows "frameInv turn c (sd_tunnel x) (FMove (pendingMoveFrame (sd_tunnel x) p))"
    "frameOk (dt_codec (sd_tunnel x)) (FMove (pendingMoveFrame (sd_tunnel x) p))"
  using assms pending_turn [OF assms]
  by (auto simp: pendingMoveFrame_def jointInv_def sideInv_def mirrored_def Let_def)

lemma resend_step:
  assumes "jointInv turn P c x y"
  shows "jointInv turn P c (x\<lparr>sd_tunnel := fst (resendPending (sd_tunnel x))\<rparr>) y"
proof (cases "dt_pending (sd_tunnel x)")
  case None
  with assms show ?thesis by (simp add: resendPending_def)
next
  case (Some p)
  with jointInv_send [OF assms pending_frame [OF assms Some]] show ?thesis
    by (simp add: resendPending_def)
qed

lemma propose_step:
  assumes inv: "jointInv turn P c x y" and rt: "moveRoundTrips (dt_codec (sd_tunnel x)) m"
  shows "jointInv turn P c (x\<lparr>sd_tunnel := fst (propose H (sd_tunnel x) m ts)\<rparr>) y"
proof (cases "seatPending H (sd_tunnel x) m ts")
  case (Pair t1 r)
  have i1: "jointInv turn P c (x\<lparr>sd_tunnel := t1\<rparr>) y"
    using seat_step [OF inv rt, of H ts] Pair by simp
  show ?thesis
  proof (cases r)
    case (Inl e)
    with i1 Pair show ?thesis by (simp add: propose_def)
  next
    case (Inr u)
    with resend_step [OF i1] Pair i1 show ?thesis
      by (auto simp: propose_def resendPending_def split: option.splits)
  qed
qed

lemma replay_step:
  assumes inv: "jointInv turn P c x y" and le: "mf_nonce g \<le> dt_nonce (sd_tunnel x)"
  shows "jointInv turn P c (x\<lparr>sd_tunnel := fst (onMoveReplay (sd_tunnel x) g)\<rparr>) y"
proof -
  have "jointInv turn P c (x\<lparr>sd_tunnel := fst (sendFrame (sd_tunnel x) (FAck a))\<rparr>) y"
    if "af_nonce a \<le> dt_nonce (sd_tunnel x)" for a
    using that by (intro jointInv_send [OF inv]) simp_all
  then show ?thesis
    using inv le by (auto simp: onMoveReplay_def split: option.splits sum.splits)
qed

text \<open>A fresh move of the peer can only be its current proposal, on the state both hold.\<close>

lemma fresh_move_is_proposal:
  assumes inv: "jointInv turn P c x y" and f: "frameInv turn c (sd_tunnel y) (FMove g)"
    and n: "mf_nonce g = dt_nonce (sd_tunnel x) + 1"
  shows "dt_nonce (sd_tunnel y) = dt_nonce (sd_tunnel x) \<and> dt_pending (sd_tunnel x) = None \<and>
    (\<exists>p. dt_pending (sd_tunnel y) = Some p \<and> mf_move g = pp_move p)"
proof -
  let ?x = "sd_tunnel x" and ?y = "sd_tunnel y"
  have ty: "turn (c (dt_nonce ?x)) = Some (dt_selfParty ?y)"
    using f n by simp
  then have none: "dt_pending ?x = None"
    using pending_turn [OF inv] inv by (cases "dt_pending ?x") (auto simp: jointInv_def mirrored_def)
  have "dt_nonce ?y \<noteq> dt_nonce ?x + 1"
    using none inv by (auto simp: jointInv_def aheadOf_def)
  moreover have "dt_nonce ?y \<le> dt_nonce ?x + 1" "mf_nonce g \<le> dt_nonce ?y + 1"
    using inv f by (auto simp: jointInv_def aheadOf_def)
  ultimately show ?thesis
    using n none f by auto
qed

lemma onMove_step:
  assumes inv: "jointInv turn P c x y" and f: "frameInv turn c (sd_tunnel y) (FMove g)"
  shows "\<exists>c'. jointInv turn P c' (x\<lparr>sd_tunnel := fst (onMove H (sd_tunnel x) g)\<rparr>) y"
proof -
  let ?x = "sd_tunnel x" and ?y = "sd_tunnel y"
  have pn: "su_nonce (pp_update p) = dt_nonce ?x + 1" if "dt_pending ?x = Some p" for p
    using inv that by (auto simp: jointInv_def sideInv_def Let_def)
  consider "mf_by g = dt_selfParty ?x" | "mf_by g \<noteq> dt_selfParty ?x" "mf_nonce g \<le> dt_nonce ?x"
    | "\<exists>e. checkMove H ?x g = Inl e" "mf_by g \<noteq> dt_selfParty ?x" "\<not> mf_nonce g \<le> dt_nonce ?x"
    | nxt u sg where "checkMove H ?x g = Inr (nxt, u, sg)" "mf_by g \<noteq> dt_selfParty ?x"
    by (cases "checkMove H ?x g") auto
  then show ?thesis
  proof cases
    case 1
    with inv show ?thesis by (auto simp: onMove_def)
  next
    case 2
    with replay_step [OF inv 2(2)] show ?thesis by (auto simp: onMove_def)
  next
    case 3
    with inv show ?thesis by (auto simp: onMove_def)
  next
    case (4 nxt u sg)
    note cm = checkMove_Inr [OF 4(1)]
    obtain p where p: "dt_nonce ?y = dt_nonce ?x" "dt_pending ?x = None" "dt_pending ?y = Some p"
      "mf_move g = pp_move p"
      using fresh_move_is_proposal [OF inv f cm(2)] by blast
    have st: "dt_state ?x = dt_state ?y" "dt_protocol ?x = dt_protocol ?y" "mf_by g = dt_selfParty ?y"
      using inv p(1) f by (auto simp: jointInv_def sideInv_def mirrored_def Let_def)
    have nxt: "nxt = pp_next p"
      using cm(1) inv p st by (auto simp: jointInv_def sideInv_def Let_def)
    define L where "L = coSign ?x u sg (mf_sigProposer g)"
    define t1 where "t1 = advanced L nxt (mf_nonce g) None ?x"
    define c' where "c' = c(mf_nonce g := nxt)"
    have hist: "\<And>k. k \<le> dt_nonce ?x \<Longrightarrow> c' k = c k"
      using cm(2) by (simp add: c'_def)
    have s1: "sideInv turn c' (x\<lparr>sd_tunnel := t1\<rparr>)"
      by (rule sideInv_advance [OF sideInv_hist [OF _ hist]])
        (use inv cm in \<open>auto simp: jointInv_def t1_def c'_def L_def coSign_def advanced_def sameSeat_def\<close>)
    have j1: "jointInv turn P c' (x\<lparr>sd_tunnel := t1\<rparr>) y"
      using inv s1 sideInv_hist [of turn c y c'] hist p(1,3) cm(2) nxt
      by (auto simp: jointInv_def mirrored_def aheadOf_def t1_def advanced_def)
    have "jointInv turn P c' (x\<lparr>sd_tunnel := fst (sendFrame t1
        (FAck \<lparr>af_nonce = mf_nonce g, af_sigResponder = sg\<rparr>))\<rparr>) y"
      using jointInv_send [OF j1, of "FAck \<lparr>af_nonce = mf_nonce g, af_sigResponder = sg\<rparr>"]
      by (simp add: t1_def)
    then have j2: "jointInv turn P c' (x\<lparr>sd_tunnel := confirm L (fst (sendFrame t1
        (FAck \<lparr>af_nonce = mf_nonce g, af_sigResponder = sg\<rparr>)))\<rparr>) y"
      by (simp only: jointInv_confirm)
    obtain bs where "sendFrame t1 (FAck \<lparr>af_nonce = mf_nonce g, af_sigResponder = sg\<rparr>) =
        (transportSend t1 bs, Inr ())"
      using sendFrame_ack by blast
    then have "onMove H ?x g = (confirm L (fst (sendFrame t1
        (FAck \<lparr>af_nonce = mf_nonce g, af_sigResponder = sg\<rparr>))), Inr ())"
      using 4 cm(2) p(2) unfolding t1_def
      by (simp add: onMove_def Let_def L_def [symmetric] dropPending_advanced)
    with j2 show ?thesis by auto
  qed
qed

lemma onAck_step:
  assumes inv: "jointInv turn P c x y" and f: "frameInv turn c (sd_tunnel y) (FAck a)"
  shows "jointInv turn P c (x\<lparr>sd_tunnel := fst (onAck (sd_tunnel x) a)\<rparr>) y"
proof -
  let ?x = "sd_tunnel x" and ?y = "sd_tunnel y"
  have "jointInv turn P c (x\<lparr>sd_tunnel := confirm L (advanced L (pp_next p) (su_nonce (pp_update p)) None ?x)\<rparr>) y"
    if p: "dt_pending ?x = Some p" "dt_nonce ?x < af_nonce a" "af_nonce a = su_nonce (pp_update p)"
      and L: "L = coSign ?x (pp_update p) (pp_sigSelf p) (af_sigResponder a)" for p L
  proof -
    have n: "su_nonce (pp_update p) = dt_nonce ?x + 1"
      using inv p(1) by (auto simp: jointInv_def sideInv_def Let_def)
    have y: "dt_nonce ?y = dt_nonce ?x + 1" "dt_state ?y = pp_next p" "dt_state ?y = c (dt_nonce ?y)"
      using inv p f n by (auto simp: jointInv_def aheadOf_def sideInv_def Let_def)
    have "sideInv turn c (x\<lparr>sd_tunnel := advanced L (pp_next p) (su_nonce (pp_update p)) None ?x\<rparr>)"
      by (rule sideInv_advance)
        (use inv n y L in \<open>auto simp: jointInv_def coSign_def advanced_def sameSeat_def\<close>)
    then show ?thesis
      unfolding jointInv_confirm
      using inv y n by (auto simp: jointInv_def mirrored_def aheadOf_def advanced_def)
  qed
  then show ?thesis
    using onAck_cases [of ?x a] inv by (auto simp: Let_def)
qed

lemma receive_step:
  assumes inv: "jointInv turn P c x y" and bs: "bs \<in> set (dt_sent (sd_tunnel y))"
  shows "\<exists>c'. jointInv turn P c' (x\<lparr>sd_tunnel := fst (onFrame H (sd_tunnel x) bs)\<rparr>) y"
proof -
  have "dt_codec (sd_tunnel x) = dt_codec (sd_tunnel y)"
    using inv by (simp add: jointInv_def mirrored_def)
  then obtain f where f: "decodeFrame bs (dt_codec (sd_tunnel x)) = Inr f" "frameInv turn c (sd_tunnel y) f"
    using inv bs by (auto simp: jointInv_def sideInv_def Let_def)
  show ?thesis
  proof (cases f)
    case (FMove g)
    with f onMove_step [OF inv, of g H] show ?thesis by (auto simp: onFrame_def)
  next
    case (FAck a)
    with f onAck_step [OF inv, of a] show ?thesis by (auto simp: onFrame_def)
  qed
qed

lemma adopt_step:
  assumes inv: "jointInv turn P c x y" and v: "(s, u) \<in> set (sd_views y)"
  shows "jointInv turn P c (x\<lparr>sd_tunnel := fst (adoptCheckpoint H edV (sd_tunnel x) s u)\<rparr>) y"
proof -
  let ?x = "sd_tunnel x" and ?y = "sd_tunnel y" and ?n = "su_nonce (cu_update u)"
  let ?p = "case dt_pending ?x of None \<Rightarrow> None
         | Some p \<Rightarrow> if su_nonce (pp_update p) \<le> ?n then None else Some p"
  have s: "s = c ?n" "?n \<le> dt_nonce ?y" "dt_nonce ?y \<le> dt_nonce ?x + 1"
    using inv v by (auto simp: jointInv_def sideInv_def aheadOf_def Let_def)
  have "jointInv turn P c (x\<lparr>sd_tunnel := advanced u s ?n ?p ?x\<rparr>) y" if le: "dt_nonce ?x \<le> ?n"
  proof (cases "?n = dt_nonce ?x")
    case True
    have pp: "?p = dt_pending ?x"
      using inv True by (auto simp: jointInv_def sideInv_def Let_def split: option.splits)
    have st: "dt_state ?x = s" using inv s True by (auto simp: jointInv_def sideInv_def Let_def)
    have "frameInv turn c (advanced u s ?n ?p ?x) f = frameInv turn c ?x f" for f
      unfolding pp by (cases f) (auto simp: True advanced_def)
    then have "sideInv turn c (x\<lparr>sd_tunnel := advanced u s ?n ?p ?x\<rparr>)"
      unfolding pp using inv s st True by (auto simp: jointInv_def sideInv_def advanced_def Let_def)
    then show ?thesis
      unfolding pp using inv True st by (auto simp: jointInv_def mirrored_def aheadOf_def advanced_def)
  next
    case False
    with le s have n: "?n = dt_nonce ?x + 1" "dt_nonce ?y = dt_nonce ?x + 1" by auto
    have pp: "?p = None"
      using inv n(1) by (auto simp: jointInv_def sideInv_def Let_def split: option.splits)
    have "sideInv turn c (x\<lparr>sd_tunnel := advanced u s ?n None ?x\<rparr>)"
      by (rule sideInv_advance) (use inv n s in \<open>auto simp: jointInv_def advanced_def sameSeat_def\<close>)
    then show ?thesis
      unfolding pp using inv n by (auto simp: jointInv_def mirrored_def aheadOf_def advanced_def)
  qed
  then show ?thesis
    using adoptCheckpoint_cases [of H edV ?x s u] inv by auto
qed

lemma view_step:
  assumes "jointInv turn P c x y" "dt_latest (sd_tunnel x) = Some u"
  shows "jointInv turn P c (x\<lparr>sd_views := (dt_state (sd_tunnel x), u) # sd_views x\<rparr>) y"
  using assms by (auto simp: jointInv_def sideInv_def Let_def)

lemma side_step:
  assumes "sideStep H edV y x x'" "jointInv turn P c x y"
  shows "\<exists>c'. jointInv turn P c' x' y"
  using assms(1)
proof cases
  case (side_propose m ts)
  with propose_step [OF assms(2)] show ?thesis by auto
next
  case (side_seat m ts)
  with seat_step [OF assms(2)] show ?thesis by auto
next
  case side_resend
  with resend_step [OF assms(2)] show ?thesis by auto
next
  case (side_receive bs)
  with receive_step [OF assms(2)] show ?thesis by auto
next
  case (side_view u)
  with view_step [OF assms(2)] show ?thesis by auto
next
  case (side_adopt s u)
  show ?thesis
    unfolding side_adopt(1) by (rule exI [of _ c], rule adopt_step [OF assms(2) side_adopt(2)])
qed

lemma joint_step:
  assumes "jointStep H edV q q'" "jointInv turn P c (fst q) (snd q)"
  shows "\<exists>c'. jointInv turn P c' (fst q') (snd q')"
  using assms(1)
proof cases
  case (joint_left y x x')
  with side_step assms(2) show ?thesis by fastforce
next
  case (joint_right x y y')
  with side_step [OF joint_right(3) jointInv_sym] assms(2) show ?thesis
    by (fastforce intro: jointInv_sym)
qed

text \<open>Whatever the relay does, two honest seats stay in agreement.\<close>

lemma agreement:
  assumes run: "(jointStep H edV)\<^sup>*\<^sup>* (startPair a b) (x, y)" and fresh: "freshPair a b" and P: "dt_protocol a = P"
  shows "\<bar>dt_nonce (sd_tunnel x) - dt_nonce (sd_tunnel y)\<bar> \<le> 1 \<and>
    (dt_nonce (sd_tunnel x) = dt_nonce (sd_tunnel y) \<longrightarrow> dt_state (sd_tunnel x) = dt_state (sd_tunnel y))"
proof -
  have "\<exists>c. jointInv turn P c (fst (x, y)) (snd (x, y))"
    using run
  proof (induction rule: rtranclp_induct)
    case base
    show ?case using startPair_inv [OF fresh P] by blast
  next
    case (step q q')
    then show ?case using joint_step by blast
  qed
  then obtain c where inv: "jointInv turn P c x y" by auto
  have st: "dt_state (sd_tunnel x) = c (dt_nonce (sd_tunnel x))" "dt_state (sd_tunnel y) = c (dt_nonce (sd_tunnel y))"
    using inv by (simp_all add: jointInv_def sideInv_def Let_def)
  show ?thesis
    using inv st by (auto simp: jointInv_def aheadOf_def)
qed

end

subsection \<open>One exchange\<close>

text \<open>The endpoints of the two seats fit: each seat's opponent entry verifies what the peer signs.\<close>

definition endpointsFit :: "('s, 'm) DistributedTunnel \<Rightarrow> ('s, 'm) DistributedTunnel \<Rightarrow> bool" where
  "endpointsFit a b \<longleftrightarrow> correctEndpoint (dt_self a) \<and> correctEndpoint (dt_self b) \<and>
     ep_verify (dt_opponent b) = ep_verify (dt_self a) \<and> ep_verify (dt_opponent a) = ep_verify (dt_self b)"

text \<open>The seats are level: same nonce, same state, nothing in flight.\<close>

definition level :: "('s, 'm) DistributedTunnel \<Rightarrow> ('s, 'm) DistributedTunnel \<Rightarrow> bool" where
  "level a b \<longleftrightarrow> mirrored a b \<and> endpointsFit a b \<and> dt_nonce b = dt_nonce a \<and>
     dt_state b = dt_state a \<and> dt_pending a = None \<and> dt_pending b = None"

lemma correctEndpoint_sign:
  "correctEndpoint (dt_self t) \<Longrightarrow> \<exists>sg. selfSign t msg = Inr sg \<and> ep_verify (dt_self t) msg sg"
  by (auto simp: correctEndpoint_def selfSign_def)

lemma makeProposal_progress:
  assumes "p_applyMove (dt_protocol a) (dt_state a) m (dt_selfParty a) = Inr nxt"
    "balanceSum (dt_protocol a) nxt = dt_total a" "p_encodeState (dt_protocol a) nxt = Inr es"
    "u = \<lparr>su_tunnelId = dt_tunnelId a, su_stateHash = H es, su_nonce = dt_nonce a + 1, su_timestamp = ts,
      su_partyABalance = bal_a (p_balances (dt_protocol a) nxt),
      su_partyBBalance = bal_b (p_balances (dt_protocol a) nxt)\<rparr>"
    "serializeStateUpdate u = Inr msg" "selfSign a msg = Inr sg"
  shows "makeProposal H a m ts = Inr \<lparr>pp_next = nxt, pp_update = u, pp_msg = msg, pp_sigSelf = sg,
    pp_move = m, pp_timestamp = ts\<rparr>"
  using assms by (simp add: makeProposal_def balanceSum_def Let_def)

lemma propose_progress:
  assumes "makeProposal H a m ts = Inr p" "dt_pending a = None" "seat (dt_selfParty a)"
    "moveRoundTrips (dt_codec a) m"
  shows "\<exists>bs. propose H a m ts = (transportSend (a\<lparr>dt_pending := Some p\<rparr>) bs, Inr ()) \<and>
    decodeFrame bs (dt_codec a) = Inr (FMove (pendingMoveFrame a p))"
proof -
  have f: "pendingMoveFrame (a\<lparr>dt_pending := Some p\<rparr>) p = pendingMoveFrame a p"
    by (simp add: pendingMoveFrame_def)
  have "frameOk (dt_codec a) (FMove (pendingMoveFrame a p))"
    using assms makeProposal_Inr(2) [OF assms(1)] by (simp add: pendingMoveFrame_def)
  then obtain bs where "encodeFrame (FMove (pendingMoveFrame a p)) (dt_codec a) = Inr bs"
    "decodeFrame bs (dt_codec a) = Inr (FMove (pendingMoveFrame a p))"
    using decode_encodeFrame by blast
  then show ?thesis
    using assms(1,2) f by (auto simp: propose_def seatPending_def sendFrame_def)
qed

lemma checkMove_progress:
  assumes lev: "level a b" and p: "makeProposal H a m ts = Inr p"
    and v: "ep_verify (dt_self a) (pp_msg p) (pp_sigSelf p)" and sb: "selfSign b (pp_msg p) = Inr sg"
  shows "checkMove H b (pendingMoveFrame a p) = Inr (pp_next p, pp_update p, sg)"
proof -
  note mp = makeProposal_Inr [OF p]
  obtain es where es: "p_encodeState (dt_protocol a) (pp_next p) = Inr es" "su_stateHash (pp_update p) = H es"
    using mp(4) by (auto simp: proposalOk_def bindsState_def)
  have "p_applyMove (dt_protocol b) (dt_state b) (pp_move p) (dt_selfParty a) = Inr (pp_next p)"
    using mp(1,2) lev by (simp add: level_def mirrored_def)
  moreover have ue: "\<lparr>su_tunnelId = dt_tunnelId a, su_stateHash = H es, su_nonce = dt_nonce a + 1,
      su_timestamp = ts, su_partyABalance = bal_a (p_balances (dt_protocol a) (pp_next p)),
      su_partyBBalance = bal_b (p_balances (dt_protocol a) (pp_next p))\<rparr> = pp_update p"
    using mp(3,4) es by (cases "pp_update p") (auto simp: proposalOk_def bindsState_def describes_def)
  ultimately show ?thesis
    using mp(3,4) es(1) lev v sb es(2)
    by (simp add: ue checkMove_def pendingMoveFrame_def proposalOk_def bindsState_def describes_def
        level_def mirrored_def endpointsFit_def Let_def)
qed

text \<open>One exchange over a working relay: the proposal, its delivery and the delivery of the
  acknowledgement take both seats to the next nonce with the same state and the same co-signed update.\<close>

lemma exchange_progress:
  assumes lev: "level a b" and p: "makeProposal H a m ts = Inr p" and rt: "moveRoundTrips (dt_codec a) m"
  shows "\<exists>a1 f b1 g a2 u. propose H a m ts = (a1, Inr ()) \<and> dt_sent a1 = dt_sent a @ [f] \<and>
    onFrame H b f = (b1, Inr ()) \<and> dt_sent b1 = dt_sent b @ [g] \<and>
    onFrame H a1 g = (a2, Inr ()) \<and> level a2 b1 \<and> dt_nonce a2 = dt_nonce a + 1 \<and>
    dt_state a2 = pp_next p \<and> dt_latest a2 = Some u \<and> dt_latest b1 = Some u \<and> cu_update u = pp_update p"
proof -
  have mir: "mirrored a b" "seat (dt_selfParty a)" "dt_codec b = dt_codec a" and fit: "endpointsFit a b"
    using lev by (auto simp: level_def mirrored_def)
  have na: "dt_pending a = None" "dt_pending b = None" "dt_nonce b = dt_nonce a" using lev by (auto simp: level_def)
  obtain f where f: "propose H a m ts = (transportSend (a\<lparr>dt_pending := Some p\<rparr>) f, Inr ())"
    "decodeFrame f (dt_codec a) = Inr (FMove (pendingMoveFrame a p))"
    using propose_progress [OF p na(1) mir(2) rt] by blast
  have ok: "proposalOk H a p" using makeProposal_Inr(4) [OF p] .
  have va: "ep_verify (dt_self a) (pp_msg p) (pp_sigSelf p)"
    using correctEndpoint_sign [of a "pp_msg p"] ok fit by (auto simp: proposalOk_def endpointsFit_def)
  obtain sg where sg: "selfSign b (pp_msg p) = Inr sg" "ep_verify (dt_self b) (pp_msg p) sg"
    using correctEndpoint_sign [of b] fit by (auto simp: endpointsFit_def)
  have n: "su_nonce (pp_update p) = dt_nonce a + 1" using ok by (simp add: proposalOk_def)
  have by1: "mf_by (pendingMoveFrame a p) \<noteq> dt_selfParty b"
    using mir(1) by (auto simp: pendingMoveFrame_def mirrored_def)
  define L where "L = coSign b (pp_update p) sg (pp_sigSelf p)"
  define b0 where "b0 = advanced L (pp_next p) (dt_nonce a + 1) None b"
  define ack where "ack = \<lparr>af_nonce = dt_nonce a + 1, af_sigResponder = sg\<rparr>"
  obtain g where g: "encodeFrame (FAck ack) (dt_codec b) = Inr g" "decodeFrame g (dt_codec b) = Inr (FAck ack)"
    using decode_encodeFrame [of "dt_codec b" "FAck ack"] by auto
  have "dt_codec b0 = dt_codec b" by (simp add: b0_def advanced_def)
  then have mv: "onFrame H b f = (confirm L (transportSend b0 g), Inr ())"
    using f(2) mir(3) by1 checkMove_progress [OF lev p va sg(1)] n na g(1)
    by (simp add: onFrame_def onMove_def Let_def pendingMoveFrame_def L_def [symmetric] ack_def
        dropPending_advanced b0_def [symmetric] sendFrame_def)
  define a1 where "a1 = transportSend (a\<lparr>dt_pending := Some p\<rparr>) f"
  have L': "coSign a1 (pp_update p) (pp_sigSelf p) sg = L"
    using mir(1) by (auto simp: L_def coSign_def selfIsA_def mirrored_def a1_def transportSend_def seat_def)
  have ak: "onFrame H a1 g = (confirm L (advanced L (pp_next p) (dt_nonce a + 1) None a1), Inr ())"
    using g(2) mir(3) n sg(2) fit L'
    by (simp add: onFrame_def onAck_def a1_def transportSend_def ack_def endpointsFit_def advanced_def Let_def)
  have lev': "level (confirm L (advanced L (pp_next p) (dt_nonce a + 1) None a1)) (confirm L (transportSend b0 g))"
    using lev by (simp add: level_def mirrored_def endpointsFit_def a1_def b0_def transportSend_def confirm_def advanced_def)
  show ?thesis
    by (rule exI [of _ a1], rule exI [of _ f], rule exI [of _ "confirm L (transportSend b0 g)"], rule exI [of _ g],
        rule exI [of _ "confirm L (advanced L (pp_next p) (dt_nonce a + 1) None a1)"], rule exI [of _ L])
      (use f(1) mv ak lev' in \<open>simp add: a1_def b0_def transportSend_def confirm_def advanced_def L_def coSign_def\<close>)
qed

subsection \<open>Crossing proposals\<close>

text \<open>When a protocol lets both seats move from the same state, both may propose before either
  proposal is delivered. Each seat then accepts the other's proposal in place of its own.\<close>

lemma level_sym: "level a b \<Longrightarrow> level b a"
  by (auto simp: level_def mirrored_def endpointsFit_def)

lemma checkMove_pending [simp]:
  "checkMove H (transportSend (t\<lparr>dt_pending := p\<rparr>) f) g = checkMove H t g"
  by (simp add: checkMove_def selfSign_def transportSend_def Let_def cong: if_cong)

lemma receive_crossing:
  assumes lev: "level a b" and p: "makeProposal H a m ts = Inr p" and q: "makeProposal H b m' ts' = Inr q"
    and f: "decodeFrame f (dt_codec a) = Inr (FMove (pendingMoveFrame a p))"
  shows "\<exists>b1 u. onFrame H (transportSend (b\<lparr>dt_pending := Some q\<rparr>) g) f = (b1, Inr ()) \<and>
    dt_state b1 = pp_next p \<and> dt_nonce b1 = dt_nonce b + 1 \<and> dt_pending b1 = None \<and>
    dt_latest b1 = Some u \<and> cu_update u = pp_update p \<and> coSignedBy (partyAOf b) (partyBOf b) u"
proof -
  let ?b = "transportSend (b\<lparr>dt_pending := Some q\<rparr>) g"
  have ok: "proposalOk H a p" "proposalOk H b q"
    using makeProposal_Inr(4) [OF p] makeProposal_Inr(4) [OF q] .
  have fit: "endpointsFit a b" and n: "dt_nonce b = dt_nonce a" and mir: "mirrored a b"
    using lev by (auto simp: level_def)
  have va: "ep_verify (dt_self a) (pp_msg p) (pp_sigSelf p)"
    using correctEndpoint_sign [of a "pp_msg p"] ok(1) fit by (auto simp: proposalOk_def endpointsFit_def)
  obtain sg where sg: "selfSign b (pp_msg p) = Inr sg"
    using correctEndpoint_sign [of b] fit by (auto simp: endpointsFit_def)
  have cm: "checkMove H ?b (pendingMoveFrame a p) = Inr (pp_next p, pp_update p, sg)"
    using checkMove_progress [OF lev p va sg] by simp
  have by1: "mf_by (pendingMoveFrame a p) \<noteq> dt_selfParty ?b"
    using mir by (auto simp: pendingMoveFrame_def mirrored_def transportSend_def)
  have pn: "\<And>r. dt_pending ?b = Some r \<Longrightarrow> su_nonce (pp_update r) = dt_nonce ?b + 1"
    using ok(2) by (auto simp: transportSend_def proposalOk_def)
  obtain L bs where L: "L = coSign ?b (pp_update p) sg (mf_sigProposer (pendingMoveFrame a p))"
    "onMove H ?b (pendingMoveFrame a p) =
      (confirm L (transportSend (advanced L (pp_next p) (mf_nonce (pendingMoveFrame a p)) None ?b) bs), Inr ())"
    using onMove_fresh [OF cm by1 pn] by (auto simp: Let_def)
  have co: "coSignedBy (partyAOf b) (partyBOf b) L"
    using coSign_coSignedBy [of "pp_update p" "pp_msg p" b sg "pp_sigSelf p"] ok(1) sg va fit
    unfolding L(1)
    by (simp add: proposalOk_def endpointsFit_def coSign_def selfIsA_def transportSend_def pendingMoveFrame_def)
  have "onFrame H ?b f = onMove H ?b (pendingMoveFrame a p)"
    using f mir by (simp add: onFrame_def transportSend_def mirrored_def)
  then show ?thesis
    using L co n ok(1) by (auto simp: pendingMoveFrame_def proposalOk_def coSign_def)
qed

lemma crossing_proposals:
  assumes lev: "level a b" and p: "makeProposal H a m ts = Inr p" and q: "makeProposal H b m' ts' = Inr q"
    and rt: "moveRoundTrips (dt_codec a) m" "moveRoundTrips (dt_codec a) m'"
  shows "\<exists>a1 f b1 g a2 b2 u v.
    propose H a m ts = (a1, Inr ()) \<and> dt_sent a1 = dt_sent a @ [f] \<and>
    propose H b m' ts' = (b1, Inr ()) \<and> dt_sent b1 = dt_sent b @ [g] \<and>
    onFrame H a1 g = (a2, Inr ()) \<and> onFrame H b1 f = (b2, Inr ()) \<and>
    dt_nonce a2 = dt_nonce a + 1 \<and> dt_nonce b2 = dt_nonce a + 1 \<and>
    dt_state a2 = pp_next q \<and> dt_state b2 = pp_next p \<and>
    dt_latest a2 = Some u \<and> coSignedBy (partyAOf a) (partyBOf a) u \<and> cu_update u = pp_update q \<and>
    dt_latest b2 = Some v \<and> coSignedBy (partyAOf b) (partyBOf b) v \<and> cu_update v = pp_update p"
proof -
  have s: "seat (dt_selfParty a)" "seat (dt_selfParty b)" "dt_codec b = dt_codec a" "dt_nonce b = dt_nonce a"
    "dt_pending a = None" "dt_pending b = None"
    using lev by (auto simp: level_def mirrored_def)
  obtain f where f: "propose H a m ts = (transportSend (a\<lparr>dt_pending := Some p\<rparr>) f, Inr ())"
    "decodeFrame f (dt_codec a) = Inr (FMove (pendingMoveFrame a p))"
    using propose_progress [OF p s(5,1) rt(1)] by blast
  obtain g where g: "propose H b m' ts' = (transportSend (b\<lparr>dt_pending := Some q\<rparr>) g, Inr ())"
    "decodeFrame g (dt_codec b) = Inr (FMove (pendingMoveFrame b q))"
    using propose_progress [OF q s(6,2)] rt(2) s(3) by auto
  obtain b2 v where b2: "onFrame H (transportSend (b\<lparr>dt_pending := Some q\<rparr>) g) f = (b2, Inr ())"
    "dt_state b2 = pp_next p" "dt_nonce b2 = dt_nonce b + 1" "dt_latest b2 = Some v"
    "cu_update v = pp_update p" "coSignedBy (partyAOf b) (partyBOf b) v"
    using receive_crossing [OF lev p q f(2)] by blast
  obtain a2 u where a2: "onFrame H (transportSend (a\<lparr>dt_pending := Some p\<rparr>) f) g = (a2, Inr ())"
    "dt_state a2 = pp_next q" "dt_nonce a2 = dt_nonce a + 1" "dt_latest a2 = Some u"
    "cu_update u = pp_update q" "coSignedBy (partyAOf a) (partyBOf a) u"
    using receive_crossing [OF level_sym [OF lev] q p g(2)] by blast
  have "dt_sent (transportSend (t\<lparr>dt_pending := r\<rparr>) h) = dt_sent t @ [h]" for t :: "('a, 'b) DistributedTunnel" and r h
    by (simp add: transportSend_def)
  with f g a2 b2 s(4) show ?thesis by metis
qed

end
