(* ===== verification/Reconcile.thy ===== *)
theory Reconcile
  imports Two_Seats
begin

section \<open>Resume reconciliation (core/reconcile.ts)\<close>

text \<open>
  After a reconnect each seat sends its view and decides one action from its own and the peer's view.
  The lemmas show that the two seats' decisions always fit together, and that carrying out "adopt"
  brings the lagging seat to the nonce, state and checkpoint of the other.
\<close>

subsection \<open>Definitions\<close>

datatype ReconcileAction = ActAdopt | ActWait | ActRePropose | ActNoop | ActSettle

record ResyncView =
  rv_nonce :: int
  rv_hasPending :: bool
  rv_checkpoint :: "CoSignedUpdate option"

definition decideReconcile :: "ResyncView \<Rightarrow> ResyncView \<Rightarrow> ReconcileAction" where
  "decideReconcile self peer =
     (if rv_nonce peer > rv_nonce self then ActAdopt
      else if rv_nonce self > rv_nonce peer then ActWait
      else if (case (rv_checkpoint self, rv_checkpoint peer) of
                 (Some c, Some d) \<Rightarrow>
                   \<not> bytesEqual (su_stateHash (cu_update c)) (su_stateHash (cu_update d))
               | _ \<Rightarrow> False) then ActSettle
      else if rv_hasPending self then ActRePropose
      else ActNoop)"

text \<open>The view of a seat.\<close>

definition viewOf :: "('s, 'm) DistributedTunnel \<Rightarrow> ResyncView" where
  "viewOf t = \<lparr>rv_nonce = dt_nonce t, rv_hasPending = (dt_pending t \<noteq> None), rv_checkpoint = dt_latest t\<rparr>"

subsection \<open>The decisions fit together\<close>

lemma decideReconcile_dual:
  "decideReconcile v w = ActAdopt \<longleftrightarrow> decideReconcile w v = ActWait"
  "decideReconcile v w = ActSettle \<longleftrightarrow> decideReconcile w v = ActSettle"
  "decideReconcile v w \<in> {ActRePropose, ActNoop} \<longleftrightarrow> decideReconcile w v \<in> {ActRePropose, ActNoop}"
  by (auto simp: decideReconcile_def split: option.splits if_splits)

text \<open>Acting on "adopt" succeeds and makes the seats level.\<close>

lemma adopt_converges:
  assumes mir: "mirrored a b" and fit: "ep_publicKey (partyAOf a) = ep_publicKey (partyAOf b)"
      "ep_publicKey (partyBOf a) = ep_publicKey (partyBOf b)"
    and ed: "ep_scheme (partyAOf a) = ED25519" "ep_scheme (partyBOf a) = ED25519"
    and v: "verifies edV (partyAOf b)" "verifies edV (partyBOf b)"
    and ok: "seatOk H b" and act: "decideReconcile (viewOf a) (viewOf b) = ActAdopt"
    and c: "dt_latest b = Some c"
  shows "\<exists>a'. adoptCheckpoint H edV a (dt_state b) c = (a', Inr ()) \<and> dt_nonce a' = dt_nonce b \<and>
    dt_state a' = dt_state b \<and> dt_latest a' = dt_latest b \<and>
    decideReconcile (viewOf a') (viewOf b) \<in> {ActRePropose, ActNoop}"
proof -
  have lt: "dt_nonce a < dt_nonce b"
    using act by (auto simp: decideReconcile_def viewOf_def split: if_splits option.splits)
  have b: "coSignedBy (partyAOf b) (partyBOf b) c" "su_nonce (cu_update c) = dt_nonce b"
    "bindsState H b (dt_state b) (cu_update c)"
    using ok c by (auto simp: seatOk_def)
  have "checkCheckpoint H edV a (dt_state b) c = Inr ()"
    using b(1,3) mir ed fit v
    by (auto simp: checkCheckpoint_def verifyCoSignedUpdate_def coSignedBy_def bindsState_def
        mirrored_def verifies_def Let_def)
  moreover have "su_tunnelId (cu_update c) = dt_tunnelId a"
    using b(3) mir by (simp add: bindsState_def mirrored_def)
  ultimately have "adoptCheckpoint H edV a (dt_state b) c =
      (dropPendingUpTo (su_nonce (cu_update c)) (a\<lparr>dt_state := dt_state b,
        dt_nonce := su_nonce (cu_update c), dt_latest := Some c\<rparr>), Inr ())"
    using lt b(2) by (simp add: adoptCheckpoint_def Let_def)
  then show ?thesis
    using b(2) c by (auto simp: dropPendingUpTo_def decideReconcile_def viewOf_def split: option.splits)
qed

subsection \<open>Properties of the reconnect decision\<close>

text \<open>The decisions of the two seats always fit together: one adopts exactly if the other waits, both
  settle or neither does, and otherwise both carry on at the same nonce.\<close>

theorem reconcile_decisions_fit:
  "(decideReconcile v w = ActAdopt \<longleftrightarrow> decideReconcile w v = ActWait) \<and>
   (decideReconcile v w = ActSettle \<longleftrightarrow> decideReconcile w v = ActSettle) \<and>
   (decideReconcile v w \<in> {ActRePropose, ActNoop} \<longleftrightarrow> decideReconcile w v \<in> {ActRePropose, ActNoop})"
  using decideReconcile_dual by blast

end
