(* ===== verification/Move_Codec.thy ===== *)
theory Move_Codec
  imports Distributed_Frame
begin

section \<open>Helpers of the relay move codecs\<close>

text \<open>
  The argument checks that the move codecs of the protocols share (protocol/paymentsCodec.ts,
  protocol/blackjackCodec.ts, protocol/battleshipCodec.ts): each codec turns a move into JSON with
  byte strings in hex and reads it back, rejecting values of the wrong shape.
\<close>

definition expectRecord :: "json option \<Rightarrow> string \<Rightarrow> json result" where
  "expectRecord v label = (case v of Some (JObj fs) \<Rightarrow> Inr (JObj fs) | _ \<Rightarrow> Inl (Error label))"

definition expectString :: "json option \<Rightarrow> string \<Rightarrow> string result" where
  "expectString v label = (case v of Some (JStr s) \<Rightarrow> Inr s | _ \<Rightarrow> Inl (Error label))"

definition bytesFromHex :: "json option \<Rightarrow> string \<Rightarrow> nat option \<Rightarrow> bytes result" where
  "bytesFromHex v label len =
     bindE (expectString v label) (\<lambda>s.
     bindE (fromHex s) (\<lambda>bs.
     if (case len of None \<Rightarrow> False | Some n \<Rightarrow> length bs \<noteq> n) then Inl (Error label) else Inr bs))"

definition hex0x :: "bytes \<Rightarrow> string" where
  "hex0x bs = ''0x'' @ toHex bs"

lemma bytesFromHex_hex0x [simp]:
  "len = None \<or> len = Some (length bs) \<Longrightarrow> bytesFromHex (Some (JStr (hex0x bs))) label len = Inr bs"
  by (auto simp: bytesFromHex_def expectString_def hex0x_def fromHex_0x_toHex)

lemma expect_simps [simp]:
  "expectRecord (Some (JObj fs)) label = Inr (JObj fs)" "expectString (Some (JStr s)) label = Inr s"
  by (simp_all add: expectRecord_def expectString_def)

end
