(* ===== verification/Payments.thy ===== *)
theory Payments
  imports Two_Seats Move_Codec
begin

section \<open>Streaming payments (protocol/payments.ts, protocol/paymentsCodec.ts)\<close>

text \<open>
  Either party may send part of its balance to the other at any time. The lemmas give the exact
  effect of a move and when it is accepted, conservation (an interpretation of
  \<open>conserving_protocol\<close>), injectivity of the state encoding, the round trip of the relay codec, and
  what happens when both seats propose at once.
\<close>

subsection \<open>Definitions\<close>

record PaymentsState =
  pay_balanceA :: int
  pay_balanceB :: int
  pay_total :: int
  pay_count :: int

record PaymentMove =
  pm_from :: Party
  pm_amount :: int

definition payments_DOMAIN :: bytes where
  "payments_DOMAIN = protocolDomain ''payments.v1''"

definition payments_initialState :: "ProtocolContext \<Rightarrow> PaymentsState" where
  "payments_initialState ctx =
     \<lparr>pay_balanceA = bal_a (ctx_initialBalances ctx), pay_balanceB = bal_b (ctx_initialBalances ctx),
      pay_total = bal_a (ctx_initialBalances ctx) + bal_b (ctx_initialBalances ctx), pay_count = 0\<rparr>"

definition payments_applyMove :: "PaymentsState \<Rightarrow> PaymentMove \<Rightarrow> Party \<Rightarrow> PaymentsState result" where
  "payments_applyMove state move by1 =
     (if pm_from move \<noteq> by1 then Inl (Error ''move.from must equal signer'')
      else if pm_amount move \<le> 0 then Inl (Error ''payment amount must be positive'')
      else
        let sender = pm_from move;
            fromBal = (if sender = PartyA then pay_balanceA state else pay_balanceB state)
        in if pm_amount move > fromBal then Inl (Error ''insufficient balance'')
           else Inr
             \<lparr>pay_balanceA = (if sender = PartyA then pay_balanceA state - pm_amount move
                              else pay_balanceA state + pm_amount move),
              pay_balanceB = (if sender = PartyB then pay_balanceB state - pm_amount move
                              else pay_balanceB state + pm_amount move),
              pay_total = pay_total state,
              pay_count = pay_count state + 1\<rparr>)"

definition payments_encodeState :: "PaymentsState \<Rightarrow> bytes result" where
  "payments_encodeState state =
     encodeU64s payments_DOMAIN [pay_balanceA state, pay_balanceB state, pay_count state]"

definition payments_balances :: "PaymentsState \<Rightarrow> Balances" where
  "payments_balances state = \<lparr>bal_a = pay_balanceA state, bal_b = pay_balanceB state\<rparr>"

text \<open>\<open>draw n\<close> is the value of \<open>Math.floor(rng() * n)\<close>.\<close>

definition payments_randomMove :: "PaymentsState \<Rightarrow> Party \<Rightarrow> (int \<Rightarrow> int) \<Rightarrow> PaymentMove option" where
  "payments_randomMove state by1 draw =
     (let bal = (if by1 = PartyA then pay_balanceA state else pay_balanceB state)
      in if bal \<le> 0 then None
         else
           let cap = (if bal < 1000 then bal else 1000);
               amount = 1 + draw cap
           in Some \<lparr>pm_from = by1, pm_amount = amount\<rparr>)"

definition PaymentsProtocol :: "(PaymentsState, PaymentMove) Protocol" where
  "PaymentsProtocol =
     \<lparr>p_name = ''payments.v1'', p_movesCarrySecrets = False,
      p_initialState = payments_initialState, p_applyMove = payments_applyMove,
      p_encodeState = payments_encodeState, p_balances = payments_balances,
      p_isTerminal = (\<lambda>_. False)\<rparr>"

subsection \<open>Relay codec\<close>

definition expectParty :: "json option \<Rightarrow> string \<Rightarrow> Party result" where
  "expectParty v label =
     (if v = Some (JStr ''A'') then Inr PartyA else if v = Some (JStr ''B'') then Inr PartyB
      else Inl (Error label))"

definition expectAmountString :: "json option \<Rightarrow> string \<Rightarrow> json result" where
  "expectAmountString v label = (case v of Some (JStr s) \<Rightarrow> Inr (JStr s) | _ \<Rightarrow> Inl (Error label))"

definition paymentMoveToJson :: "PaymentMove \<Rightarrow> json option result" where
  "paymentMoveToJson move =
     Inr (Some (JObj (jprop ''from'' (partyJson (pm_from move)) @
       [(''amount'', JStr (toStringInt (pm_amount move)))])))"

definition paymentMoveFromJson :: "json option \<Rightarrow> PaymentMove result" where
  "paymentMoveFromJson v =
     bindE (expectRecord v ''move must be an object'') (\<lambda>move.
     bindE (jget move ''from'') (\<lambda>from1.
     bindE (expectParty from1 ''move.from must be A or B'') (\<lambda>p.
     bindE (jget move ''amount'') (\<lambda>a.
     bindE (expectAmountString a ''move.amount must be a string'') (\<lambda>s.
     bindE (BigInt (Some s)) (\<lambda>n.
     Inr \<lparr>pm_from = p, pm_amount = n\<rparr>))))))"

definition paymentsMoveCodec :: "PaymentMove MoveCodec" where
  "paymentsMoveCodec = \<lparr>mc_encode = paymentMoveToJson, mc_decode = paymentMoveFromJson\<rparr>"

subsection \<open>Moves\<close>

lemma PaymentsProtocol_simps [simp]:
  "p_applyMove PaymentsProtocol = payments_applyMove" "p_initialState PaymentsProtocol = payments_initialState"
  "p_encodeState PaymentsProtocol = payments_encodeState" "p_balances PaymentsProtocol = payments_balances"
  by (simp_all add: PaymentsProtocol_def)

definition pay_balanceOf :: "PaymentsState \<Rightarrow> Party \<Rightarrow> int" where
  "pay_balanceOf s p = (if p = PartyA then pay_balanceA s else pay_balanceB s)"

text \<open>A payment between the two parties is accepted exactly if it is the signer's own, positive and
  covered, and then moves the amount.\<close>

lemma payments_applyMove_Inr_iff:
  assumes "seat by1"
  shows "payments_applyMove s m by1 = Inr s' \<longleftrightarrow>
    pm_from m = by1 \<and> 0 < pm_amount m \<and> pm_amount m \<le> pay_balanceOf s by1 \<and>
    pay_balanceOf s' by1 = pay_balanceOf s by1 - pm_amount m \<and>
    pay_balanceOf s' (otherParty by1) = pay_balanceOf s (otherParty by1) + pm_amount m \<and>
    pay_total s' = pay_total s \<and> pay_count s' = pay_count s + 1"
  using assms
  by (cases s'; cases by1) (auto simp: payments_applyMove_def pay_balanceOf_def Let_def)

lemma payments_randomMove_legal:
  assumes "seat by1" "\<And>n. 0 < n \<Longrightarrow> 0 \<le> draw n \<and> draw n < n" "payments_randomMove s by1 draw = Some m"
  shows "\<exists>s'. payments_applyMove s m by1 = Inr s'"
proof -
  obtain c where "pm_from m = by1" "pm_amount m = 1 + draw c" "0 < c" "c \<le> pay_balanceOf s by1"
    using assms(3)
    by (auto simp: payments_randomMove_def pay_balanceOf_def Let_def split: if_splits)
  moreover have "0 \<le> draw c \<and> draw c < c" using assms(2) calculation by blast
  ultimately show ?thesis
    using assms(1) by (auto simp: payments_applyMove_def pay_balanceOf_def Let_def)
qed

definition payments_inv :: "PaymentsState \<Rightarrow> bool" where
  "payments_inv s \<longleftrightarrow> 0 \<le> pay_balanceA s \<and> 0 \<le> pay_balanceB s \<and>
     pay_balanceA s + pay_balanceB s = pay_total s \<and> 0 \<le> pay_count s"

interpretation payments: conserving_protocol PaymentsProtocol payments_inv pay_total
proof unfold_locales
  fix s m by1 s'
  assume "payments_inv s" "seat by1" "p_applyMove PaymentsProtocol s m by1 = Inr s'"
  then show "payments_inv s'"
    by (auto simp: payments_inv_def payments_applyMove_def seat_def Let_def split: if_splits)
next
  fix s m by1 s'
  assume "p_applyMove PaymentsProtocol s m by1 = Inr s'"
  then show "pay_total s' = pay_total s"
    by (auto simp: payments_applyMove_def Let_def split: if_splits)
qed (auto simp: payments_inv_def payments_initialState_def payments_balances_def funded_def balanceSum_def)

text \<open>Different ledgers never have the same encoding.\<close>

lemma payments_encodeState_inj:
  assumes "payments_encodeState s = Inr bs" "payments_encodeState s' = Inr bs"
  shows "pay_balanceA s = pay_balanceA s' \<and> pay_balanceB s = pay_balanceB s' \<and> pay_count s = pay_count s'"
  using assms concat_beBytes_inj [of "[pay_balanceA s, pay_balanceB s, pay_count s]"
      "[pay_balanceA s', pay_balanceB s', pay_count s']" "[]" "[]"]
  by (auto simp: payments_encodeState_def encodeU64s_Inr_iff)

lemma paymentsMoveCodec_round_trip:
  "seat (pm_from m) \<Longrightarrow> moveRoundTrips paymentsMoveCodec m"
  by (cases "pm_from m"; cases m)
    (auto simp: moveRoundTrips_def paymentsMoveCodec_def paymentMoveToJson_def paymentMoveFromJson_def
      expectRecord_def expectParty_def expectAmountString_def partyJson_def jprop_def)

subsection \<open>Crossing payments\<close>

text \<open>The next state of a proposal that pays one unit.\<close>

lemma payments_crossing_states:
  assumes "payments_applyMove s \<lparr>pm_from = PartyA, pm_amount = x\<rparr> PartyA = Inr s1"
    "payments_applyMove s \<lparr>pm_from = PartyB, pm_amount = y\<rparr> PartyB = Inr s2"
  shows "pay_balanceA s1 < pay_balanceA s2"
  using assms by (auto simp: payments_applyMove_def Let_def split: if_splits)

subsection \<open>Properties of payments\<close>

text \<open>Payments conserve: whatever legal payments the two parties make from non-negative deposits, no
  balance becomes negative and the two balances sum to what was deposited.\<close>

theorem payments_conserve:
  assumes "funded (ctx_initialBalances ctx)" "list_all (\<lambda>(m, by1). seat by1) ms"
    and "applyMoves PaymentsProtocol (payments_initialState ctx) ms = Inr s"
  shows "0 \<le> pay_balanceA s \<and> 0 \<le> pay_balanceB s \<and>
    pay_balanceA s + pay_balanceB s = bal_a (ctx_initialBalances ctx) + bal_b (ctx_initialBalances ctx)"
  using payments.run_conserves [of ctx ms s] assms
  by (simp add: funded_def balanceSum_def payments_balances_def)

text \<open>The random driver of the payment protocol only produces legal payments, given a draw below
  its bound.\<close>

theorem payments_randomMove_is_legal:
  assumes "seat by1" "\<And>n. 0 < n \<Longrightarrow> 0 \<le> draw n \<and> draw n < n" "payments_randomMove s by1 draw = Some m"
  shows "\<exists>s'. payments_applyMove s m by1 = Inr s' \<and> pay_balanceOf s' by1 = pay_balanceOf s by1 - pm_amount m"
  using payments_randomMove_legal [OF assms] assms(1) by (auto simp: payments_applyMove_Inr_iff)

end
