(* ===== verification/Api_Credits.thy ===== *)
theory Api_Credits
  imports Two_Seats
begin

section \<open>Metered API credits (protocol/apiCredits.ts)\<close>

text \<open>
  The client (party A) burns a fixed price per call until its prepaid balance cannot cover another.
  Only A moves, so the protocol interprets \<open>turn_protocol\<close> as well as \<open>conserving_protocol\<close>; the
  number of calls a balance pays for is exact.
\<close>

subsection \<open>Definitions\<close>

record ApiCreditsState =
  ac_client :: int
  ac_provider :: int
  ac_total :: int
  ac_calls :: int

record ApiCreditsMove =
  am_kind :: string

definition apiCredits_DOMAIN :: bytes where
  "apiCredits_DOMAIN = protocolDomain ''api_credits.v1''"

definition apiCredits_initialState :: "ProtocolContext \<Rightarrow> ApiCreditsState" where
  "apiCredits_initialState ctx =
     \<lparr>ac_client = bal_a (ctx_initialBalances ctx), ac_provider = bal_b (ctx_initialBalances ctx),
      ac_total = bal_a (ctx_initialBalances ctx) + bal_b (ctx_initialBalances ctx), ac_calls = 0\<rparr>"

definition apiCredits_applyMove ::
  "int \<Rightarrow> ApiCreditsState \<Rightarrow> ApiCreditsMove \<Rightarrow> Party \<Rightarrow> ApiCreditsState result" where
  "apiCredits_applyMove costPerCall state move by1 =
     (if by1 \<noteq> PartyA then Inl (Error ''only the client (A) makes calls'')
      else if am_kind move \<noteq> ''call'' then Inl (Error ''unknown move'')
      else if ac_client state < costPerCall
      then Inl (Error ''out of credits: remaining balance can't cover a call'')
      else Inr
        \<lparr>ac_client = ac_client state - costPerCall, ac_provider = ac_provider state + costPerCall,
         ac_total = ac_total state, ac_calls = ac_calls state + 1\<rparr>)"

definition apiCredits_encodeState :: "ApiCreditsState \<Rightarrow> bytes result" where
  "apiCredits_encodeState state =
     encodeU64s apiCredits_DOMAIN [ac_client state, ac_provider state, ac_calls state]"

definition apiCredits_balances :: "ApiCreditsState \<Rightarrow> Balances" where
  "apiCredits_balances state = \<lparr>bal_a = ac_client state, bal_b = ac_provider state\<rparr>"

definition apiCredits_isTerminal :: "int \<Rightarrow> ApiCreditsState \<Rightarrow> bool" where
  "apiCredits_isTerminal costPerCall state = (ac_client state < costPerCall)"

definition apiCredits_randomMove :: "int \<Rightarrow> ApiCreditsState \<Rightarrow> Party \<Rightarrow> ApiCreditsMove option" where
  "apiCredits_randomMove costPerCall state by1 =
     (if by1 \<noteq> PartyA \<or> ac_client state < costPerCall then None
      else Some \<lparr>am_kind = ''call''\<rparr>)"

definition ApiCreditsProtocol :: "int \<Rightarrow> (ApiCreditsState, ApiCreditsMove) Protocol" where
  "ApiCreditsProtocol costPerCall =
     \<lparr>p_name = ''api_credits.v1'', p_movesCarrySecrets = False,
      p_initialState = apiCredits_initialState, p_applyMove = apiCredits_applyMove costPerCall,
      p_encodeState = apiCredits_encodeState, p_balances = apiCredits_balances,
      p_isTerminal = apiCredits_isTerminal costPerCall\<rparr>"

text \<open>The constructor rejects a price that is not positive.\<close>

definition newApiCreditsProtocol :: "int \<Rightarrow> (ApiCreditsState, ApiCreditsMove) Protocol result" where
  "newApiCreditsProtocol costPerCall =
     (if costPerCall \<le> 0 then Inl (Error ''costPerCall must be positive'')
      else Inr (ApiCreditsProtocol costPerCall))"

subsection \<open>Moves\<close>

lemma ApiCreditsProtocol_simps [simp]:
  "p_applyMove (ApiCreditsProtocol k) = apiCredits_applyMove k"
  "p_initialState (ApiCreditsProtocol k) = apiCredits_initialState"
  "p_encodeState (ApiCreditsProtocol k) = apiCredits_encodeState"
  "p_balances (ApiCreditsProtocol k) = apiCredits_balances"
  "p_isTerminal (ApiCreditsProtocol k) = apiCredits_isTerminal k"
  by (simp_all add: ApiCreditsProtocol_def)

lemma apiCredits_applyMove_Inr_iff:
  "apiCredits_applyMove k s m by1 = Inr s' \<longleftrightarrow> by1 = PartyA \<and> am_kind m = ''call'' \<and> k \<le> ac_client s \<and>
     s' = \<lparr>ac_client = ac_client s - k, ac_provider = ac_provider s + k, ac_total = ac_total s,
           ac_calls = ac_calls s + 1\<rparr>"
  by (auto simp: apiCredits_applyMove_def)

text \<open>The invariant ties the balances to the number of calls.\<close>

definition apiCredits_inv :: "ApiCreditsState \<Rightarrow> bool" where
  "apiCredits_inv s \<longleftrightarrow> 0 \<le> ac_client s \<and> 0 \<le> ac_provider s \<and>
     ac_client s + ac_provider s = ac_total s \<and> 0 \<le> ac_calls s"

lemma newApiCreditsProtocol_conserves:
  assumes "newApiCreditsProtocol k = Inr P"
  shows "conserving_protocol P apiCredits_inv ac_total"
proof -
  have k: "0 < k" "P = ApiCreditsProtocol k"
    using assms by (auto simp: newApiCreditsProtocol_def split: if_splits)
  show ?thesis
    unfolding k(2)
    by unfold_locales
      (use k(1) in \<open>auto simp: apiCredits_inv_def apiCredits_applyMove_Inr_iff apiCredits_initialState_def
        apiCredits_balances_def funded_def balanceSum_def\<close>)
qed

text \<open>The default price of the source.\<close>

interpretation apiCredits: conserving_protocol "ApiCreditsProtocol 10" apiCredits_inv ac_total
  by (rule newApiCreditsProtocol_conserves [of 10]) (simp add: newApiCreditsProtocol_def)

interpretation apiCredits_turn: turn_protocol "ApiCreditsProtocol k" "\<lambda>_. Some PartyA" for k
  by unfold_locales (simp add: apiCredits_applyMove_Inr_iff)

text \<open>A run of calls costs exactly its price; as many calls succeed as the balance covers.\<close>

lemma apiCredits_calls:
  "0 < k \<Longrightarrow> int n * k \<le> ac_client s \<Longrightarrow>
   applyMoves (ApiCreditsProtocol k) s (replicate n (\<lparr>am_kind = ''call''\<rparr>, PartyA)) =
     Inr \<lparr>ac_client = ac_client s - int n * k, ac_provider = ac_provider s + int n * k,
          ac_total = ac_total s, ac_calls = ac_calls s + int n\<rparr>"
proof (induction n arbitrary: s)
  case 0
  then show ?case by simp
next
  case (Suc n)
  have "0 \<le> int n * k" using Suc.prems(1) by simp
  then have c: "k \<le> ac_client s"
    using Suc.prems(2) by (simp add: algebra_simps)
  let ?s = "\<lparr>ac_client = ac_client s - k, ac_provider = ac_provider s + k, ac_total = ac_total s,
           ac_calls = ac_calls s + 1\<rparr>"
  have "apiCredits_applyMove k s \<lparr>am_kind = ''call''\<rparr> PartyA = Inr ?s"
    using c by (simp add: apiCredits_applyMove_Inr_iff)
  moreover have "int n * k \<le> ac_client ?s"
    using Suc.prems(2) by (simp add: algebra_simps)
  ultimately show ?case
    using Suc.IH [of ?s] Suc.prems(1) by (simp add: algebra_simps)
qed

text \<open>Metering is exact: with a positive price, n calls are accepted exactly if the client's balance
  covers n times the price, and they move exactly that amount to the provider.\<close>

theorem apiCredits_metering:
  assumes "0 < k" "0 \<le> ac_client s"
  shows "applyMoves (ApiCreditsProtocol k) s (replicate n (\<lparr>am_kind = ''call''\<rparr>, PartyA)) = Inr s' \<longleftrightarrow>
    int n * k \<le> ac_client s \<and>
    s' = \<lparr>ac_client = ac_client s - int n * k, ac_provider = ac_provider s + int n * k,
          ac_total = ac_total s, ac_calls = ac_calls s + int n\<rparr>"
proof (cases "int n * k \<le> ac_client s")
  case True
  then show ?thesis using apiCredits_calls [OF assms(1), of n s] by auto
next
  case False
  have "applyMoves (ApiCreditsProtocol k) s (replicate n (\<lparr>am_kind = ''call''\<rparr>, PartyA)) \<noteq> Inr s'"
    using assms(2) False
  proof (induction n arbitrary: s)
    case (Suc n)
    show ?case
    proof (cases "k \<le> ac_client s")
      case True
      then have "applyMoves (ApiCreditsProtocol k) \<lparr>ac_client = ac_client s - k, ac_provider = ac_provider s + k,
          ac_total = ac_total s, ac_calls = ac_calls s + 1\<rparr> (replicate n (\<lparr>am_kind = ''call''\<rparr>, PartyA)) \<noteq> Inr s'"
        using Suc by (intro Suc.IH) (simp_all add: algebra_simps)
      then show ?thesis using True by (simp add: apiCredits_applyMove_def)
    qed (simp add: apiCredits_applyMove_def)
  qed simp
  with False show ?thesis by simp
qed

end
