(* ===== verification/Tic_Tac_Toe.thy ===== *)
theory Tic_Tac_Toe
  imports Two_Seats
begin

section \<open>Tic-tac-toe with a move accumulator (protocol/ticTacToe.ts)\<close>

text \<open>
  A staked game on nine cells; every move carries a salt and folds a salted commitment into a running
  accumulator. The lemmas show the board and turn invariant, that a decided position ends the game,
  that a game takes at most nine moves, conservation, enforced turns (so the two-seat agreement
  result applies), and that the accumulator binds the whole move history.
\<close>

subsection \<open>Definitions\<close>

definition EMPTY_CELL :: int where "EMPTY_CELL = 0"
definition MARK_A :: int where "MARK_A = 1"
definition MARK_B :: int where "MARK_B = 2"

record TicTacToeState =
  tt_board :: "int list"
  tt_turn :: Party
  tt_movesCount :: int
  tt_winner :: int
  tt_balanceA :: int
  tt_balanceB :: int
  tt_total :: int
  tt_stake :: int
  tt_moveAccumulator :: bytes

record TicTacToeMove =
  tm_cell :: int
  tm_salt :: bytes

definition ttt_DOMAIN :: bytes where
  "ttt_DOMAIN = protocolDomain ''tic_tac_toe.v2''"

text \<open>The length of a byte array always fits a \<open>u64\<close>.\<close>

definition lp :: "bytes \<Rightarrow> bytes list" where
  "lp x = [beBytes 8 (int (length x)), x]"

definition initialAccumulator :: "(bytes \<Rightarrow> bytes) \<Rightarrow> bytes" where
  "initialAccumulator H = H (concatBytes (DOMAIN_COMMIT_REVEAL # lp ttt_DOMAIN))"

definition advanceAccumulator :: "(bytes \<Rightarrow> bytes) \<Rightarrow> bytes \<Rightarrow> bytes \<Rightarrow> bytes" where
  "advanceAccumulator H prevAcc commitment =
     H (concatBytes (DOMAIN_COMMIT_REVEAL # lp prevAcc @ lp commitment))"

definition ttt_LINES :: "(nat \<times> nat \<times> nat) list" where
  "ttt_LINES = [(0, 1, 2), (3, 4, 5), (6, 7, 8), (0, 3, 6), (1, 4, 7), (2, 5, 8), (0, 4, 8), (2, 4, 6)]"

fun winningLine :: "int list \<Rightarrow> (nat \<times> nat \<times> nat) list \<Rightarrow> int option" where
  "winningLine board [] = None"
| "winningLine board ((x, y, z) # ls) =
     (let v = board ! x
      in if v \<noteq> EMPTY_CELL \<and> v = board ! y \<and> v = board ! z then Some v
         else winningLine board ls)"

definition checkWinner :: "int list \<Rightarrow> int \<Rightarrow> int" where
  "checkWinner board movesCount =
     (case winningLine board ttt_LINES of
        Some v \<Rightarrow> v
      | None \<Rightarrow> if movesCount = 9 then 3 else 0)"

definition ttt_initialState :: "(bytes \<Rightarrow> bytes) \<Rightarrow> int \<Rightarrow> ProtocolContext \<Rightarrow> TicTacToeState" where
  "ttt_initialState H defaultStake ctx =
     (let a = bal_a (ctx_initialBalances ctx); b = bal_b (ctx_initialBalances ctx);
          cap = (if a < b then a else b)
      in \<lparr>tt_board = replicate 9 0, tt_turn = PartyA, tt_movesCount = 0, tt_winner = 0,
          tt_balanceA = a, tt_balanceB = b, tt_total = a + b,
          tt_stake = (if defaultStake < cap then defaultStake else cap),
          tt_moveAccumulator = initialAccumulator H\<rparr>)"

text \<open>The balances after a result: the loser pays the stake, clamped to its balance.\<close>

definition ttt_payout :: "TicTacToeState \<Rightarrow> int \<Rightarrow> int \<times> int" where
  "ttt_payout state winner =
     (if winner = 1 \<or> winner = 2 then
        let loserBal = (if winner = 1 then tt_balanceB state else tt_balanceA state);
            shift = (if tt_stake state < loserBal then tt_stake state else loserBal)
        in if winner = 1 then (tt_balanceA state + shift, tt_balanceB state - shift)
           else (tt_balanceA state - shift, tt_balanceB state + shift)
      else (tt_balanceA state, tt_balanceB state))"

definition ttt_applyMove ::
  "(bytes \<Rightarrow> bytes) \<Rightarrow> TicTacToeState \<Rightarrow> TicTacToeMove \<Rightarrow> Party \<Rightarrow> TicTacToeState result" where
  "ttt_applyMove H state move by1 =
     (let cell = tm_cell move; salt = tm_salt move
      in if tt_winner state \<noteq> 0 then Inl (Error ''game already over'')
         else if by1 \<noteq> tt_turn state then Inl (Error ''not your turn'')
         else if cell < 0 \<or> cell > 8 then Inl (Error ''cell out of range'')
         else if tt_board state ! nat cell \<noteq> EMPTY_CELL then Inl (Error ''cell occupied'')
         else if length salt < MIN_SALT_LEN then Inl (Error ''salt must be >= 16 bytes'')
         else
           let board = (tt_board state)[nat cell := (if by1 = PartyA then MARK_A else MARK_B)];
               movesCount = tt_movesCount state + 1;
               winner = checkWinner board movesCount;
               bals = ttt_payout state winner;
               moverByte = (if by1 = PartyA then 1 else 2)
           in bindE (encodeU64s [moverByte] [movesCount, cell]) (\<lambda>value.
              bindE (computeCommitment H value salt) (\<lambda>commitment.
              Inr \<lparr>tt_board = board, tt_turn = (if by1 = PartyA then PartyB else PartyA),
                   tt_movesCount = movesCount, tt_winner = winner,
                   tt_balanceA = fst bals, tt_balanceB = snd bals,
                   tt_total = tt_total state, tt_stake = tt_stake state,
                   tt_moveAccumulator = advanceAccumulator H (tt_moveAccumulator state) commitment\<rparr>)))"

definition ttt_encodeState :: "TicTacToeState \<Rightarrow> bytes result" where
  "ttt_encodeState state =
     bindE (mapE u64ToBeBytes [tt_balanceA state, tt_balanceB state, tt_stake state]) (\<lambda>ws.
     Inr (concatBytes
       ([ttt_DOMAIN, map word_of_int (tt_board state),
         [word_of_int (tt_movesCount state), word_of_int (tt_winner state),
          if tt_turn state = PartyA then 0 else 1]] @ ws @ [tt_moveAccumulator state])))"

definition ttt_balances :: "TicTacToeState \<Rightarrow> Balances" where
  "ttt_balances state = \<lparr>bal_a = tt_balanceA state, bal_b = tt_balanceB state\<rparr>"

definition ttt_isTerminal :: "TicTacToeState \<Rightarrow> bool" where
  "ttt_isTerminal state = (tt_winner state \<noteq> 0)"

text \<open>\<open>draw n\<close> is the value of \<open>Math.floor(rng() * n)\<close>, \<open>saltBytes\<close> the sixteen bytes of two more draws.\<close>

definition ttt_randomMove :: "TicTacToeState \<Rightarrow> Party \<Rightarrow> (nat \<Rightarrow> nat) \<Rightarrow> bytes \<Rightarrow> TicTacToeMove option" where
  "ttt_randomMove state by1 draw saltBytes =
     (if tt_winner state \<noteq> 0 \<or> by1 \<noteq> tt_turn state then None
      else
        let empties = filter (\<lambda>i. tt_board state ! i = EMPTY_CELL) [0..<9]
        in if empties = [] then None
           else
             let idx = draw (length empties);
                 cell = empties ! (if idx < length empties then idx else length empties - 1)
             in Some \<lparr>tm_cell = int cell, tm_salt = saltBytes\<rparr>)"

definition TicTacToeProtocol :: "(bytes \<Rightarrow> bytes) \<Rightarrow> int \<Rightarrow> (TicTacToeState, TicTacToeMove) Protocol" where
  "TicTacToeProtocol H stake =
     \<lparr>p_name = ''tic_tac_toe.v2'', p_movesCarrySecrets = False,
      p_initialState = ttt_initialState H stake, p_applyMove = ttt_applyMove H,
      p_encodeState = ttt_encodeState, p_balances = ttt_balances, p_isTerminal = ttt_isTerminal\<rparr>"

definition newTicTacToeProtocol ::
  "(bytes \<Rightarrow> bytes) \<Rightarrow> int \<Rightarrow> (TicTacToeState, TicTacToeMove) Protocol result" where
  "newTicTacToeProtocol H stake =
     (if stake < 0 then Inl (Error ''stake must be non-negative'') else Inr (TicTacToeProtocol H stake))"

subsection \<open>The board invariant\<close>

lemma TicTacToeProtocol_simps [simp]:
  "p_applyMove (TicTacToeProtocol H k) = ttt_applyMove H"
  "p_initialState (TicTacToeProtocol H k) = ttt_initialState H k"
  "p_encodeState (TicTacToeProtocol H k) = ttt_encodeState"
  "p_balances (TicTacToeProtocol H k) = ttt_balances"
  "p_isTerminal (TicTacToeProtocol H k) = ttt_isTerminal"
  by (simp_all add: TicTacToeProtocol_def)

lemma ttt_applyMove_success:
  assumes "ttt_applyMove H s m by1 = Inr s'"
  obtains w val1 c where "w = checkWinner (tt_board s') (tt_movesCount s')"
    "tt_winner s = 0" "by1 = tt_turn s" "0 \<le> tm_cell m" "tm_cell m \<le> 8"
    "tt_board s ! nat (tm_cell m) = 0" "16 \<le> length (tm_salt m)"
    "tt_board s' = (tt_board s)[nat (tm_cell m) := (if by1 = PartyA then 1 else 2)]"
    "tt_movesCount s' = tt_movesCount s + 1" "tt_winner s' = w"
    "(tt_balanceA s', tt_balanceB s') = ttt_payout s w"
    "tt_total s' = tt_total s" "tt_stake s' = tt_stake s"
    "tt_turn s' = (if by1 = PartyA then PartyB else PartyA)"
    "encodeU64s [if by1 = PartyA then 1 else 2] [tt_movesCount s + 1, tm_cell m] = Inr val1"
    "computeCommitment H val1 (tm_salt m) = Inr c"
    "tt_moveAccumulator s' = advanceAccumulator H (tt_moveAccumulator s) c"
proof -
  have g: "tt_winner s = 0" "by1 = tt_turn s" "0 \<le> tm_cell m" "tm_cell m \<le> 8"
    "tt_board s ! nat (tm_cell m) = 0" "16 \<le> length (tm_salt m)"
    using assms by (auto simp: ttt_applyMove_def Let_def EMPTY_CELL_def MIN_SALT_LEN_def split: if_splits)
  obtain val1 c where v: "encodeU64s [if by1 = PartyA then 1 else 2] [tt_movesCount s + 1, tm_cell m] = Inr val1"
    "computeCommitment H val1 (tm_salt m) = Inr c"
    using assms by (auto simp: ttt_applyMove_def Let_def result_simps split: if_splits)
  show ?thesis
    by (rule that [OF refl g _ _ _ _ _ _ _ v])
      (use assms v g in \<open>auto simp: ttt_applyMove_def Let_def MARK_A_def MARK_B_def split: if_splits\<close>)
qed

text \<open>Number of marks on the board.\<close>

definition marks :: "int list \<Rightarrow> nat" where
  "marks b = length (filter (\<lambda>v. v \<noteq> 0) b)"

lemma marks_update:
  "i < length b \<Longrightarrow> b ! i = 0 \<Longrightarrow> v \<noteq> 0 \<Longrightarrow> marks (b[i := v]) = Suc (marks b)"
proof (induction b arbitrary: i)
  case (Cons x b)
  then show ?case by (cases i) (auto simp: marks_def)
qed simp

lemma marks_le: "marks b \<le> length b"
  by (simp add: marks_def)

definition ttt_inv :: "TicTacToeState \<Rightarrow> bool" where
  "ttt_inv s \<longleftrightarrow> length (tt_board s) = 9 \<and> set (tt_board s) \<subseteq> {0, 1, 2} \<and>
     tt_movesCount s = int (marks (tt_board s)) \<and>
     tt_turn s = (if even (marks (tt_board s)) then PartyA else PartyB) \<and>
     tt_winner s = checkWinner (tt_board s) (tt_movesCount s) \<and>
     0 \<le> tt_balanceA s \<and> 0 \<le> tt_balanceB s \<and> tt_balanceA s + tt_balanceB s = tt_total s \<and> 0 \<le> tt_stake s"

lemma ttt_payout_bounds:
  assumes "0 \<le> tt_balanceA s" "0 \<le> tt_balanceB s" "0 \<le> tt_stake s"
  shows "0 \<le> fst (ttt_payout s w)" "0 \<le> snd (ttt_payout s w)"
    "fst (ttt_payout s w) + snd (ttt_payout s w) = tt_balanceA s + tt_balanceB s"
  using assms by (auto simp: ttt_payout_def Let_def)

lemma ttt_step_inv:
  assumes inv: "ttt_inv s" and st: "ttt_applyMove H s m by1 = Inr s'"
  shows "ttt_inv s'"
  using st
proof (rule ttt_applyMove_success)
  fix w val1 c
  let ?i = "nat (tm_cell m)"
  assume w: "w = checkWinner (tt_board s') (tt_movesCount s')" and turn: "by1 = tt_turn s"
    and c: "0 \<le> tm_cell m" "tm_cell m \<le> 8" and e: "tt_board s ! ?i = 0"
    and b: "tt_board s' = (tt_board s)[?i := (if by1 = PartyA then 1 else 2)]"
    and mc: "tt_movesCount s' = tt_movesCount s + 1" and w': "tt_winner s' = w"
    and pay: "(tt_balanceA s', tt_balanceB s') = ttt_payout s w"
    and rest: "tt_total s' = tt_total s" "tt_stake s' = tt_stake s" "tt_turn s' = (if by1 = PartyA then PartyB else PartyA)"
  have i: "?i < length (tt_board s)" using inv c by (simp add: ttt_inv_def)
  have m: "marks (tt_board s') = Suc (marks (tt_board s))"
    unfolding b by (rule marks_update [OF i e]) simp
  have "set (tt_board s') \<subseteq> {0, 1, 2}"
    using inv set_update_subset_insert [of "tt_board s" ?i] unfolding b ttt_inv_def by force
  moreover have "tt_balanceA s' = fst (ttt_payout s w)" "tt_balanceB s' = snd (ttt_payout s w)"
    using pay by (metis fst_conv, metis snd_conv)
  ultimately show "ttt_inv s'"
    using inv turn w w' mc m rest ttt_payout_bounds [of s w] by (auto simp: ttt_inv_def b)
qed

lemma checkWinner_start: "checkWinner (replicate 9 0) 0 = 0"
  by (simp add: checkWinner_def ttt_LINES_def EMPTY_CELL_def numeral_eq_Suc)

lemma newTicTacToeProtocol_conserves:
  assumes "newTicTacToeProtocol H k = Inr P"
  shows "conserving_protocol P ttt_inv tt_total"
proof -
  have k: "0 \<le> k" "P = TicTacToeProtocol H k"
    using assms by (auto simp: newTicTacToeProtocol_def split: if_splits)
  show ?thesis
    unfolding k(2)
  proof unfold_locales
    fix ctx :: ProtocolContext
    assume "funded (ctx_initialBalances ctx)"
    then show "ttt_inv (p_initialState (TicTacToeProtocol H k) ctx)"
      using k(1) checkWinner_start
      by (auto simp: ttt_inv_def ttt_initialState_def funded_def Let_def marks_def)
  next
    fix s m by1 s'
    assume "ttt_inv s" "p_applyMove (TicTacToeProtocol H k) s m by1 = Inr s'"
    then show "ttt_inv s'" using ttt_step_inv by simp
  next
    fix s m by1 s'
    assume "p_applyMove (TicTacToeProtocol H k) s m by1 = Inr s'"
    then have "ttt_applyMove H s m by1 = Inr s'" by simp
    then show "tt_total s' = tt_total s" by (rule ttt_applyMove_success) simp
  qed (auto simp: ttt_inv_def ttt_initialState_def ttt_balances_def funded_def balanceSum_def Let_def)
qed

interpretation ticTacToe: conserving_protocol "TicTacToeProtocol H 100" ttt_inv tt_total for H
  by (rule newTicTacToeProtocol_conserves [of _ 100]) (simp add: newTicTacToeProtocol_def)

text \<open>Only the party whose turn it is can move.\<close>

definition ttt_turnOf :: "TicTacToeState \<Rightarrow> Party option" where
  "ttt_turnOf s = Some (tt_turn s)"

interpretation ticTacToe_turn: turn_protocol "TicTacToeProtocol H k" ttt_turnOf for H k
  by unfold_locales (auto simp: ttt_turnOf_def elim: ttt_applyMove_success)

subsection \<open>Games end\<close>

text \<open>A position is over exactly if one side has a line or the board is full.\<close>

lemma ttt_winner_iff:
  assumes "ttt_inv s"
  shows "ttt_isTerminal s \<longleftrightarrow> winningLine (tt_board s) ttt_LINES \<noteq> None \<or> marks (tt_board s) = 9"
proof -
  have "winningLine b ls = Some v \<Longrightarrow> v \<noteq> 0" for b v and ls :: "(nat \<times> nat \<times> nat) list"
    by (induction b ls rule: winningLine.induct) (auto simp: Let_def EMPTY_CELL_def split: if_splits)
  then show ?thesis
    using assms by (auto simp: ttt_isTerminal_def ttt_inv_def checkWinner_def split: option.splits)
qed

lemma ttt_run_marks:
  assumes "ttt_inv s" "applyMoves (TicTacToeProtocol H k) s ms = Inr s'"
  shows "ttt_inv s' \<and> marks (tt_board s') = marks (tt_board s) + length ms"
  using assms
proof (induction ms arbitrary: s)
  case Nil
  then show ?case by simp
next
  case (Cons x ms)
  obtain m by1 s1 where s1: "x = (m, by1)" "ttt_applyMove H s m by1 = Inr s1"
    "applyMoves (TicTacToeProtocol H k) s1 ms = Inr s'"
    using Cons.prems(2) by (cases x) (auto simp: result_simps)
  have i1: "ttt_inv s1" using ttt_step_inv [OF Cons.prems(1) s1(2)] .
  have "tt_movesCount s1 = tt_movesCount s + 1"
    using s1(2) by (rule ttt_applyMove_success)
  then have "marks (tt_board s1) = Suc (marks (tt_board s))"
    using i1 Cons.prems(1) by (simp add: ttt_inv_def)
  with Cons.IH [OF i1 s1(3)] show ?case by simp
qed

text \<open>No game from the opening takes more than nine moves.\<close>

lemma ttt_at_most_nine:
  assumes "0 \<le> k" "funded (ctx_initialBalances ctx)"
    "applyMoves (TicTacToeProtocol H k) (ttt_initialState H k ctx) ms = Inr s'"
  shows "length ms \<le> 9 \<and> (length ms = 9 \<longrightarrow> ttt_isTerminal s')"
proof -
  have "newTicTacToeProtocol H k = Inr (TicTacToeProtocol H k)"
    using assms(1) by (simp add: newTicTacToeProtocol_def)
  then have i: "ttt_inv (ttt_initialState H k ctx)"
    using conserving_protocol.init_inv [OF newTicTacToeProtocol_conserves [of H k], OF _ assms(2)]
    by (metis TicTacToeProtocol_simps(2))
  have m0: "marks (tt_board (ttt_initialState H k ctx)) = 0"
    by (simp add: ttt_initialState_def Let_def marks_def)
  have r: "ttt_inv s'" "marks (tt_board s') = length ms"
    using ttt_run_marks [OF i assms(3)] m0 by auto
  then show ?thesis
    using marks_le [of "tt_board s'"] ttt_winner_iff [OF r(1)] by (auto simp: ttt_inv_def)
qed

subsection \<open>The accumulator binds the history\<close>

text \<open>The history of a game, most recent move first: the committed value and its salt.\<close>

type_synonym ttt_history = "(bytes \<times> bytes) list"

definition moveValue :: "Party \<Rightarrow> int \<Rightarrow> int \<Rightarrow> bytes" where
  "moveValue by1 n cell = (if by1 = PartyA then 1 else 2) # beBytes 8 n @ beBytes 8 cell"

definition pairPre :: "bytes \<Rightarrow> bytes \<Rightarrow> bytes" where
  "pairPre x y = DOMAIN_COMMIT_REVEAL @ lpBytes x @ lpBytes y"

definition startPre :: bytes where
  "startPre = DOMAIN_COMMIT_REVEAL @ lpBytes ttt_DOMAIN"

fun accOf :: "(bytes \<Rightarrow> bytes) \<Rightarrow> ttt_history \<Rightarrow> bytes" where
  "accOf H [] = H startPre"
| "accOf H ((v, s) # h) = H (pairPre (accOf H h) (H (pairPre v s)))"

text \<open>Every input given to the hash function while computing an accumulator.\<close>

fun accInputs :: "(bytes \<Rightarrow> bytes) \<Rightarrow> ttt_history \<Rightarrow> bytes set" where
  "accInputs H [] = {startPre}"
| "accInputs H ((v, s) # h) = {pairPre v s, pairPre (accOf H h) (H (pairPre v s))} \<union> accInputs H h"

lemma pairPre_inj:
  assumes "u64 (int (length x))" "u64 (int (length y))" "u64 (int (length x'))" "u64 (int (length y'))"
    "pairPre x y = pairPre x' y'"
  shows "x = x' \<and> y = y'"
  using assms concat_lpBytes_inj [of "[x, y]" "[x', y']"] by (simp add: pairPre_def)

lemma startPre_pairPre:
  assumes "u64 (int (length x))"
  shows "startPre \<noteq> pairPre x y"
proof
  assume "startPre = pairPre x y"
  then have eq: "lpBytes ttt_DOMAIN @ [] = lpBytes x @ lpBytes y"
    by (simp add: startPre_def pairPre_def)
  have "u64 (int (length ttt_DOMAIN))"
    by (simp only: ttt_DOMAIN_def protocolDomain_def asciiBytes_def length_map) (simp add: u64_def)
  from lpBytes_append_inj [OF this assms eq] have "[] = lpBytes y" by (rule conjunct2)
  moreover have "8 \<le> length (lpBytes y)" by (simp add: lpBytes_def)
  ultimately show False by (metis list.size(3) not_numeral_le_zero)
qed

lemma initialAccumulator_pre: "initialAccumulator H = H startPre"
  by (simp add: initialAccumulator_def startPre_def lp_def lpBytes_def)

lemma u64_32: "length x = 32 \<Longrightarrow> u64 (int (length x))"
  by (simp add: u64_def)

lemma accOf_length: "(\<And>x. length (H x) = 32) \<Longrightarrow> length (accOf H h) = 32"
  by (cases h) auto

text \<open>Equal accumulators mean equal histories, if the hash has no collision among the inputs hashed.\<close>

lemma accOf_inj:
  assumes len: "\<And>x. length (H x) = 32"
    and ok: "\<forall>(v, s) \<in> set h \<union> set h'. u64 (int (length v)) \<and> u64 (int (length s))"
    and inj: "inj_on H (accInputs H h \<union> accInputs H h')" and eq: "accOf H h = accOf H h'"
  shows "h = h'"
  using ok inj eq
proof (induction h arbitrary: h')
  case Nil
  show ?case
  proof (cases h')
    case (Cons x t)
    obtain v s where x: "x = (v, s)" by (cases x)
    have "startPre = pairPre (accOf H t) (H (pairPre v s))"
      by (rule inj_onD [OF Nil.prems(2)]) (use Nil.prems(3) Cons x in auto)
    then show ?thesis
      using startPre_pairPre u64_32 [OF accOf_length [of H t, OF len]] by blast
  qed simp
next
  case (Cons x h)
  obtain v s where x: "x = (v, s)" by (cases x)
  have ux: "u64 (int (length (accOf H h)))" "u64 (int (length (H y)))" for y
    using u64_32 accOf_length [of H h, OF len] len by blast+
  show ?case
  proof (cases h')
    case Nil
    have "startPre = pairPre (accOf H h) (H (pairPre v s))"
      by (rule inj_onD [OF Cons.prems(2)]) (use Cons.prems(3) Nil x in auto)
    then show ?thesis
      using startPre_pairPre ux by blast
  next
    case (Cons x' t)
    obtain v' s' where x': "x' = (v', s')" by (cases x')
    have ut: "u64 (int (length (accOf H t)))"
      using u64_32 accOf_length [of H t, OF len] by blast
    have "pairPre (accOf H h) (H (pairPre v s)) = pairPre (accOf H t) (H (pairPre v' s'))"
      by (rule inj_onD [OF Cons.prems(2)]) (use Cons.prems(3) Cons x x' in auto)
    then have e: "accOf H h = accOf H t" "H (pairPre v s) = H (pairPre v' s')"
      using pairPre_inj [OF ux ut ux(2)] by auto
    have "pairPre v s = pairPre v' s'"
      by (rule inj_onD [OF Cons.prems(2) e(2)]) (use Cons x x' in auto)
    then have vs: "v = v'" "s = s'"
      using pairPre_inj [of v s v' s'] Cons.prems(1) Cons x x' by auto
    have "accInputs H h \<union> accInputs H t \<subseteq> accInputs H (x # h) \<union> accInputs H h'"
      using Cons x x' by auto
    then have "inj_on H (accInputs H h \<union> accInputs H t)"
      by (rule inj_on_subset [OF Cons.prems(2)])
    moreover have "\<forall>(v, s) \<in> set h \<union> set t. u64 (int (length v)) \<and> u64 (int (length s))"
      using Cons.prems(1) Cons by auto
    ultimately have "h = t"
      using Cons.IH e(1) by blast
    with vs Cons x x' show ?thesis by simp
  qed
qed

text \<open>The history a sequence of moves adds, starting from a move count.\<close>

fun historyOf :: "int \<Rightarrow> (TicTacToeMove \<times> Party) list \<Rightarrow> ttt_history" where
  "historyOf n [] = []"
| "historyOf n ((m, by1) # ms) = (moveValue by1 (n + 1) (tm_cell m), tm_salt m) # historyOf (n + 1) ms"

lemma ttt_step_acc:
  assumes "ttt_applyMove H s m by1 = Inr s'"
  shows "tt_moveAccumulator s' = H (pairPre (tt_moveAccumulator s)
      (H (pairPre (moveValue by1 (tt_movesCount s + 1) (tm_cell m)) (tm_salt m))))"
    "tt_movesCount s' = tt_movesCount s + 1" "by1 = tt_turn s"
    "u64 (int (length (tm_salt m)))" "u64 (tt_movesCount s + 1)" "u64 (tm_cell m)"
proof -
  obtain val1 c where v: "encodeU64s [if by1 = PartyA then 1 else 2] [tt_movesCount s + 1, tm_cell m] = Inr val1"
    "computeCommitment H val1 (tm_salt m) = Inr c"
    "tt_moveAccumulator s' = advanceAccumulator H (tt_moveAccumulator s) c"
    and r: "tt_movesCount s' = tt_movesCount s + 1" "by1 = tt_turn s"
    using assms by (rule ttt_applyMove_success)
  have val1: "val1 = moveValue by1 (tt_movesCount s + 1) (tm_cell m)" and u: "u64 (tt_movesCount s + 1)" "u64 (tm_cell m)"
    using v(1) by (auto simp: encodeU64s_Inr_iff moveValue_def)
  obtain ps where ps: "mapE lengthPrefixed [val1, tm_salt m] = Inr ps"
    "c = H (concatBytes (DOMAIN_COMMIT_REVEAL # concat ps))"
    using v(2) by (auto simp: computeCommitment_Inr_iff hashCommitment_def commitPreimage_def
        simp del: mapE.simps simp: bindE_eq_Inr)
  have "c = H (pairPre val1 (tm_salt m))"
    using mapE_lengthPrefixed [OF ps(1)] ps(2) by (simp add: pairPre_def)
  then show "tt_moveAccumulator s' = H (pairPre (tt_moveAccumulator s)
      (H (pairPre (moveValue by1 (tt_movesCount s + 1) (tm_cell m)) (tm_salt m))))"
    using v(3) val1 by (simp add: advanceAccumulator_def lp_def pairPre_def lpBytes_def)
  show "u64 (int (length (tm_salt m)))"
    using mapE_lengthPrefixed [OF ps(1)] by simp
qed (use assms in \<open>auto elim!: ttt_applyMove_success simp: encodeU64s_Inr_iff\<close>)

lemma ttt_run_acc:
  assumes "applyMoves (TicTacToeProtocol H k) s ms = Inr s'" "tt_moveAccumulator s = accOf H h"
  shows "tt_moveAccumulator s' = accOf H (rev (historyOf (tt_movesCount s) ms) @ h) \<and>
    (\<forall>(v, sl) \<in> set (historyOf (tt_movesCount s) ms). u64 (int (length v)) \<and> u64 (int (length sl)))"
  using assms
proof (induction ms arbitrary: s h)
  case Nil
  then show ?case by simp
next
  case (Cons x ms)
  obtain m by1 s1 where s1: "x = (m, by1)" "ttt_applyMove H s m by1 = Inr s1"
    "applyMoves (TicTacToeProtocol H k) s1 ms = Inr s'"
    using Cons.prems(1) by (cases x) (auto simp: result_simps)
  note a = ttt_step_acc [OF s1(2)]
  let ?e = "(moveValue by1 (tt_movesCount s + 1) (tm_cell m), tm_salt m)"
  have "tt_moveAccumulator s1 = accOf H (?e # h)"
    using a(1) Cons.prems(2) by simp
  from Cons.IH [OF s1(3) this] a s1(1) show ?case
    by (auto simp: moveValue_def u64_def)
qed

lemma moveValue_inj:
  assumes "u64 n" "u64 n'" "u64 c" "u64 c'" "moveValue p n c = moveValue p' n' c'"
  shows "(p = PartyA \<longleftrightarrow> p' = PartyA) \<and> n = n' \<and> c = c'"
  using assms by (auto simp: moveValue_def append_split_eq beBytes_8_inj split: if_splits)

lemma historyOf_inj:
  assumes "applyMoves (TicTacToeProtocol H k) s ms = Inr s1" "applyMoves (TicTacToeProtocol H k) s' ms' = Inr s2"
    "tt_movesCount s' = tt_movesCount s" "tt_turn s' = tt_turn s"
    "historyOf (tt_movesCount s) ms = historyOf (tt_movesCount s) ms'"
  shows "ms = ms'"
  using assms
proof (induction ms arbitrary: s s' ms')
  case Nil
  then show ?case by (cases ms') auto
next
  case (Cons x ms)
  obtain x' t where ms': "ms' = x' # t"
    using Cons.prems(5) by (cases ms'; cases x) auto
  obtain m by1 r where r: "x = (m, by1)" "ttt_applyMove H s m by1 = Inr r"
    "applyMoves (TicTacToeProtocol H k) r ms = Inr s1"
    using Cons.prems(1) by (cases x) (auto simp: result_simps)
  obtain m' by2 r' where r': "x' = (m', by2)" "ttt_applyMove H s' m' by2 = Inr r'"
    "applyMoves (TicTacToeProtocol H k) r' t = Inr s2"
    using Cons.prems(2) ms' by (cases x') (auto simp: result_simps)
  note a = ttt_step_acc [OF r(2)] and a' = ttt_step_acc [OF r'(2)]
  have "tm_cell m = tm_cell m'" "tm_salt m = tm_salt m'"
    using Cons.prems(3,5) ms' r(1) r'(1) a a' moveValue_inj by auto
  then have mm: "m = m'" by simp
  have by1: "by1 = by2" using a(3) a'(3) Cons.prems(4) by simp
  have "tt_turn r' = tt_turn r"
    using r(2) r'(2) by1 by (auto elim!: ttt_applyMove_success)
  then have "ms = t"
    using Cons.IH [OF r(3) r'(3)] Cons.prems(3,5) ms' r(1) r'(1) a(2) a'(2) by simp
  with mm by1 ms' r(1) r'(1) show ?case by simp
qed

end
