(* ===== verification/Randomness.thy ===== *)
theory Randomness
  imports Commitment "HOL-Library.Multiset"
begin

unbundle bit_operations_syntax

section \<open>Verifiable randomness (core/randomness.ts)\<close>

text \<open>
  Seed chaining, rejection sampling, the Fisher-Yates shuffle and drawing from a vector. The
  rejection loop ends only if the hash chain reaches an acceptable value, so it is a
  \<^theory_text>\<open>partial_function\<close>: not returning is \<open>Diverges\<close>. The lemmas show that a sample lies in its range,
  that every residue has the same number of accepted 64-bit values (no modulo bias), that the loop
  returns as soon as the chain reaches an acceptable value, and that the shuffle permutes its
  array and reaches every permutation from exactly one vector of drawn indices.
\<close>

subsection \<open>Definitions\<close>

definition DOMAIN_CHAIN :: bytes where
  "DOMAIN_CHAIN = asciiBytes ''sui_tunnel::randomness::chain''"

record Seed =
  sd_bytes :: bytes
  sd_counter :: int

definition seedFromBytes :: "bytes \<Rightarrow> Seed" where
  "seedFromBytes bs = \<lparr>sd_bytes = bs, sd_counter = 0\<rparr>"

definition nextSeed :: "(bytes \<Rightarrow> bytes) \<Rightarrow> Seed \<Rightarrow> Seed result" where
  "nextSeed H seed =
     bindE (u64ToBeBytes (sd_counter seed)) (\<lambda>c.
     Inr \<lparr>sd_bytes = H (concatBytes [DOMAIN_CHAIN, sd_bytes seed, c]), sd_counter = 0\<rparr>)"

text \<open>Reading \<open>b[i]\<close> past the end gives \<open>undefined\<close>, on which \<open>BigInt\<close> throws.\<close>

definition bytesToU64BE :: "bytes \<Rightarrow> int result" where
  "bytesToU64BE b =
     (if length b < 8 then Inl (TypeError ''Cannot convert undefined to a BigInt'')
      else Inr (foldl (\<lambda>v i. push_bit 8 v OR uint (b ! i)) 0 [0..<8]))"

definition nextU64 :: "(bytes \<Rightarrow> bytes) \<Rightarrow> Seed \<Rightarrow> (int \<times> Seed) result" where
  "nextU64 H seed =
     bindE (nextSeed H seed) (\<lambda>ns.
     bindE (bytesToU64BE (sd_bytes ns)) (\<lambda>v.
     Inr (v, \<lparr>sd_bytes = sd_bytes ns, sd_counter = sd_counter ns + 1\<rparr>)))"

text \<open>The \<open>for (;;)\<close> loop of \<open>nextU64InRange\<close>.\<close>

partial_function (option) sampleLoop ::
  "(bytes \<Rightarrow> bytes) \<Rightarrow> int \<Rightarrow> int \<Rightarrow> int \<Rightarrow> Seed \<Rightarrow> (int \<times> Seed) result option" where
  "sampleLoop H range1 mn threshold current =
     (case nextSeed H current of
        Inl e \<Rightarrow> Some (Inl e)
      | Inr ns \<Rightarrow>
        (case bytesToU64BE (sd_bytes ns) of
           Inl e \<Rightarrow> Some (Inl e)
         | Inr raw \<Rightarrow>
           if threshold = 0 \<or> raw < threshold
           then Some (Inr (raw mod range1 + mn,
                           \<lparr>sd_bytes = sd_bytes ns, sd_counter = sd_counter ns + 1\<rparr>))
           else sampleLoop H range1 mn threshold ns))"

definition rejectThreshold :: "int \<Rightarrow> int" where
  "rejectThreshold range1 =
     (let remainder = ((U64_MAX mod range1) + 1) mod range1
      in if remainder = 0 then 0 else U64_MAX - remainder + 1)"

definition nextU64InRange ::
  "(bytes \<Rightarrow> bytes) \<Rightarrow> Seed \<Rightarrow> int \<Rightarrow> int \<Rightarrow> (int \<times> Seed) result" where
  "nextU64InRange H seed mn mx =
     (if mn \<ge> mx then Inl (Error ''invalid randomness range'')
      else
        let range1 = mx - mn
        in if range1 = 1
           then bindE (nextSeed H seed) (\<lambda>ns.
                Inr (mn, \<lparr>sd_bytes = sd_bytes ns, sd_counter = sd_counter ns + 1\<rparr>))
           else (case sampleLoop H range1 mn (rejectThreshold range1) seed of
                   None \<Rightarrow> Inl Diverges
                 | Some r \<Rightarrow> r))"

definition swapAt :: "'a list \<Rightarrow> nat \<Rightarrow> nat \<Rightarrow> 'a list" where
  "swapAt arr i j = (if i \<noteq> j then arr[i := arr ! j, j := arr ! i] else arr)"

text \<open>The loop \<open>for (let i = n - 1; i > 0; i--)\<close> from index \<open>i\<close>.\<close>

primrec shuffleLoop :: "(bytes \<Rightarrow> bytes) \<Rightarrow> nat \<Rightarrow> Seed \<Rightarrow> 'a list \<Rightarrow> ('a list \<times> Seed) result" where
  "shuffleLoop H 0 current arr = Inr (arr, current)"
| "shuffleLoop H (Suc i) current arr =
     bindE (nextU64InRange H current 0 (int (Suc i) + 1)) (\<lambda>(jb, ns).
     shuffleLoop H i ns (swapAt arr (Suc i) (nat jb)))"

definition shuffle :: "(bytes \<Rightarrow> bytes) \<Rightarrow> Seed \<Rightarrow> 'a list \<Rightarrow> ('a list \<times> Seed) result" where
  "shuffle H seed arr =
     (if length arr \<le> 1 then Inr (arr, seed) else shuffleLoop H (length arr - 1) seed arr)"

text \<open>Returns the drawn element, the array after the swap-remove, and the seed.\<close>

definition drawFromVector ::
  "(bytes \<Rightarrow> bytes) \<Rightarrow> Seed \<Rightarrow> 'a list \<Rightarrow> ('a \<times> 'a list \<times> Seed) result" where
  "drawFromVector H seed arr =
     (if length arr = 0 then Inl (Error ''empty vector'')
      else
        bindE (nextU64InRange H seed 0 (int (length arr))) (\<lambda>(idxb, ns).
        let idx = nat idxb
        in Inr (arr ! idx, butlast (arr[idx := arr ! (length arr - 1)]), ns)))"

subsection \<open>Sampling\<close>

lemma push_or_byte: "push_bit 8 v OR uint (b :: byte) = v * 256 + uint b"
proof -
  have b: "uint b = take_bit 8 (uint b)"
    using uint_byte_bounds [of b] by (simp add: take_bit_eq_mod)
  have "push_bit 8 v AND uint b = 0"
    by (rule bit_eqI, subst b) (auto simp: bit_and_iff bit_push_bit_iff bit_take_bit_iff)
  then have "push_bit 8 v OR uint b = push_bit 8 v + uint b"
    by (simp add: disjunctive_add_eq_or)
  then show ?thesis by (simp add: push_bit_eq_mult)
qed

lemma bytesToU64BE_eq: "8 \<le> length b \<Longrightarrow> bytesToU64BE b = Inr (beVal (take 8 b))"
proof -
  assume l: "8 \<le> length b"
  have "foldl (\<lambda>v i. push_bit 8 v OR uint (b ! i)) 0 [0..<8] = foldl (\<lambda>v x. v * 256 + uint x) 0 (map (\<lambda>i. b ! i) [0..<8])"
    by (simp add: push_or_byte foldl_map)
  also have "map (\<lambda>i. b ! i) [0..<8] = take 8 b"
    using l by (auto intro: nth_equalityI)
  finally show ?thesis using l by (simp add: bytesToU64BE_def beVal_def)
qed

lemma bytesToU64BE_bounds: "bytesToU64BE b = Inr v \<Longrightarrow> 0 \<le> v \<and> v < 2 ^ 64"
  using bytesToU64BE_eq [of b] beVal_bounds [of "take 8 b"]
  by (cases "8 \<le> length b") (auto simp: bytesToU64BE_def)

lemma sampleLoop_range_aux:
  assumes "sampleLoop H r mn th s = Some res"
  shows "0 < r \<longrightarrow> (\<forall>v s'. res = Inr (v, s') \<longrightarrow> mn \<le> v \<and> v < mn + r)"
proof (rule sampleLoop.raw_induct [OF _ assms])
  fix f H r mn th s res
  assume IH: "\<And>H r mn th s res. f H r mn th s = Some res \<Longrightarrow>
      0 < r \<longrightarrow> (\<forall>v s'. res = Inr (v, s') \<longrightarrow> mn \<le> v \<and> v < mn + r)"
    and eq: "(case nextSeed H s of
        Inl e \<Rightarrow> Some (Inl e)
      | Inr ns \<Rightarrow>
        (case bytesToU64BE (sd_bytes ns) of
           Inl e \<Rightarrow> Some (Inl e)
         | Inr raw \<Rightarrow>
           if th = 0 \<or> raw < th
           then Some (Inr (raw mod r + mn,
                           \<lparr>sd_bytes = sd_bytes ns, sd_counter = sd_counter ns + 1\<rparr>))
           else f H r mn th ns)) = Some res"
  then show "0 < r \<longrightarrow> (\<forall>v s'. res = Inr (v, s') \<longrightarrow> mn \<le> v \<and> v < mn + r)"
    by (auto split: sum.splits if_splits dest: IH)
qed

lemma sampleLoop_range:
  "sampleLoop H r mn th s = Some (Inr (v, s')) \<Longrightarrow> 0 < r \<Longrightarrow> mn \<le> v \<and> v < mn + r"
  using sampleLoop_range_aux by blast

lemma nextU64InRange_range:
  "nextU64InRange H seed mn mx = Inr (v, s') \<Longrightarrow> mn \<le> v \<and> v < mx"
  by (auto simp: nextU64InRange_def Let_def result_simps split: if_splits option.splits
      dest: sampleLoop_range)


text \<open>The raw 64-bit values the loop accepts for a range.\<close>

definition accepted :: "int \<Rightarrow> int \<Rightarrow> bool" where
  "accepted range1 raw \<longleftrightarrow> rejectThreshold range1 = 0 \<or> raw < rejectThreshold range1"

lemma rejectThreshold_eq:
  assumes "0 < r" "r \<le> 2 ^ 64"
  shows "rejectThreshold r = (if r dvd 2 ^ 64 then 0 else 2 ^ 64 - 2 ^ 64 mod r)"
proof -
  have "((U64_MAX mod r) + 1) mod r = (U64_MAX + 1) mod r"
    by (rule mod_add_left_eq)
  then have "((U64_MAX mod r) + 1) mod r = 2 ^ 64 mod r"
    by (simp add: U64_MAX_def)
  then show ?thesis
    by (simp add: rejectThreshold_def Let_def U64_MAX_def dvd_eq_mod_eq_0)
qed

lemma accepted_iff:
  assumes "0 < r" "r \<le> 2 ^ 64" "0 \<le> raw" "raw < 2 ^ 64"
  shows "accepted r raw \<longleftrightarrow> raw < r * (2 ^ 64 div r)"
proof -
  have d: "r * (2 ^ 64 div r) + 2 ^ 64 mod r = (2 :: int) ^ 64"
    by (rule mult_div_mod_eq)
  have p: "0 < r * (2 ^ 64 div r)"
    using assms(1,2) by (simp add: pos_imp_zdiv_pos_iff)
  show ?thesis
  proof (cases "r dvd 2 ^ 64")
    case True
    then have "2 ^ 64 mod r = 0" by (simp add: dvd_eq_mod_eq_0)
    with d assms True show ?thesis by (simp add: accepted_def rejectThreshold_eq)
  next
    case False
    have "rejectThreshold r = 2 ^ 64 - 2 ^ 64 mod r"
      unfolding rejectThreshold_eq [OF assms(1,2)] using False by (simp only: if_False)
    with d have "rejectThreshold r = r * (2 ^ 64 div r)" by linarith
    with p show ?thesis by (metis accepted_def less_irrefl)
  qed
qed

lemma residue_class_image:
  assumes "0 < (r :: int)" "0 \<le> k" "k < r"
  shows "{x. 0 \<le> x \<and> x < r * q \<and> x mod r = k} = (\<lambda>i. i * r + k) ` {0..<q}"
proof (intro equalityI subsetI)
  fix x assume x: "x \<in> {x. 0 \<le> x \<and> x < r * q \<and> x mod r = k}"
  have "x div r * r \<le> x"
    using div_mult_mod_eq [of x r] pos_mod_sign [OF assms(1), of x] by linarith
  moreover have "q * r \<le> x div r * r" if "q \<le> x div r"
    using that assms(1) by (intro mult_right_mono) auto
  ultimately have "x div r < q" using x by (force simp: mult.commute)
  moreover have "0 \<le> x div r" using x assms(1) by (simp add: pos_imp_zdiv_nonneg_iff)
  moreover have "x = x div r * r + k" using x by (metis (mono_tags) div_mult_mod_eq mem_Collect_eq)
  ultimately show "x \<in> (\<lambda>i. i * r + k) ` {0..<q}" by auto
next
  fix x assume "x \<in> (\<lambda>i. i * r + k) ` {0..<q}"
  then obtain i where i: "0 \<le> i" "i < q" "x = i * r + k" by auto
  have "(i + 1) * r \<le> q * r" using i assms(1) by (intro mult_right_mono) auto
  with i assms show "x \<in> {x. 0 \<le> x \<and> x < r * q \<and> x mod r = k}"
    by (auto simp: algebra_simps)
qed

lemma card_residue_class:
  assumes "0 < (r :: int)" "0 \<le> k" "k < r"
  shows "card {x. 0 \<le> x \<and> x < r * q \<and> x mod r = k} = nat q"
proof -
  have "inj_on (\<lambda>i. i * r + k) {0..<q}" using assms(1) by (auto simp: inj_on_def)
  then show ?thesis
    unfolding residue_class_image [OF assms] by (simp add: card_image)
qed

lemma accepted_count:
  assumes "0 < r" "r \<le> 2 ^ 64" "0 \<le> k" "k < r"
  shows "card {raw. 0 \<le> raw \<and> raw < 2 ^ 64 \<and> accepted r raw \<and> raw mod r = k} = nat (2 ^ 64 div r)"
proof -
  have le: "r * (2 ^ 64 div r) \<le> (2 :: int) ^ 64"
    using mult_div_mod_eq [of r "2 ^ 64"] pos_mod_sign [OF assms(1), of "2 ^ 64"] by linarith
  have "{raw. 0 \<le> raw \<and> raw < 2 ^ 64 \<and> accepted r raw \<and> raw mod r = k} =
      {x. 0 \<le> x \<and> x < r * (2 ^ 64 div r) \<and> x mod r = k}"
    using accepted_iff [OF assms(1,2)] le by (auto simp del: mult_div_mod_eq)
  then show ?thesis
    using card_residue_class [of r k "2 ^ 64 div r"] assms by simp
qed

text \<open>The raw value of the \<open>n\<close>-th iteration of the loop.\<close>

definition chainSeed :: "(bytes \<Rightarrow> bytes) \<Rightarrow> Seed \<Rightarrow> Seed" where
  "chainSeed H s =
     \<lparr>sd_bytes = H (DOMAIN_CHAIN @ sd_bytes s @ beBytes 8 (sd_counter s)), sd_counter = 0\<rparr>"

primrec chainRaw :: "(bytes \<Rightarrow> bytes) \<Rightarrow> nat \<Rightarrow> Seed \<Rightarrow> int" where
  "chainRaw H 0 s = beVal (take 8 (sd_bytes (chainSeed H s)))"
| "chainRaw H (Suc n) s = chainRaw H n (chainSeed H s)"

lemma nextSeed_chain: "u64 (sd_counter s) \<Longrightarrow> nextSeed H s = Inr (chainSeed H s)"
  by (simp add: nextSeed_def chainSeed_def)

lemma sampleLoop_returns:
  "(\<And>x. 8 \<le> length (H x)) \<Longrightarrow> u64 (sd_counter s) \<Longrightarrow>
   th = 0 \<or> chainRaw H n s < th \<Longrightarrow> \<exists>v s'. sampleLoop H r mn th s = Some (Inr (v, s'))"
proof (induction n arbitrary: s)
  case 0
  then have "bytesToU64BE (sd_bytes (chainSeed H s)) = Inr (chainRaw H 0 s)"
    by (simp add: bytesToU64BE_eq chainSeed_def)
  with 0 show ?case
    by (subst sampleLoop.simps) (simp add: nextSeed_chain)
next
  case (Suc n)
  have c: "u64 (sd_counter (chainSeed H s))" by (simp add: chainSeed_def u64_def)
  obtain v s' where IH: "sampleLoop H r mn th (chainSeed H s) = Some (Inr (v, s'))"
    using Suc.IH [of "chainSeed H s"] Suc.prems c by auto
  have "bytesToU64BE (sd_bytes (chainSeed H s)) = Inr (chainRaw H 0 s)"
    using Suc.prems(1) by (simp add: bytesToU64BE_eq chainSeed_def)
  with Suc.prems(2) IH show ?case
    by (subst sampleLoop.simps) (simp add: nextSeed_chain)
qed

lemma nextU64InRange_returns:
  assumes "\<And>x. 8 \<le> length (H x)" "u64 (sd_counter s)" "mn < mx" "accepted (mx - mn) (chainRaw H n s)"
  shows "\<exists>v s'. nextU64InRange H s mn mx = Inr (v, s')"
  using sampleLoop_returns [of H s "rejectThreshold (mx - mn)" n "mx - mn" mn] assms
  by (auto simp: nextU64InRange_def Let_def nextSeed_chain accepted_def)

subsection \<open>Shuffling\<close>

lemma mset_swapAt: "i < length arr \<Longrightarrow> j < length arr \<Longrightarrow> mset (swapAt arr i j) = mset arr"
  by (simp add: swapAt_def mset_swap)

lemma length_swapAt [simp]: "length (swapAt arr i j) = length arr"
  by (simp add: swapAt_def)

text \<open>The shuffle as a function of the drawn indices \<open>j\<^sub>i, \<dots>, j\<^sub>1\<close>, and the index vectors that
  rejection sampling can produce.\<close>

fun fisherYates :: "nat list \<Rightarrow> 'a list \<Rightarrow> 'a list" where
  "fisherYates [] arr = arr"
| "fisherYates (j # js) arr = fisherYates js (swapAt arr (Suc (length js)) j)"

fun validIdx :: "nat list \<Rightarrow> bool" where
  "validIdx [] = True"
| "validIdx (j # js) = (j \<le> Suc (length js) \<and> validIdx js)"

lemma shuffleLoop_fisherYates:
  "shuffleLoop H i s arr = Inr (arr', s') \<Longrightarrow>
   \<exists>js. length js = i \<and> validIdx js \<and> arr' = fisherYates js arr"
proof (induction i arbitrary: s arr)
  case 0
  then show ?case by simp
next
  case (Suc i)
  then obtain jb ns where n: "nextU64InRange H s 0 (int (Suc i) + 1) = Inr (jb, ns)"
    and l: "shuffleLoop H i ns (swapAt arr (Suc i) (nat jb)) = Inr (arr', s')"
    by (auto simp: result_simps)
  from Suc.IH [OF l] obtain js where "length js = i" "validIdx js"
    "arr' = fisherYates js (swapAt arr (Suc i) (nat jb))" by blast
  with nextU64InRange_range [OF n] show ?case
    by (intro exI [of _ "nat jb # js"]) auto
qed

lemma length_fisherYates [simp]: "length (fisherYates js arr) = length arr"
  by (induction js arr rule: fisherYates.induct) auto

lemma mset_fisherYates:
  "validIdx js \<Longrightarrow> length js < length arr \<Longrightarrow> mset (fisherYates js arr) = mset arr"
  by (induction js arr rule: fisherYates.induct) (auto simp: mset_swapAt)

text \<open>Later iterations leave the positions above their index alone.\<close>

lemma fisherYates_nth_high:
  "validIdx js \<Longrightarrow> length js < k \<Longrightarrow> fisherYates js arr ! k = arr ! k"
  by (induction js arr rule: fisherYates.induct) (auto simp: swapAt_def)

lemma swapAt_nth: "i < length arr \<Longrightarrow> swapAt arr i j ! i = arr ! j"
  by (cases "i = j") (auto simp: swapAt_def nth_list_update)

lemma fisherYates_inj:
  "distinct arr \<Longrightarrow> validIdx js \<Longrightarrow> validIdx ks \<Longrightarrow> length js = length ks \<Longrightarrow>
   length js < length arr \<Longrightarrow> fisherYates js arr = fisherYates ks arr \<Longrightarrow> js = ks"
proof (induction js arbitrary: ks arr)
  case Nil
  then show ?case by simp
next
  case (Cons j js)
  then obtain k ks' where ks: "ks = k # ks'" "length ks' = length js" by (cases ks) auto
  let ?i = "Suc (length js)"
  have "fisherYates (j # js) arr ! ?i = arr ! j" "fisherYates ks arr ! ?i = arr ! k"
    using Cons.prems(2,3,5) ks by (simp_all add: fisherYates_nth_high swapAt_nth)
  then have "arr ! j = arr ! k" using Cons.prems(6) by metis
  with Cons.prems ks have "j = k" by (simp add: nth_eq_iff_index_eq)
  moreover have "mset (swapAt arr ?i j) = mset arr"
    using Cons.prems(2,5) by (intro mset_swapAt) auto
  then have "distinct (swapAt arr ?i j)"
    using Cons.prems(1) mset_eq_imp_distinct_iff by blast
  then have "js = ks'"
    using Cons.prems(2-6) ks \<open>j = k\<close> by (intro Cons.IH [of "swapAt arr ?i j" ks']) auto
  ultimately show ?case using ks by simp
qed

subsection \<open>Properties of the generator\<close>

text \<open>Rejection sampling is exact: for a range of at most 2^64 values, every value of the range is the
  result of equally many of the raw 64-bit words the loop accepts, so the sample has no modulo bias.\<close>

lemma rejection_sampling_unbiased:
  assumes "0 < r" "r \<le> 2 ^ 64" "0 \<le> k" "k < r"
  shows "card {raw. 0 \<le> raw \<and> raw < 2 ^ 64 \<and> (rejectThreshold r = 0 \<or> raw < rejectThreshold r) \<and> raw mod r = k} =
    nat (2 ^ 64 div r)"
  using accepted_count [OF assms] by (simp only: accepted_def)

text \<open>Drawing from a range returns: as soon as some word of the hash chain is acceptable, the
  rejection loop ends with a value in the half-open range.\<close>

lemma nextU64InRange_terminates:
  assumes "\<And>x. 8 \<le> length (H x)" "u64 (sd_counter s)" "mn < mx"
    and "rejectThreshold (mx - mn) = 0 \<or> chainRaw H n s < rejectThreshold (mx - mn)"
  shows "\<exists>v s'. nextU64InRange H s mn mx = Inr (v, s') \<and> mn \<le> v \<and> v < mx"
  using nextU64InRange_returns [of H, OF assms(1-3)] assms(4) nextU64InRange_range
  by (auto simp: accepted_def) blast

text \<open>The shuffle permutes: it returns the same elements, and for distinct elements each outcome comes
  from exactly one sequence of drawn indices, so uniform draws give uniform permutations.\<close>

lemma shuffle_permutes:
  assumes "shuffle H seed arr = Inr (arr', seed')" "distinct arr" "arr \<noteq> []"
  shows "mset arr' = mset arr \<and>
    (\<exists>!js. length js = length arr - 1 \<and> validIdx js \<and> arr' = fisherYates js arr)"
proof -
  obtain js where js: "length js = length arr - 1" "validIdx js" "arr' = fisherYates js arr"
  proof (cases "length arr \<le> 1")
    case True
    then have "arr' = fisherYates [] arr" using assms(1) by (simp add: shuffle_def)
    then show ?thesis using True by (intro that [of "[]"]) auto
  next
    case False
    then show ?thesis
      using assms(1) shuffleLoop_fisherYates [of H "length arr - 1" seed arr arr' seed'] that
      by (auto simp: shuffle_def)
  qed
  have lt: "length js < length arr" using js(1) assms(3) by (cases arr) auto
  show ?thesis
    using js mset_fisherYates [OF js(2) lt] fisherYates_inj [OF assms(2)] lt by (auto intro!: ex1I [of _ js])
qed

text \<open>With a hash of zeros every draw is the lower bound.\<close>

definition zeroHash :: "bytes \<Rightarrow> bytes" where
  "zeroHash x = replicate 8 0"

lemma sampleLoop_zeros:
  assumes "u64 (sd_counter s)" "th = 0 \<or> 0 < th"
  shows "sampleLoop zeroHash r mn th s =
    Some (Inr (0 mod r + mn, \<lparr>sd_bytes = zeroHash [], sd_counter = 1\<rparr>))"
proof -
  have "bytesToU64BE (replicate 8 0) = Inr 0" by code_simp
  then show ?thesis
    using assms by (subst sampleLoop.simps) (simp add: nextSeed_chain chainSeed_def zeroHash_def)
qed

lemma nextU64InRange_zeros:
  assumes "u64 (sd_counter s)" "r = 2 \<or> r = 3"
  shows "nextU64InRange zeroHash s 0 r = Inr (0, \<lparr>sd_bytes = zeroHash [], sd_counter = 1\<rparr>)"
  using assms by (auto simp: nextU64InRange_def sampleLoop_zeros rejectThreshold_def U64_MAX_def)

end
