(* ===== verification/Concrete.thy ===== *)
theory Concrete
  imports Sample_Hash End_To_End Two_Seats Reconcile Payments Api_Credits Tic_Tac_Toe Randomness
begin

section \<open>Concrete instances of the parameters\<close>

text \<open>
  The hash function and the signature primitives are parameters of the model. This theory gives them
  executable instances of the right shape (32-byte digests, 64-byte signatures) and builds sample
  endpoints, configurations and tunnels on them, at which the properties of the development are
  exercised. Nothing in the components depends on it.
\<close>

subsection \<open>A signature scheme\<close>

definition sampleSign :: "bytes \<Rightarrow> bytes \<Rightarrow> bytes" where
  "sampleSign message secretKey = take 64 (secretKey @ rev message @ replicate 64 0)"

definition sampleVerify :: "bytes \<Rightarrow> bytes \<Rightarrow> bytes \<Rightarrow> bool" where
  "sampleVerify signature message publicKey \<longleftrightarrow> signature = sampleSign message publicKey"

definition sampleKey :: "Party \<Rightarrow> KeyPair" where
  "sampleKey p =
     (let k = replicate 32 (if p = PartyA then 1 else 2)
      in \<lparr>kp_publicKey = k, kp_scheme = ED25519, kp_secretKey = Some k\<rparr>)"

definition sampleEndpoint :: "Party \<Rightarrow> bool \<Rightarrow> PartyEndpoint" where
  "sampleEndpoint p controlled =
     makeEndpoint (nobleBackend sampleSign sampleVerify) ''0xa'' (sampleKey p) controlled"

definition sampleId :: string where
  "sampleId = canonicalAddress (replicate 32 5)"

definition sampleBalances :: Balances where
  "sampleBalances = \<lparr>bal_a = 1000, bal_b = 1000\<rparr>"

definition sampleContext :: ProtocolContext where
  "sampleContext = \<lparr>ctx_tunnelId = sampleId, ctx_initialBalances = sampleBalances\<rparr>"

definition sampleConfig :: "'m MoveCodec \<Rightarrow> Party \<Rightarrow> 'm DistributedConfig" where
  "sampleConfig codec p =
     \<lparr>cfg_tunnelId = sampleId, cfg_self = sampleEndpoint p True,
      cfg_opponent = sampleEndpoint (otherParty p) False, cfg_selfParty = p, cfg_moveCodec = Some codec\<rparr>"

definition sampleSeat :: "('s, 'm) Protocol \<Rightarrow> 'm MoveCodec \<Rightarrow> Party \<Rightarrow> ('s, 'm) DistributedTunnel" where
  "sampleSeat P codec p =
     \<lparr>dt_tunnelId = sampleId, dt_protocol = P, dt_self = sampleEndpoint p True,
      dt_opponent = sampleEndpoint (otherParty p) False, dt_selfParty = p, dt_total = 2000,
      dt_state = p_initialState P sampleContext, dt_nonce = 0, dt_latest = None, dt_pending = None,
      dt_codec = codec, dt_sent = [], dt_confirmed = []\<rparr>"

lemma length_sampleSign [simp]: "length (sampleSign m k) = 64"
  by (simp add: sampleSign_def)

lemma sampleEndpoint_simps [simp]:
  "ep_sign (sampleEndpoint p True) = Some (\<lambda>m. sampleSign m (kp_publicKey (sampleKey p)))"
  "ep_sign (sampleEndpoint p False) = None"
  "ep_verify (sampleEndpoint p c) = (\<lambda>m s. s = sampleSign m (kp_publicKey (sampleKey p)))"
  "ep_publicKey (sampleEndpoint p c) = kp_publicKey (sampleKey p)"
  "ep_scheme (sampleEndpoint p c) = ED25519"
  by (simp_all add: sampleEndpoint_def makeEndpoint_def nobleBackend_def sampleKey_def Let_def sampleVerify_def)

lemma sample_correct [simp]: "correctEndpoint (sampleEndpoint p True)"
  by (simp add: correctEndpoint_def)

lemma sample_verifies [simp]: "verifies sampleVerify (sampleEndpoint p c)"
  by (simp add: verifies_def sampleVerify_def)

lemma sampleId_bytes [simp]: "addressToBytes32 sampleId = Inr (replicate 32 5)"
  by (simp add: sampleId_def)

lemma sample_funded [simp]: "funded sampleBalances" "funded (ctx_initialBalances sampleContext)"
  by (simp_all add: sampleContext_def sampleBalances_def funded_def)

lemma sampleSeat_new:
  assumes "balanceSum P (p_initialState P sampleContext) = 2000"
  shows "newDistributedTunnel idc P (sampleConfig codec p) sampleBalances = Inr (sampleSeat P codec p)"
  using assms
  by (simp add: newDistributedTunnel_def sampleConfig_def sampleSeat_def sampleContext_def sampleBalances_def
      balanceSum_def Let_def)

lemma sampleConfig_peers: "peerConfigs (sampleConfig codec PartyA) (sampleConfig codec PartyB)"
  by (simp add: peerConfigs_def sampleConfig_def)

lemma sampleSeat_level: "level (sampleSeat P codec PartyA) (sampleSeat P codec PartyB)"
  by (simp add: level_def mirrored_def endpointsFit_def sampleSeat_def)

text \<open>A move that the protocol accepts in its opening state, within the u64 range, is a proposal.\<close>

lemma sampleSeat_proposal:
  assumes "p_applyMove P (p_initialState P sampleContext) m p = Inr nxt" "p_encodeState P nxt = Inr es"
    "balanceSum P nxt = 2000" "funded (p_balances P nxt)" "u64 ts"
  shows "\<exists>q. makeProposal sampleHash (sampleSeat P codec p) m ts = Inr q \<and> pp_next q = nxt"
proof -
  let ?u = "\<lparr>su_tunnelId = sampleId, su_stateHash = sampleHash es, su_nonce = 1, su_timestamp = ts,
      su_partyABalance = bal_a (p_balances P nxt), su_partyBBalance = bal_b (p_balances P nxt)\<rparr>"
  obtain msg where "serializeStateUpdate ?u = Inr msg"
    using assms(3-5) by (auto simp: serializeStateUpdate_Inr_iff u64_def funded_def balanceSum_def)
  then show ?thesis
    using makeProposal_progress [of "sampleSeat P codec p" m nxt es ?u sampleHash ts msg] assms
    by (auto simp: sampleSeat_def selfSign_def)
qed

text \<open>Two sample seats complete one exchange, whatever the protocol.\<close>

lemma sample_exchange:
  assumes "makeProposal sampleHash (sampleSeat P codec PartyA) m ts = Inr q" "moveRoundTrips codec m"
  shows "\<exists>x y. (jointStep sampleHash sampleVerify)\<^sup>*\<^sup>* (startPair (sampleSeat P codec PartyA) (sampleSeat P codec PartyB)) (x, y) \<and>
    dt_nonce (sd_tunnel x) = 1 \<and> dt_nonce (sd_tunnel y) = 1 \<and> dt_state (sd_tunnel x) = pp_next q"
proof -
  let ?a = "sampleSeat P codec PartyA" and ?b = "sampleSeat P codec PartyB"
  let ?S = "\<lambda>t. \<lparr>sd_tunnel = t, sd_views = []\<rparr>"
  have rt: "moveRoundTrips (dt_codec ?a) m" using assms(2) by (simp add: sampleSeat_def)
  obtain a1 f b1 g a2 where x: "propose sampleHash ?a m ts = (a1, Inr ())" "dt_sent a1 = dt_sent ?a @ [f]"
    "onFrame sampleHash ?b f = (b1, Inr ())" "dt_sent b1 = dt_sent ?b @ [g]"
    "onFrame sampleHash a1 g = (a2, Inr ())" "level a2 b1" "dt_nonce a2 = dt_nonce ?a + 1" "dt_state a2 = pp_next q"
    using exchange_progress [OF sampleSeat_level assms(1) rt] by blast
  have "sideStep sampleHash sampleVerify (?S ?b) (?S ?a) (?S a1)"
    using side_propose [of "?S ?a" m sampleHash sampleVerify "?S ?b" ts] rt x(1) by simp
  then have 1: "jointStep sampleHash sampleVerify (?S ?a, ?S ?b) (?S a1, ?S ?b)"
    by (rule joint_left)
  have "sideStep sampleHash sampleVerify (?S a1) (?S ?b) (?S b1)"
    using side_receive [of f "?S a1" sampleHash sampleVerify "?S ?b"] x(2,3) by simp
  then have 2: "jointStep sampleHash sampleVerify (?S a1, ?S ?b) (?S a1, ?S b1)"
    by (rule joint_right)
  have "sideStep sampleHash sampleVerify (?S b1) (?S a1) (?S a2)"
    using side_receive [of g "?S b1" sampleHash sampleVerify "?S a1"] x(4,5) by simp
  then have 3: "jointStep sampleHash sampleVerify (?S a1, ?S b1) (?S a2, ?S b1)"
    by (rule joint_left)
  have "(jointStep sampleHash sampleVerify)\<^sup>*\<^sup>* (startPair ?a ?b) (?S a2, ?S b1)"
    using 1 2 3 unfolding startPair_def
    by (meson converse_rtranclp_into_rtranclp rtranclp.rtrancl_refl)
  moreover have "dt_nonce a2 = 1" "dt_nonce b1 = 1"
    using x(6,7) by (auto simp: level_def sampleSeat_def)
  ultimately show ?thesis using x(8) by (metis Side.select_convs(1))
qed

subsection \<open>A tic-tac-toe opening\<close>

definition sampleTttCodec :: "TicTacToeMove MoveCodec" where
  "sampleTttCodec =
     \<lparr>mc_encode = (\<lambda>m. Inr (Some (JArr [JNum (tm_cell m), JStr (toHex (tm_salt m))]))),
      mc_decode = (\<lambda>j. case j of Some (JArr [JNum c, JStr h]) \<Rightarrow>
          bindE (fromHex h) (\<lambda>s. Inr \<lparr>tm_cell = c, tm_salt = s\<rparr>)
        | _ \<Rightarrow> Inl (Error ''bad move''))\<rparr>"

definition sampleTttMove :: "int \<Rightarrow> TicTacToeMove" where
  "sampleTttMove c = \<lparr>tm_cell = c, tm_salt = replicate 16 7\<rparr>"

lemma sampleTttCodec_round_trip [simp]: "moveRoundTrips sampleTttCodec m"
  by (simp add: moveRoundTrips_def sampleTttCodec_def fromHex_toHex)

text \<open>The opening move at the centre, from 1000 a side at a stake of 100.\<close>

lemma sampleTtt_opening:
  "\<exists>nxt es. ttt_applyMove sampleHash (ttt_initialState sampleHash 100 sampleContext) (sampleTttMove 4) PartyA = Inr nxt \<and>
     ttt_encodeState nxt = Inr es \<and> tt_balanceA nxt = 1000 \<and> tt_balanceB nxt = 1000"
proof -
  let ?s = "ttt_initialState sampleHash 100 sampleContext"
  have c: "\<exists>c. computeCommitment sampleHash v (replicate 16 7) = Inr c" if "u64 (int (length v))" for v
    using commitPreimage_ok [of "[v, replicate 16 7]"] that
    by (auto simp: computeCommitment_Inr_iff hashCommitment_def u64_def)
  have e: "encodeU64s [1] [1, 4] = Inr ([1] @ beBytes 8 1 @ beBytes 8 4)"
    by (simp add: encodeU64s_Inr_iff u64_def)
  have "u64 (int (length ([1] @ beBytes 8 1 @ beBytes 8 4)))"
    by (simp add: u64_def byte_len)
  from c [OF this] obtain c where c: "computeCommitment sampleHash ([1] @ beBytes 8 1 @ beBytes 8 4) (replicate 16 7) = Inr c"
    by blast
  have w: "checkWinner [0, 0, 0, 0, 1, 0, 0, 0, 0] 1 = 0" by code_simp
  show ?thesis
    using e c w
    by (auto simp: ttt_applyMove_def ttt_initialState_def sampleContext_def sampleBalances_def sampleTttMove_def
        Let_def EMPTY_CELL_def MIN_SALT_LEN_def MARK_A_def ttt_payout_def ttt_encodeState_def u64_def
        eval_nat_numeral)
qed

lemma sampleTtt_proposal:
  "\<exists>q. makeProposal sampleHash (sampleSeat (TicTacToeProtocol sampleHash 100) sampleTttCodec PartyA) (sampleTttMove 4) 7 = Inr q"
proof -
  obtain nxt es where "ttt_applyMove sampleHash (ttt_initialState sampleHash 100 sampleContext) (sampleTttMove 4) PartyA = Inr nxt"
    "ttt_encodeState nxt = Inr es" "tt_balanceA nxt = 1000" "tt_balanceB nxt = 1000"
    using sampleTtt_opening by blast
  then show ?thesis
    using sampleSeat_proposal [of "TicTacToeProtocol sampleHash 100" "sampleTttMove 4" PartyA nxt es 7 sampleTttCodec]
    by (auto simp: balanceSum_def ttt_balances_def funded_def u64_def)
qed

lemma sampleTtt_new:
  "newDistributedTunnel idc (TicTacToeProtocol sampleHash 100) (sampleConfig codec p) sampleBalances =
     Inr (sampleSeat (TicTacToeProtocol sampleHash 100) codec p)"
  by (rule sampleSeat_new)
    (simp add: balanceSum_def ttt_balances_def ttt_initialState_def sampleContext_def sampleBalances_def Let_def)

subsection \<open>A metered call through the self-play engine\<close>

definition sampleCall :: ApiCreditsMove where
  "sampleCall = \<lparr>am_kind = ''call''\<rparr>"

definition sampleOpts :: StepOptions where
  "sampleOpts = \<lparr>so_timestamp = Some 7, so_mode = None\<rparr>"

lemma sample_engine:
  "\<exists>t. newOffchainTunnel (ApiCreditsProtocol 10) sampleId (sampleEndpoint PartyA True) (sampleEndpoint PartyB True)
     sampleBalances = Inr t"
  using newStateUpdateWriter_ok [OF sampleId_bytes, of 32]
  by (auto simp: newOffchainTunnel_def Let_def apiCredits_balances_def apiCredits_initialState_def)

lemma sample_run:
  assumes "newOffchainTunnel (ApiCreditsProtocol 10) sampleId (sampleEndpoint PartyA True) (sampleEndpoint PartyB True)
     sampleBalances = Inr t"
  shows "\<exists>t' u. tunnelRun sampleHash t [(sampleCall, PartyA, sampleOpts)] = Inr (t', [u]) \<and>
    ot_state t' = \<lparr>ac_client = 990, ac_provider = 1010, ac_total = 2000, ac_calls = 1\<rparr>"
proof -
  have t: "tunnelOk t" "ot_nonce t = 0" "ot_protocol t = ApiCreditsProtocol 10" "ot_total t = 2000"
    "ot_partyA t = sampleEndpoint PartyA True" "ot_partyB t = sampleEndpoint PartyB True"
    "ot_state t = apiCredits_initialState \<lparr>ctx_tunnelId = sampleId, ctx_initialBalances = sampleBalances\<rparr>"
    using newOffchainTunnel_ok [OF assms] by (auto simp: sampleBalances_def)
  let ?n = "\<lparr>ac_client = 990, ac_provider = 1010, ac_total = 2000, ac_calls = 1\<rparr>"
  have mv: "p_applyMove (ot_protocol t) (ot_state t) sampleCall PartyA = Inr ?n"
    using t by (simp add: apiCredits_applyMove_Inr_iff apiCredits_initialState_def sampleBalances_def sampleCall_def)
  have full: "stepMode sampleOpts = ModeFull" by (simp add: stepMode_def sampleOpts_def)
  obtain es where es: "p_encodeState (ot_protocol t) ?n = Inr es"
    using t by (auto simp: apiCredits_encodeState_def encodeU64s_Inr_iff u64_def)
  obtain t' r where st: "tunnelStep sampleHash t sampleCall PartyA sampleOpts = (t', Inr r)"
    using tunnelStep_progress [OF t(1) mv _ es, of sampleHash sampleOpts] t
    by (auto simp: balanceSum_def apiCredits_balances_def u64_def stepTimestamp_def sampleOpts_def)
  obtain u where "sr_signed r = Some u"
    using tunnelStep_full_cosigned [OF t(1) st full] by blast
  moreover have "ot_state t' = ?n"
    using st mv by (auto elim!: tunnelStep_success)
  ultimately show ?thesis using st by (auto simp: sampleOpts_def)
qed

lemma sample_settlement:
  assumes "newOffchainTunnel (ApiCreditsProtocol 10) sampleId (sampleEndpoint PartyA True) (sampleEndpoint PartyB True)
     sampleBalances = Inr t" "tunnelRun sampleHash t [(sampleCall, PartyA, sampleOpts)] = Inr (t', [u])"
    "ot_state t' = \<lparr>ac_client = 990, ac_provider = 1010, ac_total = 2000, ac_calls = 1\<rparr>"
  shows "\<exists>tr co. appendAll sampleHash (newTranscript sampleId) [u] = Inr tr \<and>
    buildSettlementWithRoot t' 9 (transcriptRootOf sampleHash tr) 0 = Inr co"
proof -
  have t: "tunnelOk t" "ot_protocol t = ApiCreditsProtocol 10" "ot_tunnelId t = sampleId"
    "ot_partyA t = sampleEndpoint PartyA True" "ot_partyB t = sampleEndpoint PartyB True"
    using newOffchainTunnel_ok [OF assms(1)] by auto
  have full: "fullMode [(sampleCall, PartyA, sampleOpts)]"
    by (simp add: fullMode_def stepMode_def sampleOpts_def)
  have u: "sameChannel t t'" "runUpdate sampleHash t u"
    using tunnelRun_updates [OF t(1) assms(2) full] by auto
  then obtain tr where tr: "appendAll sampleHash (newTranscript sampleId) [u] = Inr tr"
    using appendAll_ok [of "[u]"] by (auto simp: runUpdate_def coSignedBy_def)
  have l: "length (transcriptRootOf sampleHash tr) = 32"
    using appendAll_root_length [OF tr] by simp
  have c: "ot_protocol t' = ApiCreditsProtocol 10" "ot_tunnelId t' = sampleId"
    "ot_partyA t' = sampleEndpoint PartyA True" "ot_partyB t' = sampleEndpoint PartyB True"
    using u(1) t by (auto simp: sameChannel_def)
  have "\<exists>co. buildSettlementWithRoot t' 9 (transcriptRootOf sampleHash tr) 0 = Inr co"
    using c l assms(3)
    by (simp add: buildSettlementWithRoot_def Let_def serializeSettlementWithRoot_def apiCredits_balances_def u64_def)
  with tr show ?thesis by blast
qed

subsection \<open>Seats that moved\<close>

text \<open>Seat B has accepted the opening move that seat A proposed.\<close>

lemma sampleTtt_ahead:
  "\<exists>b c. mirrored (sampleSeat (TicTacToeProtocol sampleHash 100) sampleTttCodec PartyA) b \<and>
     ep_publicKey (partyAOf (sampleSeat (TicTacToeProtocol sampleHash 100) sampleTttCodec PartyA)) = ep_publicKey (partyAOf b) \<and>
     ep_publicKey (partyBOf (sampleSeat (TicTacToeProtocol sampleHash 100) sampleTttCodec PartyA)) = ep_publicKey (partyBOf b) \<and>
     seatOk sampleHash b \<and> dt_nonce b = 1 \<and> dt_latest b = Some c \<and>
     verifies sampleVerify (partyAOf b) \<and> verifies sampleVerify (partyBOf b)"
proof -
  let ?a = "sampleSeat (TicTacToeProtocol sampleHash 100) sampleTttCodec PartyA"
  let ?b = "sampleSeat (TicTacToeProtocol sampleHash 100) sampleTttCodec PartyB"
  obtain q where q: "makeProposal sampleHash ?a (sampleTttMove 4) 7 = Inr q"
    using sampleTtt_proposal by blast
  have rt: "moveRoundTrips (dt_codec ?a) (sampleTttMove 4)" by (simp add: sampleSeat_def)
  obtain f b a2 u where b: "onFrame sampleHash ?b f = (b, Inr ())" "level a2 b" "dt_nonce a2 = dt_nonce ?a + 1"
    "dt_latest b = Some u"
    using exchange_progress [OF sampleSeat_level q rt] by blast
  have ok: "seatOk sampleHash ?b" using newDistributedTunnel_ok(1) [OF sampleTtt_new] .
  moreover have "correctEndpoint (dt_self ?b)" by (simp add: sampleSeat_def)
  ultimately have "keeps sampleHash ?b b" using keeps_onFrame [of ?b sampleHash f] b(1) by simp
  with ok have s: "sameSeat ?b b" "seatOk sampleHash b" by (auto simp: keeps_def)
  have n: "dt_nonce b = 1" using b(2,3) by (simp add: level_def sampleSeat_def)
  show ?thesis
    by (rule exI [of _ b], rule exI [of _ u]) (use s n b(4) in \<open>simp add: sameSeat_def mirrored_def partyAOf_def partyBOf_def selfIsA_def sampleSeat_def\<close>)
qed

lemma samplePay_proposals:
  "\<exists>p q. makeProposal sampleHash (sampleSeat PaymentsProtocol paymentsMoveCodec PartyA)
      \<lparr>pm_from = PartyA, pm_amount = 10\<rparr> 7 = Inr p \<and>
    makeProposal sampleHash (sampleSeat PaymentsProtocol paymentsMoveCodec PartyB)
      \<lparr>pm_from = PartyB, pm_amount = 20\<rparr> 8 = Inr q"
proof -
  have s: "payments_initialState sampleContext = \<lparr>pay_balanceA = 1000, pay_balanceB = 1000, pay_total = 2000, pay_count = 0\<rparr>"
    by (simp add: payments_initialState_def sampleContext_def sampleBalances_def)
  obtain es where es: "p_encodeState PaymentsProtocol \<lparr>pay_balanceA = 990, pay_balanceB = 1010, pay_total = 2000, pay_count = 1\<rparr> = Inr es"
    by (auto simp: payments_encodeState_def encodeU64s_Inr_iff u64_def)
  obtain es' where es': "p_encodeState PaymentsProtocol \<lparr>pay_balanceA = 1020, pay_balanceB = 980, pay_total = 2000, pay_count = 1\<rparr> = Inr es'"
    by (auto simp: payments_encodeState_def encodeU64s_Inr_iff u64_def)
  have "\<exists>p. makeProposal sampleHash (sampleSeat PaymentsProtocol paymentsMoveCodec PartyA)
      \<lparr>pm_from = PartyA, pm_amount = 10\<rparr> 7 = Inr p"
    using sampleSeat_proposal [OF _ es, of "\<lparr>pm_from = PartyA, pm_amount = 10\<rparr>" PartyA 7]
    by (auto simp: s payments_applyMove_def balanceSum_def payments_balances_def funded_def u64_def)
  moreover have "\<exists>p. makeProposal sampleHash (sampleSeat PaymentsProtocol paymentsMoveCodec PartyB)
      \<lparr>pm_from = PartyB, pm_amount = 20\<rparr> 8 = Inr p"
    using sampleSeat_proposal [OF _ es', of "\<lparr>pm_from = PartyB, pm_amount = 20\<rparr>" PartyB 8]
    by (auto simp: s payments_applyMove_def balanceSum_def payments_balances_def funded_def u64_def)
  ultimately show ?thesis by blast
qed

text \<open>A game of five moves that A wins on the top row, and two different openings.\<close>

definition sampleTttGame :: "(TicTacToeMove \<times> Party) list" where
  "sampleTttGame = [(sampleTttMove 0, PartyA), (sampleTttMove 3, PartyB), (sampleTttMove 1, PartyA),
     (sampleTttMove 4, PartyB), (sampleTttMove 2, PartyA)]"

lemma sampleTttGame_ok:
  "isOk (applyMoves (TicTacToeProtocol sampleHash 100) (ttt_initialState sampleHash 100 sampleContext) sampleTttGame)"
  by code_simp

lemma sampleTtt_two_openings:
  "isOk (applyMoves (TicTacToeProtocol sampleHash 100) (ttt_initialState sampleHash 100 sampleContext) [(sampleTttMove 4, PartyA)]) \<and>
   isOk (applyMoves (TicTacToeProtocol sampleHash 100) (ttt_initialState sampleHash 100 sampleContext) [(sampleTttMove 5, PartyA)])"
  by code_simp

definition sampleAccInputs :: "bytes list" where
  "sampleAccInputs = startPre # concat (map (\<lambda>c.
     let v = moveValue PartyA 1 c; s = replicate 16 7
     in [pairPre v s, pairPre (sampleHash startPre) (sampleHash (pairPre v s))]) [4, 5])"

lemma sampleTtt_no_collision:
  "inj_on sampleHash (accInputs sampleHash (rev (historyOf 0 [(sampleTttMove 4, PartyA)])) \<union>
     accInputs sampleHash (rev (historyOf 0 [(sampleTttMove 5, PartyA)])))"
proof -
  have "distinct (map sampleHash sampleAccInputs)" by code_simp
  then have "inj_on sampleHash (set sampleAccInputs)" by (simp add: distinct_map)
  moreover have "accInputs sampleHash (rev (historyOf 0 [(sampleTttMove 4, PartyA)])) \<union>
     accInputs sampleHash (rev (historyOf 0 [(sampleTttMove 5, PartyA)])) = set sampleAccInputs"
    by (auto simp: sampleAccInputs_def sampleTttMove_def Let_def)
  ultimately show ?thesis by simp
qed

end
