(* ===== verification/Move_Signature.thy ===== *)
theory Move_Signature
  imports Wire
begin

section \<open>Signature checks of the contract (sui_tunnel/sources/signature.move)\<close>

text \<open>
  The dispatch of signature verification by scheme with its length checks, and the big-endian
  encoding of a \<open>u64\<close>. The verification natives of the Sui framework are the record
  \<open>Natives\<close> of functions; an abort of the Move code is an \<open>Inl\<close> with the name of its error constant.
\<close>

unbundle bit_operations_syntax

subsection \<open>Aborts\<close>

definition assertM :: "bool \<Rightarrow> string \<Rightarrow> 'a result \<Rightarrow> 'a result" where
  "assertM b e k = (if b then k else Inl (Error e))"

lemma assertM_simps [simp]: "assertM True e k = k" "assertM False e k = Inl (Error e)"
  by (simp_all add: assertM_def)

lemma assertM_Inr [result_simps]: "assertM b e k = Inr x \<longleftrightarrow> b \<and> k = Inr x"
  by (simp add: assertM_def)

text \<open>Addition of \<open>u64\<close> values, which aborts on overflow.\<close>

definition addU64 :: "int \<Rightarrow> int \<Rightarrow> int result" where
  "addU64 a b = (if a + b \<le> U64_MAX then Inr (a + b) else Inl (RangeError ''arithmetic error''))"

lemma addU64_Inr [result_simps]: "addU64 a b = Inr c \<longleftrightarrow> a + b \<le> U64_MAX \<and> c = a + b"
  by (auto simp: addU64_def)

subsection \<open>Schemes and lengths\<close>

definition SIG_TYPE_ED25519 :: int where "SIG_TYPE_ED25519 = 0"
definition SIG_TYPE_BLS12381_MIN_SIG :: int where "SIG_TYPE_BLS12381_MIN_SIG = 1"
definition SIG_TYPE_BLS12381_MIN_PK :: int where "SIG_TYPE_BLS12381_MIN_PK = 2"
definition SIG_TYPE_SECP256K1 :: int where "SIG_TYPE_SECP256K1 = 3"
definition HASH_SHA256 :: int where "HASH_SHA256 = 1"

lemmas sig_types = SIG_TYPE_ED25519_def SIG_TYPE_BLS12381_MIN_SIG_def SIG_TYPE_BLS12381_MIN_PK_def
  SIG_TYPE_SECP256K1_def HASH_SHA256_def

definition is_valid_signature_type :: "int \<Rightarrow> bool" where
  "is_valid_signature_type t \<longleftrightarrow>
     t = SIG_TYPE_ED25519 \<or> t = SIG_TYPE_BLS12381_MIN_SIG \<or> t = SIG_TYPE_BLS12381_MIN_PK \<or> t = SIG_TYPE_SECP256K1"

definition is_valid_public_key_length :: "int \<Rightarrow> bytes \<Rightarrow> bool" where
  "is_valid_public_key_length t pk =
     (if t = SIG_TYPE_ED25519 then length pk = 32
      else if t = SIG_TYPE_BLS12381_MIN_SIG then length pk = 96
      else if t = SIG_TYPE_BLS12381_MIN_PK then length pk = 48
      else if t = SIG_TYPE_SECP256K1 then length pk = 33 \<or> length pk = 65
      else False)"

definition is_valid_signature_length :: "int \<Rightarrow> bytes \<Rightarrow> bool" where
  "is_valid_signature_length t sig =
     (if t = SIG_TYPE_ED25519 then length sig = 64
      else if t = SIG_TYPE_BLS12381_MIN_SIG then length sig = 48
      else if t = SIG_TYPE_BLS12381_MIN_PK then length sig = 96
      else if t = SIG_TYPE_SECP256K1 then length sig = 64
      else False)"

subsection \<open>Verification\<close>

text \<open>The natives take signature, public key and message, as in the framework.\<close>

record Natives =
  ed25519_verify :: "bytes \<Rightarrow> bytes \<Rightarrow> bytes \<Rightarrow> bool"
  bls12381_min_sig_verify :: "bytes \<Rightarrow> bytes \<Rightarrow> bytes \<Rightarrow> bool"
  bls12381_min_pk_verify :: "bytes \<Rightarrow> bytes \<Rightarrow> bytes \<Rightarrow> bool"
  secp256k1_verify :: "bytes \<Rightarrow> bytes \<Rightarrow> bytes \<Rightarrow> int \<Rightarrow> bool"
  blake2b256 :: "bytes \<Rightarrow> bytes"

definition sig_verify :: "Natives \<Rightarrow> int \<Rightarrow> bytes \<Rightarrow> bytes \<Rightarrow> bytes \<Rightarrow> bool result" where
  "sig_verify N t pk message sig =
     assertM (is_valid_signature_type t) ''EUnsupportedSignatureType'' (
     assertM (is_valid_public_key_length t pk) ''EInvalidPublicKey'' (
     assertM (is_valid_signature_length t sig) ''EInvalidSignature'' (
     Inr (if t = SIG_TYPE_ED25519 then ed25519_verify N sig pk message
          else if t = SIG_TYPE_BLS12381_MIN_SIG then bls12381_min_sig_verify N sig pk message
          else if t = SIG_TYPE_BLS12381_MIN_PK then bls12381_min_pk_verify N sig pk message
          else if t = SIG_TYPE_SECP256K1 then secp256k1_verify N sig pk message HASH_SHA256
          else False))))"

lemma sig_verify_ed25519:
  "sig_verify N SIG_TYPE_ED25519 pk m s = Inr b \<longleftrightarrow>
     length pk = 32 \<and> length s = 64 \<and> b = ed25519_verify N s pk m"
  by (auto simp: sig_verify_def result_simps is_valid_signature_type_def is_valid_public_key_length_def
      is_valid_signature_length_def)

subsection \<open>Big-endian integers\<close>

definition u64_to_be_bytes :: "64 word \<Rightarrow> bytes" where
  "u64_to_be_bytes v = map (\<lambda>k. ucast (drop_bit k v AND 0xFF)) [56, 48, 40, 32, 24, 16, 8, 0]"

lemma byte_of_u64: "(ucast (drop_bit k (word_of_int v :: 64 word) AND 0xFF) :: byte) = word_of_int (v div 2 ^ k)"
  if "k \<le> 56" "0 \<le> v" "v < 2 ^ 64"
proof -
  have m: "(0xFF :: 64 word) = mask 8" by (simp add: mask_eq_exp_minus_1)
  let ?w = "word_of_int v :: 64 word"
  have w: "uint ?w = v" using that by (simp add: uint_word_of_int)
  have "uint (take_bit 8 (drop_bit k ?w)) = take_bit 8 (drop_bit k (uint ?w))"
    by (simp only: unsigned_take_bit_eq unsigned_drop_bit_eq) (use that in \<open>simp add: drop_bit_take_bit w take_bit_eq_mod\<close>)
  then have "uint (ucast (drop_bit k ?w AND 0xFF) :: byte) = (v div 2 ^ k) mod 256"
    by (simp add: m w take_bit_eq_mask [symmetric] unsigned_ucast_eq drop_bit_eq_div take_bit_eq_mod)
  then show ?thesis
    by (simp add: word_uint_eq_iff uint_of_int_byte)
qed

text \<open>The contract and the SDK write a \<open>u64\<close> with the same bytes.\<close>

lemma u64_to_be_bytes_eq:
  assumes "u64 v"
  shows "u64_to_be_bytes (word_of_int v) = beBytes 8 v"
proof -
  have v: "0 \<le> v" "v < 2 ^ 64" using assms by (simp_all add: u64_def)
  have eight: "(8 :: nat) = Suc (Suc (Suc (Suc (Suc (Suc (Suc (Suc 0)))))))" by simp
  have "beBytes 8 v = map (\<lambda>k. word_of_int (v div 2 ^ k)) [56, 48, 40, 32, 24, 16, 8, 0]"
    by (subst eight) (simp add: zdiv_zmult2_eq [symmetric])
  then show ?thesis
    using byte_of_u64 [OF _ v] byte_of_u64 [OF _ v, of 0] by (simp add: u64_to_be_bytes_def)
qed

end
