(* ===== verification/On_Chain.thy ===== *)
theory On_Chain
  imports Move_Signature "HOL-Library.AList"
begin

section \<open>The tunnel contract (sui_tunnel/sources/tunnel.move)\<close>

text \<open>
  The on-chain side of a tunnel: creation, deposits, state updates, cooperative close, disputes,
  hash-locked payments, referees, withdrawals and destruction. A \<open>u64\<close> is an \<open>int\<close>, and every
  addition that can leave the range is checked, since Move aborts there. An operation takes the
  sender and the clock of the transaction as arguments and returns the tunnel with the transfers it
  makes; an abort undoes the transaction, so it returns no tunnel. Dynamic fields are components of
  the record: the hash-locked payments and the per-party counters are association lists, the referee
  is optional. Events and the object's wrapping and sharing are not modelled.
\<close>

subsection \<open>Constants and data\<close>

type_synonym address = bytes

definition CURRENT_VERSION :: int where "CURRENT_VERSION = 1"
definition status_created :: int where "status_created = 0"
definition status_active :: int where "status_active = 1"
definition status_closed :: int where "status_closed = 2"
definition status_disputed :: int where "status_disputed = 3"
definition status_destroyed :: int where "status_destroyed = 4"
definition MIN_DEPOSIT :: int where "MIN_DEPOSIT = 1"
definition MAX_TIMEOUT_EXTENSION_MS :: int where "MAX_TIMEOUT_EXTENSION_MS = 604800000"
definition MAX_TOTAL_TIMEOUT_MS :: int where "MAX_TOTAL_TIMEOUT_MS = 2592000000"

lemmas statuses = status_created_def status_active_def status_closed_def status_disputed_def status_destroyed_def

lemma statuses_distinct [simp]:
  "status_created \<noteq> status_active" "status_created \<noteq> status_closed" "status_created \<noteq>
  status_disputed" "status_created \<noteq> status_destroyed" "status_active \<noteq> status_created"
  "status_active \<noteq> status_closed" "status_active \<noteq> status_disputed" "status_active \<noteq>
  status_destroyed" "status_closed \<noteq> status_created" "status_closed \<noteq> status_active"
  "status_closed \<noteq> status_disputed" "status_closed \<noteq> status_destroyed" "status_disputed \<noteq>
  status_created" "status_disputed \<noteq> status_active" "status_disputed \<noteq> status_closed"
  "status_disputed \<noteq> status_destroyed" "status_destroyed \<noteq> status_created" "status_destroyed
  \<noteq> status_active" "status_destroyed \<noteq> status_closed" "status_destroyed \<noteq>
  status_disputed"
  by (simp_all add: statuses)

record PartyConfig =
  pc_address :: address
  pc_public_key :: bytes
  pc_signature_type :: int

record StateCommitment =
  sc_state_hash :: bytes
  sc_nonce :: int
  sc_timestamp :: int
  sc_party_a_balance :: int
  sc_party_b_balance :: int

record TunnelHTLC =
  ht_payment_hash :: bytes
  ht_amount :: int
  ht_sender :: address
  ht_receiver :: address
  ht_expiry_ms :: int
  ht_balance :: int

record HTLCPartyCounter =
  hc_count :: int
  hc_total_locked :: int

record Tunnel =
  tn_id :: bytes
  tn_version :: int
  tn_party_a :: PartyConfig
  tn_party_b :: PartyConfig
  tn_balance :: int
  tn_party_a_deposit :: int
  tn_party_b_deposit :: int
  tn_status :: int
  tn_state :: StateCommitment
  tn_created_at :: int
  tn_last_activity :: int
  tn_timeout_ms :: int
  tn_penalty_amount :: int
  tn_dispute_raiser :: "address option"
  tn_last_disputed_nonce :: int
  tn_htlcs :: "(bytes \<times> TunnelHTLC) list"
  tn_counters :: "(address \<times> HTLCPartyCounter) list"
  tn_referee :: "address option"

text \<open>A transfer of coins to an address.\<close>

type_synonym transfer = "address \<times> int"

record StateUpdateData =
  ud_tunnel_id :: bytes
  ud_state_hash :: bytes
  ud_nonce :: int
  ud_timestamp :: int
  ud_party_a_balance :: int
  ud_party_b_balance :: int

record SettlementData =
  sd_tunnel_id :: bytes
  sd_party_a_balance :: int
  sd_party_b_balance :: int
  sd_final_nonce :: int
  sd_timestamp :: int

record SettlementWithRootData = SettlementData +
  sd_transcript_root :: bytes

record HTLCLockData =
  ld_tunnel_id :: bytes
  ld_payment_hash :: bytes
  ld_amount :: int
  ld_sender :: address
  ld_receiver :: address
  ld_expiry_ms :: int

subsection \<open>Signed messages\<close>

abbreviation be64 :: "int \<Rightarrow> bytes" where "be64 v \<equiv> u64_to_be_bytes (word_of_int v)"

definition serialize_state_update :: "StateUpdateData \<Rightarrow> bytes" where
  "serialize_state_update d =
     asciiBytes ''sui_tunnel::state_update'' @ ud_tunnel_id d @ ud_state_hash d @ be64 (ud_nonce d) @
     be64 (ud_timestamp d) @ be64 (ud_party_a_balance d) @ be64 (ud_party_b_balance d)"

definition serialize_settlement :: "SettlementData \<Rightarrow> bytes" where
  "serialize_settlement d =
     asciiBytes ''sui_tunnel::settlement'' @ sd_tunnel_id d @ be64 (sd_party_a_balance d) @
     be64 (sd_party_b_balance d) @ be64 (sd_final_nonce d) @ be64 (sd_timestamp d)"

definition serialize_settlement_with_root :: "SettlementWithRootData \<Rightarrow> bytes" where
  "serialize_settlement_with_root d =
     asciiBytes ''sui_tunnel::settlement_v2'' @ sd_tunnel_id d @ be64 (sd_party_a_balance d) @
     be64 (sd_party_b_balance d) @ be64 (sd_final_nonce d) @ be64 (sd_timestamp d) @ sd_transcript_root d"

definition serialize_htlc_lock :: "HTLCLockData \<Rightarrow> bytes" where
  "serialize_htlc_lock d =
     asciiBytes ''sui_tunnel::htlc_lock'' @ ld_tunnel_id d @ ld_payment_hash d @ be64 (ld_amount d) @
     ld_sender d @ ld_receiver d @ be64 (ld_expiry_ms d)"

definition serialize_referee_assignment :: "bytes \<Rightarrow> address \<Rightarrow> bytes" where
  "serialize_referee_assignment tunnel_id referee =
     asciiBytes ''sui_tunnel::referee_assignment'' @ tunnel_id @ referee"

text \<open>\<open>assert!(signature::verify(...), e)\<close> with a party's key.\<close>

definition assertSigned :: "Natives \<Rightarrow> PartyConfig \<Rightarrow> bytes \<Rightarrow> bytes \<Rightarrow> string \<Rightarrow> 'a result \<Rightarrow> 'a result" where
  "assertSigned N p message sig e k =
     bindE (sig_verify N (pc_signature_type p) (pc_public_key p) message sig) (\<lambda>ok. assertM ok e k)"

definition is_party :: "Tunnel \<Rightarrow> address \<Rightarrow> bool" where
  "is_party t sender \<longleftrightarrow> sender = pc_address (tn_party_a t) \<or> sender = pc_address (tn_party_b t)"

subsection \<open>Creation\<close>

definition validate_create_params :: "PartyConfig \<Rightarrow> PartyConfig \<Rightarrow> unit result" where
  "validate_create_params a b =
     assertM (pc_address a \<noteq> pc_address b) ''EInvalidParties'' (
     assertM (is_valid_signature_type (pc_signature_type a)) ''EUnsupportedSignatureType'' (
     assertM (is_valid_signature_type (pc_signature_type b)) ''EUnsupportedSignatureType'' (
     assertM (is_valid_public_key_length (pc_signature_type a) (pc_public_key a)) ''EInvalidPublicKey'' (
     assertM (is_valid_public_key_length (pc_signature_type b) (pc_public_key b)) ''EInvalidPublicKey'' (
     Inr ())))))"

definition build_tunnel :: "bytes \<Rightarrow> PartyConfig \<Rightarrow> PartyConfig \<Rightarrow> int \<Rightarrow> int \<Rightarrow> int \<Rightarrow> Tunnel result" where
  "build_tunnel uid a b timeout_ms penalty_amount now =
     bindE (validate_create_params a b) (\<lambda>_.
     assertM (timeout_ms > 0) ''EInvalidTimeout'' (
     assertM (timeout_ms \<le> MAX_TOTAL_TIMEOUT_MS) ''ETimeoutTooLong'' (
     Inr \<lparr>tn_id = uid, tn_version = CURRENT_VERSION, tn_party_a = a, tn_party_b = b, tn_balance = 0,
          tn_party_a_deposit = 0, tn_party_b_deposit = 0, tn_status = status_created,
          tn_state = \<lparr>sc_state_hash = [], sc_nonce = 0, sc_timestamp = now, sc_party_a_balance = 0,
                      sc_party_b_balance = 0\<rparr>,
          tn_created_at = now, tn_last_activity = now, tn_timeout_ms = timeout_ms,
          tn_penalty_amount = penalty_amount, tn_dispute_raiser = None, tn_last_disputed_nonce = 0,
          tn_htlcs = [], tn_counters = [], tn_referee = None\<rparr>)))"

subsection \<open>Deposits\<close>

definition maybe_activate :: "Tunnel \<Rightarrow> Tunnel" where
  "maybe_activate t =
     (if tn_status t = status_created \<and> tn_party_a_deposit t > 0 \<and> tn_party_b_deposit t > 0
      then t\<lparr>tn_status := status_active,
             tn_state := (tn_state t)\<lparr>sc_party_a_balance := tn_party_a_deposit t,
                                     sc_party_b_balance := tn_party_b_deposit t\<rparr>\<rparr>
      else t)"

definition deposit_internal :: "Tunnel \<Rightarrow> int \<Rightarrow> bool \<Rightarrow> int \<Rightarrow> Tunnel result" where
  "deposit_internal t amount is_party_a now =
     assertM (tn_version t = CURRENT_VERSION) ''EInvalidVersion'' (
     assertM (tn_status t = status_created) ''ETunnelClosed'' (
     assertM (amount \<ge> MIN_DEPOSIT) ''EMinimumDepositNotMet'' (
     bindE (addU64 (if is_party_a then tn_party_a_deposit t else tn_party_b_deposit t) amount) (\<lambda>d.
     bindE (addU64 (tn_balance t) amount) (\<lambda>bal.
     let t1 = (if is_party_a then t\<lparr>tn_party_a_deposit := d\<rparr> else t\<lparr>tn_party_b_deposit := d\<rparr>)
     in Inr (maybe_activate (t1\<lparr>tn_balance := bal, tn_last_activity := now\<rparr>)))))))"

definition deposit :: "Tunnel \<Rightarrow> int \<Rightarrow> address \<Rightarrow> int \<Rightarrow> Tunnel result" where
  "deposit t amount sender now =
     (if sender = pc_address (tn_party_a t) then deposit_internal t amount True now
      else if sender = pc_address (tn_party_b t) then deposit_internal t amount False now
      else Inl (Error ''ENotAuthorized''))"

definition deposit_party_a :: "Tunnel \<Rightarrow> int \<Rightarrow> address \<Rightarrow> int \<Rightarrow> Tunnel result" where
  "deposit_party_a t amount sender now =
     assertM (sender = pc_address (tn_party_a t)) ''ENotAuthorized'' (deposit_internal t amount True now)"

definition deposit_party_b :: "Tunnel \<Rightarrow> int \<Rightarrow> address \<Rightarrow> int \<Rightarrow> Tunnel result" where
  "deposit_party_b t amount sender now =
     assertM (sender = pc_address (tn_party_b t)) ''ENotAuthorized'' (deposit_internal t amount False now)"

definition create_and_fund_with_id ::
  "bytes \<Rightarrow> PartyConfig \<Rightarrow> PartyConfig \<Rightarrow> int \<Rightarrow> int \<Rightarrow> int \<Rightarrow> int \<Rightarrow> int \<Rightarrow> Tunnel result" where
  "create_and_fund_with_id uid a b coin_a coin_b timeout_ms penalty_amount now =
     bindE (build_tunnel uid a b timeout_ms penalty_amount now) (\<lambda>t.
     bindE (deposit_internal t coin_a True now) (\<lambda>t1. deposit_internal t1 coin_b False now))"

subsection \<open>State updates\<close>

definition assert_balance_split :: "int \<Rightarrow> int \<Rightarrow> int \<Rightarrow> 'a result \<Rightarrow> 'a result" where
  "assert_balance_split a b total1 k =
     assertM (a \<le> total1) ''EBalanceSumMismatch'' (assertM (b = total1 - a) ''EBalanceSumMismatch'' k)"

text \<open>The update a caller submits: hash, nonce, balances and the signed timestamp.\<close>

record Submitted =
  sm_state_hash :: bytes
  sm_nonce :: int
  sm_party_a_balance :: int
  sm_party_b_balance :: int
  sm_timestamp :: int

definition updateData :: "Tunnel \<Rightarrow> Submitted \<Rightarrow> StateUpdateData" where
  "updateData t m = \<lparr>ud_tunnel_id = tn_id t, ud_state_hash = sm_state_hash m, ud_nonce = sm_nonce m,
     ud_timestamp = sm_timestamp m, ud_party_a_balance = sm_party_a_balance m,
     ud_party_b_balance = sm_party_b_balance m\<rparr>"

definition commitment :: "Submitted \<Rightarrow> int \<Rightarrow> StateCommitment" where
  "commitment m now = \<lparr>sc_state_hash = sm_state_hash m, sc_nonce = sm_nonce m, sc_timestamp = now,
     sc_party_a_balance = sm_party_a_balance m, sc_party_b_balance = sm_party_b_balance m\<rparr>"

definition update_state :: "Natives \<Rightarrow> Tunnel \<Rightarrow> Submitted \<Rightarrow> bytes \<Rightarrow> bytes \<Rightarrow> int \<Rightarrow> Tunnel result" where
  "update_state N t m sig_a sig_b now =
     assertM (tn_version t = CURRENT_VERSION) ''EInvalidVersion'' (
     assertM (tn_status t = status_active) ''EInvalidState'' (
     assertM (length (sm_state_hash m) = 32) ''EInvalidHash'' (
     assertM (sm_nonce m > sc_nonce (tn_state t)) ''EInvalidNonce'' (
     assertM (sm_nonce m < U64_MAX) ''EInvalidNonce'' (
     assert_balance_split (sm_party_a_balance m) (sm_party_b_balance m) (tn_balance t) (
     assertM (sm_timestamp m \<le> now) ''EInvalidParameter'' (
     assertM (sm_timestamp m \<ge> tn_created_at t) ''EInvalidParameter'' (
     let message = serialize_state_update (updateData t m)
     in assertSigned N (tn_party_a t) message sig_a ''EInvalidSignature'' (
        assertSigned N (tn_party_b t) message sig_b ''EInvalidSignature'' (
        Inr (t\<lparr>tn_state := commitment m now, tn_last_activity := now\<rparr>)))))))))))"

subsection \<open>Cooperative close\<close>

text \<open>Closing: the balance is split into two coins, which go to the parties.\<close>

definition pay_out :: "Tunnel \<Rightarrow> int \<Rightarrow> int \<Rightarrow> int \<Rightarrow> Tunnel \<times> transfer list" where
  "pay_out t a b now =
     (t\<lparr>tn_status := status_closed, tn_last_activity := now, tn_balance := tn_balance t - a - b\<rparr>,
      [(pc_address (tn_party_a t), a), (pc_address (tn_party_b t), b)])"

definition close_cooperative ::
  "Natives \<Rightarrow> Tunnel \<Rightarrow> int \<Rightarrow> int \<Rightarrow> bytes \<Rightarrow> bytes \<Rightarrow> int \<Rightarrow> int \<Rightarrow> (Tunnel \<times> transfer list) result" where
  "close_cooperative N t a b sig_a sig_b timestamp now =
     assertM (tn_version t = CURRENT_VERSION) ''EInvalidVersion'' (
     assertM (tn_status t = status_active \<or> tn_status t = status_created) ''ETunnelClosed'' (
     assert_balance_split a b (tn_balance t) (
     assertM (sig_a \<noteq> [] \<and> sig_b \<noteq> []) ''EInvalidSignature'' (
     bindE (addU64 (sc_nonce (tn_state t)) 1) (\<lambda>final_nonce.
     assertM (timestamp \<le> now) ''EInvalidParameter'' (
     assertM (timestamp \<ge> tn_created_at t) ''EInvalidParameter'' (
     let message = serialize_settlement \<lparr>sd_tunnel_id = tn_id t, sd_party_a_balance = a,
           sd_party_b_balance = b, sd_final_nonce = final_nonce, sd_timestamp = timestamp\<rparr>
     in assertSigned N (tn_party_a t) message sig_a ''EInvalidSignature'' (
        assertSigned N (tn_party_b t) message sig_b ''EInvalidSignature'' (
        Inr (pay_out t a b now))))))))))"

definition close_cooperative_with_root ::
  "Natives \<Rightarrow> Tunnel \<Rightarrow> int \<Rightarrow> int \<Rightarrow> bytes \<Rightarrow> bytes \<Rightarrow> int \<Rightarrow> bytes \<Rightarrow> int \<Rightarrow>
   (Tunnel \<times> transfer list) result" where
  "close_cooperative_with_root N t a b sig_a sig_b timestamp transcript_root now =
     assertM (tn_version t = CURRENT_VERSION) ''EInvalidVersion'' (
     assertM (tn_status t = status_active \<or> tn_status t = status_created) ''ETunnelClosed'' (
     assertM (length transcript_root = 32) ''EInvalidTranscriptRoot'' (
     assert_balance_split a b (tn_balance t) (
     assertM (sig_a \<noteq> [] \<and> sig_b \<noteq> []) ''EInvalidSignature'' (
     bindE (addU64 (sc_nonce (tn_state t)) 1) (\<lambda>final_nonce.
     assertM (timestamp \<le> now) ''EInvalidParameter'' (
     assertM (timestamp \<ge> tn_created_at t) ''EInvalidParameter'' (
     let message = serialize_settlement_with_root \<lparr>sd_tunnel_id = tn_id t, sd_party_a_balance = a,
           sd_party_b_balance = b, sd_final_nonce = final_nonce, sd_timestamp = timestamp,
           sd_transcript_root = transcript_root\<rparr>
     in assertSigned N (tn_party_a t) message sig_a ''EInvalidSignature'' (
        assertSigned N (tn_party_b t) message sig_b ''EInvalidSignature'' (
        Inr (pay_out t a b now)))))))))))"

subsection \<open>Disputes\<close>

definition raise_dispute :: "Natives \<Rightarrow> Tunnel \<Rightarrow> Submitted \<Rightarrow> bytes \<Rightarrow> address \<Rightarrow> int \<Rightarrow> Tunnel result" where
  "raise_dispute N t m other_party_sig sender now =
     assertM (tn_version t = CURRENT_VERSION) ''EInvalidVersion'' (
     assertM (tn_status t = status_active) ''EInvalidState'' (
     assertM (length (sm_state_hash m) = 32) ''EInvalidHash'' (
     assert_balance_split (sm_party_a_balance m) (sm_party_b_balance m) (tn_balance t) (
     assertM (is_party t sender) ''ENotAuthorized'' (
     let other_party = (if sender = pc_address (tn_party_a t) then tn_party_b t else tn_party_a t)
     in assertM (sm_nonce m > sc_nonce (tn_state t)) ''EStaleState'' (
        assertM (sm_nonce m < U64_MAX) ''EInvalidNonce'' (
        assertM (sm_nonce m \<ge> tn_last_disputed_nonce t) ''EStaleState'' (
        assertM (sm_timestamp m \<le> now) ''EInvalidParameter'' (
        assertM (sm_timestamp m \<ge> tn_created_at t) ''EInvalidParameter'' (
        assertSigned N other_party (serialize_state_update (updateData t m)) other_party_sig ''EInvalidSignature'' (
        Inr (t\<lparr>tn_status := status_disputed, tn_dispute_raiser := Some sender,
               tn_last_disputed_nonce := sm_nonce m + 1, tn_state := commitment m now,
               tn_last_activity := now\<rparr>))))))))))))"

definition resolve_dispute :: "Natives \<Rightarrow> Tunnel \<Rightarrow> Submitted \<Rightarrow> bytes \<Rightarrow> bytes \<Rightarrow> int \<Rightarrow> Tunnel result" where
  "resolve_dispute N t m sig_a sig_b now =
     assertM (tn_version t = CURRENT_VERSION) ''EInvalidVersion'' (
     assertM (tn_status t = status_disputed) ''ENoActiveDispute'' (
     assertM (length (sm_state_hash m) = 32) ''EInvalidHash'' (
     assertM (sm_nonce m > sc_nonce (tn_state t)) ''EStaleState'' (
     assertM (sm_nonce m < U64_MAX) ''EInvalidNonce'' (
     assert_balance_split (sm_party_a_balance m) (sm_party_b_balance m) (tn_balance t) (
     assertM (sm_timestamp m \<le> now) ''EInvalidParameter'' (
     assertM (sm_timestamp m \<ge> tn_created_at t) ''EInvalidParameter'' (
     let message = serialize_state_update (updateData t m)
     in assertSigned N (tn_party_a t) message sig_a ''EInvalidSignature'' (
        assertSigned N (tn_party_b t) message sig_b ''EInvalidSignature'' (
        Inr (t\<lparr>tn_status := status_active, tn_dispute_raiser := None, tn_state := commitment m now,
               tn_last_activity := now\<rparr>)))))))))))"

definition raise_dispute_current_state :: "Tunnel \<Rightarrow> address \<Rightarrow> int \<Rightarrow> Tunnel result" where
  "raise_dispute_current_state t sender now =
     assertM (tn_version t = CURRENT_VERSION) ''EInvalidVersion'' (
     assertM (tn_status t = status_active) ''EInvalidState'' (
     assertM (tn_timeout_ms t > 0) ''ENotSupported'' (
     assertM (is_party t sender) ''ENotAuthorized'' (
     assertM (sc_nonce (tn_state t) \<ge> tn_last_disputed_nonce t) ''EStaleState'' (
     bindE (addU64 (sc_nonce (tn_state t)) 1) (\<lambda>n1.
     Inr (t\<lparr>tn_last_disputed_nonce := n1, tn_status := status_disputed, tn_dispute_raiser := Some sender,
            tn_state := (tn_state t)\<lparr>sc_timestamp := now\<rparr>, tn_last_activity := now\<rparr>)))))))"

text \<open>The balances after the penalty, which the raiser takes from the other party's balance.\<close>

definition penalised :: "Tunnel \<Rightarrow> address \<Rightarrow> int \<times> int" where
  "penalised t raiser =
     (let a = sc_party_a_balance (tn_state t); b = sc_party_b_balance (tn_state t)
      in if tn_penalty_amount t > 0 then
           (if raiser = pc_address (tn_party_a t)
            then (let p = min (tn_penalty_amount t) b in (a + p, b - p))
            else (let p = min (tn_penalty_amount t) a in (a - p, b + p)))
         else (a, b))"

definition force_close_after_timeout :: "Tunnel \<Rightarrow> address \<Rightarrow> int \<Rightarrow> (Tunnel \<times> transfer list) result" where
  "force_close_after_timeout t sender now =
     assertM (tn_version t = CURRENT_VERSION) ''EInvalidVersion'' (
     assertM (tn_status t = status_disputed) ''ENoActiveDispute'' (
     assertM (tn_timeout_ms t > 0) ''ENotSupported'' (
     assertM (tn_dispute_raiser t = Some sender) ''ENotAuthorized'' (
     bindE (addU64 (sc_timestamp (tn_state t)) (tn_timeout_ms t)) (\<lambda>deadline.
     assertM (now \<ge> deadline) ''ETimeoutNotReached'' (
     let (a, b) = penalised t sender
     in assertM (a \<le> U64_MAX \<and> b \<le> U64_MAX) ''arithmetic error'' (
        assert_balance_split a b (tn_balance t) (
        Inr (pay_out t a b now)))))))))"

definition agree_to_dispute :: "Tunnel \<Rightarrow> address \<Rightarrow> int \<Rightarrow> (Tunnel \<times> transfer list) result" where
  "agree_to_dispute t sender now =
     assertM (tn_version t = CURRENT_VERSION) ''EInvalidVersion'' (
     assertM (tn_status t = status_disputed) ''ENoActiveDispute'' (
     assertM (tn_dispute_raiser t \<noteq> None) ''ENotAuthorized'' (
     assertM (tn_dispute_raiser t \<noteq> Some sender) ''ENotAuthorized'' (
     assertM (is_party t sender) ''ENotAuthorized'' (
     let a = sc_party_a_balance (tn_state t); b = sc_party_b_balance (tn_state t)
     in assert_balance_split a b (tn_balance t) (Inr (pay_out t a b now)))))))"

subsection \<open>Timeout extension\<close>

definition can_extend_timeout :: "Tunnel \<Rightarrow> bool" where
  "can_extend_timeout t \<longleftrightarrow> tn_status t = status_active"

definition can_extend_timeout_by :: "Tunnel \<Rightarrow> int \<Rightarrow> bool" where
  "can_extend_timeout_by t additional_ms \<longleftrightarrow>
     can_extend_timeout t \<and> additional_ms > 0 \<and> additional_ms \<le> MAX_TIMEOUT_EXTENSION_MS \<and>
     tn_timeout_ms t \<le> MAX_TOTAL_TIMEOUT_MS - additional_ms"

definition extend_timeout :: "Tunnel \<Rightarrow> int \<Rightarrow> address \<Rightarrow> int \<Rightarrow> Tunnel result" where
  "extend_timeout t additional_ms sender now =
     assertM (tn_version t = CURRENT_VERSION) ''EInvalidVersion'' (
     assertM (tn_status t \<noteq> status_disputed) ''ECannotExtendDuringDispute'' (
     assertM (can_extend_timeout t) ''EInvalidState'' (
     assertM (additional_ms > 0) ''EInvalidParameter'' (
     assertM (additional_ms \<le> MAX_TIMEOUT_EXTENSION_MS) ''ETimeoutExtensionTooLarge'' (
     assertM (tn_timeout_ms t \<le> MAX_TOTAL_TIMEOUT_MS - additional_ms) ''ETimeoutTooLong'' (
     assertM (is_party t sender) ''ENotAuthorized'' (
     Inr (t\<lparr>tn_timeout_ms := tn_timeout_ms t + additional_ms, tn_last_activity := now\<rparr>))))))))"

subsection \<open>Hash-locked payments\<close>

definition party_htlc_locked_internal :: "Tunnel \<Rightarrow> address \<Rightarrow> int" where
  "party_htlc_locked_internal t party =
     (case map_of (tn_counters t) party of None \<Rightarrow> 0 | Some c \<Rightarrow> hc_total_locked c)"

definition update_party_htlc_counter :: "Tunnel \<Rightarrow> address \<Rightarrow> bool \<Rightarrow> int \<Rightarrow> Tunnel result" where
  "update_party_htlc_counter t party adding amount =
     (let c = (case map_of (tn_counters t) party of
                 None \<Rightarrow> \<lparr>hc_count = 0, hc_total_locked = 0\<rparr> | Some c \<Rightarrow> c)
      in bindE (if adding
                then bindE (addU64 (hc_count c) 1) (\<lambda>n. bindE (addU64 (hc_total_locked c) amount) (\<lambda>l.
                     Inr \<lparr>hc_count = n, hc_total_locked = l\<rparr>))
                else assertM (1 \<le> hc_count c \<and> amount \<le> hc_total_locked c) ''arithmetic error''
                     (Inr \<lparr>hc_count = hc_count c - 1, hc_total_locked = hc_total_locked c - amount\<rparr>)) (\<lambda>c'.
         Inr (t\<lparr>tn_counters := AList.update party c' (tn_counters t)\<rparr>)))"

definition lock_htlc_internal ::
  "Tunnel \<Rightarrow> bytes \<Rightarrow> int \<Rightarrow> address \<Rightarrow> address \<Rightarrow> int \<Rightarrow> bool \<Rightarrow> int \<Rightarrow> Tunnel result" where
  "lock_htlc_internal t payment_hash amount sender receiver expiry_ms is_party_a now =
     (let st = tn_state t; sender_balance = (if is_party_a then sc_party_a_balance st else sc_party_b_balance st)
      in assertM (amount \<le> sender_balance) ''EInsufficientBalance'' (
         assertM (map_of (tn_htlcs t) payment_hash = None) ''EAlreadyExists'' (
         assertM (amount \<le> tn_balance t) ''ENotEnough'' (
         bindE (update_party_htlc_counter
             (t\<lparr>tn_balance := tn_balance t - amount,
                tn_htlcs := AList.update payment_hash
                  \<lparr>ht_payment_hash = payment_hash, ht_amount = amount, ht_sender = sender, ht_receiver = receiver,
                   ht_expiry_ms = expiry_ms, ht_balance = amount\<rparr> (tn_htlcs t)\<rparr>) sender True amount) (\<lambda>t1.
         Inr (t1\<lparr>tn_state := (if is_party_a then st\<lparr>sc_party_a_balance := sc_party_a_balance st - amount\<rparr>
                              else st\<lparr>sc_party_b_balance := sc_party_b_balance st - amount\<rparr>),
                 tn_last_activity := now\<rparr>))))))"

definition lock_htlc ::
  "Natives \<Rightarrow> Tunnel \<Rightarrow> bytes \<Rightarrow> int \<Rightarrow> address \<Rightarrow> int \<Rightarrow> bytes \<Rightarrow> address \<Rightarrow> int \<Rightarrow> Tunnel result" where
  "lock_htlc N t payment_hash amount receiver expiry_ms counterparty_sig sender now =
     assertM (tn_version t = CURRENT_VERSION) ''EInvalidVersion'' (
     assertM (tn_status t = status_active) ''EInvalidState'' (
     assertM (amount > 0) ''EInvalidParameter'' (
     assertM (length payment_hash = 32) ''EInvalidHash'' (
     assertM (expiry_ms > now) ''EInvalidTimeout'' (
     assertM (is_party t sender) ''ENotAuthorized'' (
     let is_party_a = (sender = pc_address (tn_party_a t));
         counterparty = (if is_party_a then tn_party_b t else tn_party_a t);
         message = serialize_htlc_lock \<lparr>ld_tunnel_id = tn_id t, ld_payment_hash = payment_hash, ld_amount = amount,
           ld_sender = sender, ld_receiver = receiver, ld_expiry_ms = expiry_ms\<rparr>
     in assertSigned N counterparty message counterparty_sig ''EInvalidSignature'' (
        lock_htlc_internal t payment_hash amount sender receiver expiry_ms is_party_a now)))))))"

definition claim_htlc_in_tunnel ::
  "Natives \<Rightarrow> Tunnel \<Rightarrow> bytes \<Rightarrow> bytes \<Rightarrow> address \<Rightarrow> int \<Rightarrow> (Tunnel \<times> transfer list) result" where
  "claim_htlc_in_tunnel N t payment_hash preimage sender now =
     assertM (tn_version t = CURRENT_VERSION) ''EInvalidVersion'' (
     assertM (tn_status t \<noteq> status_destroyed) ''EInvalidState'' (
     case map_of (tn_htlcs t) payment_hash of
       None \<Rightarrow> Inl (Error ''ENotFound'')
     | Some htlc \<Rightarrow>
       (let t1 = t\<lparr>tn_htlcs := AList.delete payment_hash (tn_htlcs t)\<rparr>
        in assertM (sender = ht_receiver htlc) ''ENotAuthorized'' (
           assertM (blake2b256 N preimage = ht_payment_hash htlc) ''EInvalidPreimage'' (
           assertM (now < ht_expiry_ms htlc) ''EHtlcExpired'' (
           bindE (update_party_htlc_counter t1 (ht_sender htlc) False (ht_amount htlc)) (\<lambda>t2.
           Inr (t2\<lparr>tn_last_activity := now\<rparr>, [(ht_receiver htlc, ht_balance htlc)]))))))))"

definition expire_htlc_in_tunnel ::
  "Tunnel \<Rightarrow> bytes \<Rightarrow> address \<Rightarrow> int \<Rightarrow> (Tunnel \<times> transfer list) result" where
  "expire_htlc_in_tunnel t payment_hash sender now =
     assertM (tn_version t = CURRENT_VERSION) ''EInvalidVersion'' (
     assertM (tn_status t \<noteq> status_destroyed) ''EInvalidState'' (
     case map_of (tn_htlcs t) payment_hash of
       None \<Rightarrow> Inl (Error ''ENotFound'')
     | Some htlc \<Rightarrow>
       (let t1 = t\<lparr>tn_htlcs := AList.delete payment_hash (tn_htlcs t)\<rparr>
        in assertM (now \<ge> ht_expiry_ms htlc) ''EHtlcNotExpired'' (
           assertM (sender = ht_sender htlc) ''ENotAuthorized'' (
           bindE (update_party_htlc_counter t1 (ht_sender htlc) False (ht_amount htlc)) (\<lambda>t2.
           Inr (t2\<lparr>tn_last_activity := now\<rparr>, [(ht_sender htlc, ht_balance htlc)])))))))"

subsection \<open>Referees\<close>

definition write_referee :: "Tunnel \<Rightarrow> address \<Rightarrow> Tunnel" where
  "write_referee t referee = t\<lparr>tn_referee := Some referee\<rparr>"

definition set_referee_cosigned :: "Natives \<Rightarrow> Tunnel \<Rightarrow> address \<Rightarrow> bytes \<Rightarrow> bytes \<Rightarrow> Tunnel result" where
  "set_referee_cosigned N t referee sig_a sig_b =
     assertM (tn_version t = CURRENT_VERSION) ''EInvalidVersion'' (
     assertM (tn_status t = status_created) ''EInvalidState'' (
     assertM (tn_party_a_deposit t = 0 \<and> tn_party_b_deposit t = 0) ''EInvalidState'' (
     assertM (sig_a \<noteq> [] \<and> sig_b \<noteq> []) ''EInvalidSignature'' (
     let message = serialize_referee_assignment (tn_id t) referee
     in assertSigned N (tn_party_a t) message sig_a ''EInvalidPartyASignature'' (
        assertSigned N (tn_party_b t) message sig_b ''EInvalidPartyBSignature'' (
        Inr (write_referee t referee)))))))"

definition set_referee :: "Tunnel \<Rightarrow> address \<Rightarrow> address \<Rightarrow> Tunnel result" where
  "set_referee t referee sender =
     assertM (tn_version t = CURRENT_VERSION) ''EInvalidVersion'' (
     assertM (tn_status t = status_created) ''EInvalidState'' (
     assertM (tn_party_a_deposit t = 0 \<and> tn_party_b_deposit t = 0) ''EInvalidState'' (
     assertM (is_party t sender) ''ENotAuthorized'' (Inr (write_referee t referee)))))"

definition resolve_dispute_external :: "Tunnel \<Rightarrow> int \<Rightarrow> int \<Rightarrow> address \<Rightarrow> int \<Rightarrow> (Tunnel \<times> transfer list) result" where
  "resolve_dispute_external t a b sender now =
     assertM (tn_version t = CURRENT_VERSION) ''EInvalidVersion'' (
     assertM (tn_status t = status_disputed) ''ENoActiveDispute'' (
     assertM (tn_referee t \<noteq> None) ''ENotSupported'' (
     assertM (tn_referee t = Some sender) ''ERefereeNotAuthorized'' (
     assert_balance_split a b (tn_balance t) (Inr (pay_out t a b now))))))"

definition resolve_dispute_verified :: "Tunnel \<Rightarrow> int \<Rightarrow> int \<Rightarrow> int \<Rightarrow> (Tunnel \<times> transfer list) result" where
  "resolve_dispute_verified t a b now =
     assertM (tn_version t = CURRENT_VERSION) ''EInvalidVersion'' (
     assertM (tn_status t = status_disputed) ''ENoActiveDispute'' (
     assertM (tn_timeout_ms t > 0) ''ENotSupported'' (
     bindE (addU64 (sc_timestamp (tn_state t)) (tn_timeout_ms t)) (\<lambda>deadline.
     assertM (now \<ge> deadline) ''ETimeoutNotReached'' (
     assert_balance_split a b (tn_balance t) (Inr (pay_out t a b now)))))))"

subsection \<open>Withdrawal, destruction, migration\<close>

text \<open>The deposit that is returned as a coin to the caller, and the tunnel without it.\<close>

definition return_deposit :: "Tunnel \<Rightarrow> bool \<Rightarrow> int \<Rightarrow> (Tunnel \<times> int) result" where
  "return_deposit t is_party_a now =
     (let amount = (if is_party_a then tn_party_a_deposit t else tn_party_b_deposit t);
          t1 = (if is_party_a then t\<lparr>tn_party_a_deposit := 0\<rparr> else t\<lparr>tn_party_b_deposit := 0\<rparr>)
      in assertM (amount \<le> tn_balance t) ''ENotEnough'' (
         let t2 = t1\<lparr>tn_balance := tn_balance t - amount, tn_last_activity := now\<rparr>
         in Inr (if tn_balance t2 = 0 then t2\<lparr>tn_status := status_closed\<rparr> else t2, amount)))"

definition withdraw_before_active :: "Tunnel \<Rightarrow> address \<Rightarrow> int \<Rightarrow> (Tunnel \<times> int) result" where
  "withdraw_before_active t sender now =
     assertM (tn_version t = CURRENT_VERSION) ''EInvalidVersion'' (
     assertM (tn_status t = status_created) ''EInvalidState'' (
     assertM (is_party t sender) ''ENotAuthorized'' (
     let is_party_a = (sender = pc_address (tn_party_a t));
         my_deposit = (if is_party_a then tn_party_a_deposit t else tn_party_b_deposit t);
         other_deposit = (if is_party_a then tn_party_b_deposit t else tn_party_a_deposit t)
     in assertM (my_deposit > 0) ''EInsufficientBalance'' (
        assertM (other_deposit = 0) ''EInvalidState'' (return_deposit t is_party_a now)))))"

definition withdraw_timeout :: "Tunnel \<Rightarrow> address \<Rightarrow> int \<Rightarrow> (Tunnel \<times> int) result" where
  "withdraw_timeout t sender now =
     assertM (tn_version t = CURRENT_VERSION) ''EInvalidVersion'' (
     assertM (tn_status t = status_created) ''EInvalidState'' (
     assertM (tn_timeout_ms t > 0) ''ENotSupported'' (
     bindE (addU64 (tn_created_at t) (tn_timeout_ms t)) (\<lambda>deadline.
     assertM (now \<ge> deadline) ''ETimeoutNotReached'' (
     assertM (is_party t sender) ''ENotAuthorized'' (
     let is_party_a = (sender = pc_address (tn_party_a t));
         my_deposit = (if is_party_a then tn_party_a_deposit t else tn_party_b_deposit t)
     in assertM (my_deposit > 0) ''EInsufficientBalance'' (return_deposit t is_party_a now)))))))"

definition destroy_tunnel :: "Tunnel \<Rightarrow> address \<Rightarrow> Tunnel result" where
  "destroy_tunnel t sender =
     assertM (tn_version t = CURRENT_VERSION) ''EInvalidVersion'' (
     assertM (tn_status t = status_closed) ''EInvalidState'' (
     assertM (tn_balance t = 0) ''EInsufficientBalance'' (
     assertM (party_htlc_locked_internal t (pc_address (tn_party_a t)) = 0 \<and>
              party_htlc_locked_internal t (pc_address (tn_party_b t)) = 0) ''EOutstandingHtlc'' (
     assertM (is_party t sender) ''ENotAuthorized'' (Inr (t\<lparr>tn_status := status_destroyed\<rparr>))))))"

definition migrate :: "Tunnel \<Rightarrow> address \<Rightarrow> Tunnel result" where
  "migrate t sender =
     assertM (is_party t sender) ''ENotAuthorized'' (
     assertM (tn_version t < CURRENT_VERSION) ''ENotAnUpgrade'' (
     Inr (t\<lparr>tn_version := CURRENT_VERSION\<rparr>)))"

end
