(* ===== verification/Chain_Runs.thy ===== *)
theory Chain_Runs
  imports On_Chain
begin

section \<open>Runs of the contract\<close>

text \<open>
  Every public operation of the contract as a value, so that whole histories of transactions are lists
  of calls by arbitrary senders. The invariant of the tunnel object (its balance, its hash-locked
  payments and their counters, the dispute bookkeeping) is kept by every call, and the coins paid in
  are always accounted for.
\<close>

subsection \<open>Calls\<close>

datatype ChainCall =
    CDeposit int | CDepositA int | CDepositB int
  | CUpdate Submitted bytes bytes
  | CClose int int bytes bytes int
  | CCloseRoot int int bytes bytes int bytes
  | CRaise Submitted bytes
  | CResolve Submitted bytes bytes
  | CRaiseCurrent
  | CForceClose
  | CAgree
  | CExtend int
  | CLock bytes int address int bytes
  | CClaim bytes bytes
  | CExpire bytes
  | CSetReferee address bytes bytes
  | CAssignReferee address
  | CRefereeResolve int int
  | CVerifiedResolve int int
  | CWithdrawEarly
  | CWithdrawTimeout
  | CDestroy
  | CMigrate

text \<open>An operation that transfers nothing.\<close>

definition quietly :: "Tunnel result \<Rightarrow> (Tunnel \<times> transfer list) result" where
  "quietly r = bindE r (\<lambda>t. Inr (t, []))"

text \<open>The coin a withdrawal returns belongs to the caller.\<close>

definition toSender :: "address \<Rightarrow> (Tunnel \<times> int) result \<Rightarrow> (Tunnel \<times> transfer list) result" where
  "toSender sender r = bindE r (\<lambda>(t, amount). Inr (t, [(sender, amount)]))"

fun chain_call :: "Natives \<Rightarrow> address \<Rightarrow> int \<Rightarrow> ChainCall \<Rightarrow> Tunnel \<Rightarrow> (Tunnel \<times> transfer list) result" where
  "chain_call N s now (CDeposit v) t = quietly (deposit t v s now)"
| "chain_call N s now (CDepositA v) t = quietly (deposit_party_a t v s now)"
| "chain_call N s now (CDepositB v) t = quietly (deposit_party_b t v s now)"
| "chain_call N s now (CUpdate m sa sb) t = quietly (update_state N t m sa sb now)"
| "chain_call N s now (CClose a b sa sb ts) t = close_cooperative N t a b sa sb ts now"
| "chain_call N s now (CCloseRoot a b sa sb ts r) t = close_cooperative_with_root N t a b sa sb ts r now"
| "chain_call N s now (CRaise m sg) t = quietly (raise_dispute N t m sg s now)"
| "chain_call N s now (CResolve m sa sb) t = quietly (resolve_dispute N t m sa sb now)"
| "chain_call N s now CRaiseCurrent t = quietly (raise_dispute_current_state t s now)"
| "chain_call N s now CForceClose t = force_close_after_timeout t s now"
| "chain_call N s now CAgree t = agree_to_dispute t s now"
| "chain_call N s now (CExtend d) t = quietly (extend_timeout t d s now)"
| "chain_call N s now (CLock h v r e sg) t = quietly (lock_htlc N t h v r e sg s now)"
| "chain_call N s now (CClaim h p) t = claim_htlc_in_tunnel N t h p s now"
| "chain_call N s now (CExpire h) t = expire_htlc_in_tunnel t h s now"
| "chain_call N s now (CSetReferee r sa sb) t = quietly (set_referee_cosigned N t r sa sb)"
| "chain_call N s now (CAssignReferee r) t = quietly (set_referee t r s)"
| "chain_call N s now (CRefereeResolve a b) t = resolve_dispute_external t a b s now"
| "chain_call N s now (CVerifiedResolve a b) t = resolve_dispute_verified t a b now"
| "chain_call N s now CWithdrawEarly t = toSender s (withdraw_before_active t s now)"
| "chain_call N s now CWithdrawTimeout t = toSender s (withdraw_timeout t s now)"
| "chain_call N s now CDestroy t = quietly (destroy_tunnel t s)"
| "chain_call N s now CMigrate t = quietly (migrate t s)"

text \<open>The arguments are in the range of their Move types.\<close>

definition u64Submitted :: "Submitted \<Rightarrow> bool" where
  "u64Submitted m \<longleftrightarrow> u64 (sm_nonce m) \<and> u64 (sm_party_a_balance m) \<and> u64 (sm_party_b_balance m) \<and> u64 (sm_timestamp m)"

fun typedCall :: "ChainCall \<Rightarrow> bool" where
  "typedCall (CDeposit v) = u64 v"
| "typedCall (CDepositA v) = u64 v"
| "typedCall (CDepositB v) = u64 v"
| "typedCall (CUpdate m sa sb) = u64Submitted m"
| "typedCall (CClose a b sa sb ts) = (u64 a \<and> u64 b \<and> u64 ts)"
| "typedCall (CCloseRoot a b sa sb ts r) = (u64 a \<and> u64 b \<and> u64 ts)"
| "typedCall (CRaise m sg) = u64Submitted m"
| "typedCall (CResolve m sa sb) = u64Submitted m"
| "typedCall (CExtend d) = u64 d"
| "typedCall (CLock h v r e sg) = (u64 v \<and> u64 e)"
| "typedCall (CRefereeResolve a b) = (u64 a \<and> u64 b)"
| "typedCall (CVerifiedResolve a b) = (u64 a \<and> u64 b)"
| "typedCall c = True"

text \<open>The coin a call pays into the tunnel.\<close>

fun paidIn :: "ChainCall \<Rightarrow> int" where
  "paidIn (CDeposit v) = v"
| "paidIn (CDepositA v) = v"
| "paidIn (CDepositB v) = v"
| "paidIn c = 0"

subsection \<open>Histories\<close>

text \<open>The tunnel object, the clock, all coins paid in and all transfers made.\<close>

record ChainWorld =
  cw_tunnel :: Tunnel
  cw_now :: int
  cw_in :: int
  cw_out :: "transfer list"

inductive chainStep :: "Natives \<Rightarrow> ChainWorld \<Rightarrow> address \<Rightarrow> ChainCall \<Rightarrow> ChainWorld \<Rightarrow> bool" for N where
  chain_step:
    "cw_now w \<le> now \<Longrightarrow> u64 now \<Longrightarrow> typedCall c \<Longrightarrow> chain_call N s now c (cw_tunnel w) = Inr (t, out) \<Longrightarrow>
     chainStep N w s c \<lparr>cw_tunnel = t, cw_now = now, cw_in = cw_in w + paidIn c, cw_out = cw_out w @ out\<rparr>"

inductive chainRun :: "Natives \<Rightarrow> (address \<Rightarrow> ChainCall \<Rightarrow> bool) \<Rightarrow> ChainWorld \<Rightarrow> ChainWorld \<Rightarrow> bool" for N allowed where
  run_nil: "chainRun N allowed w w"
| run_step: "chainRun N allowed w w1 \<Longrightarrow> allowed s c \<Longrightarrow> chainStep N w1 s c w2 \<Longrightarrow> chainRun N allowed w w2"

inductive_cases chainStepE: "chainStep N w s c w'"

subsection \<open>The invariant of the tunnel object\<close>

definition lockedBy :: "Tunnel \<Rightarrow> address \<Rightarrow> int" where
  "lockedBy t p = sum_list (map (\<lambda>(k, h). if ht_sender h = p then ht_amount h else 0) (tn_htlcs t))"

definition locksBy :: "Tunnel \<Rightarrow> address \<Rightarrow> int" where
  "locksBy t p = sum_list (map (\<lambda>(k, h). if ht_sender h = p then 1 else 0) (tn_htlcs t))"

definition lockedTotal :: "Tunnel \<Rightarrow> int" where
  "lockedTotal t = sum_list (map (\<lambda>(k, h). ht_balance h) (tn_htlcs t))"

definition countedLocks :: "Tunnel \<Rightarrow> address \<Rightarrow> int" where
  "countedLocks t p = (case map_of (tn_counters t) p of None \<Rightarrow> 0 | Some c \<Rightarrow> hc_count c)"

definition htlcsOk :: "Tunnel \<Rightarrow> bool" where
  "htlcsOk t \<longleftrightarrow> distinct (map fst (tn_htlcs t)) \<and>
     (\<forall>(k, h)\<in>set (tn_htlcs t). ht_payment_hash h = k \<and> 0 < ht_amount h \<and> ht_balance h = ht_amount h \<and> is_party t (ht_sender h)) \<and>
     (\<forall>p. party_htlc_locked_internal t p = lockedBy t p \<and> countedLocks t p = locksBy t p)"

definition balanceOk :: "Tunnel \<Rightarrow> bool" where
  "balanceOk t \<longleftrightarrow> 0 \<le> tn_balance t \<and> tn_balance t \<le> U64_MAX \<and> 0 \<le> tn_party_a_deposit t \<and> 0 \<le> tn_party_b_deposit t \<and>
     (tn_status t = status_created \<longrightarrow>
        tn_balance t = tn_party_a_deposit t + tn_party_b_deposit t \<and> tn_htlcs t = [] \<and>
        (tn_party_a_deposit t = 0 \<or> tn_party_b_deposit t = 0) \<and> sc_nonce (tn_state t) = 0) \<and>
     (tn_status t = status_active \<or> tn_status t = status_disputed \<longrightarrow>
        0 \<le> sc_party_a_balance (tn_state t) \<and> 0 \<le> sc_party_b_balance (tn_state t) \<and>
        sc_party_a_balance (tn_state t) + sc_party_b_balance (tn_state t) = tn_balance t) \<and>
     (tn_status t = status_closed \<or> tn_status t = status_destroyed \<longrightarrow> tn_balance t = 0) \<and>
     (tn_status t = status_destroyed \<longrightarrow> tn_htlcs t = [])"

definition disputeOk :: "Tunnel \<Rightarrow> bool" where
  "disputeOk t \<longleftrightarrow> tn_status t \<in> {status_created, status_active, status_closed, status_disputed, status_destroyed} \<and>
     0 \<le> sc_nonce (tn_state t) \<and> sc_nonce (tn_state t) < U64_MAX \<and>
     0 < tn_timeout_ms t \<and> tn_timeout_ms t \<le> MAX_TOTAL_TIMEOUT_MS \<and>
     (tn_status t = status_created \<longrightarrow> tn_last_disputed_nonce t = 0) \<and>
     (tn_status t = status_active \<longrightarrow> tn_last_disputed_nonce t \<le> sc_nonce (tn_state t)) \<and>
     (tn_status t = status_disputed \<longrightarrow>
        tn_last_disputed_nonce t = sc_nonce (tn_state t) + 1 \<and> (\<exists>p. tn_dispute_raiser t = Some p \<and> is_party t p))"

definition tunnelOk :: "Tunnel \<Rightarrow> bool" where
  "tunnelOk t \<longleftrightarrow> tn_version t = CURRENT_VERSION \<and> pc_address (tn_party_a t) \<noteq> pc_address (tn_party_b t) \<and>
     htlcsOk t \<and> balanceOk t \<and> disputeOk t"

lemmas tunnel_defs = tunnelOk_def balanceOk_def disputeOk_def

subsection \<open>When operations succeed\<close>

definition signedBy :: "Natives \<Rightarrow> PartyConfig \<Rightarrow> bytes \<Rightarrow> bytes \<Rightarrow> bool" where
  "signedBy N p message sig \<longleftrightarrow> sig_verify N (pc_signature_type p) (pc_public_key p) message sig = Inr True"

lemma assertSigned_Inr [result_simps]: "assertSigned N p m s e k = Inr x \<longleftrightarrow> signedBy N p m s \<and> k = Inr x"
  by (auto simp: assertSigned_def signedBy_def result_simps)

lemma assert_balance_split_Inr [result_simps]:
  "assert_balance_split a b v k = Inr x \<longleftrightarrow> a \<le> v \<and> a + b = v \<and> k = Inr x"
  by (auto simp: assert_balance_split_def result_simps)

lemma update_state_Inr:
  "update_state N t m sa sb now = Inr t' \<longleftrightarrow>
     tn_version t = CURRENT_VERSION \<and> tn_status t = status_active \<and> length (sm_state_hash m) = 32 \<and>
     sm_nonce m > sc_nonce (tn_state t) \<and> sm_nonce m < U64_MAX \<and> sm_party_a_balance m \<le> tn_balance t \<and>
     sm_party_a_balance m + sm_party_b_balance m = tn_balance t \<and> sm_timestamp m \<le> now \<and>
     tn_created_at t \<le> sm_timestamp m \<and> signedBy N (tn_party_a t) (serialize_state_update (updateData t m)) sa \<and>
     signedBy N (tn_party_b t) (serialize_state_update (updateData t m)) sb \<and>
     t' = t\<lparr>tn_state := commitment m now, tn_last_activity := now\<rparr>"
  by (auto simp: update_state_def result_simps Let_def)

lemma raise_dispute_Inr:
  "raise_dispute N t m sg sender now = Inr t' \<longleftrightarrow>
     tn_version t = CURRENT_VERSION \<and> tn_status t = status_active \<and> length (sm_state_hash m) = 32 \<and>
     sm_party_a_balance m \<le> tn_balance t \<and> sm_party_a_balance m + sm_party_b_balance m = tn_balance t \<and>
     is_party t sender \<and> sm_nonce m > sc_nonce (tn_state t) \<and> sm_nonce m < U64_MAX \<and>
     tn_last_disputed_nonce t \<le> sm_nonce m \<and> sm_timestamp m \<le> now \<and> tn_created_at t \<le> sm_timestamp m \<and>
     signedBy N (if sender = pc_address (tn_party_a t) then tn_party_b t else tn_party_a t)
       (serialize_state_update (updateData t m)) sg \<and>
     t' = t\<lparr>tn_status := status_disputed, tn_dispute_raiser := Some sender, tn_last_disputed_nonce := sm_nonce m + 1,
            tn_state := commitment m now, tn_last_activity := now\<rparr>"
  by (auto simp: raise_dispute_def result_simps Let_def)

lemma resolve_dispute_Inr:
  "resolve_dispute N t m sa sb now = Inr t' \<longleftrightarrow>
     tn_version t = CURRENT_VERSION \<and> tn_status t = status_disputed \<and> length (sm_state_hash m) = 32 \<and>
     sm_nonce m > sc_nonce (tn_state t) \<and> sm_nonce m < U64_MAX \<and> sm_party_a_balance m \<le> tn_balance t \<and>
     sm_party_a_balance m + sm_party_b_balance m = tn_balance t \<and> sm_timestamp m \<le> now \<and>
     tn_created_at t \<le> sm_timestamp m \<and> signedBy N (tn_party_a t) (serialize_state_update (updateData t m)) sa \<and>
     signedBy N (tn_party_b t) (serialize_state_update (updateData t m)) sb \<and>
     t' = t\<lparr>tn_status := status_active, tn_dispute_raiser := None, tn_state := commitment m now, tn_last_activity := now\<rparr>"
  by (auto simp: resolve_dispute_def result_simps Let_def)

lemma raise_dispute_current_state_Inr:
  "raise_dispute_current_state t sender now = Inr t' \<longleftrightarrow>
     tn_version t = CURRENT_VERSION \<and> tn_status t = status_active \<and> tn_timeout_ms t > 0 \<and> is_party t sender \<and>
     tn_last_disputed_nonce t \<le> sc_nonce (tn_state t) \<and> sc_nonce (tn_state t) + 1 \<le> U64_MAX \<and>
     t' = t\<lparr>tn_last_disputed_nonce := sc_nonce (tn_state t) + 1, tn_status := status_disputed,
            tn_dispute_raiser := Some sender, tn_state := (tn_state t)\<lparr>sc_timestamp := now\<rparr>, tn_last_activity := now\<rparr>"
  by (auto simp: raise_dispute_current_state_def result_simps)

text \<open>Every closing operation pays out the whole balance, in the split \<open>(a, b)\<close>.\<close>

definition closing :: "Tunnel \<Rightarrow> int \<Rightarrow> int \<Rightarrow> Tunnel \<Rightarrow> transfer list \<Rightarrow> bool" where
  "closing t a b t' out \<longleftrightarrow> a + b = tn_balance t \<and> (\<exists>now. (t', out) = pay_out t a b now)"

lemma close_cooperative_Inr:
  "close_cooperative N t a b sa sb ts now = Inr (t', out) \<longleftrightarrow>
     tn_version t = CURRENT_VERSION \<and> (tn_status t = status_active \<or> tn_status t = status_created) \<and>
     a \<le> tn_balance t \<and> a + b = tn_balance t \<and> sa \<noteq> [] \<and> sb \<noteq> [] \<and> sc_nonce (tn_state t) + 1 \<le> U64_MAX \<and>
     ts \<le> now \<and> tn_created_at t \<le> ts \<and>
     (let msg = serialize_settlement \<lparr>sd_tunnel_id = tn_id t, sd_party_a_balance = a, sd_party_b_balance = b,
        sd_final_nonce = sc_nonce (tn_state t) + 1, sd_timestamp = ts\<rparr>
      in signedBy N (tn_party_a t) msg sa \<and> signedBy N (tn_party_b t) msg sb) \<and> (t', out) = pay_out t a b now"
  by (auto simp: close_cooperative_def result_simps Let_def)

lemma close_cooperative_with_root_Inr:
  "close_cooperative_with_root N t a b sa sb ts r now = Inr (t', out) \<longleftrightarrow>
     tn_version t = CURRENT_VERSION \<and> (tn_status t = status_active \<or> tn_status t = status_created) \<and> length r = 32 \<and>
     a \<le> tn_balance t \<and> a + b = tn_balance t \<and> sa \<noteq> [] \<and> sb \<noteq> [] \<and> sc_nonce (tn_state t) + 1 \<le> U64_MAX \<and>
     ts \<le> now \<and> tn_created_at t \<le> ts \<and>
     (let msg = serialize_settlement_with_root \<lparr>sd_tunnel_id = tn_id t, sd_party_a_balance = a, sd_party_b_balance = b,
        sd_final_nonce = sc_nonce (tn_state t) + 1, sd_timestamp = ts, sd_transcript_root = r\<rparr>
      in signedBy N (tn_party_a t) msg sa \<and> signedBy N (tn_party_b t) msg sb) \<and> (t', out) = pay_out t a b now"
  by (auto simp: close_cooperative_with_root_def result_simps Let_def)

lemma force_close_Inr:
  "force_close_after_timeout t sender now = Inr (t', out) \<longleftrightarrow>
     tn_version t = CURRENT_VERSION \<and> tn_status t = status_disputed \<and> tn_timeout_ms t > 0 \<and>
     tn_dispute_raiser t = Some sender \<and> sc_timestamp (tn_state t) + tn_timeout_ms t \<le> U64_MAX \<and>
     sc_timestamp (tn_state t) + tn_timeout_ms t \<le> now \<and>
     (case penalised t sender of (a, b) \<Rightarrow> a \<le> U64_MAX \<and> b \<le> U64_MAX \<and> a \<le> tn_balance t \<and> a + b = tn_balance t \<and>
        (t', out) = pay_out t a b now)"
  by (auto simp: force_close_after_timeout_def result_simps Let_def split: prod.splits)

lemma agree_Inr:
  "agree_to_dispute t sender now = Inr (t', out) \<longleftrightarrow>
     tn_version t = CURRENT_VERSION \<and> tn_status t = status_disputed \<and>
     (\<exists>r. tn_dispute_raiser t = Some r \<and> r \<noteq> sender) \<and> is_party t sender \<and>
     sc_party_a_balance (tn_state t) \<le> tn_balance t \<and>
     sc_party_a_balance (tn_state t) + sc_party_b_balance (tn_state t) = tn_balance t \<and>
     (t', out) = pay_out t (sc_party_a_balance (tn_state t)) (sc_party_b_balance (tn_state t)) now"
  by (auto simp: agree_to_dispute_def result_simps Let_def)

lemma extend_timeout_Inr:
  "extend_timeout t d s now = Inr t' \<longleftrightarrow>
     tn_version t = CURRENT_VERSION \<and> can_extend_timeout_by t d \<and> is_party t s \<and>
     t' = t\<lparr>tn_timeout_ms := tn_timeout_ms t + d, tn_last_activity := now\<rparr>"
  by (auto simp: extend_timeout_def result_simps can_extend_timeout_by_def can_extend_timeout_def statuses)

lemmas chain_call_Inr = update_state_Inr raise_dispute_Inr resolve_dispute_Inr raise_dispute_current_state_Inr
  close_cooperative_Inr close_cooperative_with_root_Inr force_close_Inr agree_Inr extend_timeout_Inr

lemma quietly_Inr [result_simps]: "quietly r = Inr (t, out) \<longleftrightarrow> r = Inr t \<and> out = []"
  by (auto simp: quietly_def result_simps)

lemma toSender_Inr [result_simps]: "toSender s r = Inr (t, out) \<longleftrightarrow> (\<exists>v. r = Inr (t, v) \<and> out = [(s, v)])"
  by (auto simp: toSender_def result_simps)

subsection \<open>Hash-locked payments and their counters\<close>

lemma htlcs_frame:
  assumes "tn_htlcs t' = tn_htlcs t" "tn_counters t' = tn_counters t"
    "pc_address (tn_party_a t') = pc_address (tn_party_a t)" "pc_address (tn_party_b t') = pc_address (tn_party_b t)"
  shows "htlcsOk t' = htlcsOk t" "lockedTotal t' = lockedTotal t"
  using assms by (simp_all add: htlcsOk_def lockedBy_def locksBy_def lockedTotal_def is_party_def countedLocks_def
    party_htlc_locked_internal_def)

lemma sum_list_delete:
  "distinct (map fst xs) \<Longrightarrow> map_of xs k = Some v \<Longrightarrow>
   sum_list (map f xs) = sum_list (map f (AList.delete k xs)) + (f (k, v) :: int)"
proof (induction xs)
  case (Cons x xs)
  show ?case
  proof (cases "fst x = k")
    case True
    then have "AList.delete k xs = xs" using Cons.prems(1) by (intro delete_id) auto
    moreover have "AList.delete k (x # xs) = AList.delete k xs" using True by (cases x) simp
    moreover have "x = (k, v)" using True Cons.prems(2) by (cases x) simp
    ultimately show ?thesis by simp
  next
    case False
    then show ?thesis using Cons by (cases x) auto
  qed
qed simp

lemma update_new: "map_of xs k = None \<Longrightarrow> AList.update k v xs = xs @ [(k, v)]"
  by (induction xs) (auto split: if_split_asm)

lemma update_counter_cases:
  assumes "update_party_htlc_counter t p adding v = Inr t'"
  obtains c' where "t' = t\<lparr>tn_counters := AList.update p c' (tn_counters t)\<rparr>"
    "hc_total_locked c' = party_htlc_locked_internal t p + (if adding then v else - v)"
    "hc_count c' = countedLocks t p + (if adding then 1 else - 1)"
proof -
  define c where "c = (case map_of (tn_counters t) p of None \<Rightarrow> \<lparr>hc_count = 0, hc_total_locked = 0\<rparr> | Some c \<Rightarrow> c)"
  have c: "hc_total_locked c = party_htlc_locked_internal t p" "hc_count c = countedLocks t p"
    by (simp_all add: c_def party_htlc_locked_internal_def countedLocks_def split: option.splits)
  from assms show thesis
    unfolding update_party_htlc_counter_def c_def [symmetric] Let_def
    by (auto simp: result_simps c intro!: that split: if_split_asm)
qed

lemma counters_after [simp]:
  "party_htlc_locked_internal (t\<lparr>tn_counters := AList.update p c (tn_counters t)\<rparr>) q =
     (if q = p then hc_total_locked c else party_htlc_locked_internal t q)"
  "countedLocks (t\<lparr>tn_counters := AList.update p c (tn_counters t)\<rparr>) q = (if q = p then hc_count c else countedLocks t q)"
  by (simp_all add: party_htlc_locked_internal_def countedLocks_def update_conv')

text \<open>The coins the object holds.\<close>

definition held :: "Tunnel \<Rightarrow> int" where
  "held t = tn_balance t + lockedTotal t"

lemma htlc_lookup:
  assumes "htlcsOk t" "map_of (tn_htlcs t) k = Some h"
  shows "ht_payment_hash h = k" "0 < ht_amount h" "ht_balance h = ht_amount h" "is_party t (ht_sender h)"
  using assms map_of_SomeD [OF assms(2)] by (auto simp: htlcsOk_def)

lemma add_htlc:
  assumes ok: "htlcsOk t" and k: "map_of (tn_htlcs t) k = None"
    and h: "ht_payment_hash h = k" "0 < ht_amount h" "ht_balance h = ht_amount h" "is_party t (ht_sender h)"
    and c: "hc_total_locked c = party_htlc_locked_internal t (ht_sender h) + ht_amount h"
      "hc_count c = countedLocks t (ht_sender h) + 1"
    and t': "tn_htlcs t' = AList.update k h (tn_htlcs t)" "tn_counters t' = AList.update (ht_sender h) c (tn_counters t)"
      "tn_party_a t' = tn_party_a t" "tn_party_b t' = tn_party_b t"
  shows "htlcsOk t'" "lockedTotal t' = lockedTotal t + ht_amount h"
proof -
  have e: "tn_htlcs t' = tn_htlcs t @ [(k, h)]" using t'(1) k by (simp add: update_new)
  have "k \<notin> fst ` set (tn_htlcs t)" using k by (simp add: map_of_eq_None_iff)
  then have d: "distinct (map fst (tn_htlcs t'))" using ok e by (auto simp: htlcsOk_def)
  have l: "lockedBy t' p = lockedBy t p + (if ht_sender h = p then ht_amount h else 0)"
    "locksBy t' p = locksBy t p + (if ht_sender h = p then 1 else 0)" for p
    by (simp_all add: lockedBy_def locksBy_def e)
  have n: "party_htlc_locked_internal t' p = (if p = ht_sender h then hc_total_locked c else party_htlc_locked_internal t p)"
    "countedLocks t' p = (if p = ht_sender h then hc_count c else countedLocks t p)" for p
    by (simp_all add: party_htlc_locked_internal_def countedLocks_def t'(2) update_conv')
  have "\<forall>(k, h)\<in>set (tn_htlcs t'). ht_payment_hash h = k \<and> 0 < ht_amount h \<and> ht_balance h = ht_amount h \<and> is_party t' (ht_sender h)"
    using ok h t'(3,4) by (auto simp: htlcsOk_def e is_party_def)
  then show "htlcsOk t'"
    using ok d l n c by (auto simp: htlcsOk_def)
  show "lockedTotal t' = lockedTotal t + ht_amount h"
    using h(3) by (simp add: lockedTotal_def e)
qed

lemma remove_htlc:
  assumes ok: "htlcsOk t" and k: "map_of (tn_htlcs t) k = Some h"
    and c: "hc_total_locked c = party_htlc_locked_internal t (ht_sender h) - ht_amount h"
      "hc_count c = countedLocks t (ht_sender h) - 1"
    and t': "tn_htlcs t' = AList.delete k (tn_htlcs t)" "tn_counters t' = AList.update (ht_sender h) c (tn_counters t)"
      "tn_party_a t' = tn_party_a t" "tn_party_b t' = tn_party_b t"
  shows "htlcsOk t'" "lockedTotal t = lockedTotal t' + ht_balance h"
proof -
  have dist: "distinct (map fst (tn_htlcs t))" using ok by (simp add: htlcsOk_def)
  note sums = sum_list_delete [OF dist k]
  have l: "lockedBy t p = lockedBy t' p + (if ht_sender h = p then ht_amount h else 0)"
    "locksBy t p = locksBy t' p + (if ht_sender h = p then 1 else 0)" for p
    using sums by (simp_all add: lockedBy_def locksBy_def t'(1))
  have n: "party_htlc_locked_internal t' p = (if p = ht_sender h then hc_total_locked c else party_htlc_locked_internal t p)"
    "countedLocks t' p = (if p = ht_sender h then hc_count c else countedLocks t p)" for p
    by (simp_all add: party_htlc_locked_internal_def countedLocks_def t'(2) update_conv')
  have d: "distinct (map fst (tn_htlcs t'))" using dist t'(1) by (simp add: distinct_delete)
  have "set (tn_htlcs t') \<subseteq> set (tn_htlcs t)" using t'(1) by (simp add: AList.delete_eq)
  then have "\<forall>(k, h)\<in>set (tn_htlcs t'). ht_payment_hash h = k \<and> 0 < ht_amount h \<and> ht_balance h = ht_amount h \<and> is_party t' (ht_sender h)"
    using ok t'(3,4) by (auto simp: htlcsOk_def is_party_def)
  then show "htlcsOk t'"
    using ok d l n c by (auto simp: htlcsOk_def)
  show "lockedTotal t = lockedTotal t' + ht_balance h"
    using sums by (simp add: lockedTotal_def t'(1))
qed

subsection \<open>Every call keeps the invariant and accounts for the coins\<close>

definition sound :: "Tunnel \<Rightarrow> Tunnel \<Rightarrow> transfer list \<Rightarrow> int \<Rightarrow> bool" where
  "sound t t' out v \<longleftrightarrow> tunnelOk t' \<and> held t' + sum_list (map snd out) = held t + v"

lemma soundI:
  assumes "tunnelOk t" "tn_htlcs t' = tn_htlcs t" "tn_counters t' = tn_counters t" "tn_version t' = tn_version t"
    "tn_party_a t' = tn_party_a t" "tn_party_b t' = tn_party_b t" "balanceOk t'" "disputeOk t'"
    "tn_balance t' + sum_list (map snd out) = tn_balance t + v"
  shows "sound t t' out v"
  using assms htlcs_frame [of t' t] by (simp add: sound_def tunnelOk_def held_def)

lemma is_party_frame [simp]:
  "is_party (t\<lparr>tn_status := x\<rparr>) = is_party t" "is_party (t\<lparr>tn_state := y\<rparr>) = is_party t"
  "is_party (t\<lparr>tn_last_activity := z\<rparr>) = is_party t" "is_party (t\<lparr>tn_dispute_raiser := u\<rparr>) = is_party t"
  "is_party (t\<lparr>tn_last_disputed_nonce := n\<rparr>) = is_party t" "is_party (t\<lparr>tn_balance := v\<rparr>) = is_party t"
  "is_party (t\<lparr>tn_timeout_ms := n\<rparr>) = is_party t" "is_party (t\<lparr>tn_htlcs := hs\<rparr>) = is_party t"
  "is_party (t\<lparr>tn_counters := cs\<rparr>) = is_party t"
  by (auto simp: is_party_def fun_eq_iff)

lemma deposit_internal_cases:
  assumes "deposit_internal t v isA now = Inr t'"
  obtains t1 where "tn_status t = status_created" "1 \<le> v" "tn_balance t + v \<le> U64_MAX" "t' = maybe_activate t1"
    "t1 = t\<lparr>tn_party_a_deposit := tn_party_a_deposit t + (if isA then v else 0),
            tn_party_b_deposit := tn_party_b_deposit t + (if isA then 0 else v),
            tn_balance := tn_balance t + v, tn_last_activity := now\<rparr>"
  using assms that by (cases isA) (auto simp: deposit_internal_def result_simps MIN_DEPOSIT_def Let_def)

lemma maybe_activate_ok:
  assumes "tn_status t = status_created" "0 \<le> tn_party_a_deposit t" "0 \<le> tn_party_b_deposit t"
    "tn_balance t = tn_party_a_deposit t + tn_party_b_deposit t" "tn_htlcs t = []" "sc_nonce (tn_state t) = 0" "disputeOk t"
    "tn_balance t \<le> U64_MAX"
  shows "balanceOk (maybe_activate t) \<and> disputeOk (maybe_activate t)"
proof (cases "0 < tn_party_a_deposit t \<and> 0 < tn_party_b_deposit t")
  case True
  then show ?thesis
    using assms by (simp add: maybe_activate_def balanceOk_def disputeOk_def U64_MAX_def)
next
  case False
  then have "maybe_activate t = t" by (auto simp: maybe_activate_def)
  then show ?thesis using assms False by (auto simp: balanceOk_def)
qed

lemma deposit_internal_sound:
  assumes "tunnelOk t" "deposit_internal t v isA now = Inr t'"
  shows "sound t t' [] v"
  using assms(2)
proof (cases rule: deposit_internal_cases)
  case (1 t1)
  have "disputeOk t1"
    using assms(1) by (simp add: 1 tunnelOk_def disputeOk_def is_party_def)
  then have ok: "balanceOk t' \<and> disputeOk t'"
    unfolding 1(4) using assms(1) 1(1-3)
    by (intro maybe_activate_ok) (simp_all add: 1(5) tunnelOk_def balanceOk_def)
  show ?thesis
    by (rule soundI [OF assms(1)]) (use ok in \<open>simp_all add: 1(4,5) maybe_activate_def\<close>)
qed

lemma pay_out_sound:
  assumes "tunnelOk t" "(t', out) = pay_out t a b now" "a + b = tn_balance t"
  shows "sound t t' out 0"
  using assms by (intro soundI) (auto simp: pay_out_def tunnel_defs)

lemma penalised_sum: "penalised t s = (a, b) \<Longrightarrow> a + b = sc_party_a_balance (tn_state t) + sc_party_b_balance (tn_state t)"
  by (auto simp: penalised_def Let_def split: if_split_asm)

lemma update_state_sound:
  assumes "tunnelOk t" "u64Submitted m" "update_state N t m sa sb now = Inr t'"
  shows "sound t t' [] 0"
  using assms by (intro soundI)
    (auto simp: update_state_Inr tunnel_defs commitment_def u64Submitted_def u64_def is_party_def)

lemma raise_dispute_sound:
  assumes "tunnelOk t" "u64Submitted m" "raise_dispute N t m sg s now = Inr t'"
  shows "sound t t' [] 0"
  using assms by (intro soundI)
    (auto simp: raise_dispute_Inr tunnel_defs commitment_def u64Submitted_def u64_def is_party_def)

lemma resolve_dispute_sound:
  assumes "tunnelOk t" "u64Submitted m" "resolve_dispute N t m sa sb now = Inr t'"
  shows "sound t t' [] 0"
  using assms by (intro soundI)
    (auto simp: resolve_dispute_Inr tunnel_defs commitment_def u64Submitted_def u64_def is_party_def)

lemma raise_current_sound:
  assumes "tunnelOk t" "raise_dispute_current_state t s now = Inr t'"
  shows "sound t t' [] 0"
  using assms by (intro soundI)
    (auto simp: raise_dispute_current_state_Inr tunnel_defs is_party_def)

lemma extend_timeout_sound:
  assumes "tunnelOk t" "extend_timeout t d s now = Inr t'"
  shows "sound t t' [] 0"
  using assms by (intro soundI)
    (auto simp: extend_timeout_Inr tunnel_defs can_extend_timeout_by_def can_extend_timeout_def is_party_def)

lemma referee_sound:
  assumes "tunnelOk t"
  shows "set_referee_cosigned N t r sa sb = Inr t' \<Longrightarrow> sound t t' [] 0" "set_referee t r s = Inr t' \<Longrightarrow> sound t t' [] 0"
  using assms by (auto intro!: soundI simp: set_referee_cosigned_def set_referee_def result_simps Let_def write_referee_def
      tunnel_defs is_party_def)

lemma return_deposit_sound:
  assumes "tunnelOk t" "tn_status t = status_created" "return_deposit t isA now = Inr (t', v)"
    "0 < (if isA then tn_party_a_deposit t else tn_party_b_deposit t)"
  shows "sound t t' [(s, v)] 0"
  using assms by (intro soundI) (auto simp: return_deposit_def result_simps Let_def tunnel_defs is_party_def split: if_split_asm)

lemma withdraw_sound:
  assumes "tunnelOk t"
  shows "withdraw_before_active t s now = Inr (t', v) \<Longrightarrow> sound t t' [(s, v)] 0"
    "withdraw_timeout t s now = Inr (t', v) \<Longrightarrow> sound t t' [(s, v)] 0"
  using assms return_deposit_sound [OF assms, of _ now t' v s]
  by (auto simp: withdraw_before_active_def withdraw_timeout_def result_simps Let_def)

lemma lock_htlc_sound:
  assumes ok: "tunnelOk t" and call: "lock_htlc N t k v r e sg s now = Inr t'"
  shows "sound t t' [] 0"
proof -
  define isA where "isA = (s = pc_address (tn_party_a t))"
  define h where "h = \<lparr>ht_payment_hash = k, ht_amount = v, ht_sender = s, ht_receiver = r, ht_expiry_ms = e, ht_balance = v\<rparr>"
  define t0 where "t0 = t\<lparr>tn_balance := tn_balance t - v, tn_htlcs := AList.update k h (tn_htlcs t)\<rparr>"
  from call have g: "tn_status t = status_active" "0 < v" "is_party t s"
    and i: "lock_htlc_internal t k v s r e isA now = Inr t'"
    by (auto simp: lock_htlc_def result_simps Let_def isA_def)
  from i obtain t1 where n: "map_of (tn_htlcs t) k = None"
      "v \<le> (if isA then sc_party_a_balance (tn_state t) else sc_party_b_balance (tn_state t))"
    and t1: "update_party_htlc_counter t0 s True v = Inr t1"
    and t': "t' = t1\<lparr>tn_state := (if isA then (tn_state t)\<lparr>sc_party_a_balance := sc_party_a_balance (tn_state t) - v\<rparr>
        else (tn_state t)\<lparr>sc_party_b_balance := sc_party_b_balance (tn_state t) - v\<rparr>), tn_last_activity := now\<rparr>"
    unfolding lock_htlc_internal_def Let_def t0_def h_def by (auto simp: result_simps)
  from t1 obtain c where c: "t1 = t0\<lparr>tn_counters := AList.update s c (tn_counters t0)\<rparr>"
      "hc_total_locked c = party_htlc_locked_internal t0 s + v" "hc_count c = countedLocks t0 s + 1"
    by (auto elim!: update_counter_cases)
  have same: "party_htlc_locked_internal t0 = party_htlc_locked_internal t" "countedLocks t0 = countedLocks t"
    by (simp_all add: fun_eq_iff party_htlc_locked_internal_def countedLocks_def t0_def)
  have f: "tn_htlcs t' = AList.update k h (tn_htlcs t)" "tn_counters t' = AList.update s c (tn_counters t)"
    "tn_party_a t' = tn_party_a t" "tn_party_b t' = tn_party_b t" "tn_balance t' = tn_balance t - v"
    "tn_version t' = tn_version t"
    by (simp_all add: t' c(1) t0_def)
  have "htlcsOk t'" "lockedTotal t' = lockedTotal t + v"
    using add_htlc [of t k h c t'] ok n(1) g c same f by (simp_all add: tunnelOk_def h_def)
  moreover have "balanceOk t'" "disputeOk t'"
    using ok g n(2) by (auto simp: t' c(1) t0_def tunnel_defs is_party_def)
  ultimately show ?thesis
    using ok f by (simp add: sound_def tunnelOk_def held_def)
qed

lemma remove_htlc_sound:
  assumes ok: "tunnelOk t" and live: "tn_status t \<noteq> status_destroyed" and k: "map_of (tn_htlcs t) k = Some h"
    and t2: "update_party_htlc_counter (t\<lparr>tn_htlcs := AList.delete k (tn_htlcs t)\<rparr>) (ht_sender h) False (ht_amount h) = Inr t2"
  shows "sound t (t2\<lparr>tn_last_activity := now\<rparr>) [(p, ht_balance h)] 0"
proof -
  define t0 where "t0 = t\<lparr>tn_htlcs := AList.delete k (tn_htlcs t)\<rparr>"
  let ?t' = "t2\<lparr>tn_last_activity := now\<rparr>"
  from t2 obtain c where c: "t2 = t0\<lparr>tn_counters := AList.update (ht_sender h) c (tn_counters t0)\<rparr>"
      "hc_total_locked c = party_htlc_locked_internal t0 (ht_sender h) - ht_amount h" "hc_count c = countedLocks t0 (ht_sender h) - 1"
    unfolding t0_def by (auto elim!: update_counter_cases)
  have same: "party_htlc_locked_internal t0 = party_htlc_locked_internal t" "countedLocks t0 = countedLocks t"
    by (simp_all add: fun_eq_iff party_htlc_locked_internal_def countedLocks_def t0_def)
  have f: "tn_htlcs ?t' = AList.delete k (tn_htlcs t)" "tn_counters ?t' = AList.update (ht_sender h) c (tn_counters t)"
    "tn_party_a ?t' = tn_party_a t" "tn_party_b ?t' = tn_party_b t" "tn_balance ?t' = tn_balance t"
    by (simp_all add: c(1) t0_def)
  have "htlcsOk t" using ok by (simp add: tunnelOk_def)
  from remove_htlc [OF this k _ _ f(1-4)] c same
  have "htlcsOk ?t'" "lockedTotal t = lockedTotal ?t' + ht_balance h" by simp_all
  moreover have "balanceOk ?t'" "disputeOk ?t'"
    using ok live k by (auto simp: c(1) t0_def tunnel_defs is_party_def)
  ultimately show ?thesis
    using ok f by (simp add: sound_def tunnelOk_def held_def c(1) t0_def)
qed

lemma claim_sound:
  assumes "tunnelOk t" "claim_htlc_in_tunnel N t k pre s now = Inr (t', out)"
  shows "sound t t' out 0"
  using assms remove_htlc_sound [OF assms(1)]
  by (auto simp: claim_htlc_in_tunnel_def result_simps Let_def split: option.splits)

lemma expire_sound:
  assumes "tunnelOk t" "expire_htlc_in_tunnel t k s now = Inr (t', out)"
  shows "sound t t' out 0"
  using assms remove_htlc_sound [OF assms(1)]
  by (auto simp: expire_htlc_in_tunnel_def result_simps Let_def split: option.splits)

text \<open>Two zero counters mean that nothing is locked, so destruction strands no coins.\<close>

lemma no_locks:
  assumes "htlcsOk t" "party_htlc_locked_internal t (pc_address (tn_party_a t)) = 0"
    "party_htlc_locked_internal t (pc_address (tn_party_b t)) = 0"
  shows "tn_htlcs t = []"
proof (rule ccontr)
  assume "tn_htlcs t \<noteq> []"
  then obtain k h where kh: "(k, h) \<in> set (tn_htlcs t)" by (cases "tn_htlcs t") auto
  then have h: "0 < ht_amount h" "is_party t (ht_sender h)" using assms(1) by (auto simp: htlcsOk_def)
  let ?f = "\<lambda>(k :: bytes, g). if ht_sender g = ht_sender h then ht_amount g else 0"
  have nn: "\<forall>x\<in>set (map ?f (tn_htlcs t)). 0 \<le> x" using assms(1) by (auto simp: htlcsOk_def)
  have "ht_amount h \<in> set (map ?f (tn_htlcs t))" using kh by force
  then have "ht_amount h \<le> sum_list (map ?f (tn_htlcs t))"
    using nn by (intro member_le_sum_list) blast+
  then have "ht_amount h \<le> lockedBy t (ht_sender h)" by (simp add: lockedBy_def)
  moreover have "lockedBy t (ht_sender h) = 0"
    using assms h(2) by (auto simp: htlcsOk_def is_party_def)
  ultimately show False using h(1) by simp
qed

lemma destroy_sound:
  assumes "tunnelOk t" "destroy_tunnel t s = Inr t'"
  shows "sound t t' [] 0"
  using assms no_locks [of t] by (intro soundI)
    (auto simp: destroy_tunnel_def result_simps tunnel_defs is_party_def)

end
