(* ===== verification/Chain_Solvency.thy ===== *)
theory Chain_Solvency
imports Chain_Runs
begin

text \<open>Every transaction of the tunnel contract keeps the books of Chain_Runs, so every run does: no sequence of calls by
  anybody makes a tunnel pay out more than was paid into it or lose a coin.\<close>

lemma migrate_sound: "tunnelOk t \<Longrightarrow> migrate t s = Inr t' \<Longrightarrow> sound t t' [] 0"
  by (auto simp: migrate_def result_simps tunnelOk_def)

text \<open>Every call that closes a tunnel pays out a split of its whole balance.\<close>

definition pays :: "Tunnel \<Rightarrow> int \<Rightarrow> Tunnel \<Rightarrow> transfer list \<Rightarrow> bool" where
  "pays t now t' out \<longleftrightarrow> (\<exists>a b. pay_out t a b now = (t', out) \<and> a + b = tn_balance t)"

lemma paysI: "(t', out) = pay_out t a b now \<Longrightarrow> a + b = tn_balance t \<Longrightarrow> pays t now t' out"
  unfolding pays_def by (intro exI [of _ a] exI [of _ b]) simp

lemma close_cooperative_pays: "close_cooperative N t a b sa sb ts now = Inr (t', out) \<Longrightarrow> pays t now t' out"
  unfolding close_cooperative_Inr by (elim conjE) (rule paysI)

lemma close_cooperative_with_root_pays:
  "close_cooperative_with_root N t a b sa sb ts r now = Inr (t', out) \<Longrightarrow> pays t now t' out"
  unfolding close_cooperative_with_root_Inr by (elim conjE) (rule paysI)

lemma force_close_pays: "force_close_after_timeout t s now = Inr (t', out) \<Longrightarrow> pays t now t' out"
  unfolding force_close_Inr by (cases "penalised t s") (auto intro: paysI)

lemma agree_pays: "agree_to_dispute t s now = Inr (t', out) \<Longrightarrow> pays t now t' out"
  unfolding agree_Inr by (elim conjE) (rule paysI)

lemma referee_close_pays:
  "resolve_dispute_external t a b s now = Inr (t', out) \<Longrightarrow> pays t now t' out"
  "resolve_dispute_verified t a b now = Inr (t', out) \<Longrightarrow> pays t now t' out"
  by (auto simp: resolve_dispute_external_def resolve_dispute_verified_def result_simps intro: paysI sym)

lemmas closing_pays = close_cooperative_pays close_cooperative_with_root_pays force_close_pays agree_pays referee_close_pays

lemma pays_sound: "tunnelOk t \<Longrightarrow> pays t now t' out \<Longrightarrow> sound t t' out 0"
  unfolding pays_def using pay_out_sound [OF _ sym] by blast

lemma deposit_sound:
  assumes "tunnelOk t"
  shows "deposit t v s now = Inr t' \<Longrightarrow> sound t t' [] v" "deposit_party_a t v s now = Inr t' \<Longrightarrow> sound t t' [] v"
    "deposit_party_b t v s now = Inr t' \<Longrightarrow> sound t t' [] v"
  using deposit_internal_sound [OF assms]
  by (auto simp: deposit_def deposit_party_a_def deposit_party_b_def result_simps split: if_split_asm)

lemma chain_call_sound:
  assumes "tunnelOk t" "typedCall c" "chain_call N s now c t = Inr (t', out)"
  shows "sound t t' out (paidIn c)"
  using assms by (cases c)
    (auto simp: quietly_Inr toSender_Inr intro: deposit_sound update_state_sound raise_dispute_sound resolve_dispute_sound
      raise_current_sound extend_timeout_sound lock_htlc_sound claim_sound expire_sound referee_sound withdraw_sound
      destroy_sound migrate_sound pays_sound closing_pays)

text \<open>What a call leaves alone, and the time it records.\<close>

definition framed :: "Tunnel \<Rightarrow> Tunnel \<Rightarrow> int \<Rightarrow> bool" where
  "framed t t' now \<longleftrightarrow> tn_id t' = tn_id t \<and> tn_party_a t' = tn_party_a t \<and> tn_party_b t' = tn_party_b t \<and>
    tn_created_at t' = tn_created_at t \<and> tn_penalty_amount t' = tn_penalty_amount t \<and>
    (sc_timestamp (tn_state t') = sc_timestamp (tn_state t) \<or> sc_timestamp (tn_state t') = now) \<and>
    sc_nonce (tn_state t) \<le> sc_nonce (tn_state t')"

lemma framed_counter: "update_party_htlc_counter t p adding v = Inr t1 \<Longrightarrow> framed t t1 now \<and> tn_state t1 = tn_state t"
  by (erule update_counter_cases) (simp add: framed_def)

lemma framed_deposit: "deposit_internal t v isA now = Inr t' \<Longrightarrow> framed t t' now"
  by (erule deposit_internal_cases) (simp add: framed_def maybe_activate_def)

lemma framed_pays: "pays t now t' out \<Longrightarrow> framed t t' now"
  by (auto simp: framed_def pays_def pay_out_def)

lemma framed_return: "return_deposit t isA now = Inr (t', v) \<Longrightarrow> framed t t' now"
  by (auto simp: framed_def return_deposit_def Let_def result_simps)

lemma framed_lock:
  assumes "lock_htlc N t k v r e sg s now = Inr t'"
  shows "framed t t' now"
proof -
  obtain isA where "lock_htlc_internal t k v s r e isA now = Inr t'"
    using assms by (auto simp: lock_htlc_def result_simps Let_def)
  then obtain t0 t1 st where "update_party_htlc_counter t0 s True v = Inr t1" "framed t t0 now"
      "t' = t1\<lparr>tn_state := st, tn_last_activity := now\<rparr>" "sc_nonce st = sc_nonce (tn_state t)"
      "sc_timestamp st = sc_timestamp (tn_state t)"
    unfolding lock_htlc_internal_def Let_def by (fastforce simp: result_simps framed_def)
  with framed_counter [of t0 s True v t1 now] show ?thesis by (auto simp: framed_def)
qed

lemma framed_unlock:
  "claim_htlc_in_tunnel N t k pre s now = Inr (t', out) \<Longrightarrow> framed t t' now"
  "expire_htlc_in_tunnel t k s now = Inr (t', out) \<Longrightarrow> framed t t' now"
  using framed_counter [of "t\<lparr>tn_htlcs := AList.delete k (tn_htlcs t)\<rparr>" _ False _ _ now]
  by (auto simp: claim_htlc_in_tunnel_def expire_htlc_in_tunnel_def result_simps Let_def framed_def split: option.splits)

lemma framed_states:
  "update_state N t m sa sb now = Inr t' \<Longrightarrow> framed t t' now"
  "raise_dispute N t m sg s now = Inr t' \<Longrightarrow> framed t t' now"
  "resolve_dispute N t m sa sb now = Inr t' \<Longrightarrow> framed t t' now"
  "raise_dispute_current_state t s now = Inr t' \<Longrightarrow> framed t t' now"
  "extend_timeout t d s now = Inr t' \<Longrightarrow> framed t t' now"
  by (simp_all add: framed_def commitment_def update_state_Inr raise_dispute_Inr resolve_dispute_Inr
      raise_dispute_current_state_Inr extend_timeout_Inr)

lemma framed_rest:
  "set_referee_cosigned N t r sa sb = Inr t' \<Longrightarrow> framed t t' now" "set_referee t r s = Inr t' \<Longrightarrow> framed t t' now"
  "destroy_tunnel t s = Inr t' \<Longrightarrow> framed t t' now" "migrate t s = Inr t' \<Longrightarrow> framed t t' now"
  "withdraw_before_active t s now = Inr (t', v) \<Longrightarrow> framed t t' now" "withdraw_timeout t s now = Inr (t', v) \<Longrightarrow> framed t t' now"
  "deposit t v s now = Inr t' \<Longrightarrow> framed t t' now" "deposit_party_a t v s now = Inr t' \<Longrightarrow> framed t t' now"
  "deposit_party_b t v s now = Inr t' \<Longrightarrow> framed t t' now"
  using framed_return [of t _ now t' v] framed_deposit [of t v _ now t']
  by (auto simp: framed_def set_referee_cosigned_def set_referee_def destroy_tunnel_def migrate_def withdraw_before_active_def
      withdraw_timeout_def deposit_def deposit_party_a_def deposit_party_b_def write_referee_def result_simps Let_def
      split: if_split_asm)

lemma chain_call_framed:
  assumes "chain_call N s now c t = Inr (t', out)"
  shows "framed t t' now"
  using assms by (cases c)
    (auto simp: quietly_Inr toSender_Inr intro: framed_states framed_rest framed_pays closing_pays framed_lock framed_unlock)

definition worldOk :: "ChainWorld \<Rightarrow> bool" where
  "worldOk w \<longleftrightarrow> tunnelOk (cw_tunnel w) \<and> held (cw_tunnel w) + sum_list (map snd (cw_out w)) = cw_in w \<and>
     u64 (cw_now w) \<and> sc_timestamp (tn_state (cw_tunnel w)) \<le> cw_now w \<and> tn_created_at (cw_tunnel w) \<le> cw_now w"

lemma chainStep_ok:
  assumes "worldOk w" "chainStep N w s c w'"
  shows "worldOk w'"
proof -
  from assms(2) obtain now t out where 1: "cw_now w \<le> now" "u64 now" "typedCall c"
      "chain_call N s now c (cw_tunnel w) = Inr (t, out)"
    and w': "w' = \<lparr>cw_tunnel = t, cw_now = now, cw_in = cw_in w + paidIn c, cw_out = cw_out w @ out\<rparr>"
    by (auto elim: chainStepE)
  then have "sound (cw_tunnel w) t out (paidIn c)"
    using chain_call_sound assms(1) by (simp add: worldOk_def)
  with 1 assms(1) chain_call_framed [OF 1(4)] show ?thesis
    by (auto simp: w' worldOk_def sound_def framed_def)
qed

lemma chainRun_ok: "chainRun N allowed w w' \<Longrightarrow> worldOk w \<Longrightarrow> worldOk w'"
  by (induction rule: chainRun.induct) (auto intro: chainStep_ok)

text \<open>A freshly built tunnel.\<close>

definition freshWorld :: "Tunnel \<Rightarrow> ChainWorld" where
  "freshWorld t = \<lparr>cw_tunnel = t, cw_now = tn_created_at t, cw_in = 0, cw_out = []\<rparr>"

lemma build_tunnel_ok:
  assumes "build_tunnel uid a b timeout penalty now = Inr t" "u64 now"
  shows "worldOk (freshWorld t)"
proof -
  have "htlcsOk t"
    using assms by (auto simp: build_tunnel_def result_simps htlcsOk_def lockedBy_def locksBy_def countedLocks_def
        party_htlc_locked_internal_def)
  then show ?thesis
    using assms by (auto simp: build_tunnel_def validate_create_params_def result_simps worldOk_def freshWorld_def
        tunnel_defs held_def lockedTotal_def CURRENT_VERSION_def U64_MAX_def)
qed

subsection \<open>Transactions in order\<close>

text \<open>A list of timed transactions, executed in order; the first refused one stops the run.\<close>

fun chainExec :: "Natives \<Rightarrow> (address \<times> int \<times> ChainCall) list \<Rightarrow> ChainWorld \<Rightarrow> ChainWorld option" where
  "chainExec N [] w = Some w"
| "chainExec N ((s, now, c) # xs) w =
     (if cw_now w \<le> now \<and> u64 now \<and> typedCall c
      then (case chain_call N s now c (cw_tunnel w) of
              Inl e \<Rightarrow> None
            | Inr (t, out) \<Rightarrow> chainExec N xs \<lparr>cw_tunnel = t, cw_now = now, cw_in = cw_in w + paidIn c, cw_out = cw_out w @ out\<rparr>)
      else None)"

lemma chainRun_trans: "chainRun N allowed w1 w2 \<Longrightarrow> chainRun N allowed w w1 \<Longrightarrow> chainRun N allowed w w2"
  by (induction rule: chainRun.induct) (auto intro: chainRun.intros)

lemma chainExec_run:
  "chainExec N xs w = Some w' \<Longrightarrow> \<forall>(s, now, c)\<in>set xs. allowed s c \<Longrightarrow> chainRun N allowed w w'"
proof (induction N xs w rule: chainExec.induct)
  case (1 N w)
  then show ?case by (simp add: run_nil)
next
  case (2 N s now c xs w)
  then obtain t out where call: "cw_now w \<le> now" "u64 now" "typedCall c" "chain_call N s now c (cw_tunnel w) = Inr (t, out)"
    and rest: "chainExec N xs \<lparr>cw_tunnel = t, cw_now = now, cw_in = cw_in w + paidIn c, cw_out = cw_out w @ out\<rparr> = Some w'"
    by (auto split: if_split_asm sum.split_asm)
  have "allowed s c" using 2(3) by simp
  then have "chainRun N allowed w \<lparr>cw_tunnel = t, cw_now = now, cw_in = cw_in w + paidIn c, cw_out = cw_out w @ out\<rparr>"
    using call by (blast intro: run_step [OF run_nil] chain_step)
  moreover have "chainRun N allowed \<lparr>cw_tunnel = t, cw_now = now, cw_in = cw_in w + paidIn c, cw_out = cw_out w @ out\<rparr> w'"
    using 2(1) [OF _ call(4)] call rest 2(3) by simp
  ultimately show ?case by (rule chainRun_trans [rotated])
qed

subsection \<open>Leaving alone\<close>

definition received :: "ChainWorld \<Rightarrow> address \<Rightarrow> int" where
  "received w p = sum_list (map snd (filter (\<lambda>x. fst x = p) (cw_out w)))"

text \<open>What the tunnel records as a party's own.\<close>

definition stakeOf :: "Tunnel \<Rightarrow> address \<Rightarrow> int" where
  "stakeOf t p =
     (let isA = (p = pc_address (tn_party_a t))
      in if tn_status t = status_created then (if isA then tn_party_a_deposit t else tn_party_b_deposit t)
         else if tn_status t = status_active \<or> tn_status t = status_disputed
              then (if isA then sc_party_a_balance (tn_state t) else sc_party_b_balance (tn_state t))
         else 0)"

text \<open>The transactions by which a party leaves on its own.\<close>

definition exitPlan :: "ChainWorld \<Rightarrow> address \<Rightarrow> (address \<times> int \<times> ChainCall) list" where
  "exitPlan w p =
     (let t = cw_tunnel w
      in if tn_status t = status_created then [(p, cw_now w, CWithdrawEarly)]
         else if tn_status t = status_active
              then [(p, cw_now w, CRaiseCurrent), (p, cw_now w + tn_timeout_ms t, CForceClose)]
         else if tn_dispute_raiser t = Some p then [(p, cw_now w + tn_timeout_ms t, CForceClose)]
         else [(p, cw_now w, CAgree)])"

lemma exit_created:
  assumes "tunnelOk t" "tn_status t = status_created" "is_party t p" "0 < stakeOf t p"
  shows "\<exists>t'. withdraw_before_active t p now = Inr (t', stakeOf t p) \<and> tn_status t' = status_closed"
  using assms
  by (auto simp: withdraw_before_active_def return_deposit_def result_simps stakeOf_def tunnelOk_def balanceOk_def is_party_def
      assertM_def Let_def)

lemma force_close_pays_stake:
  assumes "tunnelOk t" "tn_status t = status_disputed" "is_party t p" "tn_dispute_raiser t = Some p"
    "sc_timestamp (tn_state t) + tn_timeout_ms t \<le> now" "u64 now"
  shows "\<exists>a b t'. force_close_after_timeout t p now = Inr (t', [(pc_address (tn_party_a t), a), (pc_address (tn_party_b t), b)]) \<and>
           tn_status t' = status_closed \<and> stakeOf t p \<le> (if p = pc_address (tn_party_a t) then a else b)"
proof -
  obtain a b where ab: "penalised t p = (a, b)" by force
  have "a \<le> U64_MAX \<and> b \<le> U64_MAX \<and> a \<le> tn_balance t \<and> a + b = tn_balance t"
    using ab assms(1,2) by (auto simp: penalised_def Let_def tunnelOk_def balanceOk_def split: if_split_asm)
  moreover have "stakeOf t p \<le> (if p = pc_address (tn_party_a t) then a else b)"
    using ab assms(1-3) by (auto simp: penalised_def Let_def stakeOf_def is_party_def tunnelOk_def balanceOk_def
        split: if_split_asm)
  ultimately show ?thesis
    using assms ab by (intro exI [of _ a] exI [of _ b] exI [of _ "fst (pay_out t a b now)"])
      (auto simp: force_close_Inr pay_out_def tunnelOk_def disputeOk_def u64_def U64_MAX_def)
qed

lemma agree_pays_stake:
  assumes "tunnelOk t" "tn_status t = status_disputed" "is_party t p" "tn_dispute_raiser t \<noteq> Some p"
  shows "\<exists>a b t'. agree_to_dispute t p now = Inr (t', [(pc_address (tn_party_a t), a), (pc_address (tn_party_b t), b)]) \<and>
           tn_status t' = status_closed \<and> stakeOf t p \<le> (if p = pc_address (tn_party_a t) then a else b)"
  using assms by (intro exI [of _ "sc_party_a_balance (tn_state t)"] exI [of _ "sc_party_b_balance (tn_state t)"]
      exI [of _ "fst (pay_out t (sc_party_a_balance (tn_state t)) (sc_party_b_balance (tn_state t)) now)"])
    (auto simp: agree_Inr pay_out_def stakeOf_def tunnelOk_def balanceOk_def disputeOk_def)

text \<open>The close of a disputed tunnel credits a party with its stake.\<close>

definition exits :: "Natives \<Rightarrow> ChainWorld \<Rightarrow> address \<Rightarrow> (address \<times> int \<times> ChainCall) list \<Rightarrow> bool" where
  "exits N w p xs \<longleftrightarrow> (\<exists>w'. chainExec N xs w = Some w' \<and> tn_status (cw_tunnel w') = status_closed \<and>
     received w p + stakeOf (cw_tunnel w) p \<le> received w' p)"

lemma credit:
  assumes "pc_address (tn_party_a t) \<noteq> pc_address (tn_party_b t)" "is_party t p"
    "v \<le> (if p = pc_address (tn_party_a t) then a else b)"
    "cw_out w' = cw_out w @ [(pc_address (tn_party_a t), a), (pc_address (tn_party_b t), b)]"
  shows "received w p + v \<le> received w' p"
  using assms by (auto simp: received_def is_party_def)

lemma exit_close:
  assumes "tunnelOk (cw_tunnel w)" "is_party (cw_tunnel w) p" "cw_now w \<le> now" "u64 now" "typedCall c" "paidIn c = 0"
    "\<exists>a b t'. chain_call N p now c (cw_tunnel w) =
        Inr (t', [(pc_address (tn_party_a (cw_tunnel w)), a), (pc_address (tn_party_b (cw_tunnel w)), b)]) \<and>
      tn_status t' = status_closed \<and> stakeOf (cw_tunnel w) p \<le> (if p = pc_address (tn_party_a (cw_tunnel w)) then a else b)"
  shows "exits N w p [(p, now, c)]"
proof -
  from assms(7) obtain a b t' where call: "chain_call N p now c (cw_tunnel w) =
        Inr (t', [(pc_address (tn_party_a (cw_tunnel w)), a), (pc_address (tn_party_b (cw_tunnel w)), b)])"
    and t': "tn_status t' = status_closed"
    and v: "stakeOf (cw_tunnel w) p \<le> (if p = pc_address (tn_party_a (cw_tunnel w)) then a else b)"
    by blast
  show ?thesis
    unfolding exits_def using assms(1-6) call t'
      credit [OF _ assms(2) v, of "\<lparr>cw_tunnel = t', cw_now = now, cw_in = cw_in w, cw_out = cw_out w @
        [(pc_address (tn_party_a (cw_tunnel w)), a), (pc_address (tn_party_b (cw_tunnel w)), b)]\<rparr>" w]
    by (simp add: tunnelOk_def)
qed

lemma exit_by_force:
  assumes "tunnelOk (cw_tunnel w)" "tn_status (cw_tunnel w) = status_disputed" "is_party (cw_tunnel w) p"
    "tn_dispute_raiser (cw_tunnel w) = Some p" "sc_timestamp (tn_state (cw_tunnel w)) + tn_timeout_ms (cw_tunnel w) \<le> now"
    "cw_now w \<le> now" "u64 now"
  shows "exits N w p [(p, now, CForceClose)]"
  using force_close_pays_stake [OF assms(1-5,7)] assms by (intro exit_close) (simp_all only: chain_call.simps typedCall.simps paidIn.simps)

lemma exits_Cons:
  assumes "cw_now w \<le> now" "u64 now" "typedCall c" "chain_call N s now c (cw_tunnel w) = Inr (t1, [])" "paidIn c = 0"
    "stakeOf t1 p = stakeOf (cw_tunnel w) p" "exits N (w\<lparr>cw_tunnel := t1, cw_now := now\<rparr>) p xs"
  shows "exits N w p ((s, now, c) # xs)"
  using assms by (cases w) (auto simp: exits_def received_def)

lemma exitPlan_exits:
  assumes ok: "worldOk w" and p: "is_party (cw_tunnel w) p" "0 < stakeOf (cw_tunnel w) p"
    and clock: "u64 (cw_now w + tn_timeout_ms (cw_tunnel w))"
  shows "exits N w p (exitPlan w p)"
proof -
  let ?t = "cw_tunnel w"
  have t: "tunnelOk ?t" "u64 (cw_now w)" "sc_timestamp (tn_state ?t) \<le> cw_now w" "0 < tn_timeout_ms ?t"
    using ok by (auto simp: worldOk_def tunnelOk_def disputeOk_def)
  have sound1: "sound ?t t1 [] 0" if "raise_dispute_current_state ?t p now = Inr t1" for t1 now
    using raise_current_sound [OF t(1) that] .
  consider (created) "tn_status ?t = status_created" | (active) "tn_status ?t = status_active"
    | (mine) "tn_status ?t = status_disputed" "tn_dispute_raiser ?t = Some p"
    | (theirs) "tn_status ?t = status_disputed" "tn_dispute_raiser ?t \<noteq> Some p"
    using p(2) by (auto simp: stakeOf_def Let_def split: if_split_asm)
  then show ?thesis
  proof cases
    case created
    with exit_created [OF t(1) _ p, of "cw_now w"] t(2) show ?thesis
      by (auto simp: exits_def exitPlan_def toSender_def received_def bindE_def)
  next
    case active
    define t1 where "t1 = ?t\<lparr>tn_last_disputed_nonce := sc_nonce (tn_state ?t) + 1, tn_status := status_disputed,
      tn_dispute_raiser := Some p, tn_state := (tn_state ?t)\<lparr>sc_timestamp := cw_now w\<rparr>, tn_last_activity := cw_now w\<rparr>"
    have raise: "raise_dispute_current_state ?t p (cw_now w) = Inr t1"
      using t active p(1) by (simp add: raise_dispute_current_state_Inr t1_def tunnelOk_def disputeOk_def)
    have "tunnelOk t1" using sound1 [OF raise] by (simp add: sound_def)
    moreover have same: "is_party t1 p" "stakeOf t1 p = stakeOf ?t p"
      using p(1) active by (simp_all add: t1_def is_party_def stakeOf_def)
    moreover have "tn_status t1 = status_disputed" "tn_dispute_raiser t1 = Some p" "tn_timeout_ms t1 = tn_timeout_ms ?t"
        "sc_timestamp (tn_state t1) = cw_now w"
      by (simp_all add: t1_def)
    ultimately have "exits N (w\<lparr>cw_tunnel := t1\<rparr>) p [(p, cw_now w + tn_timeout_ms ?t, CForceClose)]"
      using t clock by (intro exit_by_force) simp_all
    with t(2) raise same(2) have "exits N w p ((p, cw_now w, CRaiseCurrent) # [(p, cw_now w + tn_timeout_ms ?t, CForceClose)])"
      by (intro exits_Cons [of w "cw_now w" CRaiseCurrent N p t1]) (simp_all add: quietly_def)
    then show ?thesis using active by (simp add: exitPlan_def Let_def)
  next
    case mine
    then have "exits N w p [(p, cw_now w + tn_timeout_ms ?t, CForceClose)]"
      using t p clock by (intro exit_by_force) simp_all
    then show ?thesis using mine by (simp add: exitPlan_def Let_def)
  next
    case theirs
    then have "exits N w p [(p, cw_now w, CAgree)]"
      using t p agree_pays_stake [OF t(1) theirs(1) p(1) theirs(2)]
      by (intro exit_close) (simp_all only: chain_call.simps typedCall.simps paidIn.simps)
    then show ?thesis using theirs by (simp add: exitPlan_def Let_def)
  qed
qed

subsection \<open>Example tunnel\<close>

definition exampleNatives :: Natives where
  "exampleNatives = \<lparr>ed25519_verify = (\<lambda>signature publicKey message. signature = take 64 (publicKey @ rev message @ replicate 64 0)),
     bls12381_min_sig_verify = (\<lambda>_ _ _. False), bls12381_min_pk_verify = (\<lambda>_ _ _. False),
     secp256k1_verify = (\<lambda>_ _ _ _. False), blake2b256 = (\<lambda>bs. take 32 (bs @ replicate 32 0))\<rparr>"

definition exampleAddr :: "bool \<Rightarrow> address" where
  "exampleAddr isA = replicate 32 (if isA then 10 else 11)"

definition exampleParty :: "bool \<Rightarrow> PartyConfig" where
  "exampleParty isA = \<lparr>pc_address = exampleAddr isA, pc_public_key = replicate 32 (if isA then 1 else 2),
     pc_signature_type = SIG_TYPE_ED25519\<rparr>"

text \<open>A tunnel with a timeout of one second and a penalty of 5, and the world after both deposits.\<close>

definition exampleBuilt :: "Tunnel result" where
  "exampleBuilt = build_tunnel (replicate 32 5) (exampleParty True) (exampleParty False) 1000 5 100"

definition exampleDeposits :: "(address \<times> int \<times> ChainCall) list" where
  "exampleDeposits = [(exampleAddr True, 110, CDepositA 60), (exampleAddr False, 120, CDeposit 40)]"

text \<open>The example tunnel, evaluated.\<close>

definition exampleTunnel :: Tunnel where
  "exampleTunnel = \<lparr>tn_id = replicate 32 5, tn_version = CURRENT_VERSION, tn_party_a = exampleParty True, tn_party_b = exampleParty False,
     tn_balance = 0, tn_party_a_deposit = 0, tn_party_b_deposit = 0, tn_status = status_created,
     tn_state = \<lparr>sc_state_hash = [], sc_nonce = 0, sc_timestamp = 100, sc_party_a_balance = 0, sc_party_b_balance = 0\<rparr>,
     tn_created_at = 100, tn_last_activity = 100, tn_timeout_ms = 1000, tn_penalty_amount = 5, tn_dispute_raiser = None,
     tn_last_disputed_nonce = 0, tn_htlcs = [], tn_counters = [], tn_referee = None\<rparr>"

definition exampleWorld :: ChainWorld where
  "exampleWorld = \<lparr>cw_tunnel = exampleTunnel\<lparr>tn_balance := 100, tn_party_a_deposit := 60, tn_party_b_deposit := 40,
       tn_status := status_active, tn_last_activity := 120,
       tn_state := (tn_state exampleTunnel)\<lparr>sc_party_a_balance := 60, sc_party_b_balance := 40\<rparr>\<rparr>,
     cw_now = 120, cw_in = 100, cw_out = []\<rparr>"

lemma exampleBuilt_eq: "exampleBuilt = Inr exampleTunnel"
  by code_simp

lemma exampleDeposits_run: "chainExec N exampleDeposits (freshWorld exampleTunnel) = Some exampleWorld"
  by (simp add: exampleDeposits_def exampleWorld_def freshWorld_def exampleTunnel_def exampleParty_def exampleAddr_def u64_def
      deposit_party_a_def deposit_def deposit_internal_def assertM_def bindE_def addU64_def quietly_def maybe_activate_def
      MIN_DEPOSIT_def U64_MAX_def)

lemma exampleWorld_run: "chainRun N (\<lambda>s c. True) (freshWorld exampleTunnel) exampleWorld"
  by (rule chainExec_run [OF exampleDeposits_run]) simp

text \<open>C4: the contract is solvent. Whatever transactions anybody sends, in any order, to a tunnel built by build_tunnel, the coins
  paid in are exactly those in its balance, those in its open HTLCs and those already paid out; while the tunnel is active or
  disputed the recorded split of the state adds up to the balance, after closing the balance is empty, and a destroyed tunnel
  has paid out every coin.\<close>

theorem contract_solvent:
  assumes "build_tunnel uid a b timeout_ms penalty_amount now = Inr t0" "u64 now"
    and "chainRun N (\<lambda>sender call. True) (freshWorld t0) w"
  shows "let t = cw_tunnel w; paid = sum_list (map snd (cw_out w))
    in tn_balance t + lockedTotal t + paid = cw_in w \<and> 0 \<le> tn_balance t \<and> 0 \<le> lockedTotal t \<and>
       (tn_status t = status_active \<or> tn_status t = status_disputed \<longrightarrow>
          0 \<le> sc_party_a_balance (tn_state t) \<and> 0 \<le> sc_party_b_balance (tn_state t) \<and>
          sc_party_a_balance (tn_state t) + sc_party_b_balance (tn_state t) = tn_balance t) \<and>
       (tn_status t = status_closed \<longrightarrow> tn_balance t = 0) \<and>
       (tn_status t = status_destroyed \<longrightarrow> paid = cw_in w)"
proof -
  have "worldOk w" using chainRun_ok [OF assms(3)] build_tunnel_ok [OF assms(1,2)] .
  moreover have "0 \<le> lockedTotal t" if "htlcsOk t" for t
    using that unfolding lockedTotal_def by (intro sum_list_nonneg) (fastforce simp: htlcsOk_def)
  ultimately show ?thesis
    by (auto simp: worldOk_def tunnelOk_def balanceOk_def held_def lockedTotal_def Let_def)
qed

theorem contract_solvent_witness:
  "\<exists>w. chainRun exampleNatives (\<lambda>sender call. True) (freshWorld exampleTunnel) w \<and> tn_status (cw_tunnel w) = status_active \<and>
     cw_in w = 100 \<and> sc_party_a_balance (tn_state (cw_tunnel w)) + sc_party_b_balance (tn_state (cw_tunnel w)) = tn_balance (cw_tunnel w)"
  using contract_solvent [OF exampleBuilt_eq [unfolded exampleBuilt_def] _ exampleWorld_run [of exampleNatives]] exampleWorld_run
  by (intro exI [of _ exampleWorld]) (simp add: exampleWorld_def u64_def Let_def)

text \<open>C6: nobody can be locked in. In every world reachable by any transactions, a party with something at stake can close
  the tunnel by its own transactions alone (withdrawing before activation, accepting the dispute of the other party, or raising a
  dispute and forcing the close after the timeout) and is paid at least its recorded stake, as long as the clock has
  not run out of u64.\<close>

theorem party_can_always_exit:
  assumes "build_tunnel uid a b timeout_ms penalty_amount now = Inr t0" "u64 now"
    and "chainRun N (\<lambda>sender call. True) (freshWorld t0) w"
    and "is_party (cw_tunnel w) p" "0 < stakeOf (cw_tunnel w) p" "u64 (cw_now w + tn_timeout_ms (cw_tunnel w))"
  shows "\<exists>w'. chainRun N (\<lambda>sender call. sender = p) w w' \<and> chainExec N (exitPlan w p) w = Some w' \<and>
    tn_status (cw_tunnel w') = status_closed \<and> received w p + stakeOf (cw_tunnel w) p \<le> received w' p"
proof -
  have "worldOk w" using chainRun_ok [OF assms(3)] build_tunnel_ok [OF assms(1,2)] .
  then obtain w' where w': "chainExec N (exitPlan w p) w = Some w'" "tn_status (cw_tunnel w') = status_closed"
      "received w p + stakeOf (cw_tunnel w) p \<le> received w' p"
    using exitPlan_exits [OF _ assms(4-6)] by (auto simp: exits_def)
  have "chainRun N (\<lambda>sender call. sender = p) w w'"
    by (rule chainExec_run [OF w'(1)]) (auto simp: exitPlan_def Let_def)
  with w' show ?thesis by blast
qed

theorem party_can_always_exit_witness:
  "\<exists>w'. chainExec exampleNatives (exitPlan exampleWorld (exampleAddr False)) exampleWorld = Some w' \<and>
     tn_status (cw_tunnel w') = status_closed \<and> 40 \<le> received w' (exampleAddr False)"
proof -
  have p: "is_party (cw_tunnel exampleWorld) (exampleAddr False)" "stakeOf (cw_tunnel exampleWorld) (exampleAddr False) = 40"
      "received exampleWorld (exampleAddr False) = 0"
    by (simp_all add: is_party_def stakeOf_def received_def exampleWorld_def exampleTunnel_def exampleParty_def exampleAddr_def)
  then show ?thesis
    using party_can_always_exit [OF exampleBuilt_eq [unfolded exampleBuilt_def] _ exampleWorld_run [of exampleNatives] p(1)]
    by (fastforce simp: u64_def exampleWorld_def exampleTunnel_def)
qed

end
