(* ===== verification/Chain_Messages.thy ===== *)
theory Chain_Messages
imports On_Chain
begin

text \<open>The bytes the SDK signs (Wire) and the bytes the contract rebuilds and verifies (On_Chain) are the same, for every message
  the tunnel contract checks; with the parser and the domain separation of Wire this makes the contract's messages
  injective and separated too.\<close>

text \<open>What the contract serializes for a message of the SDK.\<close>

fun contractMessage :: "signed_message \<Rightarrow> bytes result" where
  "contractMessage (MStateUpdate u) =
     bindE (addressToBytes32 (su_tunnelId u)) (\<lambda>t.
     Inr (serialize_state_update \<lparr>ud_tunnel_id = t, ud_state_hash = su_stateHash u, ud_nonce = su_nonce u,
       ud_timestamp = su_timestamp u, ud_party_a_balance = su_partyABalance u, ud_party_b_balance = su_partyBBalance u\<rparr>))"
| "contractMessage (MSettlement s) =
     bindE (addressToBytes32 (st_tunnelId s)) (\<lambda>t.
     Inr (serialize_settlement \<lparr>sd_tunnel_id = t, sd_party_a_balance = st_partyABalance s,
       sd_party_b_balance = st_partyBBalance s, sd_final_nonce = st_finalNonce s, sd_timestamp = st_timestamp s\<rparr>))"
| "contractMessage (MSettlementWithRoot s) =
     bindE (addressToBytes32 (st_tunnelId s)) (\<lambda>t.
     Inr (serialize_settlement_with_root \<lparr>sd_tunnel_id = t, sd_party_a_balance = st_partyABalance s,
       sd_party_b_balance = st_partyBBalance s, sd_final_nonce = st_finalNonce s, sd_timestamp = st_timestamp s,
       sd_transcript_root = st_transcriptRoot s\<rparr>))"
| "contractMessage (MHtlcLock h) =
     bindE (addressToBytes32 (hl_tunnelId h)) (\<lambda>t.
     bindE (addressToBytes32 (hl_sender h)) (\<lambda>s.
     bindE (addressToBytes32 (hl_receiver h)) (\<lambda>r.
     Inr (serialize_htlc_lock \<lparr>ld_tunnel_id = t, ld_payment_hash = hl_paymentHash h, ld_amount = hl_amount h,
       ld_sender = s, ld_receiver = r, ld_expiry_ms = hl_expiryMs h\<rparr>))))"
| "contractMessage (MRefereeAssignment tid r) =
     bindE (addressToBytes32 tid) (\<lambda>t. bindE (addressToBytes32 r) (\<lambda>ra. Inr (serialize_referee_assignment t ra)))"
| "contractMessage (MSpendAuthorization a) = Inl (Error ''not a tunnel message'')"

lemmas contract_serializers = serialize_state_update_def serialize_settlement_def serialize_settlement_with_root_def
  serialize_htlc_lock_def serialize_referee_assignment_def

lemma serialize_state_update_sdk:
  assumes "length t = 32" "u64 n" "u64 ts" "u64 a" "u64 b"
  shows "serializeMessage (MStateUpdate \<lparr>su_tunnelId = canonicalAddress t, su_stateHash = h, su_nonce = n, su_timestamp = ts,
      su_partyABalance = a, su_partyBBalance = b\<rparr>) =
    Inr (serialize_state_update \<lparr>ud_tunnel_id = t, ud_state_hash = h, ud_nonce = n, ud_timestamp = ts,
      ud_party_a_balance = a, ud_party_b_balance = b\<rparr>)"
  using assms by (simp add: serializeStateUpdate_Inr_iff contract_serializers u64_to_be_bytes_eq domain_defs)

lemma serialize_settlement_sdk:
  assumes "length t = 32" "u64 a" "u64 b" "u64 n" "u64 ts"
  shows "serializeMessage (MSettlement \<lparr>st_tunnelId = canonicalAddress t, st_partyABalance = a, st_partyBBalance = b,
      st_finalNonce = n, st_timestamp = ts\<rparr>) =
    Inr (serialize_settlement \<lparr>sd_tunnel_id = t, sd_party_a_balance = a, sd_party_b_balance = b, sd_final_nonce = n,
      sd_timestamp = ts\<rparr>)"
  using assms by (simp add: serializeSettlement_def contract_serializers u64_to_be_bytes_eq domain_defs result_simps)

lemma serialize_settlement_with_root_sdk:
  assumes "length t = 32" "u64 a" "u64 b" "u64 n" "u64 ts" "length r = 32"
  shows "serializeMessage (MSettlementWithRoot \<lparr>st_tunnelId = canonicalAddress t, st_partyABalance = a, st_partyBBalance = b,
      st_finalNonce = n, st_timestamp = ts, st_transcriptRoot = r\<rparr>) =
    Inr (serialize_settlement_with_root \<lparr>sd_tunnel_id = t, sd_party_a_balance = a, sd_party_b_balance = b,
      sd_final_nonce = n, sd_timestamp = ts, sd_transcript_root = r\<rparr>)"
  using assms by (simp add: serializeSettlementWithRoot_def contract_serializers u64_to_be_bytes_eq domain_defs result_simps)

lemma messages_differ:
  "serializeMessage x = Inr m \<Longrightarrow> serializeMessage y = Inr m' \<Longrightarrow> messageKind x \<noteq> messageKind y \<Longrightarrow> m \<noteq> m'"
  using serializeMessage_kind_aux [of x m y] serializeMessage_length_1 serializeMessage_length_2 by fastforce

lemma state_update_not_settlement:
  assumes "length t = 32" "u64 n" "u64 ts" "u64 a" "u64 b" "length t' = 32" "u64 a'" "u64 b'" "u64 n'" "u64 ts'"
  shows "serialize_state_update \<lparr>ud_tunnel_id = t, ud_state_hash = h, ud_nonce = n, ud_timestamp = ts,
      ud_party_a_balance = a, ud_party_b_balance = b\<rparr> \<noteq>
    serialize_settlement \<lparr>sd_tunnel_id = t', sd_party_a_balance = a', sd_party_b_balance = b', sd_final_nonce = n',
      sd_timestamp = ts'\<rparr>"
  by (rule messages_differ [OF serialize_state_update_sdk [OF assms(1-5)] serialize_settlement_sdk [OF assms(6-10)]]) simp

lemma state_update_not_settlement_with_root:
  assumes "length t = 32" "u64 n" "u64 ts" "u64 a" "u64 b" "length t' = 32" "u64 a'" "u64 b'" "u64 n'" "u64 ts'" "length r = 32"
  shows "serialize_state_update \<lparr>ud_tunnel_id = t, ud_state_hash = h, ud_nonce = n, ud_timestamp = ts,
      ud_party_a_balance = a, ud_party_b_balance = b\<rparr> \<noteq>
    serialize_settlement_with_root \<lparr>sd_tunnel_id = t', sd_party_a_balance = a', sd_party_b_balance = b', sd_final_nonce = n',
      sd_timestamp = ts', sd_transcript_root = r\<rparr>"
  by (rule messages_differ [OF serialize_state_update_sdk [OF assms(1-5)] serialize_settlement_with_root_sdk [OF assms(6-11)]]) simp

lemma state_update_inj:
  assumes "length t = 32" "length h = 32" "u64 n" "u64 ts" "u64 a" "u64 b" "length h' = 32" "u64 n'" "u64 ts'" "u64 a'" "u64 b'"
    and "serialize_state_update \<lparr>ud_tunnel_id = t, ud_state_hash = h, ud_nonce = n, ud_timestamp = ts,
      ud_party_a_balance = a, ud_party_b_balance = b\<rparr> =
    serialize_state_update \<lparr>ud_tunnel_id = t, ud_state_hash = h', ud_nonce = n', ud_timestamp = ts',
      ud_party_a_balance = a', ud_party_b_balance = b'\<rparr>"
  shows "h = h' \<and> n = n' \<and> ts = ts' \<and> a = a' \<and> b = b'"
proof -
  have len: "length (beBytes 8 v) = 8" for v by simp
  have "h @ beBytes 8 n @ beBytes 8 ts @ beBytes 8 a @ beBytes 8 b = h' @ beBytes 8 n' @ beBytes 8 ts' @ beBytes 8 a' @ beBytes 8 b'"
    using assms(12) assms(3-6,8-11) by (simp add: contract_serializers u64_to_be_bytes_eq)
  then have "h = h' \<and> beBytes 8 n = beBytes 8 n' \<and> beBytes 8 ts = beBytes 8 ts' \<and> beBytes 8 a = beBytes 8 a' \<and> beBytes 8 b = beBytes 8 b'"
    using assms(2,7) len by (metis append_eq_append_conv)
  then show ?thesis using assms(3-6,8-11) by (simp add: beBytes_8_inj)
qed

text \<open>C17: the SDK signs exactly the bytes the contract verifies: for each kind of message of the tunnel contract (state update,
  settlement, root-anchored settlement, HTLC lock, referee assignment), whenever the SDK's serializer returns a message,
  the contract's serializer, given the same field values, builds the same bytes.\<close>

theorem sdk_and_contract_sign_the_same_bytes:
  assumes "serializeMessage x = Inr m" "\<And>a. x \<noteq> MSpendAuthorization a"
  shows "contractMessage x = Inr m"
  using assms by (cases x)
    (auto simp: serializeStateUpdate_def serializeSettlement_def serializeSettlementWithRoot_def serializeHtlcLock_def
      serializeRefereeAssignment_def contract_serializers u64_to_be_bytes_eq domain_defs result_simps split: if_split_asm)

theorem sdk_and_contract_sign_the_same_bytes_witness:
  "\<exists>m. serializeMessage (MStateUpdate exampleUpdate) = Inr m \<and> contractMessage (MStateUpdate exampleUpdate) = Inr m \<and> length m = 120"
proof -
  obtain m where m: "serializeStateUpdate exampleUpdate = Inr m"
    using exampleUpdate_ok by (cases "serializeStateUpdate exampleUpdate") (auto simp: isOk_def)
  then have "length m = 120" by (auto simp: serializeStateUpdate_Inr_iff exampleUpdate_def dest: addressToBytes32_length)
  with m sdk_and_contract_sign_the_same_bytes [of "MStateUpdate exampleUpdate" m] show ?thesis by auto
qed

end
