(* ===== verification/Dispute_Safety.thy ===== *)
theory Dispute_Safety
imports Chain_Solvency Chain_Messages
begin

text \<open>What a dispute promises an honest party. A party that answers a dispute with the latest state it co-signed has that state
  on chain, and nothing the other party or anybody else sends afterwards can take it away: the tunnel can only be closed
  with that party's share of this state, less the agreed penalty at most.\<close>

definition partyOf :: "Tunnel \<Rightarrow> bool \<Rightarrow> PartyConfig" where
  "partyOf t isA = (if isA then tn_party_a t else tn_party_b t)"

definition shareOf :: "bool \<Rightarrow> int \<Rightarrow> int \<Rightarrow> int" where
  "shareOf isA a b = (if isA then a else b)"

text \<open>The messages of this tunnel that carry a valid signature of the party: state updates up to nonce \<open>n\<close>, and settlements
  that pay it at least \<open>v\<close>.\<close>

definition signsUpTo :: "Natives \<Rightarrow> Tunnel \<Rightarrow> bool \<Rightarrow> int \<Rightarrow> int \<Rightarrow> bool" where
  "signsUpTo N t isA n v \<longleftrightarrow>
     (\<forall>m sg. u64Submitted m \<longrightarrow> length (sm_state_hash m) = 32 \<longrightarrow>
        signedBy N (partyOf t isA) (serialize_state_update (updateData t m)) sg \<longrightarrow> sm_nonce m \<le> n) \<and>
     (\<forall>a b k ts sg. u64 a \<longrightarrow> u64 b \<longrightarrow> u64 k \<longrightarrow> u64 ts \<longrightarrow>
        signedBy N (partyOf t isA) (serialize_settlement \<lparr>sd_tunnel_id = tn_id t, sd_party_a_balance = a,
          sd_party_b_balance = b, sd_final_nonce = k, sd_timestamp = ts\<rparr>) sg \<longrightarrow> v \<le> shareOf isA a b) \<and>
     (\<forall>a b k ts r sg. u64 a \<longrightarrow> u64 b \<longrightarrow> u64 k \<longrightarrow> u64 ts \<longrightarrow> length r = 32 \<longrightarrow>
        signedBy N (partyOf t isA) (serialize_settlement_with_root \<lparr>sd_tunnel_id = tn_id t, sd_party_a_balance = a,
          sd_party_b_balance = b, sd_final_nonce = k, sd_timestamp = ts, sd_transcript_root = r\<rparr>) sg \<longrightarrow>
        v \<le> shareOf isA a b)"

text \<open>A transaction of somebody else. The settlement by a verified proof is visible only inside the package and is left to the
  verifier that calls it.\<close>

fun verifierCall :: "ChainCall \<Rightarrow> bool" where
  "verifierCall (CVerifiedResolve a b) = True"
| "verifierCall c = False"

definition byOthers :: "address \<Rightarrow> address \<Rightarrow> ChainCall \<Rightarrow> bool" where
  "byOthers p sender c \<longleftrightarrow> sender \<noteq> p \<and> \<not> verifierCall c"

definition live :: "Tunnel \<Rightarrow> bool" where
  "live t \<longleftrightarrow> tn_status t = status_active \<or> tn_status t = status_disputed"

definition over :: "Tunnel \<Rightarrow> bool" where
  "over t \<longleftrightarrow> tn_status t = status_closed \<or> tn_status t = status_destroyed"

text \<open>The party's state is on chain, and no referee is assigned.\<close>

definition onRecord :: "Tunnel \<Rightarrow> bool \<Rightarrow> int \<Rightarrow> int \<Rightarrow> bool" where
  "onRecord t isA n v \<longleftrightarrow> live t \<and> sc_nonce (tn_state t) = n \<and>
     shareOf isA (sc_party_a_balance (tn_state t)) (sc_party_b_balance (tn_state t)) = v \<and> tn_referee t = None"

definition creditOf :: "transfer list \<Rightarrow> address \<Rightarrow> int" where
  "creditOf out p = sum_list (map snd (filter (\<lambda>x. fst x = p) out))"

definition penalty :: "Tunnel \<Rightarrow> int" where
  "penalty t = max 0 (tn_penalty_amount t)"

text \<open>What one transaction of somebody else may do.\<close>

definition harmless :: "Tunnel \<Rightarrow> bool \<Rightarrow> int \<Rightarrow> int \<Rightarrow> Tunnel \<Rightarrow> transfer list \<Rightarrow> bool" where
  "harmless t isA n v t' out \<longleftrightarrow>
     (let p = pc_address (partyOf t isA)
      in onRecord t' isA n v \<and> 0 \<le> creditOf out p \<or> over t' \<and> v - penalty t \<le> creditOf out p)"

lemma creditOf_pay_out:
  assumes "tunnelOk t" "pay_out t a b now = (t', out)"
  shows "creditOf out (pc_address (partyOf t isA)) = shareOf isA a b \<and> over t'"
  using assms by (auto simp: pay_out_def creditOf_def partyOf_def shareOf_def over_def tunnelOk_def)

lemma harmless_pay:
  assumes "tunnelOk t" "(t', out) = pay_out t a b now" "v - penalty t \<le> shareOf isA a b"
  shows "harmless t isA n v t' out"
  using creditOf_pay_out [OF assms(1) assms(2) [symmetric], of isA] assms(3) by (simp add: harmless_def Let_def)

lemma harmless_state:
  assumes "onRecord t' isA n v"
  shows "harmless t isA n v t' []"
  using assms by (simp add: harmless_def creditOf_def)

lemma counterparty:
  assumes "is_party t s" "s \<noteq> pc_address (partyOf t isA)" "tunnelOk t"
  shows "(if s = pc_address (tn_party_a t) then tn_party_b t else tn_party_a t) = partyOf t isA"
  using assms by (auto simp: is_party_def partyOf_def tunnelOk_def split: if_split_asm)

lemma no_newer_signature:
  assumes "signsUpTo N t isA n v" "onRecord t isA n v" "u64Submitted m" "length (sm_state_hash m) = 32"
    "sm_nonce m > sc_nonce (tn_state t)"
  shows "\<not> signedBy N (partyOf t isA) (serialize_state_update (updateData t m)) sg"
proof
  assume sg: "signedBy N (partyOf t isA) (serialize_state_update (updateData t m)) sg"
  have "\<forall>m sg. u64Submitted m \<longrightarrow> length (sm_state_hash m) = 32 \<longrightarrow>
      signedBy N (partyOf t isA) (serialize_state_update (updateData t m)) sg \<longrightarrow> sm_nonce m \<le> n"
    using assms(1) unfolding signsUpTo_def by (rule conjunct1)
  with assms(3,4) sg have "sm_nonce m \<le> n" by blast
  with assms(2,5) show False by (simp add: onRecord_def)
qed

lemma no_update:
  assumes "signsUpTo N t isA n v" "onRecord t isA n v" "u64Submitted m"
  shows "update_state N t m sa sb now \<noteq> Inr t'"
proof
  assume "update_state N t m sa sb now = Inr t'"
  then have "length (sm_state_hash m) = 32" "sm_nonce m > sc_nonce (tn_state t)"
      "signedBy N (partyOf t isA) (serialize_state_update (updateData t m)) (if isA then sa else sb)"
    unfolding update_state_Inr partyOf_def by auto
  with no_newer_signature [OF assms] show False by blast
qed

lemma no_resolve:
  assumes "signsUpTo N t isA n v" "onRecord t isA n v" "u64Submitted m"
  shows "resolve_dispute N t m sa sb now \<noteq> Inr t'"
proof
  assume "resolve_dispute N t m sa sb now = Inr t'"
  then have "length (sm_state_hash m) = 32" "sm_nonce m > sc_nonce (tn_state t)"
      "signedBy N (partyOf t isA) (serialize_state_update (updateData t m)) (if isA then sa else sb)"
    unfolding resolve_dispute_Inr partyOf_def by auto
  with no_newer_signature [OF assms] show False by blast
qed

lemma no_raise:
  assumes "signsUpTo N t isA n v" "onRecord t isA n v" "u64Submitted m" "tunnelOk t" "s \<noteq> pc_address (partyOf t isA)"
  shows "raise_dispute N t m sg s now \<noteq> Inr t'"
proof
  assume *: "raise_dispute N t m sg s now = Inr t'"
  then have s: "is_party t s" unfolding raise_dispute_Inr by blast
  from * have "length (sm_state_hash m) = 32" "sm_nonce m > sc_nonce (tn_state t)"
      "signedBy N (partyOf t isA) (serialize_state_update (updateData t m)) sg"
    unfolding raise_dispute_Inr counterparty [OF s assms(5,4)] by blast+
  with no_newer_signature [OF assms(1-3)] show False by blast
qed

lemma close_pays_share:
  assumes "signsUpTo N t isA n v" "tunnelOk t" "typedCall (CClose a b sa sb ts)"
    "close_cooperative N t a b sa sb ts now = Inr (t', out)"
  shows "harmless t isA n v t' out"
proof -
  let ?msg = "serialize_settlement \<lparr>sd_tunnel_id = tn_id t, sd_party_a_balance = a, sd_party_b_balance = b,
    sd_final_nonce = sc_nonce (tn_state t) + 1, sd_timestamp = ts\<rparr>"
  have c: "signedBy N (partyOf t isA) ?msg (if isA then sa else sb)" "(t', out) = pay_out t a b now"
    using assms(4) unfolding close_cooperative_Inr Let_def partyOf_def by auto
  have k: "u64 (sc_nonce (tn_state t) + 1)"
    using assms(2) by (simp add: tunnelOk_def disputeOk_def u64_def U64_MAX_def)
  have "\<forall>a b k ts sg. u64 a \<longrightarrow> u64 b \<longrightarrow> u64 k \<longrightarrow> u64 ts \<longrightarrow>
      signedBy N (partyOf t isA) (serialize_settlement \<lparr>sd_tunnel_id = tn_id t, sd_party_a_balance = a,
        sd_party_b_balance = b, sd_final_nonce = k, sd_timestamp = ts\<rparr>) sg \<longrightarrow> v \<le> shareOf isA a b"
    using assms(1) unfolding signsUpTo_def by (elim conjE)
  with c(1) k assms(3) have "v \<le> shareOf isA a b" by (meson typedCall.simps)
  then show ?thesis using harmless_pay [OF assms(2) c(2)] by (simp add: penalty_def)
qed

lemma close_root_pays_share:
  assumes "signsUpTo N t isA n v" "tunnelOk t" "typedCall (CCloseRoot a b sa sb ts r)"
    "close_cooperative_with_root N t a b sa sb ts r now = Inr (t', out)"
  shows "harmless t isA n v t' out"
proof -
  let ?msg = "serialize_settlement_with_root \<lparr>sd_tunnel_id = tn_id t, sd_party_a_balance = a, sd_party_b_balance = b,
    sd_final_nonce = sc_nonce (tn_state t) + 1, sd_timestamp = ts, sd_transcript_root = r\<rparr>"
  have c: "signedBy N (partyOf t isA) ?msg (if isA then sa else sb)" "(t', out) = pay_out t a b now" "length r = 32"
    using assms(4) unfolding close_cooperative_with_root_Inr Let_def partyOf_def by auto
  have k: "u64 (sc_nonce (tn_state t) + 1)"
    using assms(2) by (simp add: tunnelOk_def disputeOk_def u64_def U64_MAX_def)
  have "\<forall>a b k ts r sg. u64 a \<longrightarrow> u64 b \<longrightarrow> u64 k \<longrightarrow> u64 ts \<longrightarrow> length r = 32 \<longrightarrow>
      signedBy N (partyOf t isA) (serialize_settlement_with_root \<lparr>sd_tunnel_id = tn_id t, sd_party_a_balance = a,
        sd_party_b_balance = b, sd_final_nonce = k, sd_timestamp = ts, sd_transcript_root = r\<rparr>) sg \<longrightarrow> v \<le> shareOf isA a b"
    using assms(1) unfolding signsUpTo_def by (elim conjE)
  with c(1,3) k assms(3) have "v \<le> shareOf isA a b" by (meson typedCall.simps)
  then show ?thesis using harmless_pay [OF assms(2) c(2)] by (simp add: penalty_def)
qed

lemma force_close_penalty:
  assumes "tunnelOk t" "onRecord t isA n v" "s \<noteq> pc_address (partyOf t isA)"
    "force_close_after_timeout t s now = Inr (t', out)"
  shows "harmless t isA n v t' out"
proof -
  obtain a b where ab: "penalised t s = (a, b)" by force
  have c: "(t', out) = pay_out t a b now" "tn_status t = status_disputed" "tn_dispute_raiser t = Some s"
    using assms(4) ab unfolding force_close_Inr by auto
  have "is_party t s" using assms(1) c(2,3) by (simp add: tunnelOk_def disputeOk_def)
  then have "v - penalty t \<le> shareOf isA a b"
    using ab assms(1-3) unfolding penalised_def
    by (cases isA) (auto simp: Let_def shareOf_def penalty_def onRecord_def is_party_def partyOf_def tunnelOk_def
        split: if_split_asm)
  then show ?thesis using harmless_pay [OF assms(1) c(1)] by simp
qed

lemma agree_pays_share:
  assumes "tunnelOk t" "onRecord t isA n v" "agree_to_dispute t s now = Inr (t', out)"
  shows "harmless t isA n v t' out"
  using assms(2,3) by (intro harmless_pay [OF assms(1)]) (auto simp: agree_Inr onRecord_def penalty_def)

lemma raise_current_keeps:
  "onRecord t isA n v \<Longrightarrow> raise_dispute_current_state t s now = Inr t' \<Longrightarrow> harmless t isA n v t' []"
  by (rule harmless_state) (auto simp: raise_dispute_current_state_Inr onRecord_def live_def)

lemma extend_keeps:
  "onRecord t isA n v \<Longrightarrow> extend_timeout t d s now = Inr t' \<Longrightarrow> harmless t isA n v t' []"
  by (rule harmless_state) (auto simp: extend_timeout_Inr onRecord_def live_def)

lemma lock_keeps:
  assumes "tunnelOk t" "onRecord t isA n v" "s \<noteq> pc_address (partyOf t isA)" "lock_htlc N t k x r e sg s now = Inr t'"
  shows "harmless t isA n v t' []"
proof (rule harmless_state)
  let ?A = "s = pc_address (tn_party_a t)"
  have s: "is_party t s" and c: "lock_htlc_internal t k x s r e ?A now = Inr t'"
    using assms(4) by (simp_all add: lock_htlc_def result_simps Let_def)
  have A: "?A \<longleftrightarrow> \<not> isA"
    using s assms(1,3) by (auto simp: is_party_def partyOf_def tunnelOk_def split: if_split_asm)
  obtain t0 t1 st where "update_party_htlc_counter t0 s True x = Inr t1" "t' = t1\<lparr>tn_state := st, tn_last_activity := now\<rparr>"
      "tn_status t0 = tn_status t" "tn_referee t0 = tn_referee t" "sc_nonce st = sc_nonce (tn_state t)"
      "?A \<longrightarrow> sc_party_b_balance st = sc_party_b_balance (tn_state t)"
      "\<not> ?A \<longrightarrow> sc_party_a_balance st = sc_party_a_balance (tn_state t)"
    using c unfolding lock_htlc_internal_def Let_def by (fastforce simp: result_simps)
  then show "onRecord t' isA n v"
    using assms(2) A by (auto elim!: update_counter_cases simp: onRecord_def live_def shareOf_def)
qed

text \<open>Claiming or expiring an HTLC pays somebody and leaves status, state and referee alone.\<close>

definition paysHtlc :: "Tunnel \<Rightarrow> Tunnel \<Rightarrow> transfer list \<Rightarrow> bool" where
  "paysHtlc t t' out \<longleftrightarrow> tn_status t' = tn_status t \<and> tn_state t' = tn_state t \<and> tn_referee t' = tn_referee t \<and>
     (\<forall>(q, x)\<in>set out. 0 \<le> x)"

lemma htlc_amount_pos: "tunnelOk t \<Longrightarrow> map_of (tn_htlcs t) k = Some h \<Longrightarrow> 0 \<le> ht_balance h"
  by (drule map_of_SomeD) (force simp: tunnelOk_def htlcsOk_def)

lemma claim_paysHtlc: "tunnelOk t \<Longrightarrow> claim_htlc_in_tunnel N t k pre s now = Inr (t', out) \<Longrightarrow> paysHtlc t t' out"
  by (auto simp: claim_htlc_in_tunnel_def result_simps Let_def paysHtlc_def htlc_amount_pos
      elim!: update_counter_cases split: option.split_asm)

lemma expire_paysHtlc: "tunnelOk t \<Longrightarrow> expire_htlc_in_tunnel t k s now = Inr (t', out) \<Longrightarrow> paysHtlc t t' out"
  by (auto simp: expire_htlc_in_tunnel_def result_simps Let_def paysHtlc_def htlc_amount_pos
      elim!: update_counter_cases split: option.split_asm)

lemma creditOf_nonneg: "(\<forall>(q, x)\<in>set out. 0 \<le> x) \<Longrightarrow> 0 \<le> creditOf out p"
  unfolding creditOf_def by (intro sum_list_nonneg) auto

lemma paysHtlc_harmless: "onRecord t isA n v \<Longrightarrow> paysHtlc t t' out \<Longrightarrow> harmless t isA n v t' out"
  by (simp add: harmless_def Let_def onRecord_def live_def paysHtlc_def creditOf_nonneg)

text \<open>The calls that only a tunnel that is not live accepts.\<close>

lemma created_only:
  assumes "live t"
  shows "deposit t x s now \<noteq> Inr t'" "deposit_party_a t x s now \<noteq> Inr t'" "deposit_party_b t x s now \<noteq> Inr t'"
    "set_referee_cosigned N t r sa sb \<noteq> Inr t'" "set_referee t r s \<noteq> Inr t'"
    "withdraw_before_active t s now \<noteq> Inr (t', y)" "withdraw_timeout t s now \<noteq> Inr (t', y)" "destroy_tunnel t s \<noteq> Inr t'"
  using assms
  by (auto simp: live_def deposit_def deposit_party_a_def deposit_party_b_def deposit_internal_def set_referee_cosigned_def
      set_referee_def withdraw_before_active_def withdraw_timeout_def destroy_tunnel_def assertM_def bindE_def)

lemma no_migrate: "tunnelOk t \<Longrightarrow> migrate t s \<noteq> Inr t'"
  by (auto simp: migrate_def tunnelOk_def result_simps)

lemma no_referee: "tn_referee t = None \<Longrightarrow> resolve_dispute_external t a b s now \<noteq> Inr x"
  by (auto simp: resolve_dispute_external_def assertM_def)

lemma others_harmless:
  assumes ok: "tunnelOk t" and rec: "onRecord t isA n v" and signs: "signsUpTo N t isA n v"
    and others: "byOthers (pc_address (partyOf t isA)) s c" and ty: "typedCall c"
    and call: "chain_call N s now c t = Inr (t', out)"
  shows "harmless t isA n v t' out"
proof -
  have live: "live t" "tn_referee t = None" using rec by (simp_all add: onRecord_def)
  have s: "s \<noteq> pc_address (partyOf t isA)" using others by (simp add: byOthers_def)
  note never = created_only [OF live(1)] no_migrate [OF ok] no_referee [OF live(2)]
  show ?thesis
  proof (cases c)
    case (CUpdate m sa sb)
    with call ty show ?thesis using no_update [OF signs rec, of m sa sb now t'] by (simp add: quietly_Inr)
  next
    case (CRaise m sg)
    with call ty show ?thesis using no_raise [OF signs rec _ ok s, of m sg now t'] by (simp add: quietly_Inr)
  next
    case (CResolve m sa sb)
    with call ty show ?thesis using no_resolve [OF signs rec, of m sa sb now t'] by (simp add: quietly_Inr)
  next
    case (CClose a b sa sb ts)
    with call ty show ?thesis using close_pays_share [OF signs ok] by simp
  next
    case (CCloseRoot a b sa sb ts r)
    with call ty show ?thesis using close_root_pays_share [OF signs ok] by simp
  next
    case (CVerifiedResolve a b)
    with others show ?thesis by (simp add: byOthers_def)
  qed (use call never in \<open>auto simp: quietly_Inr toSender_Inr intro: force_close_penalty [OF ok rec s] agree_pays_share [OF ok rec]
        raise_current_keeps [OF rec] extend_keeps [OF rec] lock_keeps [OF ok rec s]
        paysHtlc_harmless [OF rec] claim_paysHtlc [OF ok] expire_paysHtlc [OF ok]\<close>)
qed

text \<open>Once the tunnel is over, nothing but open HTLCs is paid out, and it stays over.\<close>

lemma over_only:
  assumes "over t"
  shows "update_state N t m sa sb now \<noteq> Inr t'" "raise_dispute N t m sg s now \<noteq> Inr t'" "resolve_dispute N t m sa sb now \<noteq> Inr t'"
    "raise_dispute_current_state t s now \<noteq> Inr t'" "force_close_after_timeout t s now \<noteq> Inr (t', out)"
    "agree_to_dispute t s now \<noteq> Inr (t', out)" "close_cooperative N t a b sa sb ts now \<noteq> Inr (t', out)"
    "close_cooperative_with_root N t a b sa sb ts r now \<noteq> Inr (t', out)" "lock_htlc N t k x q e sg s now \<noteq> Inr t'"
    "resolve_dispute_external t a b s now \<noteq> Inr (t', out)" "resolve_dispute_verified t a b now \<noteq> Inr (t', out)"
  using assms
  by (auto simp: over_def update_state_def raise_dispute_def resolve_dispute_def raise_dispute_current_state_def
      force_close_after_timeout_def agree_to_dispute_def close_cooperative_def close_cooperative_with_root_def lock_htlc_def
      resolve_dispute_external_def resolve_dispute_verified_def assertM_def)

lemma over_created_only:
  assumes "over t"
  shows "deposit t x s now \<noteq> Inr t'" "deposit_party_a t x s now \<noteq> Inr t'" "deposit_party_b t x s now \<noteq> Inr t'"
    "set_referee_cosigned N t r sa sb \<noteq> Inr t'" "set_referee t r s \<noteq> Inr t'"
    "withdraw_before_active t s now \<noteq> Inr (t', y)" "withdraw_timeout t s now \<noteq> Inr (t', y)"
  using assms
  by (auto simp: over_def deposit_def deposit_party_a_def deposit_party_b_def deposit_internal_def set_referee_cosigned_def
      set_referee_def withdraw_before_active_def withdraw_timeout_def assertM_def bindE_def)

lemma over_stays:
  assumes "over t" "tunnelOk t" "chain_call N s now c t = Inr (t', out)"
  shows "over t' \<and> 0 \<le> creditOf out p"
proof -
  have htlc: "over t' \<and> 0 \<le> creditOf out p" if "paysHtlc t t' out"
    using that assms(1) by (simp add: paysHtlc_def over_def creditOf_nonneg)
  have rest: "over t'" if "extend_timeout t d s now = Inr t'" for d
    using that assms(1) by (auto simp: extend_timeout_Inr over_def)
  have gone: "over t'" if "destroy_tunnel t s = Inr t'"
    using that by (auto simp: destroy_tunnel_def result_simps over_def)
  have nil: "creditOf [] p = 0" by (simp add: creditOf_def)
  note never = over_only [OF assms(1)] over_created_only [OF assms(1)] no_migrate [OF assms(2)]
  show ?thesis
    using assms(3) by (cases c)
      (auto simp: quietly_Inr toSender_Inr never nil intro: rest gone htlc [THEN conjunct1] htlc [THEN conjunct2]
        claim_paysHtlc [OF assms(2)] expire_paysHtlc [OF assms(2)])
qed

lemma signsUpTo_framed: "framed t t' now \<Longrightarrow> signsUpTo N t' isA n v = signsUpTo N t isA n v"
  by (simp add: framed_def signsUpTo_def partyOf_def updateData_def)

lemma received_append: "cw_out w' = cw_out w @ out \<Longrightarrow> received w' p = received w p + creditOf out p"
  by (simp add: received_def creditOf_def)

text \<open>Identity, parties and penalty are fixed for the life of a tunnel.\<close>

definition sameTunnel :: "Tunnel \<Rightarrow> Tunnel \<Rightarrow> bool" where
  "sameTunnel t t' \<longleftrightarrow> tn_id t' = tn_id t \<and> tn_party_a t' = tn_party_a t \<and> tn_party_b t' = tn_party_b t \<and>
     tn_penalty_amount t' = tn_penalty_amount t"

lemma chainStep_same: "chainStep N w s c w' \<Longrightarrow> sameTunnel (cw_tunnel w) (cw_tunnel w')"
  by (erule chainStepE) (drule chain_call_framed, simp add: framed_def sameTunnel_def)

lemma chainRun_same: "chainRun N allowed w w' \<Longrightarrow> sameTunnel (cw_tunnel w) (cw_tunnel w')"
  by (induction rule: chainRun.induct) (auto simp: sameTunnel_def dest!: chainStep_same)

lemma sameTunnel_eqs:
  assumes "sameTunnel t t'"
  shows "partyOf t' isA = partyOf t isA" "penalty t' = penalty t" "signsUpTo N t' isA n v = signsUpTo N t isA n v"
    "is_party t' p = is_party t p"
  using assms by (simp_all add: sameTunnel_def partyOf_def penalty_def signsUpTo_def updateData_def is_party_def)

text \<open>What holds after every transaction of the others, counted from the world \<open>w0\<close> in which the state went on record.\<close>

definition protected :: "ChainWorld \<Rightarrow> bool \<Rightarrow> int \<Rightarrow> int \<Rightarrow> ChainWorld \<Rightarrow> bool" where
  "protected w0 isA n v w \<longleftrightarrow>
     (let p = pc_address (partyOf (cw_tunnel w0) isA)
      in onRecord (cw_tunnel w) isA n v \<and> received w0 p \<le> received w p \<or>
         over (cw_tunnel w) \<and> received w0 p + v - penalty (cw_tunnel w0) \<le> received w p)"

lemma protected_step:
  assumes "protected w0 isA n v w" "worldOk w" "sameTunnel (cw_tunnel w0) (cw_tunnel w)"
    and "signsUpTo N (cw_tunnel w0) isA n v" "byOthers (pc_address (partyOf (cw_tunnel w0) isA)) s c" "chainStep N w s c w'"
  shows "protected w0 isA n v w'"
proof -
  let ?p = "pc_address (partyOf (cw_tunnel w0) isA)"
  from assms(6) obtain now t out where call: "typedCall c" "chain_call N s now c (cw_tunnel w) = Inr (t, out)"
    and w': "w' = \<lparr>cw_tunnel = t, cw_now = now, cw_in = cw_in w + paidIn c, cw_out = cw_out w @ out\<rparr>"
    by (auto elim: chainStepE)
  have ok: "tunnelOk (cw_tunnel w)" using assms(2) by (simp add: worldOk_def)
  have rcv: "received w' ?p = received w ?p + creditOf out ?p" by (rule received_append) (simp add: w')
  note eqs = sameTunnel_eqs [OF assms(3)]
  show ?thesis
  proof (cases "over (cw_tunnel w)")
    case True
    then have "\<not> onRecord (cw_tunnel w) isA n v" by (auto simp: over_def onRecord_def live_def)
    with assms(1) over_stays [OF True ok call(2), of ?p] rcv show ?thesis
      by (simp add: protected_def Let_def w')
  next
    case False
    with assms(1) have rec: "onRecord (cw_tunnel w) isA n v" "received w0 ?p \<le> received w ?p"
      by (simp_all add: protected_def Let_def)
    have "harmless (cw_tunnel w) isA n v t out"
      using assms(4,5) call by (intro others_harmless [OF ok rec(1)]) (simp_all add: eqs)
    with rec(2) rcv show ?thesis by (auto simp: harmless_def protected_def Let_def eqs w')
  qed
qed

lemma protected_run:
  assumes "chainRun N (byOthers p) w0 w" "p = pc_address (partyOf (cw_tunnel w0) isA)"
    and "protected w0 isA n v w0" "worldOk w0" "signsUpTo N (cw_tunnel w0) isA n v"
  shows "protected w0 isA n v w \<and> worldOk w \<and> sameTunnel (cw_tunnel w0) (cw_tunnel w)"
  using assms
proof (induction rule: chainRun.induct)
  case (run_nil w)
  then show ?case by (simp add: sameTunnel_def)
next
  case (run_step w w1 s c w2)
  then have "protected w isA n v w1 \<and> worldOk w1 \<and> sameTunnel (cw_tunnel w) (cw_tunnel w1)" by blast
  with run_step.hyps(2,3) run_step.prems show ?case
    using protected_step [of w isA n v w1 N s c w2] chainStep_ok [of w1 N s c w2] chainStep_same [of N w1 s c w2]
    by (simp add: sameTunnel_def)
qed

lemma stake_onRecord: "tunnelOk t \<Longrightarrow> onRecord t isA n v \<Longrightarrow> stakeOf t (pc_address (partyOf t isA)) = v"
  by (auto simp: stakeOf_def onRecord_def live_def shareOf_def partyOf_def tunnelOk_def)

lemma resolve_on_record:
  assumes "chainStep N w s (CResolve m sa sb) w1" "tn_referee (cw_tunnel w) = None"
  shows "onRecord (cw_tunnel w1) isA (sm_nonce m) (shareOf isA (sm_party_a_balance m) (sm_party_b_balance m))"
  using assms by (auto elim!: chainStepE simp: quietly_Inr resolve_dispute_Inr onRecord_def live_def commitment_def)

text \<open>An example: A has signed one update, which pays it 80 of 100, and nothing else; B signs whatever it likes.\<close>

definition exampleState :: Submitted where
  "exampleState = \<lparr>sm_state_hash = replicate 32 7, sm_nonce = 1, sm_party_a_balance = 80, sm_party_b_balance = 20,
     sm_timestamp = 125\<rparr>"

definition exampleSigned :: bytes where
  "exampleSigned = serialize_state_update (updateData exampleTunnel exampleState)"

definition oneSignature :: Natives where
  "oneSignature = exampleNatives\<lparr>ed25519_verify := \<lambda>sig pk msg. pk = pc_public_key (exampleParty False) \<or> msg = exampleSigned\<rparr>"

lemma oneSignature_A: "signedBy oneSignature (exampleParty True) msg sg \<longleftrightarrow> length sg = 64 \<and> msg = exampleSigned"
  by (auto simp: signedBy_def sig_verify_def oneSignature_def exampleParty_def assertM_def SIG_TYPE_ED25519_def
      is_valid_signature_type_def is_valid_public_key_length_def is_valid_signature_length_def replicate_eq_replicate)

lemma oneSignature_B: "signedBy oneSignature (exampleParty False) msg sg \<longleftrightarrow> length sg = 64"
  by (auto simp: signedBy_def sig_verify_def oneSignature_def exampleParty_def assertM_def SIG_TYPE_ED25519_def
      is_valid_signature_type_def is_valid_public_key_length_def is_valid_signature_length_def)

lemma oneSignature_signs: "signsUpTo oneSignature exampleTunnel True 1 80"
proof -
  have A: "partyOf exampleTunnel True = exampleParty True" "length (tn_id exampleTunnel) = 32"
    by (simp_all add: partyOf_def exampleTunnel_def)
  have S: "u64 1" "u64 125" "u64 80" "u64 20" "length (replicate 32 7) = 32" by (simp_all add: u64_def)
  have up: "sm_nonce m = 1" if "u64Submitted m" "length (sm_state_hash m) = 32"
      "serialize_state_update (updateData exampleTunnel m) = exampleSigned" for m
    using that state_update_inj [OF A(2), of "sm_state_hash m" "sm_nonce m" "sm_timestamp m" "sm_party_a_balance m"
        "sm_party_b_balance m" "replicate 32 7" 1 125 80 20] S
    by (simp add: exampleSigned_def updateData_def exampleState_def u64Submitted_def)
  have "serialize_settlement \<lparr>sd_tunnel_id = tn_id exampleTunnel, sd_party_a_balance = a, sd_party_b_balance = b,
      sd_final_nonce = k, sd_timestamp = ts\<rparr> \<noteq> exampleSigned" if "u64 a" "u64 b" "u64 k" "u64 ts" for a b k ts
    using state_update_not_settlement [OF A(2) S(1-4) A(2) that, of "replicate 32 7"]
    by (simp add: exampleSigned_def updateData_def exampleState_def)
  moreover have "serialize_settlement_with_root \<lparr>sd_tunnel_id = tn_id exampleTunnel, sd_party_a_balance = a,
      sd_party_b_balance = b, sd_final_nonce = k, sd_timestamp = ts, sd_transcript_root = r\<rparr> \<noteq> exampleSigned"
    if "u64 a" "u64 b" "u64 k" "u64 ts" "length r = 32" for a b k ts r
    using state_update_not_settlement_with_root [OF A(2) S(1-4) A(2) that, of "replicate 32 7"]
    by (simp add: exampleSigned_def updateData_def exampleState_def)
  ultimately show ?thesis
    unfolding signsUpTo_def A(1) oneSignature_A using up by auto
qed

text \<open>B disputes the opening state, the co-signed update is submitted, B disputes again and forces the close.\<close>

definition disputeOpening :: "(address \<times> int \<times> ChainCall) list" where
  "disputeOpening = [(exampleAddr False, 130, CRaiseCurrent)]"

definition answeredWorld :: ChainWorld where
  "answeredWorld = exampleWorld\<lparr>cw_now := 140, cw_tunnel := (cw_tunnel exampleWorld)\<lparr>tn_last_disputed_nonce := 1,
     tn_state := commitment exampleState 140, tn_last_activity := 140\<rparr>\<rparr>"

definition disputedWorld :: ChainWorld where
  "disputedWorld = exampleWorld\<lparr>cw_now := 130, cw_tunnel := (cw_tunnel exampleWorld)\<lparr>tn_last_disputed_nonce := 1,
     tn_status := status_disputed, tn_dispute_raiser := Some (exampleAddr False), tn_last_activity := 130,
     tn_state := (tn_state (cw_tunnel exampleWorld))\<lparr>sc_timestamp := 130\<rparr>\<rparr>\<rparr>"

definition forcedWorld :: ChainWorld where
  "forcedWorld = answeredWorld\<lparr>cw_now := 1150, cw_out := [(exampleAddr True, 75), (exampleAddr False, 25)],
     cw_tunnel := (cw_tunnel answeredWorld)\<lparr>tn_status := status_closed, tn_balance := 0, tn_last_activity := 1150,
       tn_last_disputed_nonce := 2, tn_dispute_raiser := Some (exampleAddr False),
       tn_state := (commitment exampleState 150)\<rparr>\<rparr>"

lemmas example_world_defs = disputedWorld_def answeredWorld_def forcedWorld_def exampleWorld_def exampleTunnel_def exampleParty_def
  exampleAddr_def u64_def U64_MAX_def commitment_def exampleState_def

lemma disputeOpening_run: "chainExec N disputeOpening exampleWorld = Some disputedWorld"
  by (simp add: disputeOpening_def example_world_defs raise_dispute_current_state_def is_party_def assertM_def addU64_def bindE_def
      quietly_def)

lemma answer_step:
  "chainStep oneSignature disputedWorld s (CResolve exampleState (replicate 64 0) (replicate 64 0)) answeredWorld"
proof -
  have t: "tn_party_a (cw_tunnel disputedWorld) = exampleParty True" "tn_party_b (cw_tunnel disputedWorld) = exampleParty False"
      "serialize_state_update (updateData (cw_tunnel disputedWorld) exampleState) = exampleSigned"
    by (simp_all add: disputedWorld_def exampleWorld_def exampleTunnel_def exampleSigned_def updateData_def)
  have "resolve_dispute oneSignature (cw_tunnel disputedWorld) exampleState (replicate 64 0) (replicate 64 0) 140 =
      Inr (cw_tunnel answeredWorld)"
    unfolding resolve_dispute_Inr t oneSignature_A oneSignature_B by (simp add: example_world_defs)
  then have "chainStep oneSignature disputedWorld s (CResolve exampleState (replicate 64 0) (replicate 64 0))
      \<lparr>cw_tunnel = cw_tunnel answeredWorld, cw_now = 140, cw_in = cw_in disputedWorld + 0, cw_out = cw_out disputedWorld @ []\<rparr>"
    using chain_step [of disputedWorld 140 "CResolve exampleState (replicate 64 0) (replicate 64 0)" oneSignature s]
    by (simp add: quietly_def bindE_def u64Submitted_def disputedWorld_def exampleWorld_def exampleState_def u64_def)
  then show ?thesis by (simp add: answeredWorld_def disputedWorld_def exampleWorld_def)
qed

lemma forced_run:
  "chainExec N [(exampleAddr False, 150, CRaiseCurrent), (exampleAddr False, 1150, CForceClose)] answeredWorld = Some forcedWorld"
  by (simp add: example_world_defs raise_dispute_current_state_def is_party_def assertM_def addU64_def bindE_def quietly_def
      force_close_after_timeout_def penalised_def pay_out_def assert_balance_split_def)



end
