(* ===== verification/Watchtower.thy ===== *)
theory Watchtower
  imports Prelude
begin

section \<open>Recovery of abandoned tunnels (recovery/watchtower.ts)\<close>

text \<open>
  The recovery decision for one tunnel, and the watchtower that drives it over the watched tunnels.
  The map of watched tunnels is an association list in insertion order. What a tunnel's
  \<open>fetchLiveness\<close> and the injected executor do to the outside is a world \<open>'w\<close> they pass on; a
  rejected promise is an \<open>Inl\<close>. Calls of the observers \<open>onAction\<close> and \<open>onError\<close> are logged.
  The status values are those of \<open>TunnelStatus\<close> in config.ts.
\<close>

subsection \<open>The decision\<close>

datatype RecoveryAction = RecNone | RecWithdrawTimeout | RecRaiseDispute | RecRaiseDisputeCurrentState
  | RecResolveDispute | RecForceClose

definition STATUS_CREATED :: int where "STATUS_CREATED = 0"
definition STATUS_ACTIVE :: int where "STATUS_ACTIVE = 1"
definition STATUS_CLOSED :: int where "STATUS_CLOSED = 2"
definition STATUS_DISPUTED :: int where "STATUS_DISPUTED = 3"

lemmas status_defs = STATUS_CREATED_def STATUS_ACTIVE_def STATUS_CLOSED_def STATUS_DISPUTED_def

record TunnelLiveness =
  tl_status :: int
  tl_iAmDisputeRaiser :: bool
  tl_hasCounterpartySignedNewerState :: bool
  tl_createdAtMs :: int
  tl_lastActivityMs :: int
  tl_timeoutMs :: int
  tl_nowMs :: int
  tl_counterpartyDeposited :: bool
  tl_heartbeatTimeoutMs :: int
  tl_disputeStartMs :: "int option"

definition decideRecovery :: "TunnelLiveness \<Rightarrow> RecoveryAction" where
  "decideRecovery t =
     (if tl_status t = STATUS_CLOSED \<or> tl_status t \<ge> 4 then RecNone
      else if tl_status t = STATUS_DISPUTED then
        (if \<not> tl_iAmDisputeRaiser t \<and> tl_hasCounterpartySignedNewerState t then RecResolveDispute
         else if tl_iAmDisputeRaiser t \<and>
           (case tl_disputeStartMs t of None \<Rightarrow> False | Some s \<Rightarrow> tl_nowMs t \<ge> s + tl_timeoutMs t)
         then RecForceClose
         else RecNone)
      else if tl_status t = STATUS_CREATED then
        (if \<not> tl_counterpartyDeposited t \<and> tl_nowMs t \<ge> tl_createdAtMs t + tl_timeoutMs t
         then RecWithdrawTimeout else RecNone)
      else if tl_nowMs t - tl_lastActivityMs t \<ge> tl_heartbeatTimeoutMs t then
        (if tl_hasCounterpartySignedNewerState t then RecRaiseDispute else RecRaiseDisputeCurrentState)
      else RecNone)"

subsection \<open>The watchtower\<close>

type_synonym 'w fetch = "'w \<Rightarrow> 'w \<times> TunnelLiveness result"
type_synonym 'w executor = "string \<Rightarrow> RecoveryAction \<Rightarrow> 'w \<Rightarrow> 'w \<times> unit result"

record 'w WatchedTunnel =
  wd_tunnelId :: string
  wd_fetchLiveness :: "'w fetch"

record 'w Watchtower =
  wt_tunnels :: "(string \<times> 'w WatchedTunnel) list"
  wt_timer :: "int option"
  wt_onAction :: "(string \<times> RecoveryAction) list"
  wt_onError :: "(string \<times> js_error) list"

definition newWatchtower :: "'w Watchtower" where
  "newWatchtower = \<lparr>wt_tunnels = [], wt_timer = None, wt_onAction = [], wt_onError = []\<rparr>"

text \<open>\<open>Map.set\<close> keeps the position of a key that is present and appends one that is not.\<close>

fun mapSet :: "('k \<times> 'v) list \<Rightarrow> 'k \<Rightarrow> 'v \<Rightarrow> ('k \<times> 'v) list" where
  "mapSet [] k v = [(k, v)]"
| "mapSet ((k', v') # m) k v = (if k' = k then (k, v) # m else (k', v') # mapSet m k v)"

definition mapDelete :: "('k \<times> 'v) list \<Rightarrow> 'k \<Rightarrow> ('k \<times> 'v) list" where
  "mapDelete m k = filter (\<lambda>(k', _). k' \<noteq> k) m"

definition watch :: "'w Watchtower \<Rightarrow> 'w WatchedTunnel \<Rightarrow> 'w Watchtower" where
  "watch wt t = wt\<lparr>wt_tunnels := mapSet (wt_tunnels wt) (wd_tunnelId t) t\<rparr>"

definition unwatch :: "'w Watchtower \<Rightarrow> string \<Rightarrow> 'w Watchtower" where
  "unwatch wt tunnelId = wt\<lparr>wt_tunnels := mapDelete (wt_tunnels wt) tunnelId\<rparr>"

definition watchSize :: "'w Watchtower \<Rightarrow> nat" where
  "watchSize wt = length (wt_tunnels wt)"

text \<open>The body of the loop of \<open>tick\<close>; \<open>failed\<close> is its catch clause.\<close>

definition failed :: "string \<Rightarrow> js_error \<Rightarrow> 'w Watchtower \<Rightarrow> 'w Watchtower" where
  "failed tunnelId err wt = wt\<lparr>wt_onError := wt_onError wt @ [(tunnelId, err)]\<rparr>"

definition tickOne ::
  "'w executor \<Rightarrow> 'w WatchedTunnel \<Rightarrow> 'w Watchtower \<times> 'w \<Rightarrow> 'w Watchtower \<times> 'w" where
  "tickOne execute t = (\<lambda>(wt, w).
     (case wd_fetchLiveness t w of
        (w1, Inl err) \<Rightarrow> (failed (wd_tunnelId t) err wt, w1)
      | (w1, Inr liveness) \<Rightarrow>
        (let action = decideRecovery liveness;
             wt1 = wt\<lparr>wt_onAction := wt_onAction wt @ [(wd_tunnelId t, action)]\<rparr>
         in if action \<noteq> RecNone then
              (case execute (wd_tunnelId t) action w1 of
                 (w2, Inl err) \<Rightarrow> (failed (wd_tunnelId t) err wt1, w2)
               | (w2, Inr _) \<Rightarrow>
                 ((if action = RecForceClose \<or> action = RecWithdrawTimeout
                   then wt1\<lparr>wt_tunnels := mapDelete (wt_tunnels wt1) (wd_tunnelId t)\<rparr> else wt1), w2))
            else (wt1, w1))))"

definition tick :: "'w executor \<Rightarrow> 'w Watchtower \<Rightarrow> 'w \<Rightarrow> 'w Watchtower \<times> 'w" where
  "tick execute wt w = fold (\<lambda>(_, t). tickOne execute t) (wt_tunnels wt) (wt, w)"

definition startTower :: "int option \<Rightarrow> 'w Watchtower \<Rightarrow> 'w Watchtower" where
  "startTower intervalMs wt =
     (if wt_timer wt \<noteq> None then wt
      else wt\<lparr>wt_timer := Some (case intervalMs of None \<Rightarrow> 5000 | Some ms \<Rightarrow> ms)\<rparr>)"

definition stopTower :: "'w Watchtower \<Rightarrow> 'w Watchtower" where
  "stopTower wt = (if wt_timer wt \<noteq> None then wt\<lparr>wt_timer := None\<rparr> else wt)"

subsection \<open>Lemmas\<close>

text \<open>The keys are those of the watched tunnels, each once.\<close>

definition towerOk :: "'w Watchtower \<Rightarrow> bool" where
  "towerOk wt \<longleftrightarrow> distinct (map fst (wt_tunnels wt)) \<and> (\<forall>(k, t) \<in> set (wt_tunnels wt). wd_tunnelId t = k)"

lemma map_of_mapSet: "map_of (mapSet m k v) = (map_of m)(k \<mapsto> v)"
  by (induction m) auto

lemma mapSet_keys: "fst ` set (mapSet m k v) = insert k (fst ` set m)"
  by (induction m k v rule: mapSet.induct) (simp_all add: insert_commute)

lemma distinct_mapSet: "distinct (map fst m) \<Longrightarrow> distinct (map fst (mapSet m k v))"
proof (induction m)
  case (Cons x m)
  then show ?case using mapSet_keys [of m k v] by (cases x) (auto simp: image_iff)
qed simp

lemma set_mapSet: "(k', v') \<in> set (mapSet m k v) \<Longrightarrow> (k', v') = (k, v) \<or> (k', v') \<in> set m"
  by (induction m) (auto split: if_splits)

lemma mapDelete_simps:
  "map_of (mapDelete m k) = (map_of m)(k := None)" "distinct (map fst m) \<Longrightarrow> distinct (map fst (mapDelete m k))"
  "set (mapDelete m k) = {(k', v). (k', v) \<in> set m \<and> k' \<noteq> k}"
proof -
  show "map_of (mapDelete m k) = (map_of m)(k := None)"
    by (induction m) (auto simp: mapDelete_def)
  show "distinct (map fst m) \<Longrightarrow> distinct (map fst (mapDelete m k))"
    by (induction m) (auto simp: mapDelete_def)
qed (auto simp: mapDelete_def)

lemma towerOk_new [simp]: "towerOk newWatchtower"
  by (simp add: towerOk_def newWatchtower_def)

lemma towerOk_watch [simp]: "towerOk wt \<Longrightarrow> towerOk (watch wt t)"
  by (auto simp: towerOk_def watch_def distinct_mapSet dest!: set_mapSet)

lemma towerOk_unwatch [simp]: "towerOk wt \<Longrightarrow> towerOk (unwatch wt k)"
  by (auto simp: towerOk_def unwatch_def mapDelete_simps)

lemma towerOk_timer [simp]: "towerOk (startTower i wt) = towerOk wt" "towerOk (stopTower wt) = towerOk wt"
  by (simp_all add: towerOk_def startTower_def stopTower_def)

lemma tickOne_tunnels:
  "wt_tunnels (fst (tickOne ex t (wt, w))) \<in> {wt_tunnels wt, mapDelete (wt_tunnels wt) (wd_tunnelId t)}"
  by (auto simp: tickOne_def failed_def Let_def split: prod.splits sum.splits)

lemma towerOk_tickOne: "towerOk wt \<Longrightarrow> towerOk (fst (tickOne ex t (wt, w)))"
  using tickOne_tunnels [of ex t wt w] by (auto simp: towerOk_def mapDelete_simps)

lemma towerOk_ticks: "towerOk (fst s) \<Longrightarrow> towerOk (fst (fold (\<lambda>(_, t). tickOne ex t) ts s))"
proof (induction ts arbitrary: s)
  case (Cons x ts)
  then show ?case using towerOk_tickOne [of "fst s" ex "snd x" "snd s"] by (cases x) auto
qed simp

lemma towerOk_tick: "towerOk wt \<Longrightarrow> towerOk (fst (tick ex wt w))"
  unfolding tick_def using towerOk_ticks [of "(wt, w)"] by simp

subsection \<open>A tick serves every tunnel\<close>

text \<open>What serving one tunnel adds to the logs, and when it stops being watched.\<close>

definition serves :: "string \<Rightarrow> 'w Watchtower \<Rightarrow> 'w Watchtower \<Rightarrow> bool" where
  "serves k wt wt' \<longleftrightarrow>
     (\<exists>as es. wt_onAction wt' = wt_onAction wt @ as \<and> wt_onError wt' = wt_onError wt @ es \<and>
        fst ` set as \<union> fst ` set es = {k} \<and>
        (wt_tunnels wt' = wt_tunnels wt \<or>
         wt_tunnels wt' = mapDelete (wt_tunnels wt) k \<and> ((k, RecForceClose) \<in> set as \<or> (k, RecWithdrawTimeout) \<in> set as)))"

lemma tickOne_serves: "serves (wd_tunnelId t) wt (fst (tickOne ex t (wt, w)))"
  by (auto simp: serves_def tickOne_def failed_def Let_def split: prod.splits sum.splits)

lemma ticks_serve:
  assumes "\<forall>(k, t) \<in> set ts. wd_tunnelId t = k"
  shows "\<exists>as es. wt_onAction (fst (fold (\<lambda>(_, t). tickOne ex t) ts s)) = wt_onAction (fst s) @ as \<and>
    wt_onError (fst (fold (\<lambda>(_, t). tickOne ex t) ts s)) = wt_onError (fst s) @ es \<and>
    fst ` set as \<union> fst ` set es = fst ` set ts \<and>
    (\<forall>k v. map_of (wt_tunnels (fst (fold (\<lambda>(_, t). tickOne ex t) ts s))) k = Some v \<longrightarrow> map_of (wt_tunnels (fst s)) k = Some v) \<and>
    (\<forall>k v. map_of (wt_tunnels (fst s)) k = Some v \<longrightarrow>
       map_of (wt_tunnels (fst (fold (\<lambda>(_, t). tickOne ex t) ts s))) k = Some v \<or>
       (k, RecForceClose) \<in> set as \<or> (k, RecWithdrawTimeout) \<in> set as)"
  using assms
proof (induction ts arbitrary: s)
  case Nil
  then show ?case by simp
next
  case (Cons x ts)
  obtain t where x: "x = (wd_tunnelId t, t)" using Cons.prems by (cases x) auto
  let ?s = "tickOne ex t s"
  have "serves (wd_tunnelId t) (fst s) (fst ?s)"
    using tickOne_serves [of t "fst s" ex "snd s"] by simp
  then obtain as es where 1: "wt_onAction (fst ?s) = wt_onAction (fst s) @ as" "wt_onError (fst ?s) = wt_onError (fst s) @ es"
    "fst ` set as \<union> fst ` set es = {wd_tunnelId t}"
    "wt_tunnels (fst ?s) = wt_tunnels (fst s) \<or> wt_tunnels (fst ?s) = mapDelete (wt_tunnels (fst s)) (wd_tunnelId t) \<and>
      ((wd_tunnelId t, RecForceClose) \<in> set as \<or> (wd_tunnelId t, RecWithdrawTimeout) \<in> set as)"
    by (auto simp: serves_def)
  have "\<forall>(k, t) \<in> set ts. wd_tunnelId t = k" using Cons.prems by simp
  from Cons.IH [OF this, of ?s] obtain as' es' where
    2: "wt_onAction (fst (fold (\<lambda>(_, t). tickOne ex t) ts ?s)) = wt_onAction (fst ?s) @ as'"
      "wt_onError (fst (fold (\<lambda>(_, t). tickOne ex t) ts ?s)) = wt_onError (fst ?s) @ es'"
      "fst ` set as' \<union> fst ` set es' = fst ` set ts"
    and 3: "\<And>k v. map_of (wt_tunnels (fst (fold (\<lambda>(_, t). tickOne ex t) ts ?s))) k = Some v \<Longrightarrow> map_of (wt_tunnels (fst ?s)) k = Some v"
    and 4: "\<And>k v. map_of (wt_tunnels (fst ?s)) k = Some v \<Longrightarrow>
       map_of (wt_tunnels (fst (fold (\<lambda>(_, t). tickOne ex t) ts ?s))) k = Some v \<or>
       (k, RecForceClose) \<in> set as' \<or> (k, RecWithdrawTimeout) \<in> set as'"
    by auto
  have f: "fold (\<lambda>(_, t). tickOne ex t) (x # ts) s = fold (\<lambda>(_, t). tickOne ex t) ts ?s" by (simp add: x)
  show ?case
    unfolding f
  proof (intro exI [of _ "as @ as'"] exI [of _ "es @ es'"] conjI allI impI)
    show "fst ` set (as @ as') \<union> fst ` set (es @ es') = fst ` set (x # ts)"
      using 1(3) 2(3) x by (auto simp: image_Un)
  next
    fix k v
    assume "map_of (wt_tunnels (fst (fold (\<lambda>(_, t). tickOne ex t) ts ?s))) k = Some v"
    then have "map_of (wt_tunnels (fst ?s)) k = Some v" by (rule 3)
    then show "map_of (wt_tunnels (fst s)) k = Some v"
      using 1(4) by (auto simp: mapDelete_simps split: if_splits)
  next
    fix k v
    assume "map_of (wt_tunnels (fst s)) k = Some v"
    then have "map_of (wt_tunnels (fst ?s)) k = Some v \<or> (k, RecForceClose) \<in> set as \<or> (k, RecWithdrawTimeout) \<in> set as"
      using 1(4) by (cases "k = wd_tunnelId t") (auto simp: mapDelete_simps)
    then show "map_of (wt_tunnels (fst (fold (\<lambda>(_, t). tickOne ex t) ts ?s))) k = Some v \<or>
       (k, RecForceClose) \<in> set (as @ as') \<or> (k, RecWithdrawTimeout) \<in> set (as @ as')"
      using 4 [of k v] by auto
  qed (use 1 2 in simp_all)
qed

text \<open>A tick serves every watched tunnel, whatever fails: each tunnel's decision or error is reported in
  the same tick, nothing is reported for a tunnel that is not watched, and a tunnel stops being watched
  only when a force-close or a timeout withdrawal was decided for it.\<close>

theorem tick_serves_every_tunnel:
  assumes "towerOk wt" "tick execute wt w = (wt', w')"
  shows "\<exists>as es. wt_onAction wt' = wt_onAction wt @ as \<and> wt_onError wt' = wt_onError wt @ es \<and>
    fst ` set as \<union> fst ` set es = dom (map_of (wt_tunnels wt)) \<and> towerOk wt' \<and>
    (\<forall>k v. map_of (wt_tunnels wt) k = Some v \<longrightarrow> map_of (wt_tunnels wt') k = Some v \<or>
       (k, RecForceClose) \<in> set as \<or> (k, RecWithdrawTimeout) \<in> set as)"
proof -
  have "\<forall>(k, t) \<in> set (wt_tunnels wt). wd_tunnelId t = k" using assms(1) by (simp add: towerOk_def)
  from ticks_serve [OF this, of execute "(wt, w)"] show ?thesis
    using assms towerOk_tick [OF assms(1), of execute w] by (auto simp: tick_def dom_map_of_conv_image_fst)
qed

text \<open>The recovery decision is safe: a force-close is decided only in a dispute this party raised whose
  timeout has passed, a dispute is answered with a newer co-signed state exactly if the other party
  raised it, a withdrawal is decided only while the other deposit is missing after the timeout, and an
  active tunnel is disputed exactly after the heartbeat timeout, with the newer state if there is one.\<close>

lemma decideRecovery_characterisation:
  assumes "tl_status t \<in> {STATUS_CREATED, STATUS_ACTIVE, STATUS_CLOSED, STATUS_DISPUTED}"
  shows "(decideRecovery t = RecForceClose \<longleftrightarrow> tl_status t = STATUS_DISPUTED \<and> tl_iAmDisputeRaiser t \<and>
      (\<exists>s. tl_disputeStartMs t = Some s \<and> s + tl_timeoutMs t \<le> tl_nowMs t)) \<and>
    (decideRecovery t = RecResolveDispute \<longleftrightarrow> tl_status t = STATUS_DISPUTED \<and> \<not> tl_iAmDisputeRaiser t \<and>
      tl_hasCounterpartySignedNewerState t) \<and>
    (decideRecovery t = RecWithdrawTimeout \<longleftrightarrow> tl_status t = STATUS_CREATED \<and> \<not> tl_counterpartyDeposited t \<and>
      tl_createdAtMs t + tl_timeoutMs t \<le> tl_nowMs t) \<and>
    (decideRecovery t = RecRaiseDispute \<longleftrightarrow> tl_status t = STATUS_ACTIVE \<and>
      tl_lastActivityMs t + tl_heartbeatTimeoutMs t \<le> tl_nowMs t \<and> tl_hasCounterpartySignedNewerState t) \<and>
    (decideRecovery t = RecRaiseDisputeCurrentState \<longleftrightarrow> tl_status t = STATUS_ACTIVE \<and>
      tl_lastActivityMs t + tl_heartbeatTimeoutMs t \<le> tl_nowMs t \<and> \<not> tl_hasCounterpartySignedNewerState t)"
  using assms by (auto simp: decideRecovery_def status_defs split: option.splits if_splits)

end
