(* ===== verification/Recovery.thy ===== *)
theory Recovery
imports Dispute_Safety Watchtower
begin

text \<open>The watchtower of the SDK against the contract. The liveness fetch and the executor are parameters of the watchtower; here
  they are what their documentation says: the fetch reads the tunnel and the clock of the chain, the executor submits the
  transaction named by the action, with the co-signed state the party holds.\<close>

record HeldState =
  hs_state :: Submitted
  hs_sigA :: bytes
  hs_sigB :: bytes

definition newerHeld :: "Tunnel \<Rightarrow> HeldState option \<Rightarrow> bool" where
  "newerHeld t mine \<longleftrightarrow> (case mine of None \<Rightarrow> False | Some h \<Rightarrow> sm_nonce (hs_state h) > sc_nonce (tn_state t))"

definition otherDeposit :: "Tunnel \<Rightarrow> address \<Rightarrow> int" where
  "otherDeposit t p = (if p = pc_address (tn_party_a t) then tn_party_b_deposit t else tn_party_a_deposit t)"

definition livenessOf :: "address \<Rightarrow> HeldState option \<Rightarrow> int \<Rightarrow> int \<Rightarrow> ChainWorld \<Rightarrow> TunnelLiveness" where
  "livenessOf p mine lastActivity heartbeat w =
     (let t = cw_tunnel w
      in \<lparr>tl_status = tn_status t, tl_iAmDisputeRaiser = (tn_dispute_raiser t = Some p),
          tl_hasCounterpartySignedNewerState = newerHeld t mine, tl_createdAtMs = tn_created_at t,
          tl_lastActivityMs = lastActivity, tl_timeoutMs = tn_timeout_ms t, tl_nowMs = cw_now w,
          tl_counterpartyDeposited = (otherDeposit t p > 0), tl_heartbeatTimeoutMs = heartbeat,
          tl_disputeStartMs = (if tn_status t = status_disputed then Some (sc_timestamp (tn_state t)) else None)\<rparr>)"

fun recoveryCall :: "bool \<Rightarrow> HeldState option \<Rightarrow> RecoveryAction \<Rightarrow> ChainCall option" where
  "recoveryCall isA mine RecNone = None"
| "recoveryCall isA mine RecWithdrawTimeout = Some CWithdrawTimeout"
| "recoveryCall isA mine RecRaiseDisputeCurrentState = Some CRaiseCurrent"
| "recoveryCall isA mine RecForceClose = Some CForceClose"
| "recoveryCall isA (Some h) RecRaiseDispute = Some (CRaise (hs_state h) (if isA then hs_sigB h else hs_sigA h))"
| "recoveryCall isA (Some h) RecResolveDispute = Some (CResolve (hs_state h) (hs_sigA h) (hs_sigB h))"
| "recoveryCall isA None a = None"

definition chainExecutor :: "Natives \<Rightarrow> address \<Rightarrow> HeldState option \<Rightarrow> ChainWorld executor" where
  "chainExecutor N p mine tid action w =
     (case recoveryCall (p = pc_address (tn_party_a (cw_tunnel w))) mine action of
        None \<Rightarrow> (w, Inl (Error ''nothing to submit''))
      | Some c \<Rightarrow>
        (case chain_call N p (cw_now w) c (cw_tunnel w) of
           Inl e \<Rightarrow> (w, Inl e)
         | Inr (t, out) \<Rightarrow> (w\<lparr>cw_tunnel := t, cw_out := cw_out w @ out\<rparr>, Inr ())))"

definition chainWatched :: "string \<Rightarrow> address \<Rightarrow> HeldState option \<Rightarrow> int \<Rightarrow> int \<Rightarrow> ChainWorld WatchedTunnel" where
  "chainWatched tid p mine lastActivity heartbeat =
     \<lparr>wd_tunnelId = tid, wd_fetchLiveness = (\<lambda>w. (w, Inr (livenessOf p mine lastActivity heartbeat w)))\<rparr>"

text \<open>The held state is a co-signed state of this tunnel.\<close>

definition coSigned :: "Natives \<Rightarrow> ChainWorld \<Rightarrow> HeldState \<Rightarrow> bool" where
  "coSigned N w h \<longleftrightarrow>
     (let t = cw_tunnel w; m = hs_state h; msg = serialize_state_update (updateData t m)
      in u64Submitted m \<and> length (sm_state_hash m) = 32 \<and> sm_nonce m < U64_MAX \<and>
         sm_party_a_balance m + sm_party_b_balance m = tn_balance t \<and> tn_created_at t \<le> sm_timestamp m \<and>
         sm_timestamp m \<le> cw_now w \<and> signedBy N (tn_party_a t) msg (hs_sigA h) \<and> signedBy N (tn_party_b t) msg (hs_sigB h))"

definition heldOk :: "Natives \<Rightarrow> ChainWorld \<Rightarrow> HeldState option \<Rightarrow> bool" where
  "heldOk N w mine \<longleftrightarrow> (case mine of None \<Rightarrow> True | Some h \<Rightarrow> coSigned N w h)"

text \<open>What the party is owed by the latest state it holds or that is on chain.\<close>

definition owed :: "Tunnel \<Rightarrow> address \<Rightarrow> HeldState option \<Rightarrow> int" where
  "owed t p mine =
     (case mine of
        Some h \<Rightarrow> (if sm_nonce (hs_state h) > sc_nonce (tn_state t)
          then shareOf (p = pc_address (tn_party_a t)) (sm_party_a_balance (hs_state h)) (sm_party_b_balance (hs_state h))
          else stakeOf t p)
      | None \<Rightarrow> stakeOf t p)"

lemma status_agree:
  "STATUS_CREATED = status_created" "STATUS_ACTIVE = status_active" "STATUS_CLOSED = status_closed"
  "STATUS_DISPUTED = status_disputed" "tn_status t = status_created \<or> tn_status t = status_active \<or> tn_status t = status_disputed \<Longrightarrow> tn_status t < 4"
  by (auto simp: STATUS_CREATED_def STATUS_ACTIVE_def STATUS_CLOSED_def STATUS_DISPUTED_def
      status_created_def status_active_def status_closed_def status_disputed_def)

lemma raise_held:
  assumes "tunnelOk (cw_tunnel w)" "coSigned N w h" "tn_status (cw_tunnel w) = status_active" "is_party (cw_tunnel w) p"
    "sm_nonce (hs_state h) > sc_nonce (tn_state (cw_tunnel w))"
  shows "\<exists>t'. raise_dispute N (cw_tunnel w) (hs_state h) (if p = pc_address (tn_party_a (cw_tunnel w)) then hs_sigB h else hs_sigA h)
      p (cw_now w) = Inr t' \<and> tn_status t' = status_disputed \<and> tn_dispute_raiser t' = Some p \<and>
      tn_state t' = commitment (hs_state h) (cw_now w) \<and> tn_timeout_ms t' = tn_timeout_ms (cw_tunnel w)"
  unfolding raise_dispute_Inr using assms
  by (auto simp: coSigned_def Let_def tunnelOk_def disputeOk_def u64Submitted_def u64_def)

lemma resolve_held:
  assumes "tunnelOk (cw_tunnel w)" "coSigned N w h" "tn_status (cw_tunnel w) = status_disputed"
    "sm_nonce (hs_state h) > sc_nonce (tn_state (cw_tunnel w))"
  shows "\<exists>t'. resolve_dispute N (cw_tunnel w) (hs_state h) (hs_sigA h) (hs_sigB h) (cw_now w) = Inr t' \<and>
      tn_status t' = status_active \<and> tn_state t' = commitment (hs_state h) (cw_now w)"
  unfolding resolve_dispute_Inr using assms
  by (auto simp: coSigned_def Let_def tunnelOk_def u64Submitted_def u64_def)

lemma raise_current:
  assumes "tunnelOk t" "tn_status t = status_active" "is_party t p"
  shows "\<exists>t'. raise_dispute_current_state t p now = Inr t' \<and> tn_status t' = status_disputed \<and> tn_dispute_raiser t' = Some p \<and>
      tn_state t' = (tn_state t)\<lparr>sc_timestamp := now\<rparr> \<and> tn_timeout_ms t' = tn_timeout_ms t"
  unfolding raise_dispute_current_state_Inr using assms by (auto simp: tunnelOk_def disputeOk_def)

lemma withdraw_alone:
  assumes "tunnelOk t" "tn_status t = status_created" "is_party t p" "0 < stakeOf t p" "\<not> otherDeposit t p > 0"
    "tn_created_at t + tn_timeout_ms t \<le> now" "u64 now"
  shows "\<exists>t'. withdraw_timeout t p now = Inr (t', stakeOf t p) \<and> tn_status t' = status_closed"
  using assms
  by (auto simp: withdraw_timeout_def return_deposit_def stakeOf_def otherDeposit_def tunnelOk_def balanceOk_def disputeOk_def
      is_party_def assertM_def bindE_def addU64_def Let_def u64_def U64_MAX_def)

text \<open>What each recovery action brings about.\<close>

fun achieved :: "RecoveryAction \<Rightarrow> address \<Rightarrow> HeldState option \<Rightarrow> ChainWorld \<Rightarrow> ChainWorld \<Rightarrow> bool" where
  "achieved RecForceClose p mine w w' \<longleftrightarrow> tn_status (cw_tunnel w') = status_closed \<and>
     received w p + stakeOf (cw_tunnel w) p \<le> received w' p"
| "achieved RecWithdrawTimeout p mine w w' \<longleftrightarrow> tn_status (cw_tunnel w') = status_closed \<and>
     received w p + stakeOf (cw_tunnel w) p \<le> received w' p"
| "achieved RecResolveDispute p mine w w' \<longleftrightarrow> tn_status (cw_tunnel w') = status_active \<and> cw_out w' = cw_out w \<and>
     (\<exists>h. mine = Some h \<and> tn_state (cw_tunnel w') = commitment (hs_state h) (cw_now w))"
| "achieved RecRaiseDispute p mine w w' \<longleftrightarrow> tn_status (cw_tunnel w') = status_disputed \<and> cw_out w' = cw_out w \<and>
     tn_dispute_raiser (cw_tunnel w') = Some p \<and> tn_timeout_ms (cw_tunnel w') = tn_timeout_ms (cw_tunnel w) \<and>
     (\<exists>h. mine = Some h \<and> tn_state (cw_tunnel w') = commitment (hs_state h) (cw_now w))"
| "achieved RecRaiseDisputeCurrentState p mine w w' \<longleftrightarrow> tn_status (cw_tunnel w') = status_disputed \<and> cw_out w' = cw_out w \<and>
     tn_dispute_raiser (cw_tunnel w') = Some p \<and> tn_timeout_ms (cw_tunnel w') = tn_timeout_ms (cw_tunnel w) \<and>
     tn_state (cw_tunnel w') = (tn_state (cw_tunnel w))\<lparr>sc_timestamp := cw_now w\<rparr>"
| "achieved RecNone p mine w w' \<longleftrightarrow> w' = w"

lemma executor_ok:
  assumes "recoveryCall (p = pc_address (tn_party_a (cw_tunnel w))) mine action = Some c"
    "chain_call N p (cw_now w) c (cw_tunnel w) = Inr (t, out)"
  shows "chainExecutor N p mine tid action w = (w\<lparr>cw_tunnel := t, cw_out := cw_out w @ out\<rparr>, Inr ())"
  using assms by (simp add: chainExecutor_def)

lemma received_upd: "received (w\<lparr>cw_tunnel := t, cw_out := cw_out w @ out\<rparr>) p = received w p + creditOf out p"
  by (simp add: received_def creditOf_def)

lemma force_close_achieves:
  assumes "tunnelOk (cw_tunnel w)" "tn_status (cw_tunnel w) = status_disputed" "tn_dispute_raiser (cw_tunnel w) = Some p"
    "sc_timestamp (tn_state (cw_tunnel w)) + tn_timeout_ms (cw_tunnel w) \<le> cw_now w" "u64 (cw_now w)" "is_party (cw_tunnel w) p"
  shows "\<exists>w'. chainExecutor N p mine tid RecForceClose w = (w', Inr ()) \<and> achieved RecForceClose p mine w w' \<and> cw_now w' = cw_now w"
proof -
  obtain a b t' where c: "force_close_after_timeout (cw_tunnel w) p (cw_now w) =
        Inr (t', [(pc_address (tn_party_a (cw_tunnel w)), a), (pc_address (tn_party_b (cw_tunnel w)), b)])"
      "tn_status t' = status_closed" "stakeOf (cw_tunnel w) p \<le> (if p = pc_address (tn_party_a (cw_tunnel w)) then a else b)"
    using force_close_pays_stake [OF assms(1,2,6,3,4,5)] by blast
  have "stakeOf (cw_tunnel w) p \<le> creditOf [(pc_address (tn_party_a (cw_tunnel w)), a), (pc_address (tn_party_b (cw_tunnel w)), b)] p"
    using c(3) assms(1,6) by (auto simp: creditOf_def is_party_def tunnelOk_def split: if_split_asm)
  with c show ?thesis by (simp add: chainExecutor_def received_upd)
qed

lemma withdraw_achieves:
  assumes "tunnelOk (cw_tunnel w)" "tn_status (cw_tunnel w) = status_created" "is_party (cw_tunnel w) p" "0 < stakeOf (cw_tunnel w) p"
    "\<not> otherDeposit (cw_tunnel w) p > 0" "tn_created_at (cw_tunnel w) + tn_timeout_ms (cw_tunnel w) \<le> cw_now w" "u64 (cw_now w)"
  shows "\<exists>w'. chainExecutor N p mine tid RecWithdrawTimeout w = (w', Inr ()) \<and> achieved RecWithdrawTimeout p mine w w'"
proof -
  obtain t' where c: "withdraw_timeout (cw_tunnel w) p (cw_now w) = Inr (t', stakeOf (cw_tunnel w) p)" "tn_status t' = status_closed"
    using withdraw_alone [OF assms] by blast
  then show ?thesis by (simp add: chainExecutor_def received_upd toSender_def bindE_def creditOf_def)
qed

lemma raise_achieves:
  assumes "tunnelOk (cw_tunnel w)" "coSigned N w h" "tn_status (cw_tunnel w) = status_active" "is_party (cw_tunnel w) p"
    "sm_nonce (hs_state h) > sc_nonce (tn_state (cw_tunnel w))"
  shows "\<exists>w'. chainExecutor N p (Some h) tid RecRaiseDispute w = (w', Inr ()) \<and> achieved RecRaiseDispute p (Some h) w w' \<and>
    cw_now w' = cw_now w"
  using raise_held [OF assms] by (auto simp: chainExecutor_def quietly_def bindE_def)

lemma resolve_achieves:
  assumes "tunnelOk (cw_tunnel w)" "coSigned N w h" "tn_status (cw_tunnel w) = status_disputed"
    "sm_nonce (hs_state h) > sc_nonce (tn_state (cw_tunnel w))"
  shows "\<exists>w'. chainExecutor N p (Some h) tid RecResolveDispute w = (w', Inr ()) \<and> achieved RecResolveDispute p (Some h) w w'"
  using resolve_held [OF assms] by (auto simp: chainExecutor_def quietly_def bindE_def)

lemma raise_current_achieves:
  assumes "tunnelOk (cw_tunnel w)" "tn_status (cw_tunnel w) = status_active" "is_party (cw_tunnel w) p"
  shows "\<exists>w'. chainExecutor N p mine tid RecRaiseDisputeCurrentState w = (w', Inr ()) \<and>
    achieved RecRaiseDisputeCurrentState p mine w w' \<and> cw_now w' = cw_now w"
  using raise_current [OF assms, of "cw_now w"] by (auto simp: chainExecutor_def quietly_def bindE_def)

lemmas recovery_achieves = force_close_achieves withdraw_achieves raise_achieves resolve_achieves raise_current_achieves

text \<open>The decision on the chain's own liveness, by status.\<close>

lemma decide_on_chain:
  assumes "disputeOk (cw_tunnel w)"
  shows "decideRecovery (livenessOf p mine la hb w) =
    (let t = cw_tunnel w
     in if tn_status t = status_disputed then
          (if tn_dispute_raiser t \<noteq> Some p \<and> newerHeld t mine then RecResolveDispute
           else if tn_dispute_raiser t = Some p \<and> sc_timestamp (tn_state t) + tn_timeout_ms t \<le> cw_now w then RecForceClose
           else RecNone)
        else if tn_status t = status_created then
          (if \<not> otherDeposit t p > 0 \<and> tn_created_at t + tn_timeout_ms t \<le> cw_now w then RecWithdrawTimeout else RecNone)
        else if tn_status t = status_active \<and> hb \<le> cw_now w - la then
          (if newerHeld t mine then RecRaiseDispute else RecRaiseDisputeCurrentState)
        else RecNone)"
  using assms unfolding decideRecovery_def livenessOf_def status_agree(1-4) disputeOk_def
  by (auto simp: Let_def status_created_def status_active_def status_closed_def status_disputed_def status_destroyed_def)



subsection \<open>An abandoned tunnel\<close>

text \<open>Ticks of the watchtower at the given times.\<close>

definition ticksAt :: "Natives \<Rightarrow> address \<Rightarrow> HeldState option \<Rightarrow> int list \<Rightarrow> ChainWorld Watchtower \<times> ChainWorld \<Rightarrow>
    ChainWorld Watchtower \<times> ChainWorld" where
  "ticksAt N p mine clocks s = fold (\<lambda>now (wt, w). tick (chainExecutor N p mine) wt (w\<lparr>cw_now := now\<rparr>)) clocks s"

lemma ticksAt_Nil [simp]: "ticksAt N p mine [] s = s"
  by (simp add: ticksAt_def)

lemma ticksAt_Cons [simp]:
  "ticksAt N p mine (now # clocks) (wt, w) = ticksAt N p mine clocks (tick (chainExecutor N p mine) wt (w\<lparr>cw_now := now\<rparr>))"
  by (simp add: ticksAt_def)

definition watches :: "ChainWorld Watchtower \<Rightarrow> ChainWorld WatchedTunnel \<Rightarrow> bool" where
  "watches wt t \<longleftrightarrow> wt_tunnels wt = [(wd_tunnelId t, t)] \<and> wt_onError wt = []"

lemma tick_waits:
  assumes "watches wt (chainWatched tid p mine la hb)" "decideRecovery (livenessOf p mine la hb w) = RecNone"
  shows "\<exists>wt'. tick ex wt w = (wt', w) \<and> watches wt' (chainWatched tid p mine la hb)"
  using assms by (simp add: watches_def tick_def tickOne_def chainWatched_def)

lemma tick_acts:
  assumes "watches wt (chainWatched tid p mine la hb)" "decideRecovery (livenessOf p mine la hb w) = action" "action \<noteq> RecNone"
    "ex tid action w = (w', Inr ())"
  shows "\<exists>wt'. tick ex wt w = (wt', w') \<and> wt_onError wt' = [] \<and>
    (if action = RecForceClose \<or> action = RecWithdrawTimeout then wt_tunnels wt' = []
     else watches wt' (chainWatched tid p mine la hb))"
  using assms by (cases "action = RecForceClose \<or> action = RecWithdrawTimeout")
    (auto simp: watches_def tick_def tickOne_def chainWatched_def mapDelete_def)

text \<open>A dispute of the party's own, opened at \<open>start\<close>, which will pay it \<open>v\<close>.\<close>

definition disputing :: "address \<Rightarrow> int \<Rightarrow> int \<Rightarrow> int \<Rightarrow> Tunnel \<Rightarrow> bool" where
  "disputing p start d v t \<longleftrightarrow> tunnelOk t \<and> tn_status t = status_disputed \<and> tn_dispute_raiser t = Some p \<and> is_party t p \<and>
     sc_timestamp (tn_state t) = start \<and> tn_timeout_ms t = d \<and> stakeOf t p = v"

lemma stake_disputed:
  "tn_status t = status_disputed \<Longrightarrow>
   stakeOf t p = shareOf (p = pc_address (tn_party_a t)) (sc_party_a_balance (tn_state t)) (sc_party_b_balance (tn_state t))"
  by (simp add: stakeOf_def shareOf_def)

lemma first_tick:
  assumes w: "worldOk w" and active: "tn_status (cw_tunnel w) = status_active" and p: "is_party (cw_tunnel w) p"
    and mine: "heldOk N w mine" and silent: "hb \<le> cw_now w - la" and wt: "watches wt (chainWatched tid p mine la hb)"
  shows "\<exists>wt1 w1. tick (chainExecutor N p mine) wt w = (wt1, w1) \<and> watches wt1 (chainWatched tid p mine la hb) \<and>
    disputing p (cw_now w) (tn_timeout_ms (cw_tunnel w)) (owed (cw_tunnel w) p mine) (cw_tunnel w1) \<and>
    cw_out w1 = cw_out w"
proof -
  let ?t = "cw_tunnel w"
  have ok: "tunnelOk ?t" "disputeOk ?t" using w by (simp_all add: worldOk_def tunnelOk_def)
  have dec: "decideRecovery (livenessOf p mine la hb w) =
      (if newerHeld ?t mine then RecRaiseDispute else RecRaiseDisputeCurrentState)"
    unfolding decide_on_chain [OF ok(2)] using active silent by simp
  show ?thesis
  proof (cases "newerHeld ?t mine")
    case True
    then obtain h where h: "mine = Some h" "coSigned N w h" "sm_nonce (hs_state h) > sc_nonce (tn_state ?t)"
      using mine by (auto simp: newerHeld_def heldOk_def split: option.split_asm)
    obtain t1 where t1: "raise_dispute N ?t (hs_state h) (if p = pc_address (tn_party_a ?t) then hs_sigB h else hs_sigA h)
        p (cw_now w) = Inr t1" "tn_status t1 = status_disputed" "tn_dispute_raiser t1 = Some p"
        "tn_state t1 = commitment (hs_state h) (cw_now w)" "tn_timeout_ms t1 = tn_timeout_ms ?t"
      using raise_held [OF ok(1) h(2) active p h(3)] by blast
    have "sound ?t t1 [] 0"
      using raise_dispute_sound [OF ok(1) _ t1(1)] h(2) by (simp add: coSigned_def Let_def)
    moreover have "framed ?t t1 (cw_now w)" using framed_states(2) [OF t1(1)] .
    ultimately have "disputing p (cw_now w) (tn_timeout_ms ?t) (owed ?t p mine) t1"
      using t1 p h by (simp add: disputing_def sound_def framed_def is_party_def stake_disputed owed_def commitment_def)
    moreover have "chainExecutor N p mine tid RecRaiseDispute w = (w\<lparr>cw_tunnel := t1, cw_out := cw_out w @ []\<rparr>, Inr ())"
      using t1(1) h(1) by (intro executor_ok) (auto simp: quietly_def bindE_def)
    ultimately show ?thesis
      using tick_acts [OF wt dec, of "chainExecutor N p mine"] True by (auto simp: quietly_def)
  next
    case False
    obtain t1 where t1: "raise_dispute_current_state ?t p (cw_now w) = Inr t1" "tn_status t1 = status_disputed"
        "tn_dispute_raiser t1 = Some p" "tn_state t1 = (tn_state ?t)\<lparr>sc_timestamp := cw_now w\<rparr>"
        "tn_timeout_ms t1 = tn_timeout_ms ?t"
      using raise_current [OF ok(1) active p] by blast
    have "owed ?t p mine = stakeOf ?t p" using False by (auto simp: owed_def newerHeld_def split: option.split)
    moreover have "stakeOf ?t p = shareOf (p = pc_address (tn_party_a ?t)) (sc_party_a_balance (tn_state ?t)) (sc_party_b_balance (tn_state ?t))"
      using active by (simp add: stakeOf_def shareOf_def)
    moreover have "sound ?t t1 [] 0" using raise_current_sound [OF ok(1) t1(1)] .
    moreover have "framed ?t t1 (cw_now w)" using framed_states(4) [OF t1(1)] .
    ultimately have "disputing p (cw_now w) (tn_timeout_ms ?t) (owed ?t p mine) t1"
      using t1 p by (simp add: disputing_def sound_def framed_def is_party_def stake_disputed)
    moreover have "chainExecutor N p mine tid RecRaiseDisputeCurrentState w = (w\<lparr>cw_tunnel := t1, cw_out := cw_out w @ []\<rparr>, Inr ())"
      using t1(1) by (intro executor_ok) (auto simp: quietly_def bindE_def)
    ultimately show ?thesis
      using tick_acts [OF wt dec, of "chainExecutor N p mine"] False by (auto simp: quietly_def)
  qed
qed

lemma waiting_ticks:
  assumes "watches wt (chainWatched tid p mine la hb)" "disputing p start d v (cw_tunnel w)" "\<forall>x\<in>set clocks. x < start + d"
  shows "\<exists>wt' now. ticksAt N p mine clocks (wt, w) = (wt', w\<lparr>cw_now := now\<rparr>) \<and> watches wt' (chainWatched tid p mine la hb)"
  using assms
proof (induction clocks arbitrary: wt w)
  case Nil
  then show ?case by (intro exI [of _ wt] exI [of _ "cw_now w"]) simp
next
  case (Cons x clocks)
  then have "disputeOk (cw_tunnel (w\<lparr>cw_now := x\<rparr>))" by (simp add: disputing_def tunnelOk_def)
  then have "decideRecovery (livenessOf p mine la hb (w\<lparr>cw_now := x\<rparr>)) = RecNone"
    using Cons.prems(2,3) by (subst decide_on_chain) (simp_all add: disputing_def)
  from tick_waits [OF Cons.prems(1) this, of "chainExecutor N p mine"] obtain wt1
    where t: "tick (chainExecutor N p mine) wt (w\<lparr>cw_now := x\<rparr>) = (wt1, w\<lparr>cw_now := x\<rparr>)"
      "watches wt1 (chainWatched tid p mine la hb)"
    by blast
  have "\<exists>wt' now. ticksAt N p mine clocks (wt1, w\<lparr>cw_now := x\<rparr>) = (wt', w\<lparr>cw_now := x, cw_now := now\<rparr>) \<and>
      watches wt' (chainWatched tid p mine la hb)"
    using Cons.prems(2,3) by (intro Cons.IH [OF t(2)]) simp_all
  then show ?case by (simp add: t(1))
qed

lemma last_tick:
  assumes "watches wt (chainWatched tid p mine la hb)" "disputing p start d v (cw_tunnel w)" "start + d \<le> cw_now w" "u64 (cw_now w)"
  shows "\<exists>wt' w'. tick (chainExecutor N p mine) wt w = (wt', w') \<and> wt_tunnels wt' = [] \<and> wt_onError wt' = [] \<and>
    tn_status (cw_tunnel w') = status_closed \<and> received w p + v \<le> received w' p"
proof -
  have t: "tunnelOk (cw_tunnel w)" "disputeOk (cw_tunnel w)" "tn_status (cw_tunnel w) = status_disputed"
      "tn_dispute_raiser (cw_tunnel w) = Some p" "is_party (cw_tunnel w) p"
    using assms(2) by (simp_all add: disputing_def tunnelOk_def)
  have dec: "decideRecovery (livenessOf p mine la hb w) = RecForceClose"
    unfolding decide_on_chain [OF t(2)] using assms(2,3) by (simp add: disputing_def)
  obtain w' where w': "chainExecutor N p mine tid RecForceClose w = (w', Inr ())" "achieved RecForceClose p mine w w'"
    using force_close_achieves [OF t(1,3,4) _ assms(4) t(5), of N mine tid] assms(2,3) by (auto simp: disputing_def)
  then show ?thesis
    using tick_acts [OF assms(1) dec, of "chainExecutor N p mine"] assms(2) by (auto simp: disputing_def)
qed

text \<open>When the other party has been silent for the heartbeat timeout and stays silent, the ticks of the watchtower (one now, any
  number before the dispute's timeout, one after it) dispute with the latest state the party holds, wait, and close the tunnel:
  the party is paid at least what that state owes it, no error is reported and the tunnel is no longer watched.\<close>

lemma abandoned_ticks:
  assumes w: "worldOk w" and "tn_status (cw_tunnel w) = status_active" "is_party (cw_tunnel w) p" "heldOk N w mine" "hb \<le> cw_now w - la"
    and "watches wt (chainWatched tid p mine la hb)" "\<forall>x\<in>set waiting. x < cw_now w + tn_timeout_ms (cw_tunnel w)"
    and late: "cw_now w + tn_timeout_ms (cw_tunnel w) \<le> late" "u64 late"
  shows "\<exists>wt' w'. ticksAt N p mine (cw_now w # waiting @ [late]) (wt, w) = (wt', w') \<and>
      tn_status (cw_tunnel w') = status_closed \<and> received w p + owed (cw_tunnel w) p mine \<le> received w' p \<and>
      wt_tunnels wt' = [] \<and> wt_onError wt' = []"
proof -
  let ?d = "chainWatched tid p mine la hb" and ?t = "cw_tunnel w"
  from first_tick [OF assms(1-6)] obtain wt1 w1
    where 1: "tick (chainExecutor N p mine) wt w = (wt1, w1)" "watches wt1 ?d"
      "disputing p (cw_now w) (tn_timeout_ms ?t) (owed ?t p mine) (cw_tunnel w1)" "cw_out w1 = cw_out w"
    by blast
  from waiting_ticks [OF 1(2,3) assms(7), of N] obtain wt2 now2
    where 2: "ticksAt N p mine waiting (wt1, w1) = (wt2, w1\<lparr>cw_now := now2\<rparr>)" "watches wt2 ?d"
    by blast
  have "disputing p (cw_now w) (tn_timeout_ms ?t) (owed ?t p mine) (cw_tunnel (w1\<lparr>cw_now := late\<rparr>))" using 1(3) by simp
  from last_tick [OF 2(2) this, of N] late obtain wt' w'
    where 3: "tick (chainExecutor N p mine) wt2 (w1\<lparr>cw_now := late\<rparr>) = (wt', w')" "wt_tunnels wt' = []" "wt_onError wt' = []"
      "tn_status (cw_tunnel w') = status_closed" "received (w1\<lparr>cw_now := late\<rparr>) p + owed ?t p mine \<le> received w' p"
    by auto
  have "ticksAt N p mine (cw_now w # waiting @ [late]) (wt, w) = ticksAt N p mine [late] (ticksAt N p mine waiting (wt1, w1))"
    using 1(1) by (simp add: ticksAt_def)
  moreover have "received (w1\<lparr>cw_now := late\<rparr>) p = received w p" using 1(4) by (simp add: received_def)
  ultimately show ?thesis using 2(1) 3 by simp
qed

text \<open>C19: the watchtower does not defend against a dispute on the latest state. When the other party raises the dispute and the
  watching party holds nothing newer, no action is decided at any time. The other party's force-close after the timeout
  then takes the penalty from the watching party's stake, although agreeing to the dispute would have been accepted at
  any moment before and pays the stake in full.\<close>

theorem watchtower_pays_avoidable_penalty:
  assumes "build_tunnel uid a b timeout_ms penalty_amount now = Inr t0" "u64 now" "0 < penalty_amount"
    and "chainRun N (\<lambda>sender call. True) (freshWorld t0) w" "tn_status (cw_tunnel w) = status_disputed"
    and "tn_dispute_raiser (cw_tunnel w) = Some q" "is_party (cw_tunnel w) p" "p \<noteq> q" "\<not> newerHeld (cw_tunnel w) mine"
    and "sc_timestamp (tn_state (cw_tunnel w)) + tn_timeout_ms (cw_tunnel w) \<le> late" "u64 late"
  shows "decideRecovery (livenessOf p mine lastActivity heartbeat (w\<lparr>cw_now := any\<rparr>)) = RecNone \<and>
    (\<exists>t' out. force_close_after_timeout (cw_tunnel w) q late = Inr (t', out) \<and>
       creditOf out p = stakeOf (cw_tunnel w) p - min penalty_amount (stakeOf (cw_tunnel w) p)) \<and>
    (\<exists>t' out. agree_to_dispute (cw_tunnel w) p any = Inr (t', out) \<and> creditOf out p = stakeOf (cw_tunnel w) p)"
proof (intro conjI)
  let ?t = "cw_tunnel w"
  have w: "worldOk w" using chainRun_ok [OF assms(4)] build_tunnel_ok [OF assms(1,2)] .
  then have ok: "tunnelOk ?t" "disputeOk (cw_tunnel (w\<lparr>cw_now := any\<rparr>))" by (simp_all add: worldOk_def tunnelOk_def)
  have q: "is_party ?t q" using ok(2) assms(5,6) by (simp add: disputeOk_def)
  have pen: "tn_penalty_amount ?t = penalty_amount"
    using chainRun_same [OF assms(4)] assms(1) by (auto simp: sameTunnel_def freshWorld_def build_tunnel_def result_simps)
  show "decideRecovery (livenessOf p mine lastActivity heartbeat (w\<lparr>cw_now := any\<rparr>)) = RecNone"
    unfolding decide_on_chain [OF ok(2)] using assms(5,6,8,9) by simp
  obtain x y t1 where f: "force_close_after_timeout ?t q late = Inr (t1, [(pc_address (tn_party_a ?t), x), (pc_address (tn_party_b ?t), y)])"
    using force_close_pays_stake [OF ok(1) assms(5) q assms(6,10,11)] by blast
  then have "penalised ?t q = (x, y)" by (auto simp: force_close_Inr pay_out_def split: prod.split_asm)
  then have "creditOf [(pc_address (tn_party_a ?t), x), (pc_address (tn_party_b ?t), y)] p = stakeOf ?t p - min penalty_amount (stakeOf ?t p)"
    using ok(1) q assms(3,5,7,8) pen unfolding penalised_def
    by (auto simp: creditOf_def stakeOf_def is_party_def tunnelOk_def Let_def split: if_split_asm)
  with f show "\<exists>t' out. force_close_after_timeout ?t q late = Inr (t', out) \<and>
      creditOf out p = stakeOf ?t p - min penalty_amount (stakeOf ?t p)" by blast
  let ?a = "sc_party_a_balance (tn_state ?t)" and ?b = "sc_party_b_balance (tn_state ?t)"
  have "agree_to_dispute ?t p any = Inr (pay_out ?t ?a ?b any)"
    using ok assms(5,6,7,8) by (cases "pay_out ?t ?a ?b any") (simp add: agree_Inr tunnelOk_def balanceOk_def)
  moreover have "creditOf (snd (pay_out ?t ?a ?b any)) p = stakeOf ?t p"
    using ok(1) assms(5,7) by (auto simp: creditOf_def pay_out_def stakeOf_def is_party_def tunnelOk_def)
  ultimately show "\<exists>t' out. agree_to_dispute ?t p any = Inr (t', out) \<and> creditOf out p = stakeOf ?t p"
    by (metis prod.collapse)
qed

theorem watchtower_pays_avoidable_penalty_witness:
  "decideRecovery (livenessOf (exampleAddr True) None 0 0 (disputedWorld\<lparr>cw_now := 5000\<rparr>)) = RecNone \<and>
   (\<exists>t' out. force_close_after_timeout (cw_tunnel disputedWorld) (exampleAddr False) 5000 = Inr (t', out) \<and>
      creditOf out (exampleAddr True) = 55)"
proof -
  have w: "chainRun exampleNatives (\<lambda>sender call. True) (freshWorld exampleTunnel) disputedWorld"
    using chainRun_trans [OF chainExec_run [OF disputeOpening_run] exampleWorld_run] by simp
  have p: "tn_status (cw_tunnel disputedWorld) = status_disputed" "tn_dispute_raiser (cw_tunnel disputedWorld) = Some (exampleAddr False)"
      "is_party (cw_tunnel disputedWorld) (exampleAddr True)" "exampleAddr True \<noteq> exampleAddr False"
      "\<not> newerHeld (cw_tunnel disputedWorld) None" "stakeOf (cw_tunnel disputedWorld) (exampleAddr True) = 60"
      "sc_timestamp (tn_state (cw_tunnel disputedWorld)) + tn_timeout_ms (cw_tunnel disputedWorld) \<le> 5000"
    by (simp_all add: is_party_def newerHeld_def stakeOf_def example_world_defs replicate_eq_replicate)
  show ?thesis
    using watchtower_pays_avoidable_penalty [OF exampleBuilt_eq [unfolded exampleBuilt_def] _ _ w p(1,2,3,4,5,7), of 0 0 5000] p(6)
    by (auto simp: u64_def)
qed

end
