(* ===== verification/Seat_On_Chain.thy ===== *)
theory Seat_On_Chain
imports Recovery Concrete
begin

text \<open>A seat of the SDK against the contract: what a seat holds as its latest co-signed update is what the contract's dispute
  functions accept, and a settlement combined from the halves of the two seats is what the cooperative close accepts.\<close>

text \<open>The signature check of the SDK is the chain's native ed25519 check, on signatures of 64 bytes.\<close>

definition sameScheme :: "Natives \<Rightarrow> (bytes \<Rightarrow> bytes \<Rightarrow> bytes \<Rightarrow> bool) \<Rightarrow> bool" where
  "sameScheme N edVerify \<longleftrightarrow> (\<forall>s m pk. edVerify s m pk \<longrightarrow> length s = 64 \<and> ed25519_verify N s pk m)"

text \<open>The tunnel on chain is the seat's: the same identifier and the two endpoints' ed25519 keys.\<close>

definition anchored :: "Tunnel \<Rightarrow> ('s, 'm) DistributedTunnel \<Rightarrow> bool" where
  "anchored t d \<longleftrightarrow> addressToBytes32 (dt_tunnelId d) = Inr (tn_id t) \<and>
     pc_public_key (tn_party_a t) = ep_publicKey (partyAOf d) \<and> pc_signature_type (tn_party_a t) = SIG_TYPE_ED25519 \<and>
     pc_public_key (tn_party_b t) = ep_publicKey (partyBOf d) \<and> pc_signature_type (tn_party_b t) = SIG_TYPE_ED25519"

definition submittedOf :: "StateUpdate \<Rightarrow> Submitted" where
  "submittedOf u = \<lparr>sm_state_hash = su_stateHash u, sm_nonce = su_nonce u, sm_party_a_balance = su_partyABalance u,
     sm_party_b_balance = su_partyBBalance u, sm_timestamp = su_timestamp u\<rparr>"

definition heldOf :: "('s, 'm) DistributedTunnel \<Rightarrow> HeldState option" where
  "heldOf d = map_option (\<lambda>u. \<lparr>hs_state = submittedOf (cu_update u), hs_sigA = cu_sigA u, hs_sigB = cu_sigB u\<rparr>) (dt_latest d)"

text \<open>The keys of a built tunnel have their scheme's length.\<close>

definition keysOk :: "Tunnel \<Rightarrow> bool" where
  "keysOk t \<longleftrightarrow> (\<forall>p\<in>{tn_party_a t, tn_party_b t}. is_valid_signature_type (pc_signature_type p) \<and>
     is_valid_public_key_length (pc_signature_type p) (pc_public_key p))"

lemma build_tunnel_keys: "build_tunnel uid a b timeout_ms penalty_amount now = Inr t \<Longrightarrow> keysOk t"
  by (auto simp: build_tunnel_def validate_create_params_def result_simps keysOk_def)

lemma keysOk_same: "sameTunnel t t' \<Longrightarrow> keysOk t' = keysOk t"
  by (simp add: sameTunnel_def keysOk_def)

lemma anchored_same: "sameTunnel t t' \<Longrightarrow> anchored t' d = anchored t d"
  by (simp add: sameTunnel_def anchored_def)

lemma anchored_seat: "sameSeat d d' \<Longrightarrow> anchored t d' = anchored t d"
  by (simp add: sameSeat_def anchored_def partyAOf_def partyBOf_def selfIsA_def)

lemma signedBy_native:
  assumes "pc_signature_type p = SIG_TYPE_ED25519" "is_valid_public_key_length (pc_signature_type p) (pc_public_key p)"
    "length s = 64" "ed25519_verify N s (pc_public_key p) m"
  shows "signedBy N p m s"
  using assms by (simp add: signedBy_def sig_verify_def assertM_def is_valid_signature_type_def is_valid_signature_length_def
      SIG_TYPE_ED25519_def)

lemma endpoint_signature_on_chain:
  assumes "sameScheme N edV" "keysOk t" "anchored t d"
  shows "verifies edV (partyAOf d) \<Longrightarrow> ep_verify (partyAOf d) m s \<Longrightarrow> signedBy N (tn_party_a t) m s"
    "verifies edV (partyBOf d) \<Longrightarrow> ep_verify (partyBOf d) m s \<Longrightarrow> signedBy N (tn_party_b t) m s"
  using assms by (auto simp: verifies_def sameScheme_def anchored_def keysOk_def intro!: signedBy_native)

lemma verifies_parties: "endpointsOk edV d \<Longrightarrow> verifies edV (partyAOf d) \<and> verifies edV (partyBOf d)"
  by (simp add: endpointsOk_def partyAOf_def partyBOf_def)

text \<open>The latest update of a well-formed seat is a co-signed state for the contract, unless coins are locked in HTLCs.\<close>

lemma seat_latest_coSigned:
  assumes "seatOk H d" "endpointsOk edV d" "dt_latest d = Some u" "\<And>x. length (H x) = 32"
    and "sameScheme N edV" "keysOk (cw_tunnel w)" "anchored (cw_tunnel w) d" "tn_balance (cw_tunnel w) = dt_total d"
    and "tn_created_at (cw_tunnel w) \<le> su_timestamp (cu_update u)" "su_timestamp (cu_update u) \<le> cw_now w" "dt_nonce d < U64_MAX"
  shows "coSigned N w \<lparr>hs_state = submittedOf (cu_update u), hs_sigA = cu_sigA u, hs_sigB = cu_sigB u\<rparr>"
proof -
  let ?v = "cu_update u" and ?t = "cw_tunnel w"
  have u: "coSignedBy (partyAOf d) (partyBOf d) u" "su_nonce ?v = dt_nonce d" "bindsState H d (dt_state d) ?v"
    using assms(1,3) by (simp_all add: seatOk_def)
  obtain msg where m: "serializeStateUpdate ?v = Inr msg" "ep_verify (partyAOf d) msg (cu_sigA u)" "ep_verify (partyBOf d) msg (cu_sigB u)"
    using u(1) by (auto simp: coSignedBy_def)
  have r: "u64 (su_nonce ?v)" "u64 (su_timestamp ?v)" "u64 (su_partyABalance ?v)" "u64 (su_partyBBalance ?v)"
      "serialize_state_update (updateData ?t (submittedOf ?v)) = msg"
    using m(1) assms(7) u(3)
    by (auto simp: serializeStateUpdate_Inr_iff serialize_state_update_def updateData_def submittedOf_def anchored_def bindsState_def
        u64_to_be_bytes_eq domain_defs)
  have "length (su_stateHash ?v) = 32" using u(3) assms(4) by (auto simp: bindsState_def)
  with r u assms(8-11) m(2,3) endpoint_signature_on_chain [OF assms(5-7)] verifies_parties [OF assms(2)] show ?thesis
    unfolding coSigned_def Let_def HeldState.simps r(5)
    by (auto simp: u64Submitted_def submittedOf_def bindsState_def)
qed

lemma seat_reachable:
  assumes "newDistributedTunnel idc P cfg ib = Inr d0" "endpointsOk edV d0" "(seatStep H edV)\<^sup>*\<^sup>* d0 d"
  shows "seatOk H d" "endpointsOk edV d" "sameSeat d0 d" "dt_total d = bal_a ib + bal_b ib"
proof -
  have "keeps H d0 d" using keeps_reachable [OF assms(3,2) newDistributedTunnel_ok(1) [OF assms(1)]] .
  with newDistributedTunnel_ok(1) [OF assms(1)] show "seatOk H d" "sameSeat d0 d" by (auto simp: keeps_def)
  then show "endpointsOk edV d" "dt_total d = bal_a ib + bal_b ib"
    using assms(2) sameSeat_preds(5) [of d0 d edV] newDistributedTunnel_ok(4) [OF assms(1)] by (simp_all add: sameSeat_def)
qed

lemma reachable_tunnel:
  assumes "build_tunnel uid a b timeout_ms penalty_amount now = Inr t0" "u64 now" "chainRun N allowed (freshWorld t0) w"
  shows "worldOk w" "Chain_Runs.tunnelOk (cw_tunnel w)" "keysOk (cw_tunnel w)" "sameTunnel t0 (cw_tunnel w)"
proof -
  show w: "worldOk w" using chainRun_ok [OF assms(3)] build_tunnel_ok [OF assms(1,2)] .
  then show "Chain_Runs.tunnelOk (cw_tunnel w)" by (simp add: worldOk_def)
  show s: "sameTunnel t0 (cw_tunnel w)" using chainRun_same [OF assms(3)] by (simp add: freshWorld_def)
  show "keysOk (cw_tunnel w)" using build_tunnel_keys [OF assms(1)] keysOk_same [OF s] by simp
qed



text \<open>C8: a combined settlement closes the tunnel. When a seat has built its half of a root-anchored settlement for the nonce on
  chain and combined it with a half of the other seat that it verified, the contract's close_cooperative_with_root accepts the two
  signatures and pays both parties exactly the balances of the seat's state.\<close>

theorem combined_settlement_closes_tunnel:
  assumes seat: "newDistributedTunnel idc P cfg ib = Inr d0" "endpointsOk edV d0" "(seatStep H edV)\<^sup>*\<^sup>* d0 d"
    and chain: "build_tunnel uid a b timeout_ms penalty_amount now = Inr t0" "u64 now"
      "chainRun N (\<lambda>sender call. True) (freshWorld t0) w" "anchored t0 d0" "sameScheme N edV"
    and half: "buildSettlementHalfWithRoot d ts root (sc_nonce (tn_state (cw_tunnel w))) = Inr (s, sigSelf)"
    and both: "combineSettlementWithRoot d s sigSelf sigOther = Inr co"
    and open1: "tn_status (cw_tunnel w) = status_active" "tn_balance (cw_tunnel w) = balanceSum P (dt_state d)"
    and clock: "tn_created_at (cw_tunnel w) \<le> ts" "ts \<le> cw_now w"
  shows "let x = bal_a (p_balances P (dt_state d)); y = bal_b (p_balances P (dt_state d)); t = cw_tunnel w
    in \<exists>t'. close_cooperative_with_root N t x y (cr_sigA co) (cr_sigB co) ts root (cw_now w) =
         Inr (t', [(pc_address (tn_party_a t), x), (pc_address (tn_party_b t), y)]) \<and>
       tn_status t' = status_closed \<and> tn_balance t' = 0"
proof -
  note d = seat_reachable [OF seat(1-3)] and t = reachable_tunnel [OF chain(1-3)]
  let ?t = "cw_tunnel w" and ?x = "bal_a (p_balances P (dt_state d))" and ?y = "bal_b (p_balances P (dt_state d))"
  define n where "n = sc_nonce (tn_state ?t) + 1"
  have anc: "anchored ?t d" using chain(4) by (simp add: anchored_same [OF t(4)] anchored_seat [OF d(3)])
  have P: "dt_protocol d = P" using d(3) newDistributedTunnel_ok(9) [OF seat(1)] by (simp add: sameSeat_def)
  obtain msg where m: "serializeSettlementWithRoot s = Inr msg" "selfSign d msg = Inr sigSelf" "length root = 32"
      "s = \<lparr>st_tunnelId = dt_tunnelId d, st_partyABalance = ?x, st_partyBBalance = ?y, st_finalNonce = n,
        st_timestamp = ts, st_transcriptRoot = root\<rparr>"
    using half by (auto simp: buildSettlementHalfWithRoot_def Let_def result_simps P n_def split: if_split_asm)
  have v: "ep_verify (dt_opponent d) msg sigOther" "ep_verify (dt_self d) msg sigSelf"
    using both m(1,2) d(2) by (auto simp: combineSettlementWithRoot_def endpointsOk_def correctEndpoint_def selfSign_def
        split: if_split_asm option.split_asm)
  have co: "ep_verify (partyAOf d) msg (cr_sigA co)" "ep_verify (partyBOf d) msg (cr_sigB co)"
    using both m(1) v by (auto simp: combineSettlementWithRoot_def partyAOf_def partyBOf_def split: if_split_asm)
  note sg = endpoint_signature_on_chain [OF chain(5) t(3) anc]
  have signed: "signedBy N (tn_party_a ?t) msg (cr_sigA co)" "signedBy N (tn_party_b ?t) msg (cr_sigB co)"
    using sg co verifies_parties [OF d(2)] by blast+
  then have ne: "cr_sigA co \<noteq> []" "cr_sigB co \<noteq> []"
    using anc by (auto simp: signedBy_def sig_verify_def assertM_def anchored_def is_valid_signature_length_def
        SIG_TYPE_ED25519_def split: if_split_asm)
  have msg: "serialize_settlement_with_root \<lparr>sd_tunnel_id = tn_id ?t, sd_party_a_balance = ?x, sd_party_b_balance = ?y,
      sd_final_nonce = n, sd_timestamp = ts, sd_transcript_root = root\<rparr> = msg" "u64 ?x" "u64 ?y"
    using m(1,3) anc unfolding m(4)
    by (auto simp: serializeSettlementWithRoot_def serialize_settlement_with_root_def anchored_def u64_to_be_bytes_eq
        domain_defs result_simps)
  have bal: "?x + ?y = tn_balance ?t" "?x \<le> tn_balance ?t" using open1(2) msg(2,3) by (simp_all add: balanceSum_def u64_def)
  have "n \<le> U64_MAX" "tn_version ?t = CURRENT_VERSION" using t(2) by (simp_all add: n_def Chain_Runs.tunnelOk_def disputeOk_def)
  then have "close_cooperative_with_root N ?t ?x ?y (cr_sigA co) (cr_sigB co) ts root (cw_now w) =
      Inr (fst (pay_out ?t ?x ?y (cw_now w)), snd (pay_out ?t ?x ?y (cw_now w)))"
    unfolding close_cooperative_with_root_Inr Let_def n_def [symmetric] msg(1) using open1(1) m(3) bal ne clock signed by simp
  then show ?thesis using bal(1) by (simp add: pay_out_def Let_def)
qed

subsection \<open>An example\<close>

text \<open>Both parties deposit 1000 in the tunnel of the sample seats, and A disputes the opening state.\<close>

definition sampleDeposited :: ChainWorld where
  "sampleDeposited = \<lparr>cw_tunnel = exampleTunnel\<lparr>tn_balance := 2000, tn_party_a_deposit := 1000, tn_party_b_deposit := 1000,
       tn_status := status_active, tn_last_activity := 120,
       tn_state := (tn_state exampleTunnel)\<lparr>sc_party_a_balance := 1000, sc_party_b_balance := 1000\<rparr>\<rparr>,
     cw_now = 130, cw_in = 2000, cw_out = []\<rparr>"

definition sampleDisputed :: ChainWorld where
  "sampleDisputed = sampleDeposited\<lparr>cw_tunnel := (cw_tunnel sampleDeposited)\<lparr>tn_last_disputed_nonce := 1,
     tn_status := status_disputed, tn_dispute_raiser := Some (exampleAddr True), tn_last_activity := 130,
     tn_state := (tn_state (cw_tunnel sampleDeposited))\<lparr>sc_timestamp := 130\<rparr>\<rparr>\<rparr>"

lemma sampleDisputed_run: "chainRun N (\<lambda>s c. True) (freshWorld exampleTunnel) sampleDisputed"
proof (rule chainExec_run)
  show "chainExec N [(exampleAddr True, 110, CDepositA 1000), (exampleAddr False, 120, CDeposit 1000),
      (exampleAddr True, 130, CRaiseCurrent)] (freshWorld exampleTunnel) = Some sampleDisputed"
    by (simp add: sampleDisputed_def sampleDeposited_def freshWorld_def example_world_defs
        deposit_party_a_def deposit_def deposit_internal_def assertM_def bindE_def addU64_def quietly_def maybe_activate_def
        MIN_DEPOSIT_def raise_dispute_current_state_def is_party_def replicate_eq_replicate)
qed simp

lemma sampleScheme: "sameScheme exampleNatives sampleVerify"
  using length_sampleSign by (simp add: sameScheme_def exampleNatives_def sampleVerify_def) (simp add: sampleSign_def)

lemma sampleAnchored: "anchored exampleTunnel (sampleSeat P codec p)"
  by (simp add: anchored_def sampleSeat_def exampleTunnel_def exampleParty_def partyAOf_def partyBOf_def selfIsA_def sampleKey_def
      otherParty_def Let_def)

text \<open>Seat B after the payment of 10 that seat A proposed at time 115.\<close>

lemma samplePaid:
  "\<exists>b u. (seatStep sampleHash sampleVerify)\<^sup>*\<^sup>* (sampleSeat PaymentsProtocol paymentsMoveCodec PartyB) b \<and> dt_latest b = Some u \<and>
     dt_nonce b = 1 \<and> su_timestamp (cu_update u) = 115 \<and> su_partyABalance (cu_update u) = 990 \<and> su_partyBBalance (cu_update u) = 1010 \<and>
     dt_state b = \<lparr>pay_balanceA = 990, pay_balanceB = 1010, pay_total = 2000, pay_count = 1\<rparr>"
proof -
  let ?a = "sampleSeat PaymentsProtocol paymentsMoveCodec PartyA" and ?b = "sampleSeat PaymentsProtocol paymentsMoveCodec PartyB"
  let ?m = "\<lparr>pm_from = PartyA, pm_amount = 10\<rparr>"
  let ?n = "\<lparr>pay_balanceA = 990, pay_balanceB = 1010, pay_total = 2000, pay_count = 1\<rparr>"
  obtain es where es: "p_encodeState PaymentsProtocol ?n = Inr es"
    by (auto simp: payments_encodeState_def encodeU64s_Inr_iff u64_def)
  obtain q where q: "makeProposal sampleHash ?a ?m 115 = Inr q" "pp_next q = ?n"
    using sampleSeat_proposal [OF _ es, of ?m PartyA 115 paymentsMoveCodec]
    by (auto simp: payments_applyMove_def balanceSum_def payments_balances_def funded_def u64_def payments_initialState_def
        sampleContext_def sampleBalances_def)
  have rt: "moveRoundTrips (dt_codec ?a) ?m" by (simp add: sampleSeat_def paymentsMoveCodec_round_trip)
  obtain f b a2 u where b: "onFrame sampleHash ?b f = (b, Inr ())" "level a2 b" "dt_nonce a2 = dt_nonce ?a + 1"
    "dt_latest b = Some u" "cu_update u = pp_update q" "dt_state a2 = pp_next q"
    using exchange_progress [OF sampleSeat_level q(1) rt] by blast
  have "proposalOk sampleHash ?a q" "pp_timestamp q = 115" using makeProposal_Inr [OF q(1)] by simp_all
  then have u: "su_timestamp (pp_update q) = 115" "su_partyABalance (pp_update q) = 990" "su_partyBBalance (pp_update q) = 1010"
    using q(2) by (auto simp: proposalOk_def describes_def sampleSeat_def payments_balances_def)
  have "(seatStep sampleHash sampleVerify)\<^sup>*\<^sup>* ?b b" using step_frame [of sampleHash sampleVerify ?b f] b(1) by auto
  moreover have "dt_nonce b = 1" "dt_state b = ?n" using b(2,3,6) q(2) by (simp_all add: level_def sampleSeat_def)
  ultimately show ?thesis using b(4,5) u by auto
qed

lemma samplePay_new:
  "newDistributedTunnel idc PaymentsProtocol (sampleConfig codec p) sampleBalances = Inr (sampleSeat PaymentsProtocol codec p)"
  by (rule sampleSeat_new) (simp add: balanceSum_def payments_balances_def payments_initialState_def sampleContext_def sampleBalances_def)

lemma sampleSeat_endpoints: "endpointsOk sampleVerify (sampleSeat P codec p)"
  by (simp add: endpointsOk_def sampleSeat_def)


lemma sampleDeposited_run: "chainRun N (\<lambda>s c. True) (freshWorld exampleTunnel) (sampleDeposited\<lparr>cw_now := 120\<rparr>)"
proof (rule chainExec_run)
  show "chainExec N [(exampleAddr True, 110, CDepositA 1000), (exampleAddr False, 120, CDeposit 1000)] (freshWorld exampleTunnel) =
      Some (sampleDeposited\<lparr>cw_now := 120\<rparr>)"
    by (simp add: sampleDeposited_def freshWorld_def example_world_defs deposit_party_a_def deposit_def deposit_internal_def
        assertM_def bindE_def addU64_def quietly_def maybe_activate_def MIN_DEPOSIT_def replicate_eq_replicate)
qed simp

lemma sampleDeposited_facts:
  "tn_balance (cw_tunnel sampleDeposited) = 2000" "tn_status (cw_tunnel sampleDeposited) = status_active"
  "sc_nonce (tn_state (cw_tunnel sampleDeposited)) = 0" "tn_created_at (cw_tunnel sampleDeposited) = 100"
  "tn_timeout_ms (cw_tunnel sampleDeposited) = 1000" "received (sampleDeposited\<lparr>cw_now := 120\<rparr>) p = 0"
  "pc_address (tn_party_a (cw_tunnel sampleDeposited)) = exampleAddr True"
  "pc_address (tn_party_b (cw_tunnel sampleDeposited)) = exampleAddr False"
  by (simp_all add: sampleDeposited_def exampleTunnel_def exampleParty_def received_def)


theorem combined_settlement_closes_tunnel_witness:
  "\<exists>sa sb t'. close_cooperative_with_root exampleNatives (cw_tunnel sampleDeposited) 990 1010 sa sb 118 (replicate 32 0) 120 =
     Inr (t', [(exampleAddr True, 990), (exampleAddr False, 1010)]) \<and> tn_status t' = status_closed \<and> tn_balance t' = 0"
proof -
  let ?w = "sampleDeposited\<lparr>cw_now := 120\<rparr>" and ?d0 = "sampleSeat PaymentsProtocol paymentsMoveCodec PartyB"
  obtain b where b: "(seatStep sampleHash sampleVerify)\<^sup>*\<^sup>* ?d0 b"
      "dt_state b = \<lparr>pay_balanceA = 990, pay_balanceB = 1010, pay_total = 2000, pay_count = 1\<rparr>"
    using samplePaid by blast
  have same: "sameSeat ?d0 b" using seat_reachable(3) [OF samplePay_new sampleSeat_endpoints b(1)] .
  let ?s = "\<lparr>st_tunnelId = sampleId, st_partyABalance = 990, st_partyBBalance = 1010, st_finalNonce = 1, st_timestamp = 118,
    st_transcriptRoot = replicate 32 0\<rparr>"
  obtain msg where m: "serializeSettlementWithRoot ?s = Inr msg"
    by (auto simp: serializeSettlementWithRoot_def u64_def)
  define sg where "sg p = sampleSign msg (kp_publicKey (sampleKey p))" for p
  have f: "dt_tunnelId b = sampleId" "dt_self b = sampleEndpoint PartyB True" "dt_opponent b = sampleEndpoint PartyA False"
      "dt_protocol b = PaymentsProtocol" "dt_selfParty b = PartyB"
    using same by (simp_all add: sameSeat_def sampleSeat_def otherParty_def)
  have half: "buildSettlementHalfWithRoot b 118 (replicate 32 0) (sc_nonce (tn_state (cw_tunnel ?w))) = Inr (?s, sg PartyB)"
    using m f b(2) by (simp add: buildSettlementHalfWithRoot_def Let_def selfSign_def payments_balances_def sampleDeposited_facts sg_def)
  have both: "combineSettlementWithRoot b ?s (sg PartyB) (sg PartyA) =
      Inr \<lparr>cr_settlement = ?s, cr_sigA = sg PartyA, cr_sigB = sg PartyB\<rparr>"
    using m f by (simp add: combineSettlementWithRoot_def sg_def selfIsA_def)
  have "tn_balance (cw_tunnel ?w) = balanceSum PaymentsProtocol (dt_state b)"
    by (simp add: sampleDeposited_facts b(2) balanceSum_def payments_balances_def)
  then show ?thesis
    using combined_settlement_closes_tunnel [OF samplePay_new sampleSeat_endpoints b(1) exampleBuilt_eq [unfolded exampleBuilt_def]
        _ sampleDeposited_run sampleAnchored sampleScheme half both]
    by (auto simp: b(2) sampleDeposited_facts u64_def payments_balances_def Let_def)
qed

end
