(* ===== verification/Htlc_Effects.thy ===== *)
theory Htlc_Effects
imports Dispute_Safety
begin

text \<open>What locking an HTLC does to the states the parties signed before it. The coins of the lock leave the tunnel's balance for
  good: a claim or an expiry pays them out, never back. Every state update the contract accepts splits exactly the
  balance, so no state signed for the balance before the lock is ever accepted again.\<close>

text \<open>The balance of a tunnel that has left its opening phase never grows.\<close>

definition shrinks :: "Tunnel \<Rightarrow> Tunnel \<Rightarrow> bool" where
  "shrinks t t' \<longleftrightarrow> tn_balance t' \<le> tn_balance t \<and> (live t' \<or> over t')"

lemma pays_shrinks: "Chain_Runs.tunnelOk t \<Longrightarrow> pays t now t' out \<Longrightarrow> shrinks t t'"
  by (auto simp: pays_def pay_out_def shrinks_def over_def tunnelOk_def balanceOk_def)

lemma lock_shrinks:
  assumes "lock_htlc N t k x r e sg s now = Inr t'"
  shows "shrinks t t'" "tn_balance t' = tn_balance t - x" "0 < x" "live t'"
proof -
  have c: "tn_status t = status_active" "0 < x" "lock_htlc_internal t k x s r e (s = pc_address (tn_party_a t)) now = Inr t'"
    using assms by (simp_all add: lock_htlc_def result_simps Let_def)
  then show "0 < x" by simp
  from c(3) obtain t0 t1 st where "update_party_htlc_counter t0 s True x = Inr t1" "t' = t1\<lparr>tn_state := st, tn_last_activity := now\<rparr>"
      "tn_status t0 = tn_status t" "tn_balance t0 = tn_balance t - x"
    unfolding lock_htlc_internal_def Let_def by (fastforce simp: result_simps)
  then have b: "tn_balance t' = tn_balance t - x" "tn_status t' = tn_status t" by (auto elim!: update_counter_cases)
  show "tn_balance t' = tn_balance t - x" by (rule b(1))
  show "live t'" using b(2) c(1) by (simp add: live_def)
  then show "shrinks t t'" using b c(2) by (simp add: shrinks_def)
qed

lemma htlc_payment_shrinks:
  "live t \<or> over t \<Longrightarrow> claim_htlc_in_tunnel N t k pre s now = Inr (t', out) \<Longrightarrow> shrinks t t'"
  "live t \<or> over t \<Longrightarrow> expire_htlc_in_tunnel t k s now = Inr (t', out) \<Longrightarrow> shrinks t t'"
  by (auto simp: claim_htlc_in_tunnel_def expire_htlc_in_tunnel_def result_simps Let_def shrinks_def live_def over_def
      elim!: update_counter_cases split: option.split_asm)

lemma state_shrinks:
  "live t \<or> over t \<Longrightarrow> update_state N t m sa sb now = Inr t' \<Longrightarrow> shrinks t t'"
  "live t \<or> over t \<Longrightarrow> raise_dispute N t m sg s now = Inr t' \<Longrightarrow> shrinks t t'"
  "live t \<or> over t \<Longrightarrow> resolve_dispute N t m sa sb now = Inr t' \<Longrightarrow> shrinks t t'"
  "live t \<or> over t \<Longrightarrow> raise_dispute_current_state t s now = Inr t' \<Longrightarrow> shrinks t t'"
  "live t \<or> over t \<Longrightarrow> extend_timeout t d s now = Inr t' \<Longrightarrow> shrinks t t'"
  "live t \<or> over t \<Longrightarrow> destroy_tunnel t s = Inr t' \<Longrightarrow> shrinks t t'"
  by (auto simp: update_state_Inr raise_dispute_Inr resolve_dispute_Inr raise_dispute_current_state_Inr extend_timeout_Inr
      destroy_tunnel_def result_simps shrinks_def live_def over_def)

lemma not_created:
  assumes "live t \<or> over t"
  shows "deposit t x s now \<noteq> Inr t'" "deposit_party_a t x s now \<noteq> Inr t'" "deposit_party_b t x s now \<noteq> Inr t'"
    "set_referee_cosigned N t r sa sb \<noteq> Inr t'" "set_referee t r s \<noteq> Inr t'"
    "withdraw_before_active t s now \<noteq> Inr (t', y)" "withdraw_timeout t s now \<noteq> Inr (t', y)"
  using assms by (auto simp: created_only over_created_only)

lemma chain_call_shrinks:
  assumes "Chain_Runs.tunnelOk t" "live t \<or> over t" "chain_call N s now c t = Inr (t', out)"
  shows "shrinks t t'"
  using assms(3) by (cases c)
    (auto simp: quietly_Inr toSender_Inr not_created [OF assms(2)] no_migrate [OF assms(1)]
      intro: state_shrinks [OF assms(2)] htlc_payment_shrinks [OF assms(2)] lock_shrinks(1) pays_shrinks [OF assms(1)] closing_pays)

lemma chainRun_shrinks:
  assumes "chainRun N allowed w w'" "worldOk w" "live (cw_tunnel w) \<or> over (cw_tunnel w)"
  shows "worldOk w' \<and> shrinks (cw_tunnel w) (cw_tunnel w')"
  using assms
proof (induction rule: chainRun.induct)
  case (run_nil w)
  then show ?case by (simp add: shrinks_def)
next
  case (run_step w w1 s c w2)
  then have w1: "worldOk w1" "shrinks (cw_tunnel w) (cw_tunnel w1)" by blast+
  from run_step.hyps(3) obtain now t out where "chain_call N s now c (cw_tunnel w1) = Inr (t, out)" "cw_tunnel w2 = t"
    by (auto elim: chainStepE)
  then have "shrinks (cw_tunnel w1) (cw_tunnel w2)"
    using chain_call_shrinks [of "cw_tunnel w1"] w1 by (simp add: worldOk_def shrinks_def)
  with w1 chainStep_ok [OF w1(1) run_step.hyps(3)] show ?case by (simp add: shrinks_def)
qed

lemma too_large_rejected:
  assumes "tn_balance t < sm_party_a_balance m + sm_party_b_balance m"
  shows "update_state N t m sa sb now \<noteq> Inr t'" "raise_dispute N t m sg s now \<noteq> Inr t'" "resolve_dispute N t m sa sb now \<noteq> Inr t'"
  using assms by (simp_all add: update_state_Inr raise_dispute_Inr resolve_dispute_Inr)

text \<open>C20: locking an HTLC voids every earlier co-signed state. After an accepted lock_htlc, in every world reachable from there, the
  contract refuses every state that splits the balance before the lock, however new its nonce and whoever signed it: neither
  update_state nor raise_dispute nor resolve_dispute accepts it, also after the HTLC was claimed or has expired.\<close>

theorem lock_voids_cosigned_states:
  assumes "build_tunnel uid a b timeout_ms penalty_amount now = Inr t0" "u64 now"
    and "chainRun N (\<lambda>sender call. True) (freshWorld t0) w" "chainStep N w s (CLock k x r e sg) w1"
    and "sm_party_a_balance m + sm_party_b_balance m = tn_balance (cw_tunnel w)"
    and "chainRun N (\<lambda>sender call. True) w1 w2"
  shows "update_state N (cw_tunnel w2) m sa sb later \<noteq> Inr t1 \<and> resolve_dispute N (cw_tunnel w2) m sa sb later \<noteq> Inr t1 \<and>
    raise_dispute N (cw_tunnel w2) m sa p later \<noteq> Inr t1"
proof -
  have w: "worldOk w" using chainRun_ok [OF assms(3)] build_tunnel_ok [OF assms(1,2)] .
  from assms(4) obtain now1 where lock: "lock_htlc N (cw_tunnel w) k x r e sg s now1 = Inr (cw_tunnel w1)"
    by (auto elim: chainStepE simp: quietly_Inr)
  have "shrinks (cw_tunnel w1) (cw_tunnel w2)"
    using chainRun_shrinks [OF assms(6) chainStep_ok [OF w assms(4)]] lock_shrinks(4) [OF lock] by blast
  then have "tn_balance (cw_tunnel w2) < sm_party_a_balance m + sm_party_b_balance m"
    using lock_shrinks(2,3) [OF lock] assms(5) by (simp add: shrinks_def)
  then show ?thesis by (simp add: too_large_rejected)
qed

text \<open>B locks 1 coin with A's signature, and loses the state that pays it more.\<close>

definition lockedWorld :: "ChainWorld option" where
  "lockedWorld = chainExec exampleNatives [(exampleAddr False, 130, CLock (replicate 32 3) 1 (exampleAddr True) 500
     (take 64 (replicate 32 1 @ rev (serialize_htlc_lock \<lparr>ld_tunnel_id = replicate 32 5, ld_payment_hash = replicate 32 3, ld_amount = 1,
       ld_sender = exampleAddr False, ld_receiver = exampleAddr True, ld_expiry_ms = 500\<rparr>) @ replicate 64 0)))] exampleWorld"

definition exampleSignature :: "bool \<Rightarrow> bytes" where
  "exampleSignature isA = take 64 (pc_public_key (exampleParty isA) @ rev exampleSigned @ replicate 64 0)"

lemma lockedWorld_ok: "lockedWorld \<noteq> None"
  by code_simp

lemma exampleState_accepted:
  "isOk (update_state exampleNatives (cw_tunnel exampleWorld) exampleState (exampleSignature True) (exampleSignature False) 130)"
  by code_simp

lemma chainExec_single:
  "chainExec N [(s, now, c)] w = Some w' \<Longrightarrow> chainStep N w s c w'"
  by (auto split: if_split_asm sum.split_asm intro!: chain_step)

theorem lock_voids_cosigned_states_witness:
  "\<exists>w1. lockedWorld = Some w1 \<and>
     isOk (update_state exampleNatives (cw_tunnel exampleWorld) exampleState (exampleSignature True) (exampleSignature False) 130) \<and>
     (\<forall>t1. update_state exampleNatives (cw_tunnel w1) exampleState (exampleSignature True) (exampleSignature False) 130 \<noteq> Inr t1)"
proof -
  obtain w1 where w1: "lockedWorld = Some w1" using lockedWorld_ok by blast
  have s: "sm_party_a_balance exampleState + sm_party_b_balance exampleState = tn_balance (cw_tunnel exampleWorld)"
    by (simp add: exampleState_def exampleWorld_def)
  have "update_state exampleNatives (cw_tunnel w1) exampleState (exampleSignature True) (exampleSignature False) 130 \<noteq> Inr t1" for t1
    using lock_voids_cosigned_states [OF exampleBuilt_eq [unfolded exampleBuilt_def] _ exampleWorld_run
        chainExec_single [OF w1 [unfolded lockedWorld_def]] s run_nil] by (simp add: u64_def)
  with w1 exampleState_accepted show ?thesis by blast
qed

end
