(* ===== verification/Blackjack.thy ===== *)
theory Blackjack
  imports Two_Seats Move_Codec Randomness Sample_Hash
begin

section \<open>Blackjack with two-party card draws (protocol/blackjack.ts, protocol/blackjackCodec.ts)\<close>

text \<open>
  Every card is drawn by an independent commit-reveal of both parties. The state is the record of the
  source with its optional fields as options, a move is a datatype with the source's kinds. The
  assignment of the player's seat to a round is a parameter, as in the constructor.

  The lemmas show the phase invariant and that every move keeps it, conservation (an interpretation of
  \<open>conserving_protocol\<close>), the optimality of the soft-ace hand value, what a completed draw does, that the
  game never gets stuck, and that local secrets reach neither the signed state nor the relay.
\<close>

subsection \<open>Constants and state\<close>

definition getPlayerParty :: "int \<Rightarrow> Party" where
  "getPlayerParty round1 = (let r = round1 - 1 in if (r div 2) mod 2 = 0 then PartyA else PartyB)"

definition getDealerParty :: "int \<Rightarrow> Party" where
  "getDealerParty round1 = (if getPlayerParty round1 = PartyA then PartyB else PartyA)"

type_synonym PlayerPartyFor = "int \<Rightarrow> Party"

definition FIXED_PLAYER_A :: PlayerPartyFor where
  "FIXED_PLAYER_A _ = PartyA"

definition dealerPartyForWith :: "int \<Rightarrow> PlayerPartyFor \<Rightarrow> Party" where
  "dealerPartyForWith round1 playerPartyFor = (if playerPartyFor round1 = PartyA then PartyB else PartyA)"

definition MIN_BET :: int where "MIN_BET = 1"
definition ROUND_CAP :: int where "ROUND_CAP = 1000"
definition DEALER_STANDS_AT :: int where "DEALER_STANDS_AT = 17"
definition BUST_AT :: int where "BUST_AT = 21"

datatype BlackjackPhase = DrawCommit | DrawReveal | PlayerPhase | RoundOver

record BlackjackSlotReveal =
  sl_value :: bytes
  sl_salt :: bytes

datatype DrawReason = Deal | Hit | DealerAuto
datatype ForHand = ForPlayer | ForDealer

record DrawContext =
  dc_forHand :: ForHand
  dc_reason :: DrawReason

record BlackjackState =
  bj_phase :: BlackjackPhase
  bj_round :: int
  bj_drawCount :: int
  bj_playerHand :: "int list"
  bj_dealerHand :: "int list"
  bj_draw :: "DrawContext option"
  bj_pendingCommitA :: "bytes option"
  bj_pendingCommitB :: "bytes option"
  bj_pendingRevealA :: "BlackjackSlotReveal option"
  bj_pendingRevealB :: "BlackjackSlotReveal option"
  bj_localSecretA :: "BlackjackSlotReveal option"
  bj_localSecretB :: "BlackjackSlotReveal option"
  bj_balanceA :: int
  bj_balanceB :: int
  bj_total :: int
  bj_bet :: int

datatype BlackjackMove =
    BjBet int
  | BjCommit bytes "BlackjackSlotReveal option"
  | BjReveal BlackjackSlotReveal
  | BjHit
  | BjStand
  | BjForfeit

definition bj_DOMAIN :: bytes where
  "bj_DOMAIN = protocolDomain ''blackjack.v2''"

fun PHASE_CODE :: "BlackjackPhase \<Rightarrow> byte" where
  "PHASE_CODE DrawCommit = 0"
| "PHASE_CODE DrawReveal = 1"
| "PHASE_CODE PlayerPhase = 2"
| "PHASE_CODE RoundOver = 3"

fun FORHAND_CODE :: "ForHand \<Rightarrow> byte" where
  "FORHAND_CODE ForPlayer = 0"
| "FORHAND_CODE ForDealer = 1"

fun REASON_CODE :: "DrawReason \<Rightarrow> byte" where
  "REASON_CODE Deal = 0"
| "REASON_CODE Hit = 1"
| "REASON_CODE DealerAuto = 2"

subsection \<open>Hands\<close>

definition rankValue :: "int \<Rightarrow> int" where
  "rankValue rank = (if rank = 1 then 11 else if rank \<ge> 11 then 10 else rank)"

text \<open>The loop \<open>while (total > BUST_AT && aces > 0)\<close>.\<close>

fun softenAces :: "int \<Rightarrow> nat \<Rightarrow> int" where
  "softenAces total1 0 = total1"
| "softenAces total1 (Suc aces) = (if total1 > BUST_AT then softenAces (total1 - 10) aces else total1)"

definition handValue :: "int list \<Rightarrow> int" where
  "handValue hand = softenAces (sum_list hand) (length (filter (\<lambda>v. v = 11) hand))"

definition isBust :: "int list \<Rightarrow> bool" where
  "isBust hand = (handValue hand > BUST_AT)"

definition maxBet :: "BlackjackState \<Rightarrow> int" where
  "maxBet s = (if bj_balanceA s < bj_balanceB s then bj_balanceA s else bj_balanceB s)"

definition canStartRound :: "BlackjackState \<Rightarrow> bool" where
  "canStartRound s = (maxBet s \<ge> MIN_BET)"

definition deriveRank :: "(bytes \<Rightarrow> bytes) \<Rightarrow> BlackjackSlotReveal \<Rightarrow> BlackjackSlotReveal \<Rightarrow> int result" where
  "deriveRank H a b =
     bindE (combineReveals H (sl_value a) (sl_salt a) (sl_value b) (sl_salt b)) (\<lambda>h.
     bindE (nextU64InRange H (seedFromBytes h) 0 13) (\<lambda>(v, _). Inr (v + 1)))"

subsection \<open>Transitions\<close>

definition beginDraw :: "BlackjackState \<Rightarrow> DrawContext \<Rightarrow> BlackjackState" where
  "beginDraw s ctx =
     s\<lparr>bj_phase := DrawCommit, bj_draw := Some ctx, bj_pendingCommitA := None, bj_pendingCommitB := None,
       bj_pendingRevealA := None, bj_pendingRevealB := None, bj_localSecretA := None, bj_localSecretB := None\<rparr>"

definition beginRound :: "BlackjackState \<Rightarrow> BlackjackState" where
  "beginRound s =
     beginDraw (s\<lparr>bj_round := bj_round s + 1, bj_drawCount := 0, bj_playerHand := [], bj_dealerHand := []\<rparr>)
       \<lparr>dc_forHand = ForPlayer, dc_reason = Deal\<rparr>"

definition bj_settle :: "BlackjackState \<Rightarrow> Party option \<Rightarrow> BlackjackState" where
  "bj_settle s winner =
     (let a = bj_balanceA s; b = bj_balanceB s;
          (a', b') =
            (if winner = Some PartyA then
               (let amt = (if bj_bet s \<le> b then bj_bet s else b) in (a + amt, b - amt))
             else if winner = Some PartyB then
               (let amt = (if bj_bet s \<le> a then bj_bet s else a) in (a - amt, b + amt))
             else (a, b))
      in s\<lparr>bj_phase := RoundOver, bj_draw := None, bj_pendingCommitA := None, bj_pendingCommitB := None,
           bj_pendingRevealA := None, bj_pendingRevealB := None, bj_localSecretA := None, bj_localSecretB := None,
           bj_balanceA := a', bj_balanceB := b'\<rparr>)"

definition resolveShowdown :: "BlackjackState \<Rightarrow> PlayerPartyFor \<Rightarrow> BlackjackState" where
  "resolveShowdown s playerPartyFor =
     (let pv = handValue (bj_playerHand s);
          dv = handValue (bj_dealerHand s);
          winner =
            (if isBust (bj_dealerHand s) then Some (playerPartyFor (bj_round s))
             else if pv > dv then Some (playerPartyFor (bj_round s))
             else if dv > pv then Some (dealerPartyForWith (bj_round s) playerPartyFor)
             else None)
      in bj_settle s winner)"

definition afterDraw :: "BlackjackState \<Rightarrow> int \<Rightarrow> PlayerPartyFor \<Rightarrow> BlackjackState result" where
  "afterDraw s rank playerPartyFor =
     (case bj_draw s of
        None \<Rightarrow> Inl (TypeError ''Cannot read properties of null (reading 'forHand')'')
      | Some ctx \<Rightarrow>
        (let val1 = rankValue rank;
             playerHand = (if dc_forHand ctx = ForPlayer then bj_playerHand s @ [val1] else bj_playerHand s);
             dealerHand = (if dc_forHand ctx = ForDealer then bj_dealerHand s @ [val1] else bj_dealerHand s);
             base = s\<lparr>bj_playerHand := playerHand, bj_dealerHand := dealerHand, bj_drawCount := bj_drawCount s + 1,
               bj_draw := None, bj_pendingCommitA := None, bj_pendingCommitB := None,
               bj_pendingRevealA := None, bj_pendingRevealB := None, bj_localSecretA := None, bj_localSecretB := None\<rparr>
         in case dc_reason ctx of
              Deal \<Rightarrow>
                Inr (if length playerHand < 2 then beginDraw base \<lparr>dc_forHand = ForPlayer, dc_reason = Deal\<rparr>
                     else if length dealerHand < 2 then beginDraw base \<lparr>dc_forHand = ForDealer, dc_reason = Deal\<rparr>
                     else base\<lparr>bj_phase := PlayerPhase\<rparr>)
            | Hit \<Rightarrow>
                Inr (if isBust playerHand
                     then bj_settle base (Some (dealerPartyForWith (bj_round base) playerPartyFor))
                     else base\<lparr>bj_phase := PlayerPhase\<rparr>)
            | DealerAuto \<Rightarrow>
                Inr (if handValue dealerHand < DEALER_STANDS_AT
                     then beginDraw base \<lparr>dc_forHand = ForDealer, dc_reason = DealerAuto\<rparr>
                     else resolveShowdown base playerPartyFor)))"

definition bj_applyCommit ::
  "BlackjackState \<Rightarrow> bytes \<Rightarrow> BlackjackSlotReveal option \<Rightarrow> Party \<Rightarrow> BlackjackState result" where
  "bj_applyCommit s commitment localSecret by1 =
     (let already = (if by1 = PartyA then bj_pendingCommitA s else bj_pendingCommitB s)
      in if already \<noteq> None then Inl (Error ''party already committed'')
         else if length commitment \<noteq> 32 then Inl (Error ''commitment must be 32 bytes'')
         else
           let nxt = s\<lparr>bj_pendingCommitA := (if by1 = PartyA then Some commitment else bj_pendingCommitA s),
                 bj_pendingCommitB := (if by1 = PartyB then Some commitment else bj_pendingCommitB s),
                 bj_localSecretA := (if by1 = PartyA then localSecret else bj_localSecretA s),
                 bj_localSecretB := (if by1 = PartyB then localSecret else bj_localSecretB s)\<rparr>
           in Inr (if bj_pendingCommitA nxt \<noteq> None \<and> bj_pendingCommitB nxt \<noteq> None
                   then nxt\<lparr>bj_phase := DrawReveal\<rparr> else nxt))"

definition bj_applyReveal ::
  "(bytes \<Rightarrow> bytes) \<Rightarrow> BlackjackState \<Rightarrow> BlackjackSlotReveal \<Rightarrow> Party \<Rightarrow> PlayerPartyFor \<Rightarrow> BlackjackState result" where
  "bj_applyReveal H s reveal by1 playerPartyFor =
     (let already = (if by1 = PartyA then bj_pendingRevealA s else bj_pendingRevealB s)
      in if already \<noteq> None then Inl (Error ''party already revealed'')
         else
           case (if by1 = PartyA then bj_pendingCommitA s else bj_pendingCommitB s) of
             None \<Rightarrow> Inl (Error ''party has no commitment to reveal'')
           | Some commit \<Rightarrow>
             bindE (verifyCommitment H commit (sl_value reveal) (sl_salt reveal)) (\<lambda>ok.
             if \<not> ok then Inl (Error ''reveal does not match commitment for party'')
             else
               let nxt = s\<lparr>bj_pendingRevealA := (if by1 = PartyA then Some reveal else bj_pendingRevealA s),
                     bj_pendingRevealB := (if by1 = PartyB then Some reveal else bj_pendingRevealB s)\<rparr>
               in case (bj_pendingRevealA nxt, bj_pendingRevealB nxt) of
                    (Some a, Some b) \<Rightarrow> bindE (deriveRank H a b) (\<lambda>rank. afterDraw nxt rank playerPartyFor)
                  | _ \<Rightarrow> Inr nxt))"

definition claimForfeit :: "BlackjackState \<Rightarrow> Party \<Rightarrow> BlackjackState result" where
  "claimForfeit s by1 =
     (let opp = otherParty by1
      in if bj_phase s = DrawCommit then
           (let mine = (if by1 = PartyA then bj_pendingCommitA s else bj_pendingCommitB s);
                theirs = (if opp = PartyA then bj_pendingCommitA s else bj_pendingCommitB s)
            in if mine = None \<or> theirs \<noteq> None
               then Inl (Error ''forfeit not claimable: opponent does not owe a commit'')
               else Inr (bj_settle s (Some by1)))
         else if bj_phase s = DrawReveal then
           (let mine = (if by1 = PartyA then bj_pendingRevealA s else bj_pendingRevealB s);
                theirs = (if opp = PartyA then bj_pendingRevealA s else bj_pendingRevealB s)
            in if mine = None \<or> theirs \<noteq> None
               then Inl (Error ''forfeit not claimable: opponent does not owe a reveal'')
               else Inr (bj_settle s (Some by1)))
         else Inl (Error ''forfeit only valid during a pending draw''))"

text \<open>\<open>bytes n\<close> stands for the injected source of random bytes.\<close>

definition secureCommitMove :: "(bytes \<Rightarrow> bytes) \<Rightarrow> bytes \<Rightarrow> bytes \<Rightarrow> BlackjackMove result" where
  "secureCommitMove H value1 salt =
     bindE (computeCommitment H value1 salt) (\<lambda>c.
     Inr (BjCommit c (Some \<lparr>sl_value = value1, sl_salt = salt\<rparr>)))"

definition actorFor :: "BlackjackState \<Rightarrow> PlayerPartyFor \<Rightarrow> Party option" where
  "actorFor s playerPartyFor =
     (case bj_phase s of
        RoundOver \<Rightarrow> Some (playerPartyFor (bj_round s + 1))
      | DrawCommit \<Rightarrow>
          (if bj_pendingCommitA s = None then Some PartyA
           else if bj_pendingCommitB s = None then Some PartyB else None)
      | DrawReveal \<Rightarrow>
          (if bj_pendingRevealA s = None then Some PartyA
           else if bj_pendingRevealB s = None then Some PartyB else None)
      | PlayerPhase \<Rightarrow> Some (playerPartyFor (bj_round s)))"

subsection \<open>The protocol\<close>

definition bj_initialState :: "ProtocolContext \<Rightarrow> BlackjackState" where
  "bj_initialState ctx =
     \<lparr>bj_phase = RoundOver, bj_round = 0, bj_drawCount = 0, bj_playerHand = [], bj_dealerHand = [], bj_draw = None,
      bj_pendingCommitA = None, bj_pendingCommitB = None, bj_pendingRevealA = None, bj_pendingRevealB = None,
      bj_localSecretA = None, bj_localSecretB = None,
      bj_balanceA = bal_a (ctx_initialBalances ctx), bj_balanceB = bal_b (ctx_initialBalances ctx),
      bj_total = bal_a (ctx_initialBalances ctx) + bal_b (ctx_initialBalances ctx), bj_bet = 0\<rparr>"

definition bj_isTerminal :: "BlackjackState \<Rightarrow> bool" where
  "bj_isTerminal s = (if bj_round s \<ge> ROUND_CAP then True else bj_phase s = RoundOver \<and> \<not> canStartRound s)"

definition bj_applyMove ::
  "(bytes \<Rightarrow> bytes) \<Rightarrow> PlayerPartyFor \<Rightarrow> BlackjackState \<Rightarrow> BlackjackMove \<Rightarrow> Party \<Rightarrow> BlackjackState result" where
  "bj_applyMove H playerPartyFor state move by1 =
     (case bj_phase state of
        RoundOver \<Rightarrow>
          (case move of
             BjBet amount \<Rightarrow>
               (if bj_isTerminal state then Inl (Error ''game over: no more rounds can be played'')
                else if by1 \<noteq> playerPartyFor (bj_round state + 1) then Inl (Error ''only the player sets the bet'')
                else if amount < MIN_BET \<or> amount > maxBet state then Inl (Error ''bet must be in [MIN_BET, cap]'')
                else Inr (beginRound (state\<lparr>bj_bet := amount\<rparr>)))
           | _ \<Rightarrow> Inl (Error ''expected 'bet' in round_over''))
      | DrawCommit \<Rightarrow>
          (case move of
             BjForfeit \<Rightarrow> claimForfeit state by1
           | BjCommit commitment localSecret \<Rightarrow> bj_applyCommit state commitment localSecret by1
           | _ \<Rightarrow> Inl (Error ''expected 'commit' in draw_commit''))
      | DrawReveal \<Rightarrow>
          (case move of
             BjForfeit \<Rightarrow> claimForfeit state by1
           | BjReveal reveal \<Rightarrow> bj_applyReveal H state reveal by1 playerPartyFor
           | _ \<Rightarrow> Inl (Error ''expected 'reveal' in draw_reveal''))
      | PlayerPhase \<Rightarrow>
          (if by1 \<noteq> playerPartyFor (bj_round state) then Inl (Error ''it is the player's turn'')
           else
             case move of
               BjHit \<Rightarrow> Inr (beginDraw state \<lparr>dc_forHand = ForPlayer, dc_reason = Hit\<rparr>)
             | BjStand \<Rightarrow>
                 Inr (if handValue (bj_dealerHand state) \<ge> DEALER_STANDS_AT
                      then resolveShowdown state playerPartyFor
                      else beginDraw state \<lparr>dc_forHand = ForDealer, dc_reason = DealerAuto\<rparr>)
             | _ \<Rightarrow> Inl (Error ''expected 'hit' or 'stand' in player phase'')))"

text \<open>The two reveal slots at the end of the encoding.\<close>

definition encodeReveal :: "BlackjackSlotReveal option \<Rightarrow> bytes list result" where
  "encodeReveal r =
     (case r of
        None \<Rightarrow> Inr [[0]]
      | Some rv \<Rightarrow>
          bindE (lengthPrefixedConcat [sl_value rv]) (\<lambda>v.
          bindE (lengthPrefixedConcat [sl_salt rv]) (\<lambda>sa. Inr [[1], v, sa])))"

definition bj_encodeState :: "BlackjackState \<Rightarrow> bytes result" where
  "bj_encodeState s =
     bindE (mapE u64ToBeBytes [bj_balanceA s, bj_balanceB s, bj_round s, bj_drawCount s]) (\<lambda>ws.
     bindE (u64ToBeBytes (int (length (bj_playerHand s)))) (\<lambda>pl.
     bindE (u64ToBeBytes (int (length (bj_dealerHand s)))) (\<lambda>dl.
     bindE (u64ToBeBytes (bj_bet s)) (\<lambda>bet.
     bindE (lengthPrefixedConcat [case bj_pendingCommitA s of None \<Rightarrow> [] | Some c \<Rightarrow> c]) (\<lambda>ca.
     bindE (lengthPrefixedConcat [case bj_pendingCommitB s of None \<Rightarrow> [] | Some c \<Rightarrow> c]) (\<lambda>cb.
     bindE (encodeReveal (bj_pendingRevealA s)) (\<lambda>ra.
     bindE (encodeReveal (bj_pendingRevealB s)) (\<lambda>rb.
     Inr (concatBytes
       ([bj_DOMAIN] @ ws @ [[PHASE_CODE (bj_phase s)], pl, map word_of_int (bj_playerHand s), dl,
         map word_of_int (bj_dealerHand s), bet,
         (case bj_draw s of None \<Rightarrow> [0xff] | Some d \<Rightarrow> [1, FORHAND_CODE (dc_forHand d), REASON_CODE (dc_reason d)]),
         ca, cb] @ ra @ rb))))))))))"

definition bj_balances :: "BlackjackState \<Rightarrow> Balances" where
  "bj_balances s = \<lparr>bal_a = bj_balanceA s, bal_b = bj_balanceB s\<rparr>"

definition BlackjackProtocol :: "(bytes \<Rightarrow> bytes) \<Rightarrow> PlayerPartyFor \<Rightarrow> (BlackjackState, BlackjackMove) Protocol" where
  "BlackjackProtocol H playerPartyFor =
     \<lparr>p_name = ''blackjack.v2'', p_movesCarrySecrets = False, p_initialState = bj_initialState,
      p_applyMove = bj_applyMove H playerPartyFor, p_encodeState = bj_encodeState, p_balances = bj_balances,
      p_isTerminal = bj_isTerminal\<rparr>"

text \<open>\<open>secretBytes\<close> are the seventeen bytes \<open>randomSecret\<close> draws: the value byte, then the salt.\<close>

definition randomSecret :: "bytes \<Rightarrow> BlackjackSlotReveal" where
  "randomSecret secretBytes = \<lparr>sl_value = take 1 secretBytes, sl_salt = take MIN_SALT_LEN (drop 1 secretBytes)\<rparr>"

definition bj_randomMove ::
  "(bytes \<Rightarrow> bytes) \<Rightarrow> PlayerPartyFor \<Rightarrow> BlackjackState \<Rightarrow> Party \<Rightarrow> bytes \<Rightarrow> BlackjackMove option result" where
  "bj_randomMove H playerPartyFor s by1 secretBytes =
     (if bj_isTerminal s then Inr None
      else
        case bj_phase s of
          RoundOver \<Rightarrow>
            Inr (if by1 \<noteq> playerPartyFor (bj_round s + 1) then None
                 else if maxBet s < MIN_BET then None else Some (BjBet MIN_BET))
        | DrawCommit \<Rightarrow>
            (if (if by1 = PartyA then bj_pendingCommitA s else bj_pendingCommitB s) \<noteq> None then Inr None
             else
               let secret = randomSecret secretBytes
               in bindE (computeCommitment H (sl_value secret) (sl_salt secret)) (\<lambda>c.
                  Inr (Some (BjCommit c (Some secret)))))
        | DrawReveal \<Rightarrow>
            Inr (if (if by1 = PartyA then bj_pendingRevealA s else bj_pendingRevealB s) \<noteq> None then None
                 else map_option BjReveal (if by1 = PartyA then bj_localSecretA s else bj_localSecretB s))
        | PlayerPhase \<Rightarrow>
            Inr (if by1 \<noteq> playerPartyFor (bj_round s) then None
                 else Some (if handValue (bj_playerHand s) < 17 then BjHit else BjStand)))"

subsection \<open>The phase invariant\<close>

definition noPending :: "BlackjackState \<Rightarrow> bool" where
  "noPending s \<longleftrightarrow> bj_pendingCommitA s = None \<and> bj_pendingCommitB s = None \<and>
     bj_pendingRevealA s = None \<and> bj_pendingRevealB s = None"

text \<open>During a round the bet is covered by both sides.\<close>

definition betCovered :: "BlackjackState \<Rightarrow> bool" where
  "betCovered s \<longleftrightarrow> MIN_BET \<le> bj_bet s \<and> bj_bet s \<le> bj_balanceA s \<and> bj_bet s \<le> bj_balanceB s"

definition phaseOk :: "BlackjackState \<Rightarrow> bool" where
  "phaseOk s = (case bj_phase s of
     RoundOver \<Rightarrow> bj_draw s = None \<and> noPending s
   | DrawCommit \<Rightarrow> bj_draw s \<noteq> None \<and> bj_pendingRevealA s = None \<and> bj_pendingRevealB s = None \<and>
       (bj_pendingCommitA s = None \<or> bj_pendingCommitB s = None) \<and> betCovered s
   | DrawReveal \<Rightarrow> bj_draw s \<noteq> None \<and> bj_pendingCommitA s \<noteq> None \<and> bj_pendingCommitB s \<noteq> None \<and>
       (bj_pendingRevealA s = None \<or> bj_pendingRevealB s = None) \<and> betCovered s
   | PlayerPhase \<Rightarrow> bj_draw s = None \<and> noPending s \<and> betCovered s)"

definition bj_inv :: "BlackjackState \<Rightarrow> bool" where
  "bj_inv s \<longleftrightarrow> 0 \<le> bj_balanceA s \<and> 0 \<le> bj_balanceB s \<and> bj_balanceA s + bj_balanceB s = bj_total s \<and> phaseOk s"

lemmas bj_inv_defs = bj_inv_def phaseOk_def noPending_def betCovered_def

lemma BlackjackProtocol_simps [simp]:
  "p_applyMove (BlackjackProtocol H pf) = bj_applyMove H pf" "p_initialState (BlackjackProtocol H pf) = bj_initialState"
  "p_encodeState (BlackjackProtocol H pf) = bj_encodeState" "p_balances (BlackjackProtocol H pf) = bj_balances"
  "p_isTerminal (BlackjackProtocol H pf) = bj_isTerminal"
  by (simp_all add: BlackjackProtocol_def)

text \<open>The amount the winner takes is the bet whenever the bet is covered.\<close>

lemma bj_settle_simps [simp]:
  "bj_phase (bj_settle s w) = RoundOver" "bj_draw (bj_settle s w) = None" "noPending (bj_settle s w)"
  "bj_total (bj_settle s w) = bj_total s" "bj_round (bj_settle s w) = bj_round s"
  "bj_playerHand (bj_settle s w) = bj_playerHand s" "bj_dealerHand (bj_settle s w) = bj_dealerHand s"
  by (auto simp: bj_settle_def noPending_def Let_def split: prod.splits)

lemma bj_settle_covered:
  assumes "betCovered s"
  shows "bj_balanceA (bj_settle s w) = bj_balanceA s + (if w = Some PartyA then bj_bet s else if w = Some PartyB then - bj_bet s else 0)"
    "bj_balanceB (bj_settle s w) = bj_balanceB s + (if w = Some PartyB then bj_bet s else if w = Some PartyA then - bj_bet s else 0)"
  using assms by (auto simp: bj_settle_def betCovered_def Let_def)

lemma bj_settle_inv: "bj_inv s \<Longrightarrow> betCovered s \<Longrightarrow> bj_inv (bj_settle s w)"
  using bj_settle_covered [of s w] by (auto simp: bj_inv_def phaseOk_def betCovered_def MIN_BET_def)

lemma resolveShowdown_settles: "\<exists>w. resolveShowdown s pf = bj_settle s w"
  by (auto simp: resolveShowdown_def Let_def)

lemma beginDraw_simps [simp]:
  "bj_phase (beginDraw s c) = DrawCommit" "bj_draw (beginDraw s c) = Some c" "noPending (beginDraw s c)"
  "bj_total (beginDraw s c) = bj_total s" "bj_balanceA (beginDraw s c) = bj_balanceA s"
  "bj_balanceB (beginDraw s c) = bj_balanceB s" "bj_bet (beginDraw s c) = bj_bet s"
  "bj_round (beginDraw s c) = bj_round s" "bj_playerHand (beginDraw s c) = bj_playerHand s"
  "bj_dealerHand (beginDraw s c) = bj_dealerHand s" "bj_drawCount (beginDraw s c) = bj_drawCount s"
  by (simp_all add: beginDraw_def noPending_def)

lemma beginDraw_inv: "bj_inv s \<Longrightarrow> betCovered s \<Longrightarrow> bj_inv (beginDraw s c)"
  using beginDraw_simps(3) [of s c] by (auto simp: bj_inv_def phaseOk_def noPending_def betCovered_def)

text \<open>A covered state with the given balances, whatever its phase.\<close>

definition fundsOk :: "BlackjackState \<Rightarrow> bool" where
  "fundsOk s \<longleftrightarrow> betCovered s \<and> 0 \<le> bj_balanceA s \<and> 0 \<le> bj_balanceB s \<and> bj_balanceA s + bj_balanceB s = bj_total s"

lemma fundsOk_moves:
  assumes "fundsOk s"
  shows "bj_inv (bj_settle s w)" "bj_inv (beginDraw s c)" "bj_inv (resolveShowdown s pf)"
proof -
  show settle: "bj_inv (bj_settle s w)" for w
    using assms bj_settle_covered [of s w] by (auto simp: bj_inv_def phaseOk_def fundsOk_def betCovered_def MIN_BET_def)
  show "bj_inv (beginDraw s c)"
    using assms beginDraw_simps(3) [of s c] by (auto simp: bj_inv_def phaseOk_def noPending_def fundsOk_def betCovered_def)
  show "bj_inv (resolveShowdown s pf)"
    using settle resolveShowdown_settles [of s pf] by auto
qed

lemma afterDraw_inv:
  assumes "fundsOk s" "afterDraw s rank pf = Inr s'"
  shows "bj_inv s' \<and> bj_total s' = bj_total s"
proof -
  let ?b = "\<lambda>ph dh. s\<lparr>bj_playerHand := ph, bj_dealerHand := dh, bj_drawCount := bj_drawCount s + 1,
      bj_draw := None, bj_pendingCommitA := None, bj_pendingCommitB := None,
      bj_pendingRevealA := None, bj_pendingRevealB := None, bj_localSecretA := None, bj_localSecretB := None\<rparr>"
  have f: "fundsOk (?b ph dh)" for ph dh using assms(1) by (simp add: fundsOk_def betCovered_def)
  have p: "bj_inv (?b ph dh\<lparr>bj_phase := PlayerPhase\<rparr>)" for ph dh
    using assms(1) by (auto simp: bj_inv_def phaseOk_def noPending_def fundsOk_def betCovered_def)
  have t: "bj_total (resolveShowdown (?b ph dh) pf) = bj_total s" for ph dh
    using resolveShowdown_settles [of "?b ph dh" pf] by auto
  show ?thesis
    using assms(2) fundsOk_moves [OF f] p t
    by (auto simp: afterDraw_def Let_def split: option.splits DrawReason.splits)
qed

lemma bj_applyReveal_inv:
  assumes inv: "bj_inv s" and ph: "bj_phase s = DrawReveal" and r: "bj_applyReveal H s rv by1 pf = Inr s'"
  shows "bj_inv s' \<and> bj_total s' = bj_total s"
proof -
  let ?n = "s\<lparr>bj_pendingRevealA := (if by1 = PartyA then Some rv else bj_pendingRevealA s),
      bj_pendingRevealB := (if by1 = PartyB then Some rv else bj_pendingRevealB s)\<rparr>"
  have f: "fundsOk ?n" using inv ph by (auto simp: fundsOk_def bj_inv_def phaseOk_def betCovered_def)
  show ?thesis
  proof (cases "bj_pendingRevealA ?n \<noteq> None \<and> bj_pendingRevealB ?n \<noteq> None")
    case True
    then obtain a b where "bj_pendingRevealA ?n = Some a" "bj_pendingRevealB ?n = Some b" by auto
    then obtain rank where "afterDraw ?n rank pf = Inr s'"
      using r by (auto simp: bj_applyReveal_def Let_def result_simps split: if_splits option.splits)
    from afterDraw_inv [OF f this] show ?thesis by simp
  next
    case False
    then have "s' = ?n"
      using r by (auto simp: bj_applyReveal_def Let_def result_simps split: if_splits option.splits)
    with False inv ph show ?thesis by (auto simp: bj_inv_def phaseOk_def betCovered_def)
  qed
qed

lemma bj_applyCommit_inv:
  assumes "bj_inv s" "bj_phase s = DrawCommit" "bj_applyCommit s c ls by1 = Inr s'"
  shows "bj_inv s' \<and> bj_total s' = bj_total s"
  using assms by (auto simp: bj_applyCommit_def bj_inv_defs Let_def split: if_splits)

lemma claimForfeit_inv:
  assumes "bj_inv s" "claimForfeit s by1 = Inr s'"
  shows "bj_inv s' \<and> bj_total s' = bj_total s"
proof -
  have "s' = bj_settle s (Some by1)" "bj_phase s \<in> {DrawCommit, DrawReveal}"
    using assms(2) by (auto simp: claimForfeit_def Let_def split: if_splits)
  moreover from this(2) have "betCovered s" using assms(1) by (auto simp: bj_inv_def phaseOk_def)
  ultimately show ?thesis using bj_settle_inv assms(1) by auto
qed

lemma beginRound_inv:
  assumes "bj_inv s" "MIN_BET \<le> k" "k \<le> maxBet s"
  shows "bj_inv (beginRound (s\<lparr>bj_bet := k\<rparr>))"
proof -
  have "fundsOk (s\<lparr>bj_bet := k, bj_round := bj_round s + 1, bj_drawCount := 0, bj_playerHand := [], bj_dealerHand := []\<rparr>)"
    using assms by (auto simp: fundsOk_def betCovered_def bj_inv_def maxBet_def split: if_splits)
  from fundsOk_moves(2) [OF this] show ?thesis by (simp add: beginRound_def)
qed

lemma bj_step_inv:
  assumes inv: "bj_inv s" and mv: "bj_applyMove H pf s m by1 = Inr s'"
  shows "bj_inv s' \<and> bj_total s' = bj_total s"
proof (cases "bj_phase s")
  case RoundOver
  then obtain k where "m = BjBet k" "MIN_BET \<le> k" "k \<le> maxBet s" "s' = beginRound (s\<lparr>bj_bet := k\<rparr>)"
    using mv by (auto simp: bj_applyMove_def split: BlackjackMove.splits if_splits)
  then show ?thesis using beginRound_inv [OF inv] by (simp add: beginRound_def)
next
  case DrawCommit
  then show ?thesis
    using mv bj_applyCommit_inv [OF inv DrawCommit] claimForfeit_inv [OF inv]
    by (auto simp: bj_applyMove_def split: BlackjackMove.splits)
next
  case DrawReveal
  then show ?thesis
    using mv bj_applyReveal_inv [OF inv DrawReveal] claimForfeit_inv [OF inv]
    by (auto simp: bj_applyMove_def split: BlackjackMove.splits)
next
  case PlayerPhase
  then have f: "fundsOk s" using inv by (auto simp: fundsOk_def bj_inv_def phaseOk_def)
  show ?thesis
    using PlayerPhase mv fundsOk_moves [OF f] resolveShowdown_settles [of s pf]
    by (auto simp: bj_applyMove_def split: BlackjackMove.splits if_splits)
qed

lemma resolveShowdown_total [simp]: "bj_total (resolveShowdown s pf) = bj_total s"
  using resolveShowdown_settles [of s pf] by auto

lemma afterDraw_total: "afterDraw s rank pf = Inr s' \<Longrightarrow> bj_total s' = bj_total s"
  by (auto simp: afterDraw_def Let_def split: option.splits DrawReason.splits)

lemma bj_applyReveal_total: "bj_applyReveal H s rv by1 pf = Inr s' \<Longrightarrow> bj_total s' = bj_total s"
  by (auto simp: bj_applyReveal_def Let_def result_simps split: if_splits option.splits dest!: afterDraw_total)

lemma bj_step_total: "bj_applyMove H pf s m by1 = Inr s' \<Longrightarrow> bj_total s' = bj_total s"
  by (auto simp: bj_applyMove_def claimForfeit_def bj_applyCommit_def beginRound_def Let_def bj_applyReveal_total
      split: BlackjackPhase.splits BlackjackMove.splits if_splits)

interpretation blackjack: conserving_protocol "BlackjackProtocol H pf" bj_inv bj_total for H pf
proof unfold_locales
  fix ctx :: ProtocolContext
  assume "funded (ctx_initialBalances ctx)"
  then show "bj_inv (p_initialState (BlackjackProtocol H pf) ctx)"
    by (simp add: bj_initialState_def bj_inv_defs funded_def)
next
  fix ctx :: ProtocolContext
  show "bj_total (p_initialState (BlackjackProtocol H pf) ctx) =
      bal_a (ctx_initialBalances ctx) + bal_b (ctx_initialBalances ctx)"
    by (simp add: bj_initialState_def)
next
  fix s m by1 s'
  assume "bj_inv s" "p_applyMove (BlackjackProtocol H pf) s m by1 = Inr s'"
  then show "bj_inv s'" using bj_step_inv [of s H pf m by1 s'] by simp
next
  fix s m by1 s'
  assume "p_applyMove (BlackjackProtocol H pf) s m by1 = Inr s'"
  then show "bj_total s' = bj_total s" using bj_step_total by simp
qed (simp_all add: bj_inv_def balanceSum_def bj_balances_def funded_def)

subsection \<open>Hand values\<close>

text \<open>The totals a hand can count: each ace is 11 or 1.\<close>

definition handTotals :: "int list \<Rightarrow> int set" where
  "handTotals hand = {sum_list hand - 10 * int k |k. k \<le> length (filter (\<lambda>v. v = 11) hand)}"

lemma softenAces_steps:
  "\<exists>k \<le> n. softenAces t n = t - 10 * int k \<and> (\<forall>j < k. t - 10 * int j > BUST_AT) \<and>
     (k = n \<or> t - 10 * int k \<le> BUST_AT)"
proof (induction n arbitrary: t)
  case 0
  then show ?case by simp
next
  case (Suc n)
  show ?case
  proof (cases "t > BUST_AT")
    case True
    from Suc [of "t - 10"] obtain k where k: "k \<le> n" "softenAces (t - 10) n = t - 10 - 10 * int k"
      "\<forall>j < k. t - 10 - 10 * int j > BUST_AT" "k = n \<or> t - 10 - 10 * int k \<le> BUST_AT"
      by blast
    have "\<forall>j < Suc k. t - 10 * int j > BUST_AT"
    proof (intro allI impI)
      fix j
      assume "j < Suc k"
      then show "t - 10 * int j > BUST_AT" using True k(3) by (cases j) (auto simp: algebra_simps)
    qed
    then show ?thesis
      using True k by (intro exI [of _ "Suc k"]) (auto simp: algebra_simps)
  next
    case False
    then show ?thesis by (intro exI [of _ 0]) simp
  qed
qed

text \<open>The hand value is the best one: it is a total the hand can count, no other total up to 21 is
  higher, and if it exceeds 21 then every total does, and it is the lowest.\<close>

theorem handValue_is_best:
  "handValue hand \<in> handTotals hand \<and> {t \<in> handTotals hand. handValue hand < t \<and> t \<le> 21} = {} \<and>
   (isBust hand \<longleftrightarrow> {t \<in> handTotals hand. t \<le> 21} = {})"
proof -
  let ?n = "length (filter (\<lambda>v. v = 11) hand)" and ?t = "sum_list hand"
  obtain k where k: "k \<le> ?n" "handValue hand = ?t - 10 * int k" "\<forall>j < k. ?t - 10 * int j > BUST_AT"
    "k = ?n \<or> ?t - 10 * int k \<le> BUST_AT"
    using softenAces_steps [of ?n ?t] by (auto simp: handValue_def)
  have le: "t \<le> handValue hand" if t: "t \<in> handTotals hand" "t \<le> 21" for t
  proof -
    obtain j where j: "j \<le> ?n" "t = ?t - 10 * int j" using t(1) by (auto simp: handTotals_def)
    then have "\<not> j < k" using k(3) t(2) by (auto simp: BUST_AT_def)
    then show ?thesis using j(2) k(2) by simp
  qed
  have bust: "\<not> t \<le> 21" if t: "t \<in> handTotals hand" "handValue hand > 21" for t
  proof -
    obtain j where j: "j \<le> ?n" "t = ?t - 10 * int j" using t(1) by (auto simp: handTotals_def)
    have "k = ?n" using k(2,4) t(2) by (auto simp: BUST_AT_def)
    then show ?thesis using j k(2) t(2) by simp
  qed
  have mem: "handValue hand \<in> handTotals hand" using k by (auto simp: handTotals_def)
  have "{t \<in> handTotals hand. handValue hand < t \<and> t \<le> 21} = {}" using le by fastforce
  moreover have "isBust hand \<longleftrightarrow> {t \<in> handTotals hand. t \<le> 21} = {}"
    using bust mem by (cases "21 < handValue hand") (auto simp: isBust_def BUST_AT_def)
  ultimately show ?thesis using mem by blast
qed

subsection \<open>Cards come from both parties\<close>

text \<open>A recorded reveal opens the commitment its party made before.\<close>

definition revealsOk :: "(bytes \<Rightarrow> bytes) \<Rightarrow> BlackjackState \<Rightarrow> bool" where
  "revealsOk H s \<longleftrightarrow>
     (\<forall>r. bj_pendingRevealA s = Some r \<longrightarrow>
        (\<exists>c. bj_pendingCommitA s = Some c \<and> verifyCommitment H c (sl_value r) (sl_salt r) = Inr True)) \<and>
     (\<forall>r. bj_pendingRevealB s = Some r \<longrightarrow>
        (\<exists>c. bj_pendingCommitB s = Some c \<and> verifyCommitment H c (sl_value r) (sl_salt r) = Inr True))"

lemma noPending_revealsOk [simp]: "noPending s \<Longrightarrow> revealsOk H s"
  by (simp add: revealsOk_def noPending_def)

lemma deriveRank_range: "deriveRank H a b = Inr rank \<Longrightarrow> 1 \<le> rank \<and> rank \<le> 13"
  by (auto simp: deriveRank_def result_simps dest!: nextU64InRange_range)

lemma rankValue_range: "1 \<le> rank \<Longrightarrow> rank \<le> 13 \<Longrightarrow> 2 \<le> rankValue rank \<and> rankValue rank \<le> 11"
  by (auto simp: rankValue_def)

lemma resolveShowdown_simps [simp]:
  "noPending (resolveShowdown s pf)" "bj_playerHand (resolveShowdown s pf) = bj_playerHand s"
  "bj_dealerHand (resolveShowdown s pf) = bj_dealerHand s" "bj_phase (resolveShowdown s pf) = RoundOver"
  using resolveShowdown_settles [of s pf] by auto

lemma noPending_phase [simp]:
  "noPending (s\<lparr>bj_phase := ph\<rparr>) = noPending s"
  by (simp add: noPending_def)

lemma afterDraw_noPending:
  assumes "afterDraw s rank pf = Inr s'"
  shows "noPending s'"
  using assms
  by (auto simp: afterDraw_def Let_def split: option.splits DrawReason.splits if_splits)
    (simp_all add: noPending_def)

lemma afterDraw_hands:
  assumes "afterDraw s rank pf = Inr s'"
  shows "\<exists>ctx. bj_draw s = Some ctx \<and>
    bj_playerHand s' = bj_playerHand s @ (if dc_forHand ctx = ForPlayer then [rankValue rank] else []) \<and>
    bj_dealerHand s' = bj_dealerHand s @ (if dc_forHand ctx = ForDealer then [rankValue rank] else [])"
  using assms by (auto simp: afterDraw_def Let_def split: option.splits DrawReason.splits ForHand.splits)

lemma bj_reveal_cases:
  assumes "bj_applyReveal H s rv by1 pf = Inr s'" "seat by1"
  obtains (first) "bj_playerHand s' = bj_playerHand s" "bj_dealerHand s' = bj_dealerHand s" "revealsOk H s \<longrightarrow> revealsOk H s'"
  | (second) ra rb rank where "deriveRank H ra rb = Inr rank" "noPending s'" "revealsOk H s \<longrightarrow>
      (\<exists>ca cb. bj_pendingCommitA s = Some ca \<and> bj_pendingCommitB s = Some cb \<and>
        verifyCommitment H ca (sl_value ra) (sl_salt ra) = Inr True \<and> verifyCommitment H cb (sl_value rb) (sl_salt rb) = Inr True)"
      "afterDraw (s\<lparr>bj_pendingRevealA := Some ra, bj_pendingRevealB := Some rb\<rparr>) rank pf = Inr s'"
proof -
  let ?n = "s\<lparr>bj_pendingRevealA := (if by1 = PartyA then Some rv else bj_pendingRevealA s),
      bj_pendingRevealB := (if by1 = PartyB then Some rv else bj_pendingRevealB s)\<rparr>"
  obtain c where c: "(if by1 = PartyA then bj_pendingCommitA s else bj_pendingCommitB s) = Some c"
    "verifyCommitment H c (sl_value rv) (sl_salt rv) = Inr True"
    using assms(1) by (auto simp: bj_applyReveal_def Let_def result_simps split: if_splits option.splits)
  show ?thesis
  proof (cases "bj_pendingRevealA ?n = None \<or> bj_pendingRevealB ?n = None")
    case True
    then have "s' = ?n"
      using assms(1) by (auto simp: bj_applyReveal_def Let_def result_simps split: if_splits option.splits)
    then show ?thesis
      using c assms(2) by (intro first) (auto simp: revealsOk_def seat_def split: if_splits)
  next
    case False
    then obtain ra rb where ab: "bj_pendingRevealA ?n = Some ra" "bj_pendingRevealB ?n = Some rb" by auto
    then obtain rank where rank: "deriveRank H ra rb = Inr rank" "afterDraw ?n rank pf = Inr s'"
      using assms(1) by (auto simp: bj_applyReveal_def Let_def result_simps split: if_splits option.splits)
    have "?n = s\<lparr>bj_pendingRevealA := Some ra, bj_pendingRevealB := Some rb\<rparr>" using ab by simp
    then show ?thesis
      using rank c ab assms(2) afterDraw_noPending [OF rank(2)]
      by (intro second [of ra rb rank]) (auto simp: revealsOk_def seat_def split: if_splits)
  qed
qed

lemma bj_step_revealsOk:
  assumes "bj_inv s" "seat by1" "revealsOk H s" "bj_applyMove H pf s m by1 = Inr s'"
  shows "revealsOk H s'"
proof (cases "bj_phase s")
  case DrawReveal
  then show ?thesis
    using assms
    by (auto simp: bj_applyMove_def claimForfeit_def Let_def split: BlackjackMove.splits if_splits elim: bj_reveal_cases)
next
  case RoundOver
  then show ?thesis
    using assms(4) by (auto simp: bj_applyMove_def beginRound_def split: BlackjackMove.splits if_splits)
next
  case DrawCommit
  then have n: "bj_pendingRevealA s = None" "bj_pendingRevealB s = None" using assms(1) by (auto simp: bj_inv_def phaseOk_def)
  show ?thesis
    using assms(4) DrawCommit n
    by (auto simp: bj_applyMove_def claimForfeit_def bj_applyCommit_def revealsOk_def Let_def
        split: BlackjackMove.splits if_splits)
      (auto simp: bj_settle_def Let_def split: prod.splits)
next
  case PlayerPhase
  then show ?thesis
    using assms(4) resolveShowdown_settles [of s pf]
    by (auto simp: bj_applyMove_def split: BlackjackMove.splits if_splits)
qed

lemma bj_run_revealsOk:
  assumes "bj_inv s" "revealsOk H s" "list_all (\<lambda>(m, by1). seat by1) ms"
    "applyMoves (BlackjackProtocol H pf) s ms = Inr s'"
  shows "bj_inv s' \<and> revealsOk H s'"
  using assms
proof (induction ms arbitrary: s)
  case (Cons x ms)
  obtain m by1 where x: "x = (m, by1)" by (cases x)
  then obtain s1 where "bj_applyMove H pf s m by1 = Inr s1" "applyMoves (BlackjackProtocol H pf) s1 ms = Inr s'"
    using Cons.prems(4) by (auto simp: result_simps)
  then show ?case
    using Cons x bj_step_inv [of s H pf m by1 s1] bj_step_revealsOk [of s by1 H pf m s1] by auto
qed simp

text \<open>C40. No card is chosen by one side: whenever a move of a game played by the two parties adds a card, both
  parties had committed before, both reveals open those commitments, the card is the rank derived from
  the two reveals together, a rank from 1 to 13, and it goes to the hand the draw was started for.\<close>

theorem blackjack_cards_are_joint:
  assumes "funded (ctx_initialBalances ctx)" "list_all (\<lambda>(m, by1). seat by1) ms" "seat by1"
    and "applyMoves (BlackjackProtocol H pf) (bj_initialState ctx) ms = Inr s"
    and "bj_applyMove H pf s m by1 = Inr s'"
    and "length (bj_playerHand s @ bj_dealerHand s) < length (bj_playerHand s' @ bj_dealerHand s')"
  shows "\<exists>ca cb ra rb rank d. bj_pendingCommitA s = Some ca \<and> bj_pendingCommitB s = Some cb \<and>
    verifyCommitment H ca (sl_value ra) (sl_salt ra) = Inr True \<and>
    verifyCommitment H cb (sl_value rb) (sl_salt rb) = Inr True \<and>
    deriveRank H ra rb = Inr rank \<and> 1 \<le> rank \<and> rank \<le> 13 \<and> bj_draw s = Some d \<and>
    (if dc_forHand d = ForPlayer
     then bj_playerHand s' = bj_playerHand s @ [rankValue rank] \<and> bj_dealerHand s' = bj_dealerHand s
     else bj_dealerHand s' = bj_dealerHand s @ [rankValue rank] \<and> bj_playerHand s' = bj_playerHand s)"
proof -
  have "bj_inv (bj_initialState ctx)" "revealsOk H (bj_initialState ctx)"
    using blackjack.init_inv [OF assms(1)] by (simp_all add: revealsOk_def) (simp_all add: bj_initialState_def)
  then have inv: "bj_inv s" "revealsOk H s" using bj_run_revealsOk [OF _ _ assms(2,4)] by auto
  obtain rv where rv: "bj_phase s = DrawReveal" "bj_applyReveal H s rv by1 pf = Inr s'"
    using assms(5,6)
    by (auto simp: bj_applyMove_def beginRound_def claimForfeit_def bj_applyCommit_def Let_def
        split: BlackjackPhase.splits BlackjackMove.splits if_splits)
  show ?thesis
    using rv(2) assms(3)
  proof (cases rule: bj_reveal_cases)
    case first
    then show ?thesis using assms(6) by simp
  next
    case (second ra rb rank)
    then show ?thesis
      using inv(2) deriveRank_range [OF second(1)] afterDraw_hands [OF second(4)]
      by (auto split: if_splits) (metis ForHand.exhaust)+
  qed
qed

definition exampleBjStart :: BlackjackState where
  "exampleBjStart = beginRound (bj_initialState \<lparr>ctx_tunnelId = ''0x1'', ctx_initialBalances = \<lparr>bal_a = 50, bal_b = 50\<rparr>\<rparr>\<lparr>bj_bet := 20\<rparr>)"

lemma exampleBjStart_ok: "bj_inv exampleBjStart" "bj_phase exampleBjStart = DrawCommit" "noPending exampleBjStart"
  "bj_bet exampleBjStart = 20" "bj_balanceA exampleBjStart = 50" "bj_balanceB exampleBjStart = 50"
  by (simp_all add: exampleBjStart_def beginRound_def beginRound_inv)
    (simp_all add: bj_inv_defs beginDraw_def bj_initialState_def MIN_BET_def)

definition exampleReveal :: "byte \<Rightarrow> BlackjackSlotReveal" where
  "exampleReveal k = \<lparr>sl_value = [k], sl_salt = replicate 16 k\<rparr>"

definition exampleCommit :: "byte \<Rightarrow> bytes" where
  "exampleCommit k = sampleHash (DOMAIN_COMMIT_REVEAL @ lpBytes [k] @ lpBytes (replicate 16 k))"

text \<open>The opening bet, both commitments and the first reveal of a game.\<close>

definition exampleBjMoves :: "(BlackjackMove \<times> Party) list" where
  "exampleBjMoves = [(BjBet 20, PartyA), (BjCommit (exampleCommit 1) None, PartyA),
     (BjCommit (exampleCommit 2) None, PartyB), (BjReveal (exampleReveal 1), PartyA)]"

definition exampleBjContext :: ProtocolContext where
  "exampleBjContext = \<lparr>ctx_tunnelId = ''0x1'', ctx_initialBalances = \<lparr>bal_a = 50, bal_b = 50\<rparr>\<rparr>"

lemma exampleCommit_opens:
  "verifyCommitment sampleHash (exampleCommit k) (sl_value (exampleReveal k)) (sl_salt (exampleReveal k)) = Inr True"
  using commitPreimage_ok [of "[[k], replicate 16 k]"]
  by (simp add: verifyCommitment_def hashCommitment_def exampleCommit_def exampleReveal_def u64_def)

lemma exampleBj_first_reveal:
  "applyMoves (BlackjackProtocol sampleHash getPlayerParty) (bj_initialState exampleBjContext) exampleBjMoves =
     Inr (exampleBjStart\<lparr>bj_pendingCommitA := Some (exampleCommit 1), bj_pendingCommitB := Some (exampleCommit 2),
       bj_phase := DrawReveal, bj_pendingRevealA := Some (exampleReveal 1)\<rparr>)"
proof -
  have l: "length (exampleCommit k) = 32" for k by (simp add: exampleCommit_def)
  show ?thesis
    by (simp add: exampleBjMoves_def exampleBjStart_def exampleBjContext_def beginRound_def beginDraw_def bj_initialState_def
        bj_applyMove_def bj_isTerminal_def canStartRound_def maxBet_def getPlayerParty_def Let_def ROUND_CAP_def MIN_BET_def
        bj_applyCommit_def bj_applyReveal_def exampleCommit_opens l)
qed

lemma exampleRank: "\<exists>rank. deriveRank sampleHash (exampleReveal 1) (exampleReveal 2) = Inr rank"
proof -
  let ?fs = "[[1], replicate 16 1, [2], replicate 16 (2 :: byte)]"
  have "list_all (\<lambda>x. u64 (int (length x))) ?fs" by (simp add: u64_def)
  from commitPreimage_ok [OF this]
  obtain h where h: "combineReveals sampleHash [1] (replicate 16 1) [2] (replicate 16 2) = Inr h"
    by (simp add: combineReveals_def)
  have z: "chainRaw sampleHash 0 (seedFromBytes h) = 0"
  proof -
    have "rev (beBytes 8 0) = replicate 8 0" "beVal (replicate 8 0) = 0" by code_simp+
    then show ?thesis
      by (simp add: chainSeed_def seedFromBytes_def sampleHash_def)
  qed
  have "accepted (13 - 0) (chainRaw sampleHash 0 (seedFromBytes h))"
    unfolding z by (simp add: accepted_def rejectThreshold_def U64_MAX_def)
  then obtain v s' where "nextU64InRange sampleHash (seedFromBytes h) 0 13 = Inr (v, s')"
    using nextU64InRange_returns [of sampleHash "seedFromBytes h" 0 13 0] by (auto simp: u64_def seedFromBytes_def)
  then show ?thesis using h by (simp add: deriveRank_def exampleReveal_def)
qed

theorem blackjack_cards_are_joint_witness:
  "\<exists>s s' rank. applyMoves (BlackjackProtocol sampleHash getPlayerParty) (bj_initialState exampleBjContext) exampleBjMoves = Inr s \<and>
     bj_applyMove sampleHash getPlayerParty s (BjReveal (exampleReveal 2)) PartyB = Inr s' \<and>
     1 \<le> rank \<and> rank \<le> 13 \<and> bj_playerHand s' = [rankValue rank]"
proof -
  obtain rank where r: "deriveRank sampleHash (exampleReveal 1) (exampleReveal 2) = Inr rank" using exampleRank by blast
  let ?s = "exampleBjStart\<lparr>bj_pendingCommitA := Some (exampleCommit 1), bj_pendingCommitB := Some (exampleCommit 2),
       bj_phase := DrawReveal, bj_pendingRevealA := Some (exampleReveal 1)\<rparr>"
  have d: "bj_draw exampleBjStart = Some \<lparr>dc_forHand = ForPlayer, dc_reason = Deal\<rparr>" "bj_playerHand exampleBjStart = []"
    "bj_dealerHand exampleBjStart = []" "bj_pendingRevealB exampleBjStart = None"
    by (simp_all add: exampleBjStart_def beginRound_def beginDraw_def)
  obtain s' where s': "bj_applyMove sampleHash getPlayerParty ?s (BjReveal (exampleReveal 2)) PartyB = Inr s'"
    "bj_playerHand s' = [rankValue rank]" "bj_dealerHand s' = []"
    using r d by (simp add: bj_applyMove_def bj_applyReveal_def exampleCommit_opens afterDraw_def Let_def)
  have f: "funded (ctx_initialBalances exampleBjContext)" "list_all (\<lambda>(m, by1). seat by1) exampleBjMoves" "seat PartyB"
    by (simp_all add: exampleBjContext_def funded_def exampleBjMoves_def)
  have "length (bj_playerHand ?s @ bj_dealerHand ?s) < length (bj_playerHand s' @ bj_dealerHand s')"
    using d s' by simp
  from blackjack_cards_are_joint [OF f exampleBj_first_reveal s'(1) this]
  obtain rank' where "1 \<le> rank'" "rank' \<le> 13" "bj_playerHand s' = [rankValue rank']"
    using d s'(2,3) by (auto split: if_splits)
  with s'(1) exampleBj_first_reveal show ?thesis by blast
qed

subsection \<open>Forfeits\<close>

text \<open>A forfeit needs no delay. In a fresh draw, either party can commit and claim the round in its next
  move, before the opponent had any opportunity to move: the two moves are legal one after the other and
  transfer the whole bet.\<close>

lemma blackjack_forfeit_without_delay:
  assumes "bj_inv s" "bj_phase s = DrawCommit" "noPending s" "seat p" "length c = 32"
  shows "\<exists>s1 s2. bj_applyMove H pf s (BjCommit c None) p = Inr s1 \<and> bj_applyMove H pf s1 BjForfeit p = Inr s2 \<and>
    (if p = PartyA then bj_balanceA s2 = bj_balanceA s + bj_bet s \<and> bj_balanceB s2 = bj_balanceB s - bj_bet s
     else bj_balanceB s2 = bj_balanceB s + bj_bet s \<and> bj_balanceA s2 = bj_balanceA s - bj_bet s) \<and> 0 < bj_bet s"
proof -
  let ?s1 = "s\<lparr>bj_pendingCommitA := (if p = PartyA then Some c else bj_pendingCommitA s),
      bj_pendingCommitB := (if p = PartyB then Some c else bj_pendingCommitB s),
      bj_localSecretA := (if p = PartyA then None else bj_localSecretA s),
      bj_localSecretB := (if p = PartyB then None else bj_localSecretB s)\<rparr>"
  have n: "bj_pendingCommitA s = None" "bj_pendingCommitB s = None" using assms(3) by (auto simp: noPending_def)
  have b: "betCovered s" using assms(1,2) by (simp add: bj_inv_def phaseOk_def)
  have 1: "bj_applyMove H pf s (BjCommit c None) p = Inr ?s1"
    using assms(2,4,5) n by (auto simp: bj_applyMove_def bj_applyCommit_def Let_def seat_def)
  have 2: "bj_applyMove H pf ?s1 BjForfeit p = Inr (bj_settle ?s1 (Some p))"
    using assms(2,4) n by (auto simp: bj_applyMove_def claimForfeit_def Let_def seat_def)
  have b1: "betCovered ?s1" using b by (simp add: betCovered_def)
  have "bj_balanceA ?s1 = bj_balanceA s" "bj_balanceB ?s1 = bj_balanceB s" "bj_bet ?s1 = bj_bet s" by simp_all
  then show ?thesis
    using 1 2 b assms(4) bj_settle_covered [OF b1, of "Some p"] by (auto simp: seat_def betCovered_def MIN_BET_def)
qed

subsection \<open>The relay codec\<close>

definition revealToJson :: "BlackjackSlotReveal \<Rightarrow> json" where
  "revealToJson reveal = JObj [(''value'', JStr (hex0x (sl_value reveal))), (''salt'', JStr (hex0x (sl_salt reveal)))]"

definition revealFromJson :: "json option \<Rightarrow> BlackjackSlotReveal result" where
  "revealFromJson v =
     bindE (expectRecord v ''move.reveal must be an object'') (\<lambda>reveal.
     bindE (jget reveal ''value'') (\<lambda>jv.
     bindE (bytesFromHex jv ''move.reveal.value'' None) (\<lambda>value1.
     bindE (jget reveal ''salt'') (\<lambda>js.
     bindE (bytesFromHex js ''move.reveal.salt'' None) (\<lambda>salt.
     Inr \<lparr>sl_value = value1, sl_salt = salt\<rparr>)))))"

fun blackjackMoveToJson :: "BlackjackMove \<Rightarrow> json option result" where
  "blackjackMoveToJson (BjBet amount) =
     Inr (Some (JObj [(''kind'', JStr ''bet''), (''amount'', JStr (toStringInt amount))]))"
| "blackjackMoveToJson (BjCommit commitment localSecret) =
     Inr (Some (JObj [(''kind'', JStr ''commit''), (''commitment'', JStr (hex0x commitment))]))"
| "blackjackMoveToJson (BjReveal reveal) =
     Inr (Some (JObj [(''kind'', JStr ''reveal''), (''reveal'', revealToJson reveal)]))"
| "blackjackMoveToJson BjHit = Inr (Some (JObj [(''kind'', JStr ''hit'')]))"
| "blackjackMoveToJson BjStand = Inr (Some (JObj [(''kind'', JStr ''stand'')]))"
| "blackjackMoveToJson BjForfeit = Inr (Some (JObj [(''kind'', JStr ''forfeit'')]))"

definition blackjackMoveFromJson :: "json option \<Rightarrow> BlackjackMove result" where
  "blackjackMoveFromJson v =
     bindE (expectRecord v ''move must be an object'') (\<lambda>move.
     bindE (jget move ''kind'') (\<lambda>k.
     bindE (expectString k ''move.kind must be a string'') (\<lambda>kind.
     if kind = ''bet'' then
       bindE (jget move ''amount'') (\<lambda>ja.
       bindE (expectString ja ''move.amount must be a string'') (\<lambda>s.
       bindE (BigInt (Some (JStr s))) (\<lambda>amount. Inr (BjBet amount))))
     else if kind = ''commit'' then
       bindE (jget move ''commitment'') (\<lambda>jc.
       bindE (bytesFromHex jc ''move.commitment'' (Some 32)) (\<lambda>c. Inr (BjCommit c None)))
     else if kind = ''reveal'' then
       bindE (jget move ''reveal'') (\<lambda>jr. bindE (revealFromJson jr) (\<lambda>r. Inr (BjReveal r)))
     else if kind = ''hit'' then Inr BjHit
     else if kind = ''stand'' then Inr BjStand
     else if kind = ''forfeit'' then Inr BjForfeit
     else Inl (Error ''unsupported blackjack move kind''))))"

definition blackjackMoveCodec :: "BlackjackMove MoveCodec" where
  "blackjackMoveCodec = \<lparr>mc_encode = blackjackMoveToJson, mc_decode = blackjackMoveFromJson\<rparr>"

text \<open>What the counterparty sees of a move: a commitment without the secret behind it.\<close>

fun publicMove :: "BlackjackMove \<Rightarrow> BlackjackMove" where
  "publicMove (BjCommit c ls) = BjCommit c None"
| "publicMove m = m"

fun commitOk :: "BlackjackMove \<Rightarrow> bool" where
  "commitOk (BjCommit c ls) = (length c = 32)"
| "commitOk m = True"

text \<open>Secrets stay with their owner: what the relay codec sends for a move does not depend on the local
  secret of a commitment, the peer decodes exactly the public part of the move, and the signed state
  encoding does not depend on the local secrets either.\<close>

lemma blackjack_secrets_stay_local:
  assumes "commitOk m"
  shows "bindE (mc_encode blackjackMoveCodec m) (mc_decode blackjackMoveCodec) = Inr (publicMove m) \<and>
    mc_encode blackjackMoveCodec m = mc_encode blackjackMoveCodec (publicMove m) \<and>
    bj_encodeState (s\<lparr>bj_localSecretA := x, bj_localSecretB := y\<rparr>) = bj_encodeState s"
proof -
  have "bj_encodeState (s\<lparr>bj_localSecretA := x, bj_localSecretB := y\<rparr>) = bj_encodeState s"
    by (simp add: bj_encodeState_def)
  moreover have "bindE (mc_encode blackjackMoveCodec m) (mc_decode blackjackMoveCodec) = Inr (publicMove m)"
    using assms by (cases m) (simp_all add: blackjackMoveCodec_def blackjackMoveFromJson_def revealToJson_def revealFromJson_def)
  ultimately show ?thesis by (cases m) (simp_all add: blackjackMoveCodec_def)
qed

subsection \<open>Conservation\<close>

text \<open>C39. Blackjack conserves: whatever the two parties play from non-negative deposits, balances stay
  non-negative and sum to the deposits, and during a round the bet is positive and covered by both sides,
  so the loser of a round can always pay it in full.\<close>

theorem blackjack_conserves:
  assumes "funded (ctx_initialBalances ctx)" "list_all (\<lambda>(m, by1). seat by1) ms"
    and "applyMoves (BlackjackProtocol H pf) (bj_initialState ctx) ms = Inr s"
  shows "0 \<le> bj_balanceA s \<and> 0 \<le> bj_balanceB s \<and>
    bj_balanceA s + bj_balanceB s = bal_a (ctx_initialBalances ctx) + bal_b (ctx_initialBalances ctx) \<and>
    (bj_phase s = RoundOver \<or> 1 \<le> bj_bet s \<and> bj_bet s \<le> bj_balanceA s \<and> bj_bet s \<le> bj_balanceB s)"
proof -
  have "bj_inv s \<and> bj_total s = bj_total (bj_initialState ctx)"
    using blackjack.run_inv [OF _ assms(2), of "bj_initialState ctx" H pf s] blackjack.init_inv [OF assms(1)] assms(3) by simp
  then show ?thesis
    by (cases "bj_phase s") (auto simp: bj_inv_defs bj_initialState_def MIN_BET_def)
qed

theorem blackjack_conserves_witness:
  "\<exists>s. applyMoves (BlackjackProtocol sampleHash getPlayerParty) (bj_initialState exampleBjContext) exampleBjMoves = Inr s \<and>
     bj_balanceA s + bj_balanceB s = 100 \<and> bj_bet s \<le> bj_balanceB s"
proof -
  have f: "funded (ctx_initialBalances exampleBjContext)" "list_all (\<lambda>(m, by1). seat by1) exampleBjMoves"
    by (simp_all add: exampleBjContext_def funded_def exampleBjMoves_def)
  from blackjack_conserves [OF f exampleBj_first_reveal] exampleBj_first_reveal show ?thesis
    by (auto simp: exampleBjContext_def)
qed

end
