(* ===== verification/Battleship_Fleet.thy ===== *)
theory Battleship_Fleet
  imports Protocol
begin

section \<open>Battleship fleets and boards (protocol/battleshipFleet.ts)\<close>

text \<open>
  The geometry of the 10 by 10 board: placements, their cells, the two legality checks (of a list of
  placements and of a revealed board) and the random placement. Rows, columns and cells are integers;
  a board is a byte list indexed by cell. The flood fill of \<open>isLegalBoard\<close> is a function with a
  termination proof; \<open>placeFleetRandom\<close> reads its random choices from a sequence of draws.
\<close>

subsection \<open>Definitions\<close>

definition BOARD_SIZE :: int where "BOARD_SIZE = 10"
definition BATTLESHIP_CELL_COUNT :: int where "BATTLESHIP_CELL_COUNT = BOARD_SIZE * BOARD_SIZE"

record ShipSpec =
  ss_id :: string
  ss_name :: string
  ss_size :: nat

definition FLEET :: "ShipSpec list" where
  "FLEET =
     [\<lparr>ss_id = ''carrier'', ss_name = ''Carrier'', ss_size = 5\<rparr>,
      \<lparr>ss_id = ''battleship'', ss_name = ''Battleship'', ss_size = 4\<rparr>,
      \<lparr>ss_id = ''cruiser'', ss_name = ''Cruiser'', ss_size = 3\<rparr>,
      \<lparr>ss_id = ''submarine'', ss_name = ''Submarine'', ss_size = 3\<rparr>,
      \<lparr>ss_id = ''destroyer'', ss_name = ''Destroyer'', ss_size = 2\<rparr>]"

definition FLEET_CELLS :: nat where
  "FLEET_CELLS = foldl (\<lambda>n s. n + ss_size s) 0 FLEET"

datatype Orientation = Horiz | Vert

record Placement =
  pl_id :: string
  pl_cell :: int
  pl_orient :: Orientation

definition rowOf :: "int \<Rightarrow> int" where
  "rowOf cell = cell div BOARD_SIZE"

definition colOf :: "int \<Rightarrow> int" where
  "colOf cell = cell mod BOARD_SIZE"

definition cellAt :: "int \<Rightarrow> int \<Rightarrow> int" where
  "cellAt row col = row * BOARD_SIZE + col"

definition inBounds :: "int \<Rightarrow> int \<Rightarrow> bool" where
  "inBounds row col = (row \<ge> 0 \<and> row < BOARD_SIZE \<and> col \<ge> 0 \<and> col < BOARD_SIZE)"

definition specOf :: "string \<Rightarrow> ShipSpec result" where
  "specOf id1 = (case find (\<lambda>s. ss_id s = id1) FLEET of None \<Rightarrow> Inl (Error ''unknown ship id'') | Some s \<Rightarrow> Inr s)"

text \<open>The cells of the loop of \<open>placementCells\<close> from offset \<open>i\<close> on; \<open>None\<close> when one is out of bounds.\<close>

definition shipCell :: "Placement \<Rightarrow> nat \<Rightarrow> int \<times> int" where
  "shipCell p i =
     (if pl_orient p = Vert then rowOf (pl_cell p) + int i else rowOf (pl_cell p),
      if pl_orient p = Horiz then colOf (pl_cell p) + int i else colOf (pl_cell p))"

definition placementCells :: "Placement \<Rightarrow> int list option result" where
  "placementCells p =
     bindE (specOf (pl_id p)) (\<lambda>spec.
     let rcs = map (shipCell p) [0..<ss_size spec]
     in Inr (if list_all (\<lambda>(r, c). inBounds r c) rcs then Some (map (\<lambda>(r, c). cellAt r c) rcs) else None))"

definition neighborsBy :: "(int \<times> int) list \<Rightarrow> int \<Rightarrow> int list" where
  "neighborsBy ds cell =
     (let r = rowOf cell; c = colOf cell
      in map (\<lambda>(dr, dc). cellAt (r + dr) (c + dc)) (filter (\<lambda>(dr, dc). inBounds (r + dr) (c + dc)) ds))"

definition diagonalNeighbors :: "int \<Rightarrow> int list" where
  "diagonalNeighbors cell = neighborsBy [(- 1, - 1), (- 1, 1), (1, - 1), (1, 1)] cell"

definition orthoNeighbors :: "int \<Rightarrow> int list" where
  "orthoNeighbors cell = neighborsBy [(- 1, 0), (1, 0), (0, - 1), (0, 1)] cell"

text \<open>The owner map of \<open>fleetIsLegal\<close>, as an association list in insertion order; \<open>None\<close> when a
  placement does not fit or overlaps an earlier one.\<close>

fun claimCells :: "int list \<Rightarrow> string \<Rightarrow> (int \<times> string) list \<Rightarrow> (int \<times> string) list option" where
  "claimCells [] id1 owner = Some owner"
| "claimCells (c # cs) id1 owner =
     (if c \<in> fst ` set owner then None else claimCells cs id1 (owner @ [(c, id1)]))"

fun claimFleet :: "Placement list \<Rightarrow> (int \<times> string) list \<Rightarrow> (int \<times> string) list option result" where
  "claimFleet [] owner = Inr (Some owner)"
| "claimFleet (p # ps) owner =
     bindE (placementCells p) (\<lambda>cells.
     case cells of
       None \<Rightarrow> Inr None
     | Some cs \<Rightarrow>
         (case claimCells cs (pl_id p) owner of None \<Rightarrow> Inr None | Some owner' \<Rightarrow> claimFleet ps owner'))"

definition fleetIsLegal :: "Placement list \<Rightarrow> bool result" where
  "fleetIsLegal placements =
     (if length placements \<noteq> length FLEET then Inr False
      else
        let ids = remdups (map pl_id placements)
        in if length ids \<noteq> length FLEET then Inr False
           else if \<not> list_all (\<lambda>spec. ss_id spec \<in> set ids) FLEET then Inr False
           else
             bindE (claimFleet placements []) (\<lambda>claimed.
             case claimed of
               None \<Rightarrow> Inr False
             | Some owner \<Rightarrow>
                 Inr (list_all (\<lambda>(cell, id1).
                   list_all (\<lambda>d. case map_of owner d of None \<Rightarrow> True | Some other \<Rightarrow> other = id1)
                     (diagonalNeighbors cell)) owner)))"

definition markCells :: "bytes \<Rightarrow> int list \<Rightarrow> bytes" where
  "markCells board cells = foldl (\<lambda>b c. b[nat c := 1]) board cells"

fun placementsToBoardFrom :: "bytes \<Rightarrow> Placement list \<Rightarrow> bytes result" where
  "placementsToBoardFrom board [] = Inr board"
| "placementsToBoardFrom board (p # ps) =
     bindE (placementCells p) (\<lambda>cells.
     case cells of
       None \<Rightarrow> Inl (Error ''placement is out of bounds'')
     | Some cs \<Rightarrow> placementsToBoardFrom (markCells board cs) ps)"

definition placementsToBoard :: "Placement list \<Rightarrow> bytes result" where
  "placementsToBoard placements = placementsToBoardFrom (replicate (nat BATTLESHIP_CELL_COUNT) 0) placements"

text \<open>\<open>board[i]\<close> as a condition: present and not zero.\<close>

definition shipAt :: "bytes \<Rightarrow> int \<Rightarrow> bool" where
  "shipAt board i = (0 \<le> i \<and> nat i < length board \<and> board ! nat i \<noteq> 0)"

definition shipCellCount :: "bytes \<Rightarrow> nat" where
  "shipCellCount board = length (filter (\<lambda>i. shipAt board (int i)) [0..<length board])"

definition boardCells :: "int list" where
  "boardCells = map int [0..<nat BATTLESHIP_CELL_COUNT]"

definition noDiagonalContact :: "bytes \<Rightarrow> bool" where
  "noDiagonalContact board =
     list_all (\<lambda>cell. shipAt board cell \<longrightarrow> list_all (\<lambda>d. \<not> shipAt board d) (diagonalNeighbors cell)) boardCells"

text \<open>The inner loop of the flood fill: unseen ship neighbours are marked and pushed. \<open>seen\<close> has an
  entry for every cell of the board.\<close>

fun pushNeighbors :: "bytes \<Rightarrow> int list \<Rightarrow> bool list \<times> int list \<Rightarrow> bool list \<times> int list" where
  "pushNeighbors board [] st = st"
| "pushNeighbors board (n # ns) (seen, stack) =
     (if shipAt board n \<and> nat n < length seen \<and> \<not> seen ! nat n
      then pushNeighbors board ns (seen[nat n := True], n # stack)
      else pushNeighbors board ns (seen, stack))"

abbreviation unseen :: "bool list \<Rightarrow> nat" where
  "unseen seen \<equiv> length (filter Not seen)"

lemma unseen_update: "i < length seen \<Longrightarrow> \<not> seen ! i \<Longrightarrow> Suc (unseen (seen[i := True])) = unseen seen"
proof (induction seen arbitrary: i)
  case (Cons x seen)
  then show ?case by (cases i) auto
qed simp

lemma pushNeighbors_measure:
  "pushNeighbors board ns (seen, stack) = (seen', stack') \<Longrightarrow>
   length stack' + unseen seen' = length stack + unseen seen \<and> length seen' = length seen"
proof (induction ns arbitrary: seen stack)
  case (Cons n ns)
  show ?case
  proof (cases "shipAt board n \<and> nat n < length seen \<and> \<not> seen ! nat n")
    case True
    then show ?thesis
      using Cons.IH [of "seen[nat n := True]" "n # stack"] Cons.prems unseen_update [of "nat n" seen] by simp
  next
    case False
    then have "pushNeighbors board ns (seen, stack) = (seen', stack')"
      using Cons.prems by (auto split: if_splits)
    then show ?thesis by (rule Cons.IH)
  qed
qed simp

text \<open>The loop \<open>while (stack.length)\<close>; the top of the stack is the head of the list.\<close>

function floodFill :: "bytes \<Rightarrow> bool list \<Rightarrow> int list \<Rightarrow> int list \<Rightarrow> bool list \<times> int list" where
  "floodFill board seen [] comp1 = (seen, comp1)"
| "floodFill board seen (cur # stack) comp1 =
     (case pushNeighbors board (orthoNeighbors cur) (seen, stack) of
        (seen', stack') \<Rightarrow> floodFill board seen' stack' (comp1 @ [cur]))"
  by pat_completeness auto
termination
proof (relation "measure (\<lambda>(board, seen, stack, comp1). length stack + unseen seen)")
  fix board :: bytes and seen cur stack comp1 seen' stack'
  assume "(seen', stack') = pushNeighbors board (orthoNeighbors cur) (seen, stack)"
  from pushNeighbors_measure [OF this [symmetric]]
  show "((board, seen', stack', comp1 @ [cur]), board, seen, cur # stack, comp1)
      \<in> measure (\<lambda>(board, seen, stack, comp1). length stack + unseen seen)"
    by simp
qed simp

definition straight :: "int list \<Rightarrow> bool" where
  "straight comp1 = (length (remdups (map rowOf comp1)) = 1 \<or> length (remdups (map colOf comp1)) = 1)"

text \<open>The loop over the start cells: the sizes of the components, or \<open>None\<close> when one is not straight.\<close>

fun componentSizes :: "bytes \<Rightarrow> int list \<Rightarrow> bool list \<Rightarrow> nat list \<Rightarrow> nat list option" where
  "componentSizes board [] seen sizes = Some sizes"
| "componentSizes board (start # starts) seen sizes =
     (if \<not> shipAt board start \<or> seen ! nat start then componentSizes board starts seen sizes
      else
        case floodFill board (seen[nat start := True]) [start] [] of
          (seen', comp1) \<Rightarrow>
            if \<not> straight comp1 then None
            else componentSizes board starts seen' (sizes @ [length comp1]))"

definition isLegalBoard :: "bytes \<Rightarrow> bool" where
  "isLegalBoard board =
     (if int (length board) \<noteq> BATTLESHIP_CELL_COUNT then False
      else if shipCellCount board \<noteq> FLEET_CELLS then False
      else if \<not> noDiagonalContact board then False
      else
        case componentSizes board boardCells (replicate (nat BATTLESHIP_CELL_COUNT) False) [] of
          None \<Rightarrow> False
        | Some sizes \<Rightarrow> sort sizes = sort (map ss_size FLEET))"

subsection \<open>Random placement\<close>

text \<open>The \<open>k\<close>-th try draws an orientation and a cell from \<open>rng\<close>.\<close>

type_synonym fleet_rng = "nat \<Rightarrow> Orientation \<times> int"

definition blockAround :: "bool list \<Rightarrow> int \<Rightarrow> bool list" where
  "blockAround blocked c =
     foldl (\<lambda>b (dr, dc). if inBounds (rowOf c + dr) (colOf c + dc)
         then b[nat (cellAt (rowOf c + dr) (colOf c + dc)) := True] else b)
       (blocked[nat c := True])
       [(- 1, - 1), (- 1, 0), (- 1, 1), (0, - 1), (0, 0), (0, 1), (1, - 1), (1, 0), (1, 1)]"

fun tryPlace :: "fleet_rng \<Rightarrow> ShipSpec \<Rightarrow> nat \<Rightarrow> nat \<Rightarrow> bool list \<Rightarrow>
    (Placement option \<times> nat \<times> bool list) result" where
  "tryPlace rng spec 0 k blocked = Inr (None, k, blocked)"
| "tryPlace rng spec (Suc tries) k blocked =
     (let (orient, cell) = rng k; p = \<lparr>pl_id = ss_id spec, pl_cell = cell, pl_orient = orient\<rparr>
      in bindE (placementCells p) (\<lambda>cells.
         case cells of
           None \<Rightarrow> tryPlace rng spec tries (Suc k) blocked
         | Some cs \<Rightarrow>
             if list_ex (\<lambda>c. blocked ! nat c) cs then tryPlace rng spec tries (Suc k) blocked
             else Inr (Some p, Suc k, foldl blockAround blocked cs)))"

fun placeShips :: "fleet_rng \<Rightarrow> ShipSpec list \<Rightarrow> nat \<Rightarrow> bool list \<Rightarrow> Placement list \<Rightarrow>
    (Placement list option \<times> nat) result" where
  "placeShips rng [] k blocked placements = Inr (Some placements, k)"
| "placeShips rng (spec # specs) k blocked placements =
     bindE (tryPlace rng spec 200 k blocked) (\<lambda>(r, k', blocked').
     case r of
       None \<Rightarrow> Inr (None, k')
     | Some p \<Rightarrow> placeShips rng specs k' blocked' (placements @ [p]))"

fun placeAttempts :: "fleet_rng \<Rightarrow> nat \<Rightarrow> nat \<Rightarrow> Placement list result" where
  "placeAttempts rng 0 k = Inl (Error ''could not place fleet (rng exhausted retry budget)'')"
| "placeAttempts rng (Suc attempts) k =
     bindE (placeShips rng FLEET k (replicate (nat BATTLESHIP_CELL_COUNT) False) []) (\<lambda>(r, k').
     case r of Some placements \<Rightarrow> Inr placements | None \<Rightarrow> placeAttempts rng attempts k')"

definition placeFleetRandom :: "fleet_rng \<Rightarrow> Placement list result" where
  "placeFleetRandom rng = placeAttempts rng 200 0"

subsection \<open>Legality reads a board only through its non-zero bytes\<close>

lemma pushNeighbors_cong: "shipAt b = shipAt b' \<Longrightarrow> pushNeighbors b ns st = pushNeighbors b' ns st"
  by (induction b ns st rule: pushNeighbors.induct) auto

lemma floodFill_cong: "shipAt b = shipAt b' \<Longrightarrow> floodFill b seen stack comp1 = floodFill b' seen stack comp1"
proof (induction b seen stack comp1 rule: floodFill.induct)
  case (2 b seen cur stack comp1)
  then show ?case
    by (simp add: pushNeighbors_cong [of b b'] split: prod.splits)
qed simp

lemma componentSizes_cong: "shipAt b = shipAt b' \<Longrightarrow> componentSizes b starts seen sizes = componentSizes b' starts seen sizes"
proof (induction b starts seen sizes rule: componentSizes.induct)
  case (2 b start starts seen sizes)
  then show ?case
    by (auto simp: floodFill_cong [of b b'] simp del: floodFill.simps split: prod.splits)
qed simp

lemma isLegalBoard_cong:
  assumes "length b = length b'" "shipAt b = shipAt b'"
  shows "isLegalBoard b = isLegalBoard b'"
  using assms componentSizes_cong [OF assms(2)]
  by (simp add: isLegalBoard_def shipCellCount_def noDiagonalContact_def)

end
