(* ===== verification/Battleship.thy ===== *)
theory Battleship
  imports Battleship_Fleet Two_Seats Sample_Hash
begin

section \<open>Battleship with committed boards (protocol/battleship.ts)\<close>

text \<open>
  Both parties commit to a board, fire in turns, answer the other's shots, and reveal their boards at
  the end; the reveal must open the commitment, be a legal fleet and agree with every answer given.

  The lemmas show conservation (an interpretation of \<open>conserving_protocol\<close>), the shot-bookkeeping
  invariant, that every accepted reveal is consistent, that games are bounded, and what the protocol
  accepts beyond what it means to.
\<close>

subsection \<open>State and moves\<close>

datatype BattleshipPhase = AwaitingCommits | Playing | RevealBoards | Over

record BattleshipShotResult =
  sh_cell :: int
  sh_isHit :: bool

record PendingShot =
  ps_by :: Party
  ps_cell :: int

record BattleshipState =
  bs_phase :: BattleshipPhase
  bs_turn :: Party
  bs_pendingShot :: "PendingShot option"
  bs_commitA :: "bytes option"
  bs_commitB :: "bytes option"
  bs_shotsAtA :: "BattleshipShotResult list"
  bs_shotsAtB :: "BattleshipShotResult list"
  bs_hitsOnA :: nat
  bs_hitsOnB :: nat
  bs_revealedA :: bool
  bs_revealedB :: bool
  bs_winner :: nat
  bs_balanceA :: int
  bs_balanceB :: int
  bs_total :: int
  bs_stake :: int

datatype BattleshipMove =
    BsCommit bytes
  | BsShoot int
  | BsAnswer bool "int option"
  | BsRevealBoard bytes bytes
  | BsResign

definition bs_DOMAIN :: bytes where
  "bs_DOMAIN = protocolDomain ''battleship.v2''"

definition COMMIT_BYTES :: nat where "COMMIT_BYTES = 32"

fun bs_PHASE_CODE :: "BattleshipPhase \<Rightarrow> byte" where
  "bs_PHASE_CODE AwaitingCommits = 0"
| "bs_PHASE_CODE Playing = 1"
| "bs_PHASE_CODE RevealBoards = 2"
| "bs_PHASE_CODE Over = 3"

definition commitFor :: "BattleshipState \<Rightarrow> Party \<Rightarrow> bytes option" where
  "commitFor s p = (if p = PartyA then bs_commitA s else bs_commitB s)"

definition shotsAt :: "BattleshipState \<Rightarrow> Party \<Rightarrow> BattleshipShotResult list" where
  "shotsAt s defender = (if defender = PartyA then bs_shotsAtA s else bs_shotsAtB s)"

definition openCells :: "BattleshipState \<Rightarrow> Party \<Rightarrow> int" where
  "openCells s shooter = BATTLESHIP_CELL_COUNT - int (length (shotsAt s (otherParty shooter)))"

definition assertShootable :: "BattleshipState \<Rightarrow> Party \<Rightarrow> int \<Rightarrow> unit result" where
  "assertShootable s shooter cell =
     (if cell < 0 \<or> cell \<ge> BATTLESHIP_CELL_COUNT then Inl (Error ''cell out of range'')
      else if list_ex (\<lambda>x. sh_cell x = cell) (shotsAt s (otherParty shooter))
      then Inl (Error ''already fired at cell'')
      else Inr ())"

subsection \<open>The protocol\<close>

definition bs_initialState :: "int \<Rightarrow> ProtocolContext \<Rightarrow> BattleshipState" where
  "bs_initialState defaultStake ctx =
     (let a = bal_a (ctx_initialBalances ctx); b = bal_b (ctx_initialBalances ctx);
          cap = (if a < b then a else b)
      in \<lparr>bs_phase = AwaitingCommits, bs_turn = PartyA, bs_pendingShot = None, bs_commitA = None, bs_commitB = None,
          bs_shotsAtA = [], bs_shotsAtB = [], bs_hitsOnA = 0, bs_hitsOnB = 0, bs_revealedA = False,
          bs_revealedB = False, bs_winner = 0, bs_balanceA = a, bs_balanceB = b, bs_total = a + b,
          bs_stake = (if defaultStake < cap then defaultStake else cap)\<rparr>)"

definition bs_settle :: "BattleshipState \<Rightarrow> nat \<Rightarrow> BattleshipState" where
  "bs_settle state winner =
     (let a = bs_balanceA state; b = bs_balanceB state;
          loserBal = (if winner = 1 then b else a);
          shift1 = (if bs_stake state < loserBal then bs_stake state else loserBal);
          (a', b') = (if winner = 0 then (a, b) else if winner = 1 then (a + shift1, b - shift1)
                      else (a - shift1, b + shift1))
      in state\<lparr>bs_winner := winner, bs_balanceA := a', bs_balanceB := b', bs_phase := Over\<rparr>)"

definition finalize :: "BattleshipState \<Rightarrow> BattleshipState" where
  "finalize state =
     (let aSunk = (bs_hitsOnA state \<ge> FLEET_CELLS);
          bSunk = (bs_hitsOnB state \<ge> FLEET_CELLS);
          winner =
            (if bSunk \<and> \<not> aSunk then 1
             else if aSunk \<and> \<not> bSunk then 2
             else if bs_hitsOnB state > bs_hitsOnA state then 1
             else if bs_hitsOnA state > bs_hitsOnB state then 2
             else 0)
      in bs_settle state winner)"

definition bs_applyCommit :: "BattleshipState \<Rightarrow> bytes \<Rightarrow> Party \<Rightarrow> BattleshipState result" where
  "bs_applyCommit state commitment by1 =
     (if bs_phase state \<noteq> AwaitingCommits then Inl (Error ''commits are closed'')
      else if length commitment \<noteq> COMMIT_BYTES then Inl (Error ''commitment must be 32 bytes'')
      else if bs_commitA state = None \<and> by1 \<noteq> PartyA then Inl (Error ''A commits first'')
      else if bs_commitA state \<noteq> None \<and> bs_commitB state = None \<and> by1 \<noteq> PartyB
      then Inl (Error ''B commits second'')
      else if bs_commitA state \<noteq> None \<and> bs_commitB state \<noteq> None
      then Inl (Error ''both fleets already committed'')
      else
        let nxt = state\<lparr>bs_commitA := (if by1 = PartyA then Some commitment else bs_commitA state),
              bs_commitB := (if by1 = PartyB then Some commitment else bs_commitB state)\<rparr>
        in Inr (if bs_commitA nxt \<noteq> None \<and> bs_commitB nxt \<noteq> None
                then nxt\<lparr>bs_phase := Playing, bs_turn := PartyA\<rparr> else nxt))"

definition applyShoot :: "BattleshipState \<Rightarrow> int \<Rightarrow> Party \<Rightarrow> BattleshipState result" where
  "applyShoot state cell by1 =
     (if bs_phase state \<noteq> Playing then Inl (Error ''not in the firing phase'')
      else if bs_pendingShot state \<noteq> None then Inl (Error ''awaiting the previous answer'')
      else if by1 \<noteq> bs_turn state then Inl (Error ''not your turn'')
      else
        bindE (assertShootable state by1 cell) (\<lambda>_.
        Inr (state\<lparr>bs_pendingShot := Some \<lparr>ps_by = by1, ps_cell = cell\<rparr>\<rparr>)))"

definition applyAnswer :: "BattleshipState \<Rightarrow> bool \<Rightarrow> int option \<Rightarrow> Party \<Rightarrow> BattleshipState result" where
  "applyAnswer state isHit next1 by1 =
     (case bs_pendingShot state of
        None \<Rightarrow> Inl (Error ''no shot to answer'')
      | Some pending \<Rightarrow>
        (if bs_phase state \<noteq> Playing then Inl (Error ''no shot to answer'')
         else
           let defender = otherParty (ps_by pending)
           in if by1 \<noteq> defender then Inl (Error ''only the defender answers'')
              else if next1 \<noteq> None \<and> isHit
              then Inl (Error ''a hit keeps the shooter's turn; defender cannot fire'')
              else
                let res = \<lparr>sh_cell = ps_cell pending, sh_isHit = isHit\<rparr>;
                    hitsOnA = (if defender = PartyA \<and> isHit then bs_hitsOnA state + 1 else bs_hitsOnA state);
                    hitsOnB = (if defender = PartyB \<and> isHit then bs_hitsOnB state + 1 else bs_hitsOnB state);
                    nxt = state\<lparr>
                      bs_shotsAtA := (if defender = PartyA then bs_shotsAtA state @ [res] else bs_shotsAtA state),
                      bs_shotsAtB := (if defender = PartyB then bs_shotsAtB state @ [res] else bs_shotsAtB state),
                      bs_hitsOnA := hitsOnA, bs_hitsOnB := hitsOnB, bs_pendingShot := None\<rparr>;
                    defenderHits = (if defender = PartyA then hitsOnA else hitsOnB);
                    shooter = ps_by pending
                in if defenderHits \<ge> FLEET_CELLS then Inr (nxt\<lparr>bs_phase := RevealBoards\<rparr>)
                   else if isHit then
                     (let n1 = nxt\<lparr>bs_turn := shooter\<rparr>
                      in Inr (if openCells n1 shooter = 0 then n1\<lparr>bs_phase := RevealBoards\<rparr> else n1))
                   else
                     let n1 = nxt\<lparr>bs_turn := defender\<rparr>
                     in case next1 of
                          Some cell \<Rightarrow>
                            bindE (assertShootable n1 defender cell) (\<lambda>_.
                            Inr (n1\<lparr>bs_pendingShot := Some \<lparr>ps_by = defender, ps_cell = cell\<rparr>\<rparr>))
                        | None \<Rightarrow>
                            Inr (if openCells n1 defender = 0 then n1\<lparr>bs_phase := RevealBoards\<rparr> else n1)))"

text \<open>\<open>board[shot.cell] === 1\<close>\<close>

definition isShip :: "bytes \<Rightarrow> int \<Rightarrow> bool" where
  "isShip board cell = (0 \<le> cell \<and> nat cell < length board \<and> board ! nat cell = 1)"

definition hasRevealed :: "BattleshipState \<Rightarrow> Party \<Rightarrow> bool" where
  "hasRevealed s p = (if p = PartyA then bs_revealedA s else bs_revealedB s)"

definition markRevealed :: "BattleshipState \<Rightarrow> Party \<Rightarrow> BattleshipState" where
  "markRevealed s p = s\<lparr>bs_revealedA := (if p = PartyA then True else bs_revealedA s),
     bs_revealedB := (if p = PartyB then True else bs_revealedB s)\<rparr>"

definition applyRevealBoard ::
  "(bytes \<Rightarrow> bytes) \<Rightarrow> BattleshipState \<Rightarrow> bytes \<Rightarrow> bytes \<Rightarrow> Party \<Rightarrow> BattleshipState result" where
  "applyRevealBoard H state board salt by1 =
     (if bs_phase state \<noteq> RevealBoards then Inl (Error ''not in the reveal phase'')
      else if hasRevealed state by1 then Inl (Error ''already revealed'')
      else
        case commitFor state by1 of
          None \<Rightarrow> Inl (Error ''party has not committed'')
        | Some commit \<Rightarrow>
          bindE (verifyCommitment H commit board salt) (\<lambda>ok.
          if \<not> ok then Inl (Error ''reveal does not match the commitment'')
          else if \<not> isLegalBoard board then Inl (Error ''revealed board is not a legal fleet'')
          else if list_ex (\<lambda>shot. isShip board (sh_cell shot) \<noteq> sh_isHit shot) (shotsAt state by1)
          then Inl (Error ''reveal contradicts answered shot'')
          else
            let nxt = markRevealed state by1
            in Inr (if bs_revealedA nxt \<and> bs_revealedB nxt then finalize nxt else nxt)))"

definition bs_applyMove ::
  "(bytes \<Rightarrow> bytes) \<Rightarrow> BattleshipState \<Rightarrow> BattleshipMove \<Rightarrow> Party \<Rightarrow> BattleshipState result" where
  "bs_applyMove H state move by1 =
     (if bs_phase state = Over \<or> bs_winner state \<noteq> 0 then Inl (Error ''game already over'')
      else
        case move of
          BsCommit commitment \<Rightarrow> bs_applyCommit state commitment by1
        | BsShoot cell \<Rightarrow> applyShoot state cell by1
        | BsAnswer isHit next1 \<Rightarrow> applyAnswer state isHit next1 by1
        | BsRevealBoard board salt \<Rightarrow> applyRevealBoard H state board salt by1
        | BsResign \<Rightarrow> Inr (bs_settle state (if by1 = PartyA then 2 else 1)))"

definition bs_randomMove :: "BattleshipState \<Rightarrow> Party \<Rightarrow> (nat \<Rightarrow> nat) \<Rightarrow> BattleshipMove option" where
  "bs_randomMove state by1 draw =
     (if bs_phase state \<noteq> Playing \<or> bs_pendingShot state \<noteq> None \<or> by1 \<noteq> bs_turn state then None
      else
        let fired = map sh_cell (shotsAt state (otherParty by1));
            open1 = filter (\<lambda>cell. cell \<notin> set fired) boardCells
        in if open1 = [] then None
           else Some (BsShoot (open1 ! min (length open1 - 1) (draw (length open1)))))"

definition shotBytes :: "BattleshipShotResult list \<Rightarrow> bytes" where
  "shotBytes shots = concat (map (\<lambda>s. [word_of_int (sh_cell s), if sh_isHit s then 1 else 0]) shots)"

definition bs_encodeState :: "BattleshipState \<Rightarrow> bytes result" where
  "bs_encodeState state =
     (let pend = bs_pendingShot state;
          fixed =
            [bs_PHASE_CODE (bs_phase state),
             if bs_turn state = PartyA then 0 else 1,
             case pend of None \<Rightarrow> 0 | Some _ \<Rightarrow> 1,
             case pend of None \<Rightarrow> 0 | Some p \<Rightarrow> if ps_by p = PartyA then 0 else 1,
             case pend of None \<Rightarrow> 0 | Some p \<Rightarrow> word_of_int (ps_cell p),
             word_of_int (int (bs_hitsOnA state)), word_of_int (int (bs_hitsOnB state)),
             if bs_revealedA state then 1 else 0, if bs_revealedB state then 1 else 0,
             word_of_int (int (bs_winner state))]
      in bindE (lengthPrefixedConcat
             [case bs_commitA state of None \<Rightarrow> [] | Some c \<Rightarrow> c,
              case bs_commitB state of None \<Rightarrow> [] | Some c \<Rightarrow> c,
              shotBytes (bs_shotsAtA state), shotBytes (bs_shotsAtB state)]) (\<lambda>var1.
         bindE (mapE u64ToBeBytes [bs_balanceA state, bs_balanceB state, bs_stake state]) (\<lambda>ws.
         Inr (concatBytes ([bs_DOMAIN, fixed, var1] @ ws)))))"

definition bs_balances :: "BattleshipState \<Rightarrow> Balances" where
  "bs_balances state = \<lparr>bal_a = bs_balanceA state, bal_b = bs_balanceB state\<rparr>"

definition bs_isTerminal :: "BattleshipState \<Rightarrow> bool" where
  "bs_isTerminal state = (bs_phase state = Over)"

definition BattleshipProtocol :: "(bytes \<Rightarrow> bytes) \<Rightarrow> int \<Rightarrow> (BattleshipState, BattleshipMove) Protocol" where
  "BattleshipProtocol H stake =
     \<lparr>p_name = ''battleship.v2'', p_movesCarrySecrets = False, p_initialState = bs_initialState stake,
      p_applyMove = bs_applyMove H, p_encodeState = bs_encodeState, p_balances = bs_balances,
      p_isTerminal = bs_isTerminal\<rparr>"

definition newBattleshipProtocol ::
  "(bytes \<Rightarrow> bytes) \<Rightarrow> int \<Rightarrow> (BattleshipState, BattleshipMove) Protocol result" where
  "newBattleshipProtocol H stake =
     (if stake < 0 then Inl (Error ''stake must be non-negative'') else Inr (BattleshipProtocol H stake))"

lemma BattleshipProtocol_simps [simp]:
  "p_applyMove (BattleshipProtocol H k) = bs_applyMove H"
  "p_initialState (BattleshipProtocol H k) = bs_initialState k"
  "p_encodeState (BattleshipProtocol H k) = bs_encodeState"
  "p_balances (BattleshipProtocol H k) = bs_balances"
  "p_isTerminal (BattleshipProtocol H k) = bs_isTerminal"
  "p_movesCarrySecrets (BattleshipProtocol H k) = False"
  by (simp_all add: BattleshipProtocol_def)

subsection \<open>The invariant\<close>

text \<open>A shot log: no cell twice, every cell on the board, and the hit counter counts the hits.\<close>

definition shotLog :: "BattleshipShotResult list \<Rightarrow> nat \<Rightarrow> bool" where
  "shotLog shots hits \<longleftrightarrow>
     distinct (map sh_cell shots) \<and> (\<forall>x\<in>set shots. 0 \<le> sh_cell x \<and> sh_cell x < 100) \<and>
     hits = length (filter sh_isHit shots)"

text \<open>The board opens the commitment, is a legal fleet and confirms every answer.\<close>

definition confirms :: "(bytes \<Rightarrow> bytes) \<Rightarrow> bytes option \<Rightarrow> BattleshipShotResult list \<Rightarrow> bytes \<Rightarrow> bytes \<Rightarrow> bool" where
  "confirms H commit shots board salt \<longleftrightarrow>
     (\<exists>c. commit = Some c \<and> verifyCommitment H c board salt = Inr True) \<and> isLegalBoard board \<and>
     (\<forall>x\<in>set shots. sh_isHit x = isShip board (sh_cell x))"

definition decided :: "BattleshipState \<Rightarrow> nat" where
  "decided s =
     (if bs_hitsOnB s > bs_hitsOnA s then 1 else if bs_hitsOnA s > bs_hitsOnB s then 2 else 0)"

definition bs_money :: "BattleshipState \<Rightarrow> bool" where
  "bs_money s \<longleftrightarrow> 0 \<le> bs_balanceA s \<and> 0 \<le> bs_balanceB s \<and> 0 \<le> bs_stake s \<and>
     bs_balanceA s + bs_balanceB s = bs_total s"

definition bs_logs :: "BattleshipState \<Rightarrow> bool" where
  "bs_logs s \<longleftrightarrow> shotLog (bs_shotsAtA s) (bs_hitsOnA s) \<and> shotLog (bs_shotsAtB s) (bs_hitsOnB s) \<and>
     bs_hitsOnA s \<le> 17 \<and> bs_hitsOnB s \<le> 17 \<and> seat (bs_turn s) \<and> bs_winner s \<le> 2 \<and>
     (\<forall>p. bs_pendingShot s = Some p \<longrightarrow> seat (ps_by p) \<and> 0 \<le> ps_cell p \<and> ps_cell p < 100) \<and>
     (\<forall>c. bs_commitA s = Some c \<longrightarrow> length c = 32) \<and> (\<forall>c. bs_commitB s = Some c \<longrightarrow> length c = 32)"

definition bs_reveals :: "(bytes \<Rightarrow> bytes) \<Rightarrow> BattleshipState \<Rightarrow> bool" where
  "bs_reveals H s \<longleftrightarrow>
     (bs_revealedA s \<longrightarrow> (\<exists>board salt. confirms H (bs_commitA s) (bs_shotsAtA s) board salt)) \<and>
     (bs_revealedB s \<longrightarrow> (\<exists>board salt. confirms H (bs_commitB s) (bs_shotsAtB s) board salt))"

fun bs_phaseOk :: "BattleshipState \<Rightarrow> BattleshipPhase \<Rightarrow> bool" where
  "bs_phaseOk s AwaitingCommits =
     (bs_commitB s = None \<and> bs_shotsAtA s = [] \<and> bs_shotsAtB s = [] \<and> bs_pendingShot s = None \<and>
      \<not> bs_revealedA s \<and> \<not> bs_revealedB s \<and> bs_winner s = 0)"
| "bs_phaseOk s Playing =
     (bs_commitA s \<noteq> None \<and> bs_commitB s \<noteq> None \<and> bs_hitsOnA s < 17 \<and> bs_hitsOnB s < 17 \<and>
      \<not> bs_revealedA s \<and> \<not> bs_revealedB s \<and> bs_winner s = 0 \<and>
      (case bs_pendingShot s of
         None \<Rightarrow> openCells s (bs_turn s) > 0
       | Some p \<Rightarrow> ps_by p = bs_turn s \<and> assertShootable s (ps_by p) (ps_cell p) = Inr ()))"
| "bs_phaseOk s RevealBoards =
     (bs_commitA s \<noteq> None \<and> bs_commitB s \<noteq> None \<and> bs_pendingShot s = None \<and> bs_winner s = 0 \<and>
      \<not> (bs_revealedA s \<and> bs_revealedB s) \<and> \<not> (bs_hitsOnA s = 17 \<and> bs_hitsOnB s = 17))"
| "bs_phaseOk s Over = (bs_revealedA s \<and> bs_revealedB s \<longrightarrow> bs_winner s = decided s)"

definition bs_inv :: "(bytes \<Rightarrow> bytes) \<Rightarrow> BattleshipState \<Rightarrow> bool" where
  "bs_inv H s \<longleftrightarrow> bs_money s \<and> bs_logs s \<and> bs_reveals H s \<and> bs_phaseOk s (bs_phase s)"

lemmas bs_inv_defs = bs_inv_def bs_money_def bs_logs_def bs_reveals_def

lemma fleet_numbers [simp]: "FLEET_CELLS = 17" "BATTLESHIP_CELL_COUNT = 100" "BOARD_SIZE = 10"
  by (simp_all add: FLEET_CELLS_def FLEET_def BATTLESHIP_CELL_COUNT_def BOARD_SIZE_def)

lemma shotLog_Nil [simp]: "shotLog [] n \<longleftrightarrow> n = 0"
  by (auto simp: shotLog_def)

lemma shotLog_snoc:
  assumes "shotLog shots n" "0 \<le> c" "c < 100" "\<not> list_ex (\<lambda>x. sh_cell x = c) shots"
  shows "shotLog (shots @ [\<lparr>sh_cell = c, sh_isHit = h\<rparr>]) (if h then n + 1 else n)"
  using assms by (auto simp: shotLog_def list_ex_iff)

lemma shotLog_length: "shotLog shots n \<Longrightarrow> length shots \<le> 100"
proof -
  assume l: "shotLog shots n"
  then have "card (set (map sh_cell shots)) \<le> card {0..<100::int}"
    by (intro card_mono) (auto simp: shotLog_def)
  moreover have "card (set (map sh_cell shots)) = length shots"
    using l distinct_card [of "map sh_cell shots"] by (simp add: shotLog_def del: set_map)
  ultimately show ?thesis by simp
qed

lemma assertShootable_ok_iff:
  "assertShootable s p c = Inr () \<longleftrightarrow>
     0 \<le> c \<and> c < 100 \<and> \<not> list_ex (\<lambda>x. sh_cell x = c) (shotsAt s (otherParty p))"
  by (auto simp: assertShootable_def)

lemma openCells_nonneg: "bs_logs s \<Longrightarrow> 0 \<le> openCells s p"
  using shotLog_length [of "bs_shotsAtA s"] shotLog_length [of "bs_shotsAtB s"]
  by (auto simp: openCells_def shotsAt_def bs_logs_def)

subsection \<open>Every move keeps the invariant\<close>

lemma bs_settle_simps [simp]:
  "bs_phase (bs_settle s w) = Over" "bs_winner (bs_settle s w) = w" "bs_total (bs_settle s w) = bs_total s"
  "bs_stake (bs_settle s w) = bs_stake s" "bs_turn (bs_settle s w) = bs_turn s"
  "bs_pendingShot (bs_settle s w) = bs_pendingShot s"
  "bs_commitA (bs_settle s w) = bs_commitA s" "bs_commitB (bs_settle s w) = bs_commitB s"
  "bs_shotsAtA (bs_settle s w) = bs_shotsAtA s" "bs_shotsAtB (bs_settle s w) = bs_shotsAtB s"
  "bs_hitsOnA (bs_settle s w) = bs_hitsOnA s" "bs_hitsOnB (bs_settle s w) = bs_hitsOnB s"
  "bs_revealedA (bs_settle s w) = bs_revealedA s" "bs_revealedB (bs_settle s w) = bs_revealedB s"
  by (simp_all add: bs_settle_def Let_def split: prod.splits)

lemma bs_settle_money: "bs_money s \<Longrightarrow> bs_money (bs_settle s w)"
  by (auto simp: bs_money_def bs_settle_def Let_def)

lemma finalize_eq:
  assumes "bs_hitsOnA s \<le> 17" "bs_hitsOnB s \<le> 17"
  shows "finalize s = bs_settle s (decided s)"
  using assms by (auto simp: finalize_def decided_def Let_def)

lemma bs_settle_inv:
  assumes "bs_inv H s" "w \<le> 2" "bs_revealedA s \<and> bs_revealedB s \<longrightarrow> w = decided s"
  shows "bs_inv H (bs_settle s w)"
  using assms bs_settle_money [of s w] by (simp add: bs_inv_def bs_logs_def bs_reveals_def decided_def)

lemma bs_applyCommit_inv:
  assumes "bs_inv H s" "seat by1" "bs_applyCommit s c by1 = Inr s'"
  shows "bs_inv H s'"
  using assms by (cases by1)
    (auto simp: bs_applyCommit_def bs_inv_defs COMMIT_BYTES_def openCells_def shotsAt_def Let_def split: if_splits)

lemma applyShoot_inv:
  assumes "bs_inv H s" "applyShoot s c by1 = Inr s'"
  shows "bs_inv H s'"
  using assms by (auto simp: applyShoot_def bs_inv_defs assertShootable_def shotsAt_def result_simps split: if_splits)

text \<open>What an accepted answer does.\<close>

definition recordShot :: "BattleshipState \<Rightarrow> Party \<Rightarrow> int \<Rightarrow> bool \<Rightarrow> BattleshipState" where
  "recordShot s defender c h =
     (let res = \<lparr>sh_cell = c, sh_isHit = h\<rparr>
      in s\<lparr>bs_shotsAtA := (if defender = PartyA then bs_shotsAtA s @ [res] else bs_shotsAtA s),
           bs_shotsAtB := (if defender = PartyB then bs_shotsAtB s @ [res] else bs_shotsAtB s),
           bs_hitsOnA := (if defender = PartyA \<and> h then bs_hitsOnA s + 1 else bs_hitsOnA s),
           bs_hitsOnB := (if defender = PartyB \<and> h then bs_hitsOnB s + 1 else bs_hitsOnB s),
           bs_pendingShot := None\<rparr>)"

lemma applyAnswer_cases:
  assumes "applyAnswer s h nx by1 = Inr s'"
  obtains p n where "bs_phase s = Playing" "bs_pendingShot s = Some p" "by1 = otherParty (ps_by p)"
    "n = recordShot s by1 (ps_cell p) h"
    "(if by1 = PartyA then bs_hitsOnA n else bs_hitsOnB n) \<ge> 17 \<and> s' = n\<lparr>bs_phase := RevealBoards\<rparr> \<or>
     (if by1 = PartyA then bs_hitsOnA n else bs_hitsOnB n) < 17 \<and>
     (\<exists>t n1. t = (if h then ps_by p else by1) \<and> n1 = n\<lparr>bs_turn := t\<rparr> \<and>
       (openCells n1 t = 0 \<and> s' = n1\<lparr>bs_phase := RevealBoards\<rparr> \<or> openCells n1 t \<noteq> 0 \<and> s' = n1 \<or>
        (\<exists>c. \<not> h \<and> nx = Some c \<and> assertShootable n1 t c = Inr () \<and>
          s' = n1\<lparr>bs_pendingShot := Some \<lparr>ps_by = t, ps_cell = c\<rparr>\<rparr>)))"
proof -
  from assms obtain p where p: "bs_pendingShot s = Some p" "bs_phase s = Playing" "by1 = otherParty (ps_by p)"
    by (auto simp: applyAnswer_def Let_def split: option.splits if_splits)
  show thesis
  proof (rule that [OF p(2,1,3) refl])
    show "(if by1 = PartyA then bs_hitsOnA (recordShot s by1 (ps_cell p) h)
          else bs_hitsOnB (recordShot s by1 (ps_cell p) h)) \<ge> 17 \<and>
        s' = (recordShot s by1 (ps_cell p) h)\<lparr>bs_phase := RevealBoards\<rparr> \<or>
      (if by1 = PartyA then bs_hitsOnA (recordShot s by1 (ps_cell p) h)
          else bs_hitsOnB (recordShot s by1 (ps_cell p) h)) < 17 \<and>
      (\<exists>t n1. t = (if h then ps_by p else by1) \<and> n1 = (recordShot s by1 (ps_cell p) h)\<lparr>bs_turn := t\<rparr> \<and>
       (openCells n1 t = 0 \<and> s' = n1\<lparr>bs_phase := RevealBoards\<rparr> \<or> openCells n1 t \<noteq> 0 \<and> s' = n1 \<or>
        (\<exists>c. \<not> h \<and> nx = Some c \<and> assertShootable n1 t c = Inr () \<and>
          s' = n1\<lparr>bs_pendingShot := Some \<lparr>ps_by = t, ps_cell = c\<rparr>\<rparr>)))"
      using assms p
      by (cases h; cases nx; cases "otherParty (ps_by p) = PartyA")
        (auto simp: applyAnswer_def recordShot_def Let_def result_simps split: if_splits)
  qed
qed

lemma recordShot_logs:
  assumes "bs_inv H s" "bs_phase s = Playing" "bs_pendingShot s = Some p" "d = otherParty (ps_by p)"
    and n: "n = recordShot s d (ps_cell p) h"
  shows "bs_logs n \<and> bs_money n \<and> bs_reveals H n \<and> bs_commitA n \<noteq> None \<and> bs_commitB n \<noteq> None \<and>
    bs_phase n = Playing \<and> bs_pendingShot n = None \<and> \<not> bs_revealedA n \<and> \<not> bs_revealedB n \<and> bs_winner n = 0 \<and>
    (d = PartyA \<longrightarrow> bs_hitsOnB n < 17) \<and> (d = PartyB \<longrightarrow> bs_hitsOnA n < 17)"
proof -
  have "seat (ps_by p)" "assertShootable s (ps_by p) (ps_cell p) = Inr ()"
    using assms by (auto simp: bs_inv_defs)
  then show ?thesis
    using assms shotLog_snoc [of "bs_shotsAtA s" "bs_hitsOnA s" "ps_cell p" h]
      shotLog_snoc [of "bs_shotsAtB s" "bs_hitsOnB s" "ps_cell p" h]
    by (cases "ps_by p") (auto simp: bs_inv_defs recordShot_def assertShootable_ok_iff shotsAt_def Let_def)
qed

lemma shotsAt_turn [simp]: "shotsAt (s\<lparr>bs_turn := t\<rparr>) d = shotsAt s d"
  "shotsAt (s\<lparr>bs_pendingShot := q\<rparr>) d = shotsAt s d"
  by (simp_all add: shotsAt_def)

text \<open>The state after an answer that does not end the firing phase.\<close>

lemma playing_inv:
  assumes "bs_logs n" "bs_money n" "bs_reveals H n" "bs_commitA n \<noteq> None" "bs_commitB n \<noteq> None"
    "bs_phase n = Playing" "\<not> bs_revealedA n" "\<not> bs_revealedB n" "bs_winner n = 0"
    "bs_hitsOnA n < 17" "bs_hitsOnB n < 17" "seat t" "bs_pendingShot n = None"
  shows "0 < openCells n t \<Longrightarrow> bs_inv H (n\<lparr>bs_turn := t\<rparr>)"
    and "assertShootable n t c = Inr () \<Longrightarrow>
      bs_inv H (n\<lparr>bs_turn := t, bs_pendingShot := Some \<lparr>ps_by = t, ps_cell = c\<rparr>\<rparr>)"
    and "bs_inv H (n\<lparr>bs_turn := t, bs_phase := RevealBoards\<rparr>)"
  using assms by (simp_all add: bs_inv_defs openCells_def assertShootable_ok_iff)

lemma applyAnswer_inv:
  assumes inv: "bs_inv H s" and ok: "applyAnswer s h nx by1 = Inr s'"
  shows "bs_inv H s'"
  using ok
proof (cases rule: applyAnswer_cases)
  case (1 p n)
  have seat: "seat by1" "seat (ps_by p)"
    using inv 1 by (auto simp: bs_inv_defs)
  note n = recordShot_logs [OF inv 1(1,2,3,4)]
  from 1(5) show ?thesis
  proof (elim disjE)
    assume *: "(if by1 = PartyA then bs_hitsOnA n else bs_hitsOnB n) \<ge> 17 \<and> s' = n\<lparr>bs_phase := RevealBoards\<rparr>"
    have "\<not> (bs_hitsOnA n = 17 \<and> bs_hitsOnB n = 17)"
      using n seat(1) by (cases by1) auto
    then show ?thesis using n * by (simp add: bs_inv_defs)
  next
    assume *: "(if by1 = PartyA then bs_hitsOnA n else bs_hitsOnB n) < 17 \<and>
      (\<exists>t n1. t = (if h then ps_by p else by1) \<and> n1 = n\<lparr>bs_turn := t\<rparr> \<and>
       (openCells n1 t = 0 \<and> s' = n1\<lparr>bs_phase := RevealBoards\<rparr> \<or> openCells n1 t \<noteq> 0 \<and> s' = n1 \<or>
        (\<exists>c. \<not> h \<and> nx = Some c \<and> assertShootable n1 t c = Inr () \<and>
          s' = n1\<lparr>bs_pendingShot := Some \<lparr>ps_by = t, ps_cell = c\<rparr>\<rparr>)))"
    then have hits: "bs_hitsOnA n < 17" "bs_hitsOnB n < 17"
      using n seat(1) by (cases by1; auto)+
    define t where "t = (if h then ps_by p else by1)"
    have t: "seat t" using seat by (simp add: t_def)
    have pos: "openCells n t \<noteq> 0 \<Longrightarrow> 0 < openCells n t"
      using openCells_nonneg [of n t] n by simp
    have e: "openCells (n\<lparr>bs_turn := t\<rparr>) t = openCells n t"
      "assertShootable (n\<lparr>bs_turn := t\<rparr>) t c = assertShootable n t c" for c
      by (simp_all add: openCells_def assertShootable_def)
    note keep = playing_inv [of n H t]
    from * n hits t pos show ?thesis
      unfolding t_def [symmetric] by (auto simp: e intro!: keep)
  qed
qed

lemma applyRevealBoard_cases:
  assumes "applyRevealBoard H s board salt by1 = Inr s'"
  obtains n where "bs_phase s = RevealBoards" "\<not> hasRevealed s by1"
    "confirms H (commitFor s by1) (shotsAt s by1) board salt" "n = markRevealed s by1"
    "s' = (if bs_revealedA n \<and> bs_revealedB n then finalize n else n)"
  using assms
  by (auto simp: applyRevealBoard_def confirms_def list_ex_iff Let_def bindE_eq_Inr
      intro!: that [OF _ _ _ refl] split: if_split_asm option.splits)

lemma applyRevealBoard_inv:
  assumes inv: "bs_inv H s" and seat: "seat by1" and ok: "applyRevealBoard H s board salt by1 = Inr s'"
  shows "bs_inv H s'"
  using ok
proof (cases rule: applyRevealBoard_cases)
  case (1 n)
  have n: "bs_money n" "bs_logs n" "bs_reveals H n" "bs_phase n = RevealBoards" "bs_winner n = 0"
    using inv 1(1,3,4) seat by (cases by1; auto simp: bs_inv_defs commitFor_def shotsAt_def markRevealed_def)+
  then have f: "finalize n = bs_settle n (decided n)"
    by (simp add: finalize_eq bs_logs_def)
  have d: "decided n \<le> 2" "decided (bs_settle n w) = decided n" for w
    by (simp_all add: decided_def)
  show ?thesis
  proof (cases "bs_revealedA n \<and> bs_revealedB n")
    case True
    then show ?thesis
      using n f d 1(5) bs_settle_money [of n] by (auto simp: bs_inv_def bs_logs_def bs_reveals_def)
  next
    case False
    then show ?thesis
      using n 1(1,4,5) inv by (auto simp: bs_inv_def markRevealed_def)
  qed
qed

lemma bs_applyMove_inv:
  assumes inv: "bs_inv H s" and seat: "seat by1" and ok: "bs_applyMove H s m by1 = Inr s'"
  shows "bs_inv H s'"
proof (cases m)
  case BsResign
  have "\<not> (bs_revealedA s \<and> bs_revealedB s)"
    using inv ok by (cases "bs_phase s") (auto simp: bs_inv_def bs_applyMove_def)
  then show ?thesis
    using BsResign ok bs_settle_inv [OF inv] by (auto simp: bs_applyMove_def split: if_splits)
qed (use ok bs_applyCommit_inv [OF inv seat] applyShoot_inv [OF inv] applyAnswer_inv [OF inv]
    applyRevealBoard_inv [OF inv seat] in \<open>auto simp: bs_applyMove_def split: if_splits\<close>)

subsection \<open>Conservation\<close>

lemma bs_applyMove_total: "bs_applyMove H s m by1 = Inr s' \<Longrightarrow> bs_total s' = bs_total s"
  by (cases m)
    (auto simp: bs_applyMove_def bs_applyCommit_def applyShoot_def finalize_def Let_def bindE_eq_Inr
      recordShot_def markRevealed_def elim!: applyAnswer_cases applyRevealBoard_cases split: if_split_asm)

lemma bs_initialState_inv: "funded (ctx_initialBalances ctx) \<Longrightarrow> bs_inv H (bs_initialState (int k) ctx)"
  by (simp add: bs_initialState_def bs_inv_defs funded_def Let_def)

interpretation battleship: conserving_protocol "BattleshipProtocol H (int k)" "bs_inv H" bs_total for H k
proof unfold_locales
  fix ctx :: ProtocolContext
  assume "funded (ctx_initialBalances ctx)"
  then show "bs_inv H (p_initialState (BattleshipProtocol H (int k)) ctx)"
    by (simp add: bs_initialState_inv)
next
  fix s m by1 s'
  assume "bs_inv H s" "seat by1" "p_applyMove (BattleshipProtocol H (int k)) s m by1 = Inr s'"
  then show "bs_inv H s'" using bs_applyMove_inv by simp
next
  fix s m by1 s'
  assume "p_applyMove (BattleshipProtocol H (int k)) s m by1 = Inr s'"
  then show "bs_total s' = bs_total s" using bs_applyMove_total by simp
qed (auto simp: bs_initialState_def Let_def bs_inv_def bs_money_def balanceSum_def bs_balances_def funded_def)

subsection \<open>Games are bounded\<close>

text \<open>What is left to do in a game: every accepted move of a seat uses some of it up.\<close>

definition bs_left :: "BattleshipState \<Rightarrow> nat" where
  "bs_left s =
     (if bs_phase s = Over then 0
      else 1 + (if bs_commitA s = None then 1 else 0) + (if bs_commitB s = None then 1 else 0) +
        2 * (200 - (length (bs_shotsAtA s) + length (bs_shotsAtB s))) - (if bs_pendingShot s = None then 0 else 1) +
        (if bs_revealedA s then 0 else 1) + (if bs_revealedB s then 0 else 1))"

lemma bs_room: "bs_logs s \<Longrightarrow> length (bs_shotsAtA s) \<le> 100 \<and> length (bs_shotsAtB s) \<le> 100"
  using shotLog_length by (auto simp: bs_logs_def)

lemma recordShot_length:
  assumes "bs_inv H s" "bs_phase s = Playing" "bs_pendingShot s = Some p"
  shows "length (bs_shotsAtA s) + length (bs_shotsAtB s) < 200"
    "bs_left (recordShot s (otherParty (ps_by p)) c h) < bs_left s"
proof -
  have "bs_logs (recordShot s (otherParty (ps_by p)) (ps_cell p) h)"
    using recordShot_logs [OF assms refl refl] by simp
  then have *: "length (bs_shotsAtA (recordShot s (otherParty (ps_by p)) (ps_cell p) h)) \<le> 100"
    "length (bs_shotsAtB (recordShot s (otherParty (ps_by p)) (ps_cell p) h)) \<le> 100"
    using bs_room by auto
  have "bs_logs s" using assms by (simp add: bs_inv_def)
  note r = bs_room [OF this]
  show "length (bs_shotsAtA s) + length (bs_shotsAtB s) < 200"
    using * r by (cases "ps_by p") (auto simp: recordShot_def Let_def)
  then show "bs_left (recordShot s (otherParty (ps_by p)) c h) < bs_left s"
    using assms by (cases "ps_by p") (auto simp: bs_left_def recordShot_def Let_def)
qed

lemma bs_applyCommit_cases [consumes 2]:
  assumes inv: "bs_inv H s" and ok: "bs_applyCommit s c by1 = Inr s'"
  obtains (1) "by1 = PartyA" "bs_commitA s = None" "bs_commitB s = None" "length c = 32"
      "s' = s\<lparr>bs_commitA := Some c\<rparr>"
    | (2) c0 where "by1 = PartyB" "bs_commitA s = Some c0" "bs_commitB s = None" "length c = 32"
      "s' = s\<lparr>bs_commitB := Some c, bs_phase := Playing, bs_turn := PartyA\<rparr>"
proof -
  have "bs_phase s = AwaitingCommits"
    using ok by (auto simp: bs_applyCommit_def split: if_split_asm)
  then have B: "bs_commitB s = None" using inv by (simp add: bs_inv_def)
  show thesis
  proof (cases "bs_commitA s")
    case None
    with ok B have *: "by1 = PartyA" "length c = 32"
      by (auto simp: bs_applyCommit_def COMMIT_BYTES_def split: if_split_asm)
    moreover have "s' = s\<lparr>bs_commitA := Some c\<rparr>"
      using ok B None * by (cases s) (auto simp: bs_applyCommit_def COMMIT_BYTES_def Let_def split: if_split_asm)
    ultimately show ?thesis using 1 B None by simp
  next
    case (Some c0)
    with ok B have *: "by1 = PartyB" "length c = 32"
      by (auto simp: bs_applyCommit_def COMMIT_BYTES_def split: if_split_asm)
    moreover have "s' = s\<lparr>bs_commitB := Some c, bs_phase := Playing, bs_turn := PartyA\<rparr>"
      using ok B Some * by (cases s) (auto simp: bs_applyCommit_def COMMIT_BYTES_def Let_def split: if_split_asm)
    ultimately show ?thesis using 2 B Some by simp
  qed
qed

lemma bs_left_turn:
  assumes "bs_phase n = Playing"
  shows "bs_left (n\<lparr>bs_turn := t\<rparr>) \<le> bs_left n"
    "bs_left (n\<lparr>bs_phase := RevealBoards\<rparr>) \<le> bs_left n"
    "bs_left (n\<lparr>bs_turn := t, bs_phase := RevealBoards\<rparr>) \<le> bs_left n"
    "bs_left (n\<lparr>bs_turn := t, bs_pendingShot := Some q\<rparr>) \<le> bs_left n"
  using assms by (simp_all add: bs_left_def)

lemma bs_left_decreases:
  assumes inv: "bs_inv H s" and seat: "seat by1" and ok: "bs_applyMove H s m by1 = Inr s'"
  shows "bs_left s' < bs_left s"
proof (cases m)
  case (BsCommit c)
  then have "bs_applyCommit s c by1 = Inr s'" and p: "bs_phase s = AwaitingCommits"
    using ok by (auto simp: bs_applyMove_def bs_applyCommit_def split: if_split_asm)
  from bs_applyCommit_cases [OF inv this(1)] show ?thesis
  proof cases
    case 1
    show ?thesis using p by (simp add: 1 bs_left_def)
  next
    case 2
    show ?thesis using p by (simp add: 2 bs_left_def)
  qed
next
  case (BsShoot c)
  then have s': "bs_phase s = Playing" "bs_pendingShot s = None" "s' = s\<lparr>bs_pendingShot := Some \<lparr>ps_by = by1, ps_cell = c\<rparr>\<rparr>"
    using ok by (auto simp: bs_applyMove_def applyShoot_def bindE_eq_Inr split: if_split_asm)
  have "0 < openCells s (bs_turn s)" "bs_logs s" using inv s'(1,2) by (simp_all add: bs_inv_def)
  then have "length (bs_shotsAtA s) + length (bs_shotsAtB s) < 200"
    using bs_room [of s] by (auto simp: openCells_def shotsAt_def split: if_split_asm)
  with s' show ?thesis by (simp add: bs_left_def)
next
  case (BsAnswer h nx)
  then have "applyAnswer s h nx by1 = Inr s'"
    using ok by (auto simp: bs_applyMove_def split: if_split_asm)
  then show ?thesis
  proof (cases rule: applyAnswer_cases)
    case (1 p n)
    have n: "bs_left n < bs_left s" "bs_pendingShot n = None"
      using recordShot_length [OF inv 1(1,2)] 1(3,4) by (simp_all add: recordShot_def Let_def)
    have "bs_phase n = Playing" using 1(1,4) by (simp add: recordShot_def Let_def)
    note le = bs_left_turn [OF this]
    from 1(5) have "bs_left s' \<le> bs_left n"
      by (elim disjE conjE exE) (simp_all only: le order.refl)
    with n show ?thesis by simp
  qed
next
  case (BsRevealBoard board salt)
  then have "applyRevealBoard H s board salt by1 = Inr s'"
    using ok by (auto simp: bs_applyMove_def split: if_split_asm)
  then show ?thesis
  proof (cases rule: applyRevealBoard_cases)
    case (1 n)
    then have "bs_left n < bs_left s" "bs_left (finalize n) = 0"
      using seat by (cases by1; simp add: bs_left_def hasRevealed_def markRevealed_def finalize_def Let_def)+
    then show ?thesis using 1(5) by auto
  qed
next
  case BsResign
  have "bs_left s' = 0"
    using ok BsResign by (auto simp: bs_applyMove_def bs_left_def split: if_split_asm)
  moreover have "0 < bs_left s"
    using ok BsResign inv bs_room [of s]
    by (cases "bs_phase s") (auto simp: bs_applyMove_def bs_left_def bs_inv_def split: if_split_asm option.splits)
  ultimately show ?thesis by simp
qed

lemma bs_run_bounded:
  "bs_inv H s \<Longrightarrow> list_all (\<lambda>(m, by1). seat by1) ms \<Longrightarrow> applyMoves (BattleshipProtocol H k) s ms = Inr s' \<Longrightarrow>
   length ms + bs_left s' \<le> bs_left s"
proof (induction ms arbitrary: s)
  case (Cons x ms)
  obtain m by1 where x: "x = (m, by1)" by (cases x)
  with Cons.prems obtain s1 where s1: "bs_applyMove H s m by1 = Inr s1" "applyMoves (BattleshipProtocol H k) s1 ms = Inr s'"
    by (auto simp: bindE_eq_Inr)
  have "bs_inv H s1" "bs_left s1 < bs_left s"
    using bs_applyMove_inv bs_left_decreases Cons.prems x s1 by auto
  with Cons.IH [OF this(1) _ s1(2)] Cons.prems x show ?case by simp
qed simp

subsection \<open>What two accepted reveals establish\<close>

lemma hits_are_ships:
  assumes "shotLog shots n" "confirms H commit shots board salt"
  shows "n = card {c \<in> sh_cell ` set shots. isShip board c}"
proof -
  have "{c \<in> sh_cell ` set shots. isShip board c} = sh_cell ` set (filter sh_isHit shots)"
    using assms(2) by (auto simp: confirms_def)
  moreover have "distinct (map sh_cell (filter sh_isHit shots))"
    using assms(1) by (auto simp: shotLog_def distinct_map_filter)
  ultimately show ?thesis
    using assms(1) distinct_card [of "map sh_cell (filter sh_isHit shots)"] by (simp add: shotLog_def)
qed

lemma bs_commits_stable:
  assumes "bs_applyMove H s m by1 = Inr s'"
  shows "bs_commitA s = Some c \<Longrightarrow> bs_commitA s' = Some c" "bs_commitB s = Some c \<Longrightarrow> bs_commitB s' = Some c"
  using assms by (cases m;
    auto simp: bs_applyMove_def bs_applyCommit_def applyShoot_def finalize_def Let_def bindE_eq_Inr
      recordShot_def markRevealed_def elim!: applyAnswer_cases applyRevealBoard_cases split: if_split_asm)+

lemma bs_run_commits:
  "applyMoves (BattleshipProtocol H k) s ms = Inr s' \<Longrightarrow>
   (bs_commitA s = Some c \<longrightarrow> bs_commitA s' = Some c) \<and> (bs_commitB s = Some d \<longrightarrow> bs_commitB s' = Some d)"
proof (induction ms arbitrary: s)
  case (Cons x ms)
  obtain m by1 where x: "x = (m, by1)" by (cases x)
  with Cons.prems obtain s1 where s1: "bs_applyMove H s m by1 = Inr s1" "applyMoves (BattleshipProtocol H k) s1 ms = Inr s'"
    by (auto simp: bindE_eq_Inr)
  from Cons.IH [OF s1(2)] bs_commits_stable [OF s1(1)] show ?case by blast
qed simp

lemma bs_over_stuck: "bs_phase s = Over \<Longrightarrow> applyMoves (BattleshipProtocol H k) s ms = Inr s' \<Longrightarrow> ms = [] \<and> s' = s"
  by (cases ms) (auto simp: bs_applyMove_def)

text \<open>Before both commitments are in, the only moves are commitments and resignation.\<close>

lemma bs_awaiting_move:
  assumes "bs_phase s = AwaitingCommits" "bs_applyMove H s m by1 = Inr s'"
  obtains c where "m = BsCommit c" "bs_applyCommit s c by1 = Inr s'"
  | "bs_phase s' = Over" "bs_revealedA s' = bs_revealedA s"
  using assms by (cases m)
    (auto simp: bs_applyMove_def applyShoot_def applyAnswer_def applyRevealBoard_def split: if_split_asm option.splits)

lemma bs_awaiting_run:
  assumes inv: "bs_inv H s" and ph: "bs_phase s = AwaitingCommits"
    and ok: "applyMoves (BattleshipProtocol H k) s ms = Inr s'" and rev: "bs_revealedA s'"
  obtains m by1 rest c s1 where "ms = (BsCommit c, by1) # rest" "bs_applyCommit s c by1 = Inr s1"
    "bs_applyMove H s (BsCommit c) by1 = Inr s1" "applyMoves (BattleshipProtocol H k) s1 rest = Inr s'"
proof (cases ms)
  case Nil
  then show ?thesis using inv ph ok rev by (auto simp: bs_inv_def)
next
  case (Cons x rest)
  obtain m by1 where x: "x = (m, by1)" by (cases x)
  with Cons ok obtain s1 where s1: "bs_applyMove H s m by1 = Inr s1" "applyMoves (BattleshipProtocol H k) s1 rest = Inr s'"
    by (auto simp: bindE_eq_Inr)
  from ph s1(1) show ?thesis
  proof (cases rule: bs_awaiting_move)
    case (1 c)
    then show ?thesis using that Cons x s1 by auto
  next
    case 2
    with bs_over_stuck [OF 2(1) s1(2)] inv ph rev show ?thesis by (simp add: bs_inv_def)
  qed
qed

lemma bs_run_opens:
  assumes f: "funded (ctx_initialBalances ctx)" and seats: "list_all (\<lambda>(m, by1). seat by1) ms"
    and ok: "applyMoves (BattleshipProtocol H (int k)) (bs_initialState (int k) ctx) ms = Inr s"
    and rev: "bs_revealedA s"
  obtains cA cB rest where "ms = (BsCommit cA, PartyA) # (BsCommit cB, PartyB) # rest"
    "bs_commitA s = Some cA" "bs_commitB s = Some cB"
proof -
  let ?P = "BattleshipProtocol H (int k)" and ?s = "bs_initialState (int k) ctx"
  have inv: "bs_inv H ?s" and ph: "bs_phase ?s = AwaitingCommits" and none: "bs_commitA ?s = None"
    using bs_initialState_inv [OF f] by (simp_all add: bs_initialState_def Let_def)
  from bs_awaiting_run [OF inv ph ok rev] obtain by1 rest c s1 where
    1: "ms = (BsCommit c, by1) # rest" "bs_applyCommit ?s c by1 = Inr s1" "bs_applyMove H ?s (BsCommit c) by1 = Inr s1"
      "applyMoves ?P s1 rest = Inr s" by metis
  from bs_applyCommit_cases [OF inv 1(2)] have "by1 = PartyA \<and> bs_commitA s1 = Some c \<and> bs_phase s1 = AwaitingCommits"
    using none ph by cases auto
  then have A: "by1 = PartyA" "bs_commitA s1 = Some c" "bs_phase s1 = AwaitingCommits" by simp_all
  have inv1: "bs_inv H s1" using bs_applyMove_inv [OF inv _ 1(3)] A(1) by simp
  from bs_awaiting_run [OF inv1 A(3) 1(4) rev] obtain by2 rest2 c2 s2 where
    2: "rest = (BsCommit c2, by2) # rest2" "bs_applyCommit s1 c2 by2 = Inr s2" "applyMoves ?P s2 rest2 = Inr s"
    by metis
  from bs_applyCommit_cases [OF inv1 2(2)] have B: "by2 = PartyB \<and> bs_commitA s2 = Some c \<and> bs_commitB s2 = Some c2"
    using A(2) by cases auto
  show thesis
    using that [of c c2 rest2] 1(1) 2(1) A(1) B bs_run_commits [OF 2(3)] by blast
qed

lemma bs_run_inv:
  assumes "funded (ctx_initialBalances ctx)" "list_all (\<lambda>(m, by1). seat by1) ms"
    "applyMoves (BattleshipProtocol H (int k)) (bs_initialState (int k) ctx) ms = Inr s"
  shows "bs_inv H s"
  using battleship.run_inv [OF bs_initialState_inv [OF assms(1)] assms(2,3)] by blast

subsection \<open>A complete game\<close>

definition exampleFleet :: "Placement list" where
  "exampleFleet =
     [\<lparr>pl_id = ''carrier'', pl_cell = 0, pl_orient = Horiz\<rparr>, \<lparr>pl_id = ''battleship'', pl_cell = 20, pl_orient = Horiz\<rparr>,
      \<lparr>pl_id = ''cruiser'', pl_cell = 40, pl_orient = Horiz\<rparr>, \<lparr>pl_id = ''submarine'', pl_cell = 60, pl_orient = Horiz\<rparr>,
      \<lparr>pl_id = ''destroyer'', pl_cell = 80, pl_orient = Horiz\<rparr>]"

definition exampleShips :: "int list" where
  "exampleShips = [0, 1, 2, 3, 4, 20, 21, 22, 23, 40, 41, 42, 60, 61, 62, 80, 81]"

text \<open>The board with the given byte on every ship cell.\<close>

definition exampleBoard :: "byte \<Rightarrow> bytes" where
  "exampleBoard v = map (\<lambda>i. if int i \<in> set exampleShips then v else 0) [0..<100]"

definition exampleSalt :: "byte \<Rightarrow> bytes" where
  "exampleSalt v = replicate 16 v"

definition exampleBoardCommit :: "byte \<Rightarrow> byte \<Rightarrow> bytes" where
  "exampleBoardCommit v w = (case computeCommitment sampleHash (exampleBoard v) (exampleSalt w) of Inr c \<Rightarrow> c | Inl _ \<Rightarrow> [])"

definition exampleBsContext :: ProtocolContext where
  "exampleBsContext = \<lparr>ctx_tunnelId = ''0x1'', ctx_initialBalances = \<lparr>bal_a = 500, bal_b = 300\<rparr>\<rparr>"

text \<open>A hits all of B's ships, then both reveal.\<close>

definition exampleBsMoves :: "(BattleshipMove \<times> Party) list" where
  "exampleBsMoves =
     [(BsCommit (exampleBoardCommit 1 7), PartyA), (BsCommit (exampleBoardCommit 1 8), PartyB)] @
     concat (map (\<lambda>c. [(BsShoot c, PartyA), (BsAnswer True None, PartyB)]) exampleShips) @
     [(BsRevealBoard (exampleBoard 1) (exampleSalt 7), PartyA), (BsRevealBoard (exampleBoard 1) (exampleSalt 8), PartyB)]"

lemma exampleBs_run:
  "case applyMoves (BattleshipProtocol sampleHash 100) (bs_initialState 100 exampleBsContext) exampleBsMoves of
     Inl e \<Rightarrow> False
   | Inr s \<Rightarrow> bs_revealedA s \<and> bs_revealedB s \<and> bs_winner s = 1 \<and> bs_balanceA s = 600 \<and> bs_balanceB s = 200"
  by code_simp

subsection \<open>Fair games\<close>


lemma exampleBs_seats: "funded (ctx_initialBalances exampleBsContext)" "list_all (\<lambda>(m, by1). seat by1) exampleBsMoves"
  by (simp_all add: exampleBsContext_def funded_def exampleBsMoves_def list_all_iff)

lemma exampleBs_final:
  obtains s where "applyMoves (BattleshipProtocol sampleHash (int 100)) (bs_initialState (int 100) exampleBsContext)
      exampleBsMoves = Inr s" "bs_revealedA s" "bs_revealedB s" "bs_winner s = 1" "bs_balanceA s = 600"
  using exampleBs_run by (auto split: sum.splits)

lemma exampleBs_commits: "exampleBsMoves = (BsCommit cA, p) # (BsCommit cB, q) # rest \<Longrightarrow> cB = exampleBoardCommit 1 8"
  by (simp add: exampleBsMoves_def)


text \<open>C28. Battleship pays out what was locked and always ends: from non-negative deposits, every run of moves
  by the two seats keeps both balances non-negative with the deposits as their sum, and has at most 405 moves.\<close>

theorem battleship_conserves_and_ends:
  assumes "funded (ctx_initialBalances ctx)" "list_all (\<lambda>(m, by1). seat by1) ms"
    and "applyMoves (BattleshipProtocol H (int k)) (bs_initialState (int k) ctx) ms = Inr s"
  shows "funded (bs_balances s) \<and>
    bs_balanceA s + bs_balanceB s = bal_a (ctx_initialBalances ctx) + bal_b (ctx_initialBalances ctx) \<and>
    length ms \<le> 405"
proof -
  have "length ms + bs_left s \<le> bs_left (bs_initialState (int k) ctx)"
    by (rule bs_run_bounded [OF bs_initialState_inv [OF assms(1)] assms(2,3)])
  then have "length ms \<le> 405" by (simp add: bs_left_def bs_initialState_def Let_def)
  with battleship.run_conserves [OF assms(1,2), of H k s] assms(3) show ?thesis
    by (simp add: balanceSum_def bs_balances_def)
qed

theorem battleship_conserves_and_ends_witness:
  "\<exists>s. applyMoves (BattleshipProtocol sampleHash (int 100)) (bs_initialState (int 100) exampleBsContext)
      exampleBsMoves = Inr s \<and> bs_balanceA s = 600 \<and> bs_balanceA s + bs_balanceB s = 800"
proof -
  obtain s where s: "applyMoves (BattleshipProtocol sampleHash (int 100)) (bs_initialState (int 100) exampleBsContext)
      exampleBsMoves = Inr s" "bs_balanceA s = 600"
    using exampleBs_final .
  from battleship_conserves_and_ends [OF exampleBs_seats s(1)] s show ?thesis
    by (auto simp: exampleBsContext_def)
qed

subsection \<open>Firing never gets stuck\<close>

text \<open>While the firing phase waits for a shot, the bot of the party to move finds one, and the shot it
  picks is accepted.\<close>

theorem battleship_bot_shoots:
  assumes "funded (ctx_initialBalances ctx)" "list_all (\<lambda>(m, by1). seat by1) ms"
    and "applyMoves (BattleshipProtocol H (int k)) (bs_initialState (int k) ctx) ms = Inr s"
    and "bs_phase s = Playing" "bs_pendingShot s = None"
  shows "\<exists>m s'. bs_randomMove s (bs_turn s) draw = Some m \<and> bs_applyMove H s m (bs_turn s) = Inr s'"
proof -
  let ?shots = "shotsAt s (otherParty (bs_turn s))"
  let ?open = "filter (\<lambda>cell. cell \<notin> set (map sh_cell ?shots)) boardCells"
  have inv: "bs_inv H s" by (rule bs_run_inv [OF assms(1-3)])
  then have room: "length ?shots < 100" and w: "bs_winner s = 0"
    using assms(4,5) by (auto simp: bs_inv_def openCells_def)
  have b: "set boardCells = {0..<100}"
    using image_int_atLeastLessThan [of 0 100] by (simp add: boardCells_def)
  have "card (set (map sh_cell ?shots)) < card {0..<100::int}"
    using room card_length [of "map sh_cell ?shots"] by simp
  then have "\<not> {0..<100} \<subseteq> set (map sh_cell ?shots)"
    by (meson card_mono finite_set not_less)
  then have ne: "?open \<noteq> []" using b by (auto simp: filter_empty_conv)
  define c where "c = ?open ! min (length ?open - 1) (draw (length ?open))"
  have "c \<in> set ?open"
    unfolding c_def using ne by (intro nth_mem) (cases ?open; simp)
  then have "assertShootable s (bs_turn s) c = Inr ()"
    using b by (auto simp: assertShootable_ok_iff list_ex_iff)
  moreover have "bs_randomMove s (bs_turn s) draw = Some (BsShoot c)"
    using assms(4,5) ne by (simp add: bs_randomMove_def c_def Let_def)
  ultimately show ?thesis
    using assms(4,5) w by (simp add: bs_applyMove_def applyShoot_def)
qed

subsection \<open>Boards whose ships cannot be hit\<close>

text \<open>The board with the same fleet, drawn with byte 2 instead of 1.\<close>

definition ghostBoard :: "bytes \<Rightarrow> bytes" where
  "ghostBoard board = map (\<lambda>x. if x = 0 then 0 else 2) board"

lemma ghostBoard_legal: "isLegalBoard (ghostBoard b) = isLegalBoard b"
  by (rule isLegalBoard_cong) (auto simp: ghostBoard_def shipAt_def fun_eq_iff)

lemma ghostBoard_no_ship: "\<not> isShip (ghostBoard b) c"
  by (auto simp: ghostBoard_def isShip_def)

text \<open>C29. The reveal does not exclude an unsinkable fleet: for every legal board, a party that commits to the
  same fleet drawn with byte 2 can answer every shot at it with a miss, and its reveal is still accepted,
  because the legality check counts every non-zero byte as a ship while the answers are checked against
  the byte 1.\<close>

theorem battleship_ghost_fleet_passes:
  assumes "isLegalBoard board" "computeCommitment H (ghostBoard board) salt = Inr c"
    and "bs_phase s = RevealBoards" "\<not> hasRevealed s p" "commitFor s p = Some c"
    and "\<forall>x\<in>set (shotsAt s p). \<not> sh_isHit x"
  shows "shipAt (ghostBoard board) = shipAt board \<and> isOk (applyRevealBoard H s (ghostBoard board) salt p)"
proof
  show "shipAt (ghostBoard board) = shipAt board"
    by (auto simp: ghostBoard_def shipAt_def fun_eq_iff)
  have "verifyCommitment H c (ghostBoard board) salt = Inr True"
    using assms(2) by (simp add: computeCommitment_Inr_iff verifyCommitment_True_iff)
  moreover have "\<not> list_ex (\<lambda>shot. isShip (ghostBoard board) (sh_cell shot) \<noteq> sh_isHit shot) (shotsAt s p)"
    using assms(6) by (auto simp: list_ex_iff ghostBoard_no_ship)
  ultimately show "isOk (applyRevealBoard H s (ghostBoard board) salt p)"
    using assms(1,3,4,5) by (simp add: applyRevealBoard_def ghostBoard_legal Let_def)
qed

text \<open>A game in which B plays such a fleet: A fires at its cell 0, which carries a ship, B answers with a
  miss and sinks A's fleet.\<close>

definition ghostMoves :: "(BattleshipMove \<times> Party) list" where
  "ghostMoves =
     [(BsCommit (exampleBoardCommit 1 7), PartyA), (BsCommit (exampleBoardCommit 2 8), PartyB),
      (BsShoot 0, PartyA), (BsAnswer False (Some 0), PartyB), (BsAnswer True None, PartyA)] @
     concat (map (\<lambda>c. [(BsShoot c, PartyB), (BsAnswer True None, PartyA)]) (tl exampleShips)) @
     [(BsRevealBoard (exampleBoard 1) (exampleSalt 7), PartyA)]"

lemma ghost_run:
  "case applyMoves (BattleshipProtocol sampleHash 100) (bs_initialState 100 exampleBsContext) ghostMoves of
     Inl e \<Rightarrow> False
   | Inr s \<Rightarrow> bs_phase s = RevealBoards \<and> bs_revealedA s \<and> \<not> bs_revealedB s \<and>
       bs_commitB s = Some (exampleBoardCommit 2 8) \<and> bs_shotsAtB s = [\<lparr>sh_cell = 0, sh_isHit = False\<rparr>]"
  by code_simp

lemma exampleBoard_facts:
  "isLegalBoard (exampleBoard 1)" "ghostBoard (exampleBoard 1) = exampleBoard 2"
  "computeCommitment sampleHash (exampleBoard 2) (exampleSalt 8) = Inr (exampleBoardCommit 2 8)"
  "shipAt (exampleBoard 2) 0"
  by code_simp+

theorem battleship_ghost_fleet_passes_witness:
  "\<exists>s s'. applyMoves (BattleshipProtocol sampleHash 100) (bs_initialState 100 exampleBsContext) ghostMoves = Inr s \<and>
     shipAt (exampleBoard 2) 0 \<and> bs_shotsAtB s = [\<lparr>sh_cell = 0, sh_isHit = False\<rparr>] \<and>
     bs_applyMove sampleHash s (BsRevealBoard (exampleBoard 2) (exampleSalt 8)) PartyB = Inr s'"
proof -
  obtain s where s: "applyMoves (BattleshipProtocol sampleHash 100) (bs_initialState 100 exampleBsContext) ghostMoves = Inr s"
    "bs_phase s = RevealBoards" "\<not> bs_revealedB s" "bs_commitB s = Some (exampleBoardCommit 2 8)"
    "bs_shotsAtB s = [\<lparr>sh_cell = 0, sh_isHit = False\<rparr>]"
    using ghost_run by (auto split: sum.splits)
  have "\<not> hasRevealed s PartyB" "commitFor s PartyB = Some (exampleBoardCommit 2 8)"
    "\<forall>x\<in>set (shotsAt s PartyB). \<not> sh_isHit x"
    using s by (simp_all add: hasRevealed_def commitFor_def shotsAt_def)
  from battleship_ghost_fleet_passes [OF exampleBoard_facts(1) _ s(2) this]
  have "isOk (applyRevealBoard sampleHash s (exampleBoard 2) (exampleSalt 8) PartyB)"
    using exampleBoard_facts by simp
  moreover have "bs_winner s = 0"
  proof -
    have "list_all (\<lambda>(m, by1). seat by1) ghostMoves" by (simp add: ghostMoves_def list_all_iff)
    from bs_run_inv [OF exampleBs_seats(1) this, of sampleHash 100 s] s(1,2) show ?thesis
      by (simp add: bs_inv_def)
  qed
  ultimately show ?thesis
    using s exampleBoard_facts(4) by (auto simp: bs_applyMove_def isOk_iff)
qed

end
