(* ===== verification/Battleship_Encoding.thy ===== *)
theory Battleship_Encoding
  imports Battleship
begin

section \<open>The signed encoding of a battleship state determines it\<close>

text \<open>
  The state encoding of protocol/battleship.ts (defined in \<open>Battleship\<close>) split into its fixed part, its
  length-prefixed part and its numbers, and the proof that it is injective on well-formed states.
\<close>

lemma byte_int_inj: "0 \<le> x \<Longrightarrow> x < 256 \<Longrightarrow> 0 \<le> y \<Longrightarrow> y < 256 \<Longrightarrow> (word_of_int x :: byte) = word_of_int y \<longleftrightarrow> x = y"
  by (metis mod_pos_pos_trivial uint_of_int_byte)

lemma byte_nat_inj: "m < 256 \<Longrightarrow> n < 256 \<Longrightarrow> (of_nat m :: byte) = of_nat n \<longleftrightarrow> m = n"
  using byte_int_inj [of "int m" "int n"] by simp

lemma shotBytes_inj:
  "(\<forall>x\<in>set xs. 0 \<le> sh_cell x \<and> sh_cell x < 100) \<Longrightarrow> (\<forall>y\<in>set ys. 0 \<le> sh_cell y \<and> sh_cell y < 100) \<Longrightarrow>
   shotBytes xs = shotBytes ys \<Longrightarrow> xs = ys"
proof (induction xs arbitrary: ys)
  case Nil
  then show ?case by (cases ys) (auto simp: shotBytes_def)
next
  case (Cons x xs)
  then obtain y ys' where ys: "ys = y # ys'" by (cases ys) (auto simp: shotBytes_def)
  with Cons.prems have e: "sh_cell x = sh_cell y" "sh_isHit x = sh_isHit y" "shotBytes xs = shotBytes ys'"
    by (auto simp: shotBytes_def byte_int_inj split: if_split_asm)
  have "x = y" using e(1,2) by (intro BattleshipShotResult.equality) simp_all
  moreover have "xs = ys'" using Cons.IH [OF _ _ e(3)] Cons.prems(1,2) ys by simp
  ultimately show ?case using ys by simp
qed

definition bs_fixed :: "BattleshipState \<Rightarrow> bytes" where
  "bs_fixed s =
     [bs_PHASE_CODE (bs_phase s), if bs_turn s = PartyA then 0 else 1,
      case bs_pendingShot s of None \<Rightarrow> 0 | Some _ \<Rightarrow> 1,
      case bs_pendingShot s of None \<Rightarrow> 0 | Some p \<Rightarrow> if ps_by p = PartyA then 0 else 1,
      case bs_pendingShot s of None \<Rightarrow> 0 | Some p \<Rightarrow> word_of_int (ps_cell p),
      word_of_int (int (bs_hitsOnA s)), word_of_int (int (bs_hitsOnB s)),
      if bs_revealedA s then 1 else 0, if bs_revealedB s then 1 else 0, word_of_int (int (bs_winner s))]"

definition bs_parts :: "BattleshipState \<Rightarrow> bytes list" where
  "bs_parts s = [case bs_commitA s of None \<Rightarrow> [] | Some c \<Rightarrow> c, case bs_commitB s of None \<Rightarrow> [] | Some c \<Rightarrow> c,
     shotBytes (bs_shotsAtA s), shotBytes (bs_shotsAtB s)]"

lemma bs_encodeState_Inr_iff:
  "bs_encodeState s = Inr e \<longleftrightarrow>
     list_all (\<lambda>x. u64 (int (length x))) (bs_parts s) \<and> list_all u64 [bs_balanceA s, bs_balanceB s, bs_stake s] \<and>
     e = bs_DOMAIN @ bs_fixed s @ concat (map lpBytes (bs_parts s)) @
       concat (map (beBytes 8) [bs_balanceA s, bs_balanceB s, bs_stake s])"
  unfolding bs_encodeState_def Let_def bs_fixed_def [symmetric] bs_parts_def [symmetric]
  by (auto simp: bindE_eq_Inr lengthPrefixedConcat_Inr_iff mapE_u64_Inr_iff simp del: mapE.simps list.pred_inject)

lemma PHASE_CODE_inj: "bs_PHASE_CODE p = bs_PHASE_CODE q \<Longrightarrow> p = q"
  by (cases p; cases q) auto

lemma bs_fixed_inj:
  assumes "bs_logs s" "bs_logs t" "bs_fixed s = bs_fixed t"
  shows "bs_phase s = bs_phase t \<and> bs_turn s = bs_turn t \<and> bs_pendingShot s = bs_pendingShot t \<and>
    bs_hitsOnA s = bs_hitsOnA t \<and> bs_hitsOnB s = bs_hitsOnB t \<and> bs_revealedA s = bs_revealedA t \<and>
    bs_revealedB s = bs_revealedB t \<and> bs_winner s = bs_winner t"
proof -
  have seats: "seat p \<Longrightarrow> seat q \<Longrightarrow> (if p = PartyA then 0 else 1 :: byte) = (if q = PartyA then 0 else 1) \<Longrightarrow> p = q" for p q
    by (cases p; cases q) auto
  have "bs_pendingShot s = bs_pendingShot t"
    using assms by (cases "bs_pendingShot s"; cases "bs_pendingShot t")
      (auto simp: bs_fixed_def bs_logs_def byte_int_inj dest: seats)
  moreover have "bs_turn s = bs_turn t"
    using assms by (intro seats) (auto simp: bs_fixed_def bs_logs_def)
  moreover have "(0 :: byte) \<noteq> 1" by simp
  ultimately show ?thesis
    using assms by (auto simp: bs_fixed_def bs_logs_def byte_nat_inj dest: PHASE_CODE_inj split: if_split_asm)
qed

lemma bs_parts_inj:
  assumes "bs_logs s" "bs_logs t" "bs_parts s = bs_parts t"
  shows "bs_commitA s = bs_commitA t \<and> bs_commitB s = bs_commitB t \<and> bs_shotsAtA s = bs_shotsAtA t \<and>
    bs_shotsAtB s = bs_shotsAtB t"
proof -
  have "shotBytes (bs_shotsAtA s) = shotBytes (bs_shotsAtA t)" "shotBytes (bs_shotsAtB s) = shotBytes (bs_shotsAtB t)"
    using assms(3) by (simp_all add: bs_parts_def)
  then have "bs_shotsAtA s = bs_shotsAtA t" "bs_shotsAtB s = bs_shotsAtB t"
    using assms(1,2) shotBytes_inj by (simp_all add: bs_logs_def shotLog_def)
  then show ?thesis
    using assms by (auto simp: bs_parts_def bs_logs_def split: option.splits)
qed

text \<open>C30. The bytes both parties sign determine the game: two well-formed battleship states with the same
  encoding are the same state, so a state hash without collisions pins the phase, the turn, the pending
  shot, both commitments, every answer and the balances.\<close>

theorem battleship_encoding_binds:
  assumes "bs_inv H s" "bs_inv H' t" "bs_encodeState s = Inr e" "bs_encodeState t = Inr e"
  shows "s = t"
proof -
  have logs: "bs_logs s" "bs_logs t" using assms(1,2) by (simp_all add: bs_inv_def)
  have "bs_fixed s = bs_fixed t" and rest: "concat (map lpBytes (bs_parts s)) @
      concat (map (beBytes 8) [bs_balanceA s, bs_balanceB s, bs_stake s]) = concat (map lpBytes (bs_parts t)) @
      concat (map (beBytes 8) [bs_balanceA t, bs_balanceB t, bs_stake t])"
    using assms(3,4) by (auto simp: bs_encodeState_Inr_iff append_eq_append_conv bs_fixed_def)
  then have fixed: "bs_fixed s = bs_fixed t" by simp
  have ok: "list_all (\<lambda>x. u64 (int (length x))) (bs_parts s)" "list_all (\<lambda>x. u64 (int (length x))) (bs_parts t)"
    "list_all u64 [bs_balanceA s, bs_balanceB s, bs_stake s]" "list_all u64 [bs_balanceA t, bs_balanceB t, bs_stake t]"
    using assms(3,4) by (simp_all only: bs_encodeState_Inr_iff)
  have len: "length (bs_parts s) = length (bs_parts t)" by (simp add: bs_parts_def)
  from concat_lpBytes_append_inj [OF len ok(1,2) rest]
  have parts: "bs_parts s = bs_parts t" and nums: "concat (map (beBytes 8) [bs_balanceA s, bs_balanceB s, bs_stake s]) =
      concat (map (beBytes 8) [bs_balanceA t, bs_balanceB t, bs_stake t])"
    by simp_all
  have "bs_balanceA s = bs_balanceA t" "bs_balanceB s = bs_balanceB t" "bs_stake s = bs_stake t"
    using concat_beBytes_inj [OF _ ok(3,4), of "[]" "[]"] nums by simp_all
  moreover have "bs_total s = bs_total t"
    using calculation assms(1,2) by (simp add: bs_inv_def bs_money_def)
  ultimately show ?thesis
    using bs_fixed_inj [OF logs fixed] bs_parts_inj [OF logs parts] by simp
qed

theorem battleship_encoding_binds_witness:
  "\<exists>e. bs_encodeState (bs_initialState (int 100) exampleBsContext) = Inr e \<and>
     (\<forall>t. bs_inv sampleHash t \<and> bs_encodeState t = Inr e \<longrightarrow> t = bs_initialState (int 100) exampleBsContext)"
proof -
  let ?s = "bs_initialState (int 100) exampleBsContext"
  have inv: "bs_inv sampleHash ?s" by (rule bs_initialState_inv [OF exampleBs_seats(1)])
  obtain e where "bs_encodeState ?s = Inr e"
    using bs_encodeState_Inr_iff [of ?s]
    by (simp add: bs_parts_def shotBytes_def bs_initialState_def exampleBsContext_def u64_def Let_def)
  with battleship_encoding_binds [OF _ inv] show ?thesis by blast
qed

end
