(* ===== verification/Poker_Hands.thy ===== *)
theory Poker_Hands
  imports Commitment "HOL-Library.Multiset" "HOL-Library.Sublist"
begin

section \<open>Cards and the duplicate-aware hand evaluator (protocol/quantumPoker.ts)\<close>

text \<open>
  The derivation of a card from two slot reveals, and the evaluator that scores five cards and picks the
  best five of up to seven. Cards are the numbers 0..51; exact duplicates are legal. The lemmas relate the
  evaluator to a reference reading of poker: the category of a hand by the multiplicities of its ranks, the
  tie-break list, and the maximum over all five-card selections.
\<close>

subsection \<open>Cards\<close>

record SlotReveal =
  rv_value :: bytes
  rv_salt :: bytes

type_synonym SlotSecret = SlotReveal

text \<open>The Horner fold over the seed, \<open>acc = (acc * 256 + byte) % 52\<close>.\<close>

definition deriveQuantumCard :: "(bytes \<Rightarrow> bytes) \<Rightarrow> SlotReveal \<Rightarrow> SlotReveal \<Rightarrow> int \<Rightarrow> int result" where
  "deriveQuantumCard H revealA revealB counter =
     (if counter < 0 then Inl (Error ''invalid card derivation counter'')
      else
        bindE (combineReveals H (rv_value revealA) (rv_salt revealA) (rv_value revealB) (rv_salt revealB)) (\<lambda>slotSeed.
        bindE (if counter = 0 then Inr slotSeed
               else bindE (u64ToBeBytes counter) (\<lambda>c. Inr (H (concatBytes [slotSeed, c])))) (\<lambda>seedBytes.
        Inr (foldl (\<lambda>acc b. (acc * 256 + uint b) mod 52) 0 seedBytes))))"

definition validateCards :: "int list \<Rightarrow> unit result" where
  "validateCards cards = throw_if (list_ex (\<lambda>c. c < 0 \<or> c > 51) cards) (Error ''card out of range 0..51'')"

subsection \<open>Scoring five cards\<close>

text \<open>\<open>xs.sort((a, b) => b - a)\<close>.\<close>

definition descending :: "int list \<Rightarrow> int list" where
  "descending xs = rev (sort xs)"

text \<open>\<open>counts.set(r, (counts.get(r) ?? 0) + 1)\<close> on a map that keeps its insertion order.\<close>

fun bumpCount :: "int \<Rightarrow> (int \<times> int) list \<Rightarrow> (int \<times> int) list" where
  "bumpCount r [] = [(r, 1)]"
| "bumpCount r ((k, n) # m) = (if k = r then (k, n + 1) # m else (k, n) # bumpCount r m)"

definition rankCounts :: "int list \<Rightarrow> (int \<times> int) list" where
  "rankCounts ranks = foldl (\<lambda>m r. bumpCount r m) [] ranks"

text \<open>The comparator of the groups, which are pairs of a count and a rank, and the sort by it.\<close>

definition groupBefore :: "int \<times> int \<Rightarrow> int \<times> int \<Rightarrow> bool" where
  "groupBefore x y \<longleftrightarrow> (if fst y - fst x \<noteq> 0 then fst y - fst x else snd y - snd x) < 0"

fun insertGroup :: "int \<times> int \<Rightarrow> (int \<times> int) list \<Rightarrow> (int \<times> int) list" where
  "insertGroup g [] = [g]"
| "insertGroup g (h # hs) = (if groupBefore h g then h # insertGroup g hs else g # h # hs)"

definition sortGroups :: "(int \<times> int) list \<Rightarrow> (int \<times> int) list" where
  "sortGroups gs = foldr insertGroup gs []"

definition handGroups :: "int list \<Rightarrow> (int \<times> int) list" where
  "handGroups ranks = sortGroups (map (\<lambda>(rank, count). (count, rank)) (rankCounts ranks))"

text \<open>\<open>straight\<close> and \<open>straightHigh\<close>, from the distinct ranks in descending order.\<close>

definition straightOf :: "int list \<Rightarrow> bool \<times> int" where
  "straightOf dist =
     (if length dist = 5 then
        (if dist ! 0 - dist ! 4 = 4 then (True, dist ! 0)
         else if dist ! 0 = 12 \<and> dist ! 1 = 3 \<and> dist ! 2 = 2 \<and> dist ! 3 = 1 \<and> dist ! 4 = 0 then (True, 3)
         else (False, -1))
      else (False, -1))"

definition categoryOf :: "(int \<times> int) list \<Rightarrow> bool \<Rightarrow> bool \<Rightarrow> int" where
  "categoryOf groups straight flush =
     (let first = fst (groups ! 0);
          second = (\<lambda>n. 1 < length groups \<and> fst (groups ! 1) = n)
      in if first = 5 then 9
         else if straight \<and> flush then 8
         else if first = 4 then 7
         else if first = 3 \<and> second 2 then 6
         else if flush then 5
         else if straight then 4
         else if first = 3 then 3
         else if first = 2 \<and> second 2 then 2
         else if first = 2 then 1
         else 0)"

definition evaluate5 :: "int list \<Rightarrow> int result" where
  "evaluate5 cards =
     (if length cards \<noteq> 5 then Inl (Error ''evaluate5 needs exactly 5 cards'')
      else
        bindE (validateCards cards) (\<lambda>_.
        let ranks = descending (map (\<lambda>c. c mod 13) cards);
            suits = map (\<lambda>c. c div 13) cards;
            flush = list_all (\<lambda>su. su = suits ! 0) suits;
            groups = handGroups ranks;
            dist = descending (remdups ranks);
            (straight, straightHigh) = straightOf dist;
            category = categoryOf groups straight flush;
            tb = (if straight then [straightHigh] else map snd groups)
        in Inr (foldl (\<lambda>score i. score * 13 + (if i < length tb then tb ! i else 0)) category [0..<5])))"

subsection \<open>The best five of up to seven cards\<close>

record BestHand =
  bh_score :: int
  bh_cards :: "int list"

definition combinations5 :: "int list \<Rightarrow> int list list" where
  "combinations5 cards =
     (let n = length cards
      in concat (map (\<lambda>a. concat (map (\<lambda>b. concat (map (\<lambda>c. concat (map (\<lambda>d. map (\<lambda>e.
           [cards ! a, cards ! b, cards ! c, cards ! d, cards ! e])
           [d + 1..<n]) [c + 1..<n - 1])) [b + 1..<n - 2])) [a + 1..<n - 3])) [0..<n - 4]))"

text \<open>The loop over the selections; \<open>best\<close> is null before the first. A pool of at least five cards has a
  selection, so the loop never ends with null.\<close>

fun bestLoop :: "BestHand option \<Rightarrow> int list list \<Rightarrow> BestHand option result" where
  "bestLoop best [] = Inr best"
| "bestLoop best (hand # hs) =
     bindE (evaluate5 hand) (\<lambda>score.
     bestLoop (if (case best of None \<Rightarrow> True | Some b \<Rightarrow> score > bh_score b)
               then Some \<lparr>bh_score = score, bh_cards = hand\<rparr> else best) hs)"

definition bestPokerHand :: "int list \<Rightarrow> BestHand result" where
  "bestPokerHand cards =
     (if length cards < 5 then Inl (Error ''bestPokerHand needs at least 5 cards'')
      else if length cards > 7 then Inl (Error ''bestPokerHand supports at most 7 cards'')
      else
        bindE (validateCards cards) (\<lambda>_.
        bindE (bestLoop None (combinations5 cards)) (\<lambda>best.
        case best of None \<Rightarrow> Inl (TypeError ''Cannot read properties of null'') | Some b \<Rightarrow> Inr b)))"

subsection \<open>A card is the joint seed modulo 52\<close>

lemma horner_mod: "foldl (\<lambda>acc b. (acc * 256 + uint b) mod 52) (a mod 52) bs = foldl (\<lambda>acc b. acc * 256 + uint b) a bs mod (52 :: int)"
proof (induction bs arbitrary: a)
  case (Cons b bs)
  have "(a mod 52 * 256 + uint b) mod 52 = (a * 256 + uint b) mod 52"
    by (metis mod_add_left_eq mod_mult_left_eq)
  with Cons [of "a * 256 + uint b"] show ?case by (simp only: foldl_Cons)
qed simp

lemma card_of_seed: "foldl (\<lambda>acc b. (acc * 256 + uint b) mod 52) 0 bs = beVal bs mod 52"
  using horner_mod [of 0 bs] by (simp add: beVal_def)

lemma deriveQuantumCard_range: "deriveQuantumCard H a b n = Inr c \<Longrightarrow> 0 \<le> c \<and> c < 52"
  by (auto simp: deriveQuantumCard_def card_of_seed result_simps split: if_splits)

subsection \<open>The groups of a hand\<close>

lemma map_of_bumpCount:
  "map_of (bumpCount r m) x = (if x = r then Some (case map_of m r of None \<Rightarrow> 1 | Some n \<Rightarrow> n + 1) else map_of m x)"
  by (induction r m rule: bumpCount.induct) auto

lemma keys_bumpCount: "set (map fst (bumpCount r m)) = insert r (set (map fst m))"
  by (induction r m rule: bumpCount.induct) auto

lemma distinct_bumpCount: "distinct (map fst m) \<Longrightarrow> distinct (map fst (bumpCount r m))"
  by (induction r m rule: bumpCount.induct) (use keys_bumpCount in auto)

lemma foldl_bumpCount:
  "distinct (map fst m) \<Longrightarrow>
   distinct (map fst (foldl (\<lambda>m r. bumpCount r m) m rs)) \<and>
   map_of (foldl (\<lambda>m r. bumpCount r m) m rs) x =
     (if x \<in> set rs then Some (int (count_list rs x) + (case map_of m x of None \<Rightarrow> 0 | Some n \<Rightarrow> n)) else map_of m x)"
proof (induction rs arbitrary: m)
  case (Cons r rs)
  note IH = Cons.IH [OF distinct_bumpCount [OF Cons.prems], of r]
  have "count_list rs x = 0" if "x \<notin> set rs" using that by (simp add: count_list_0_iff)
  with IH show ?case by (auto simp: map_of_bumpCount split: option.splits)
qed simp

lemma rankCounts_set: "set (rankCounts rs) = {(r, int (count_list rs r)) | r. r \<in> set rs}"
proof -
  have d: "distinct (map fst (rankCounts rs))" and m: "\<And>x. map_of (rankCounts rs) x = (if x \<in> set rs then Some (int (count_list rs x)) else None)"
    using foldl_bumpCount [of "[]" rs] by (simp_all add: rankCounts_def)
  have "(r, n) \<in> set (rankCounts rs) \<longleftrightarrow> r \<in> set rs \<and> n = int (count_list rs r)" for r n
    using map_of_eq_Some_iff [OF d, of r n] m [of r] by (auto split: if_splits)
  then show ?thesis by auto
qed

lemma rankCounts_distinct: "distinct (map fst (rankCounts rs))"
  using foldl_bumpCount [of "[]" rs] by (simp add: rankCounts_def)

lemma groupBefore_iff: "groupBefore x y \<longleftrightarrow> fst x > fst y \<or> fst x = fst y \<and> snd x > snd y"
  by (auto simp: groupBefore_def)

lemma mset_insertGroup [simp]: "mset (insertGroup g gs) = add_mset g (mset gs)"
  by (induction g gs rule: insertGroup.induct) auto

lemma mset_sortGroups [simp]: "mset (sortGroups gs) = mset gs"
  by (induction gs) (simp_all add: sortGroups_def)

lemma set_insertGroup [simp]: "set (insertGroup g gs) = insert g (set gs)"
  by (induction g gs rule: insertGroup.induct) auto

lemma set_sortGroups [simp]: "set (sortGroups gs) = set gs"
  by (induction gs) (simp_all add: sortGroups_def)

lemma sorted_insertGroup: "sorted_wrt groupBefore gs \<Longrightarrow> g \<notin> set gs \<Longrightarrow> sorted_wrt groupBefore (insertGroup g gs)"
  by (induction g gs rule: insertGroup.induct) (auto simp: groupBefore_iff prod_eq_iff)

lemma sorted_sortGroups: "distinct gs \<Longrightarrow> sorted_wrt groupBefore (sortGroups gs)"
proof (induction gs)
  case (Cons g gs)
  then have "sorted_wrt groupBefore (insertGroup g (sortGroups gs))"
    by (intro sorted_insertGroup) auto
  then show ?case by (simp add: sortGroups_def)
qed (simp add: sortGroups_def)

lemma handGroups_set: "set (handGroups rs) = {(int (count_list rs r), r) | r. r \<in> set rs}"
  by (force simp: handGroups_def rankCounts_set)

lemma handGroups_sorted: "sorted_wrt groupBefore (handGroups rs)"
proof -
  have "distinct (map (\<lambda>(rank, count). (count, rank)) (rankCounts rs))"
    using rankCounts_distinct [of rs] by (auto simp: distinct_map inj_on_def)
  then show ?thesis by (simp add: handGroups_def sorted_sortGroups)
qed

lemma handGroups_distinct: "distinct (map snd (handGroups rs))"
proof -
  have "mset (map snd (handGroups rs)) = mset (map snd (map (\<lambda>(rank, count). (count, rank)) (rankCounts rs)))"
    unfolding handGroups_def mset_map mset_sortGroups ..
  moreover have "map snd (map (\<lambda>(rank, count). (count, rank)) (rankCounts rs)) = map fst (rankCounts rs)" by auto
  ultimately show ?thesis using rankCounts_distinct [of rs] by (metis mset_eq_imp_distinct_iff)
qed

lemma handGroups_sum: "sum_list (map fst (handGroups rs)) = int (length rs)"
proof -
  have "sum_list (map fst (handGroups rs)) = (\<Sum>g\<in>set (handGroups rs). fst g)"
    using handGroups_distinct [of rs] by (simp add: sum_list_distinct_conv_sum_set distinct_map)
  also have "\<dots> = (\<Sum>r\<in>set rs. int (count_list rs r))"
  proof -
    have "set (handGroups rs) = (\<lambda>r. (int (count_list rs r), r)) ` set rs" by (auto simp: handGroups_set)
    moreover have "inj_on (\<lambda>r. (int (count_list rs r), r)) (set rs)" by (simp add: inj_on_def)
    ultimately show ?thesis by (simp add: sum.reindex)
  qed
  also have "\<dots> = int (length rs)"
    by (simp add: sum_count_set flip: of_nat_sum)
  finally show ?thesis .
qed

text \<open>The counts of the groups, largest first, are a partition of five.\<close>

definition partitions5 :: "int list list" where
  "partitions5 = [[5], [4, 1], [3, 2], [3, 1, 1], [2, 2, 1], [2, 1, 1, 1], [1, 1, 1, 1, 1]]"

lemma partition5:
  assumes "sorted_wrt (\<ge>) cs" "\<And>c. c \<in> set cs \<Longrightarrow> 1 \<le> c" "sum_list cs = (5 :: int)"
  shows "cs \<in> set partitions5"
proof -
  have nn: "0 \<le> sum_list xs" if "\<And>c. c \<in> set xs \<Longrightarrow> (1 :: int) \<le> c" for xs
    using that by (induction xs) fastforce+
  consider "cs = []" | a where "cs = [a]" | a b where "cs = [a, b]" | a b c where "cs = [a, b, c]"
    | a b c d where "cs = [a, b, c, d]" | a b c d e where "cs = [a, b, c, d, e]"
    | a b c d e f r where "cs = a # b # c # d # e # f # r"
    by (metis list.exhaust)
  then show ?thesis
  proof cases
    case (3 a b)
    then have "a \<ge> b" "1 \<le> b" "a + b = 5" using assms by auto
    then show ?thesis unfolding 3 by (simp add: partitions5_def) presburger
  next
    case (4 a b c)
    then have "a \<ge> b" "b \<ge> c" "1 \<le> c" "a + b + c = 5" using assms by auto
    then show ?thesis unfolding 4 by (simp add: partitions5_def) presburger
  next
    case (5 a b c d)
    then have "a \<ge> b" "b \<ge> c" "c \<ge> d" "1 \<le> d" "a + b + c + d = 5" using assms by auto
    then show ?thesis unfolding 5 by (simp add: partitions5_def)
  next
    case (6 a b c d e)
    then have "1 \<le> a" "1 \<le> b" "1 \<le> c" "1 \<le> d" "1 \<le> e" "a + b + c + d + e = 5" using assms by auto
    then show ?thesis unfolding 6 by (simp add: partitions5_def)
  next
    case (7 a b c d e f r)
    then have "1 \<le> a" "1 \<le> b" "1 \<le> c" "1 \<le> d" "1 \<le> e" "1 \<le> f" "0 \<le> sum_list r" using assms(2) nn [of r] by auto
    with assms(3) 7 show ?thesis by simp
  qed (use assms(3) in \<open>simp_all add: partitions5_def\<close>)
qed

subsection \<open>The reference reading of a hand\<close>

text \<open>How often a rank occurs; how many ranks occur exactly \<open>n\<close> times; one suit; the top of a straight (the
  ace also counts below the two); the category; the ranks by multiplicity and then by height, or the top of
  the straight alone.\<close>

definition multiplicity :: "int list \<Rightarrow> int \<Rightarrow> int" where
  "multiplicity h r = int (length (filter (\<lambda>c. c mod 13 = r) h))"

definition kinds :: "int list \<Rightarrow> int \<Rightarrow> nat" where
  "kinds h n = length (filter (\<lambda>r. multiplicity h r = n) [0..12])"

definition isFlush :: "int list \<Rightarrow> bool" where
  "isFlush h = list_ex (\<lambda>su. list_all (\<lambda>c. c div 13 = su) h) [0, 1, 2, 3]"

definition straightTop :: "int list \<Rightarrow> int option" where
  "straightTop h =
     (let rs = set (map (\<lambda>c. c mod 13) h)
      in if rs = set [0, 1, 2, 3, 12] then Some 3 else find (\<lambda>t. rs = set [t - 4..t]) [4..12])"

definition handCategory :: "int list \<Rightarrow> int" where
  "handCategory h =
     (if kinds h 5 = 1 then 9
      else if straightTop h \<noteq> None \<and> isFlush h then 8
      else if kinds h 4 = 1 then 7
      else if kinds h 3 = 1 \<and> kinds h 2 = 1 then 6
      else if isFlush h then 5
      else if straightTop h \<noteq> None then 4
      else if kinds h 3 = 1 then 3
      else if kinds h 2 = 2 then 2
      else if kinds h 2 = 1 then 1
      else 0)"

definition tieBreak :: "int list \<Rightarrow> int list" where
  "tieBreak h =
     (case straightTop h of
        Some t \<Rightarrow> [t]
      | None \<Rightarrow> rev (sort_key (\<lambda>r. multiplicity h r * 13 + r) (remdups (map (\<lambda>c. c mod 13) h))))"

definition validHand :: "int list \<Rightarrow> bool" where
  "validHand h \<longleftrightarrow> length h = 5 \<and> list_all (\<lambda>c. 0 \<le> c \<and> c \<le> 51) h"

definition pad5 :: "int list \<Rightarrow> int list" where
  "pad5 xs = take 5 (xs @ replicate 5 0)"

definition handScore :: "int list \<Rightarrow> int" where
  "handScore h = foldl (\<lambda>s d. s * 13 + d) (handCategory h) (pad5 (tieBreak h))"

subsection \<open>The evaluator computes the reference score\<close>

abbreviation ranksOf :: "int list \<Rightarrow> int list" where
  "ranksOf h \<equiv> descending (map (\<lambda>c. c mod 13) h)"

lemma ranksOf_facts [simp]:
  "set (ranksOf h) = (\<lambda>c. c mod 13) ` set h" "length (ranksOf h) = length h"
  "int (count_list (ranksOf h) r) = multiplicity h r"
proof -
  have "count_list (ranksOf h) r = count (mset (map (\<lambda>c. c mod 13) h)) r"
    by (simp add: descending_def flip: count_mset)
  also have "\<dots> = length (filter (\<lambda>c. c mod 13 = r) h)"
    by (induction h) auto
  finally show "int (count_list (ranksOf h) r) = multiplicity h r" by (simp add: multiplicity_def)
qed (simp_all add: descending_def)

lemma multiplicity_pos: "1 \<le> multiplicity h r \<longleftrightarrow> r \<in> (\<lambda>c. c mod 13) ` set h"
  by (induction h) (auto simp: multiplicity_def)

lemma groups_of_hand:
  "set (handGroups (ranksOf h)) = {(multiplicity h r, r) | r. r \<in> (\<lambda>c. c mod 13) ` set h}"
  by (simp add: handGroups_set)

lemma groups_partition:
  assumes "length h = 5"
  shows "map fst (handGroups (ranksOf h)) \<in> set partitions5"
proof (rule partition5)
  show "sorted_wrt (\<ge>) (map fst (handGroups (ranksOf h)))"
    using handGroups_sorted [of "ranksOf h"] unfolding sorted_wrt_map
    by (rule sorted_wrt_mono_rel [rotated]) (auto simp: groupBefore_iff)
  show "1 \<le> c" if "c \<in> set (map fst (handGroups (ranksOf h)))" for c
    using that multiplicity_pos by (auto simp: groups_of_hand)
  show "sum_list (map fst (handGroups (ranksOf h))) = 5"
    using assms by (simp add: handGroups_sum)
qed

lemma kinds_eq:
  assumes "1 \<le> n"
  shows "kinds h n = length (filter (\<lambda>m. m = n) (map fst (handGroups (ranksOf h))))"
proof -
  let ?G = "handGroups (ranksOf h)"
  have "kinds h n = card {r \<in> {0..12}. multiplicity h r = n}"
    by (simp add: kinds_def distinct_length_filter Int_def conj_commute)
  also have "\<dots> = card {g \<in> set ?G. fst g = n}"
  proof (rule bij_betw_same_card)
    show "bij_betw (\<lambda>r. (multiplicity h r, r)) {r \<in> {0..12}. multiplicity h r = n} {g \<in> set ?G. fst g = n}"
      unfolding bij_betw_def
    proof
      show "(\<lambda>r. (multiplicity h r, r)) ` {r \<in> {0..12}. multiplicity h r = n} = {g \<in> set ?G. fst g = n}"
        using assms multiplicity_pos [of h] by (auto simp: groups_of_hand image_iff)
    qed (simp add: inj_on_def)
  qed
  also have "\<dots> = length (filter (\<lambda>g. fst g = n) ?G)"
    using handGroups_distinct [of "ranksOf h"] by (simp add: distinct_length_filter distinct_map Int_def conj_commute)
  finally show ?thesis by (simp add: filter_map comp_def)
qed

lemma kinds_table:
  assumes "length h = 5"
  shows "categoryOf (handGroups (ranksOf h)) st fl =
    (if kinds h 5 = 1 then 9 else if st \<and> fl then 8 else if kinds h 4 = 1 then 7
     else if kinds h 3 = 1 \<and> kinds h 2 = 1 then 6 else if fl then 5 else if st then 4
     else if kinds h 3 = 1 then 3 else if kinds h 2 = 2 then 2 else if kinds h 2 = 1 then 1 else 0)"
proof -
  define cs where "cs = map fst (handGroups (ranksOf h))"
  have cs: "cs \<in> set partitions5" using groups_partition [OF assms] by (simp add: cs_def)
  have n: "length (handGroups (ranksOf h)) = length cs" "fst (handGroups (ranksOf h) ! i) = cs ! i" if "i < length cs" for i
    using that by (simp_all add: cs_def)
  have k: "kinds h n = length (filter (\<lambda>m. m = n) cs)" if "1 \<le> n" for n using that by (simp add: kinds_eq cs_def)
  have l: "length (handGroups (ranksOf h)) = length cs" by (simp add: cs_def)
  have "cs \<noteq> []" using cs by (auto simp: partitions5_def)
  then have c: "categoryOf (handGroups (ranksOf h)) st fl =
     (let first = cs ! 0; second = (\<lambda>n. 1 < length cs \<and> cs ! 1 = n)
     in if first = 5 then 9 else if st \<and> fl then 8 else if first = 4 then 7 else if first = 3 \<and> second 2 then 6
        else if fl then 5 else if st then 4 else if first = 3 then 3 else if first = 2 \<and> second 2 then 2
        else if first = 2 then 1 else 0)"
    unfolding categoryOf_def Let_def l using n(2) [of 0] n(2) [of 1] by (simp cong: conj_cong)
  from cs consider "cs = [5]" | "cs = [4, 1]" | "cs = [3, 2]" | "cs = [3, 1, 1]" | "cs = [2, 2, 1]"
    | "cs = [2, 1, 1, 1]" | "cs = [1, 1, 1, 1, 1]"
    by (auto simp only: partitions5_def set_simps insert_iff empty_iff)
  then show ?thesis unfolding c by cases (simp_all add: k)
qed

lemma one_value: "f c \<in> S \<Longrightarrow> c \<in> X \<Longrightarrow> (\<forall>x\<in>X. f x = f c) \<longleftrightarrow> (\<exists>v\<in>S. \<forall>x\<in>X. f x = v)"
  by metis

lemma flush_eq:
  assumes "validHand h"
  shows "list_all (\<lambda>su. su = map (\<lambda>c. c div 13) h ! 0) (map (\<lambda>c. c div 13) h) \<longleftrightarrow> isFlush h"
proof -
  obtain c h' where h: "h = c # h'" using assms by (cases h) (auto simp: validHand_def)
  have "0 \<le> c" "c \<le> 51" using assms by (simp_all add: h validHand_def)
  then have "c div 13 \<in> set [0, 1, 2, 3]" unfolding set_simps insert_iff empty_iff by presburger
  then have "(\<forall>x\<in>set h. x div 13 = c div 13) \<longleftrightarrow> isFlush h"
    unfolding isFlush_def list_ex_iff list_all_iff by (rule one_value) (simp add: h)
  then show ?thesis by (auto simp: h list_all_iff)
qed

text \<open>The distinct ranks in descending order.\<close>

lemma descending_strict: "distinct xs \<Longrightarrow> sorted_wrt (>) (descending xs)"
  by (simp add: descending_def sorted_wrt_rev strict_sorted_iff)

lemma strict_desc_unique:
  assumes "sorted_wrt (>) xs" "sorted_wrt (>) ys" "set xs = set (ys :: int list)"
  shows "xs = ys"
proof -
  have "sorted_wrt (<) (rev xs)" "sorted_wrt (<) (rev ys)" using assms(1,2) by (simp_all add: sorted_wrt_rev)
  then have "rev xs = rev ys" using assms(3) by (intro strict_sorted_equal) auto
  then show ?thesis by simp
qed

lemma strict_desc_set:
  assumes "sorted_wrt (>) [a, b, c, d, (e :: int)]"
  shows "{a, b, c, d, e} = {0, 1, 2, 3, 12} \<longleftrightarrow> a = 12 \<and> b = 3 \<and> c = 2 \<and> d = 1 \<and> e = 0"
    "{a, b, c, d, e} = {t - 4..t} \<longleftrightarrow> a = t \<and> a - e = 4"
proof -
  show "{a, b, c, d, e} = {0, 1, 2, 3, 12} \<longleftrightarrow> a = 12 \<and> b = 3 \<and> c = 2 \<and> d = 1 \<and> e = 0"
    using strict_desc_unique [OF assms, of "[12, 3, 2, 1, 0]"] by auto
  have t: "{t - 4..t} = {t, t - 1, t - 2, t - 3, t - 4}" by auto
  show "{a, b, c, d, e} = {t - 4..t} \<longleftrightarrow> a = t \<and> a - e = 4"
  proof
    assume "{a, b, c, d, e} = {t - 4..t}"
    then show "a = t \<and> a - e = 4"
      using strict_desc_unique [OF assms, of "[t, t - 1, t - 2, t - 3, t - 4]"] by (simp add: t)
  next
    assume "a = t \<and> a - e = 4"
    with assms have "b = t - 1" "c = t - 2" "d = t - 3" "e = t - 4" "a = t" by auto
    then show "{a, b, c, d, e} = {t - 4..t}" by (simp add: t)
  qed
qed

lemma length5_cases: "length xs = 5 \<Longrightarrow> \<exists>a b c d e. xs = [a, b, c, d, e]"
  by (auto simp: numeral_eq_Suc length_Suc_conv)

lemma find_top:
  assumes "\<And>t. t \<in> set ts \<Longrightarrow> Q t \<longleftrightarrow> t = a \<and> p"
  shows "find Q ts = (if p \<and> a \<in> set ts then Some a else None)"
  using assms by (induction ts) auto

lemma straight_eq:
  assumes "validHand h"
  shows "straightOf (descending (remdups (ranksOf h))) =
    (case straightTop h of None \<Rightarrow> (False, -1) | Some t \<Rightarrow> (True, t))"
proof -
  let ?d = "descending (remdups (ranksOf h))" and ?R = "(\<lambda>c. c mod 13) ` set h"
  have s: "sorted_wrt (>) ?d" "set ?d = ?R" by (simp_all add: descending_strict) (simp add: descending_def)
  have c: "card ?R = length ?d"
    using s by (metis descending_def distinct_card distinct_remdups distinct_rev distinct_sort)
  show ?thesis
  proof (cases "length ?d = 5")
    case False
    have "card {0, 1, 2, 3, 12 :: int} = 5" "\<And>t. card {t - 4..t :: int} = 5" by simp_all
    then have "?R \<noteq> {0, 1, 2, 3, 12}" "\<And>t. ?R \<noteq> {t - 4..t}" using False c by metis+
    then show ?thesis using False by (simp add: straightOf_def straightTop_def find_None_iff)
  next
    case True
    then obtain a b c d e where d: "?d = [a, b, c, d, e]" using length5_cases by blast
    have R: "?R = {a, b, c, d, e}" using s(2) d by simp
    have "a \<in> ?R" "e \<in> ?R" by (simp_all add: R)
    then have "0 \<le> e" "a \<le> 12" by auto
    note D = strict_desc_set [OF s(1) [unfolded d]]
    have f: "find (\<lambda>t. ?R = set [t - 4..t]) [4..12] = (if a - e = 4 \<and> a \<in> set [4..12] then Some a else None)"
      by (rule find_top) (auto simp: R D(2))
    show ?thesis
      using \<open>0 \<le> e\<close> \<open>a \<le> 12\<close> unfolding d straightTop_def Let_def set_map f
      by (auto simp: straightOf_def R D(1))
  qed
qed

text \<open>Both orders of the tie-break ranks are strictly descending in multiplicity times 13 plus rank.\<close>

abbreviation tieKey :: "int list \<Rightarrow> int \<Rightarrow> int" where
  "tieKey h r \<equiv> multiplicity h r * 13 + r"

lemma tieKey_order:
  assumes "0 \<le> r" "r < 13" "0 \<le> q" "q < 13"
  shows "tieKey h r > tieKey h q \<longleftrightarrow> multiplicity h r > multiplicity h q \<or> multiplicity h r = multiplicity h q \<and> r > q"
proof (cases "multiplicity h r = multiplicity h q")
  case False
  then have "multiplicity h r + 1 \<le> multiplicity h q \<or> multiplicity h q + 1 \<le> multiplicity h r" by arith
  with assms show ?thesis by auto
qed simp

lemma tieKey_inj: "inj_on (tieKey h) {0..<13}"
proof (rule inj_onI)
  fix r q assume "r \<in> {0..<13}" "q \<in> {0..<13}" "tieKey h r = tieKey h q"
  then show "r = q" using tieKey_order [of r q h] tieKey_order [of q r h] by auto
qed

lemma tieBreak_groups:
  "map snd (handGroups (ranksOf h)) = rev (sort_key (tieKey h) (remdups (map (\<lambda>c. c mod 13) h)))"
  (is "?l = ?r")
proof -
  let ?R = "(\<lambda>c. c mod 13) ` set h"
  have R: "?R \<subseteq> {0..<13}" by auto
  have sl: "set ?l = ?R" and sr: "set ?r = ?R" by (force simp: groups_of_hand)+
  have "sorted_wrt (\<lambda>g g'. tieKey h (snd g) > tieKey h (snd g')) (handGroups (ranksOf h))"
    using handGroups_sorted [of "ranksOf h"]
  proof (rule sorted_wrt_mono_rel [rotated])
    fix x y assume "x \<in> set (handGroups (ranksOf h))" "y \<in> set (handGroups (ranksOf h))" "groupBefore x y"
    then show "tieKey h (snd x) > tieKey h (snd y)"
      using tieKey_order [of "snd x" "snd y" h] by (auto simp: groups_of_hand groupBefore_iff)
  qed
  then have l: "sorted_wrt (>) (map (tieKey h) ?l)" by (simp add: sorted_wrt_map)
  have "distinct (map (tieKey h) (sort_key (tieKey h) (remdups (map (\<lambda>c. c mod 13) h))))"
    using inj_on_subset [OF tieKey_inj R] by (simp add: distinct_map)
  then have "sorted_wrt (<) (map (tieKey h) (sort_key (tieKey h) (remdups (map (\<lambda>c. c mod 13) h))))"
    by (simp add: strict_sorted_iff)
  then have r: "sorted_wrt (>) (map (tieKey h) ?r)" by (simp add: sorted_wrt_rev flip: rev_map)
  have "map (tieKey h) ?l = map (tieKey h) ?r"
    by (rule strict_desc_unique [OF l r]) (simp only: set_map [of "tieKey h"] sl sr)
  moreover have "inj_on (tieKey h) (set ?l \<union> set ?r)" unfolding sl sr using inj_on_subset [OF tieKey_inj R] by simp
  ultimately show ?thesis by (rule map_inj_on)
qed

lemma pad5_eq: "pad5 tb = map (\<lambda>i. if i < length tb then tb ! i else 0) [0..<5]"
  by (rule nth_equalityI) (auto simp: pad5_def nth_append)

text \<open>The evaluator computes the reference score of every valid hand.\<close>

lemma evaluate5_eq: "validHand h \<Longrightarrow> evaluate5 h = Inr (handScore h)"
proof -
  assume v: "validHand h"
  then have l: "length h = 5" and c: "validateCards h = Inr ()"
    by (auto simp: validHand_def validateCards_def throw_if_def list_all_iff list_ex_iff)
  have t: "foldl (\<lambda>score i. score * 13 + (if i < length tb then tb ! i else 0)) cat [0..<5] = foldl (\<lambda>s d. s * 13 + d) cat (pad5 tb)"
    for cat and tb :: "int list" by (simp add: pad5_eq foldl_map)
  show ?thesis
    unfolding evaluate5_def Let_def straight_eq [OF v] flush_eq [OF v] kinds_table [OF l] tieBreak_groups
    by (cases "straightTop h") (simp_all only: l c t bindE_Inr prod.case option.case if_True if_False simp_thms
        handScore_def handCategory_def tieBreak_def option.distinct)
qed

lemma evaluate5_Inr_iff: "evaluate5 h = Inr s \<longleftrightarrow> validHand h \<and> s = handScore h"
proof (cases "validHand h")
  case False
  then have "length h \<noteq> 5 \<or> isl (validateCards h)"
    by (auto simp: validHand_def validateCards_def throw_if_def list_all_iff list_ex_iff)
  then have "isl (evaluate5 h)" unfolding evaluate5_def by (auto simp: isl_def)
  with False show ?thesis by (auto simp: isl_def)
qed (auto simp: evaluate5_eq)

subsection \<open>Scores compare like categories and tie-breaks\<close>

lemma digit_order:
  assumes "0 \<le> x" "x < 13" "0 \<le> y" "y < (13 :: int)"
  shows "a * 13 + x < b * 13 + y \<longleftrightarrow> a < b \<or> a = b \<and> x < y" "a * 13 + x = b * 13 + y \<longleftrightarrow> a = b \<and> x = y"
  using assms by presburger+

lemma horner_order:
  assumes "length xs = length ys" "list_all (\<lambda>d. 0 \<le> d \<and> d < 13) xs" "list_all (\<lambda>d. 0 \<le> d \<and> d < 13) ys"
  shows "foldl (\<lambda>s d. s * 13 + d) a xs < foldl (\<lambda>s d. s * 13 + d) b ys \<longleftrightarrow>
    (a # xs, b # ys) \<in> lexord {(x, y). x < (y :: int)}"
  using assms
proof (induction xs ys arbitrary: a b rule: list_induct2)
  case (Cons x xs y ys)
  then have d: "0 \<le> x" "x < 13" "0 \<le> y" "y < 13" by auto
  show ?case using Cons.prems Cons.IH [of "a * 13 + x" "b * 13 + y"] by (auto simp: digit_order [OF d])
qed auto

lemma straightTop_range:
  assumes "straightTop h = Some t"
  shows "0 \<le> t \<and> t < 13"
  using assms by (auto simp: straightTop_def Let_def find_Some_iff split: if_splits)

lemma pad5_digits: "list_all (\<lambda>d. 0 \<le> d \<and> d < 13) (pad5 (tieBreak h))"
proof -
  have "list_all (\<lambda>d. 0 \<le> d \<and> d < 13) (tieBreak h)"
    using straightTop_range [of h] by (auto simp: tieBreak_def list_all_iff split: option.splits)
  then show ?thesis by (auto simp: pad5_def list_all_iff dest: in_set_takeD)
qed

definition outranks :: "int list \<Rightarrow> int list \<Rightarrow> bool" where
  "outranks h h' \<longleftrightarrow> (handCategory h' # pad5 (tieBreak h'), handCategory h # pad5 (tieBreak h)) \<in> lexord {(x, y). x < y}"

lemma handScore_order: "handScore h' < handScore h \<longleftrightarrow> outranks h h'"
  unfolding handScore_def outranks_def by (rule horner_order [OF _ pad5_digits pad5_digits]) (simp add: pad5_def)

subsection \<open>The best selection\<close>

lemma bestLoop_eq:
  assumes "list_all validHand hs"
  shows "\<exists>b. bestLoop best hs = Inr b \<and>
    (case best of None \<Rightarrow> hs = [] \<or> b \<noteq> None | Some _ \<Rightarrow> b \<noteq> None) \<and>
    (\<forall>x. b = Some x \<longrightarrow>
       (best = Some x \<or> bh_cards x \<in> set hs \<and> bh_score x = handScore (bh_cards x)) \<and>
       (\<forall>h\<in>set hs. handScore h \<le> bh_score x) \<and> (\<forall>y. best = Some y \<longrightarrow> bh_score y \<le> bh_score x))"
  using assms
proof (induction best hs rule: bestLoop.induct)
  case (1 best)
  then show ?case by (cases best) auto
next
  case (2 best h hs)
  define nb where "nb = (if (case best of None \<Rightarrow> True | Some b \<Rightarrow> handScore h > bh_score b)
      then Some \<lparr>bh_score = handScore h, bh_cards = h\<rparr> else best)"
  have "\<exists>b. bestLoop nb hs = Inr b \<and> (case nb of None \<Rightarrow> hs = [] \<or> b \<noteq> None | Some _ \<Rightarrow> b \<noteq> None) \<and>
    (\<forall>x. b = Some x \<longrightarrow>
       (nb = Some x \<or> bh_cards x \<in> set hs \<and> bh_score x = handScore (bh_cards x)) \<and>
       (\<forall>h\<in>set hs. handScore h \<le> bh_score x) \<and> (\<forall>y. nb = Some y \<longrightarrow> bh_score y \<le> bh_score x))"
    using 2 by (simp add: nb_def evaluate5_eq)
  then obtain b where b: "bestLoop nb hs = Inr b" "nb \<noteq> None \<longrightarrow> b \<noteq> None"
    "\<And>x. b = Some x \<Longrightarrow> nb = Some x \<or> bh_cards x \<in> set hs \<and> bh_score x = handScore (bh_cards x)"
    "\<And>x h. b = Some x \<Longrightarrow> h \<in> set hs \<Longrightarrow> handScore h \<le> bh_score x"
    "\<And>x y. b = Some x \<Longrightarrow> nb = Some y \<Longrightarrow> bh_score y \<le> bh_score x"
    by (auto split: option.splits)
  obtain n where n: "nb = Some n" "handScore h \<le> bh_score n" "best = Some n \<or> n = \<lparr>bh_score = handScore h, bh_cards = h\<rparr>"
    "\<And>y. best = Some y \<Longrightarrow> bh_score y \<le> bh_score n"
  proof (cases "case best of None \<Rightarrow> True | Some b \<Rightarrow> handScore h > bh_score b")
    case True
    then show ?thesis using that [of "\<lparr>bh_score = handScore h, bh_cards = h\<rparr>"] by (auto simp: nb_def split: option.splits)
  next
    case False
    then obtain a where "best = Some a" "handScore h \<le> bh_score a" by (auto split: option.splits)
    then show ?thesis using that [of a] False by (auto simp: nb_def)
  qed
  have e: "bestLoop best (h # hs) = Inr b" using 2 b(1) by (simp add: nb_def evaluate5_eq)
  obtain x where x: "b = Some x" using b(2) n(1) by auto
  have "best = Some x \<or> bh_cards x \<in> set (h # hs) \<and> bh_score x = handScore (bh_cards x)"
    using b(3) [OF x] n by auto
  moreover have "handScore k \<le> bh_score x" if "k \<in> set (h # hs)" for k
    using that b(4,5) [OF x] n(1,2) by fastforce
  moreover have "bh_score y \<le> bh_score x" if "best = Some y" for y using b(5) [OF x n(1)] n(4) [OF that] by simp
  ultimately show ?case unfolding e by (auto simp: x split: option.splits)
qed

lemma combinations5_subseqs:
  assumes "5 \<le> length cards" "length cards \<le> 7"
  shows "combinations5 cards = filter (\<lambda>h. length h = 5) (subseqs cards)"
proof -
  consider a b c d e where "cards = [a, b, c, d, e]" | a b c d e f where "cards = [a, b, c, d, e, f]"
    | a b c d e f g where "cards = [a, b, c, d, e, f, g]"
    using assms by (auto simp: le_Suc_eq numeral_eq_Suc length_Suc_conv)
  then show ?thesis by cases (simp_all add: combinations5_def upt_rec)
qed

lemma combinations5_set:
  assumes "5 \<le> length cards" "length cards \<le> 7"
  shows "set (combinations5 cards) = {h. subseq h cards \<and> length h = 5}"
  unfolding combinations5_subseqs [OF assms] by auto

text \<open>The best selection exists and is not outranked.\<close>

lemma best_hand_exists:
  assumes "5 \<le> length cards" "length cards \<le> 7" "list_all (\<lambda>c. 0 \<le> c \<and> c \<le> 51) cards"
  shows "\<exists>b. bestPokerHand cards = Inr b \<and> subseq (bh_cards b) cards \<and> length (bh_cards b) = 5 \<and>
    evaluate5 (bh_cards b) = Inr (bh_score b) \<and>
    (\<forall>h. subseq h cards \<and> length h = 5 \<longrightarrow> \<not> outranks h (bh_cards b))"
proof -
  note C = combinations5_set [OF assms(1,2)]
  have v: "validHand h" if "subseq h cards" "length h = 5" for h
    using that assms(3) by (auto simp: validHand_def list_all_iff dest: list_emb_set)
  have "subseq (take 5 cards) cards \<and> length (take 5 cards) = 5"
    using assms(1) by (metis append_take_drop_id length_take list_emb_append2 min.absorb2 subseq_order.order_refl subseq_append_le_same_iff sublist_take sublist_imp_subseq)
  then have ne: "combinations5 cards \<noteq> []" using C by force
  have "list_all validHand (combinations5 cards)" using v C by (simp add: list_all_iff)
  then obtain b where b: "bestLoop None (combinations5 cards) = Inr (Some b)"
    "bh_cards b \<in> set (combinations5 cards)" "bh_score b = handScore (bh_cards b)"
    "\<And>h. h \<in> set (combinations5 cards) \<Longrightarrow> handScore h \<le> bh_score b"
    using bestLoop_eq [of "combinations5 cards" None] ne by auto
  have "bestPokerHand cards = Inr b"
    using assms b(1) by (auto simp: bestPokerHand_def validateCards_def throw_if_def list_all_iff list_ex_iff)
  moreover have "\<not> outranks h (bh_cards b)" if "subseq h cards \<and> length h = 5" for h
    using b(3,4) that C by (auto simp: not_less simp flip: handScore_order)
  ultimately show ?thesis using b(2,3) C v by (auto simp: evaluate5_eq)
qed

text \<open>C35. The winner of a showdown is decided on the best hand: from five to seven valid cards,
  duplicates allowed, bestPokerHand returns five of them with their score, and no other selection of five
  outranks it, where a hand outranks another by its category (five of a kind above the straight flush, down
  to the high card) and then by its ranks in the order of multiplicity and height.\<close>

theorem poker_best_hand:
  assumes "5 \<le> length cards" "length cards \<le> 7" "list_all (\<lambda>c. 0 \<le> c \<and> c \<le> 51) cards"
  shows "\<exists>b. bestPokerHand cards = Inr b \<and> subseq (bh_cards b) cards \<and> length (bh_cards b) = 5 \<and>
    evaluate5 (bh_cards b) = Inr (bh_score b) \<and>
    (\<forall>h. subseq h cards \<and> length h = 5 \<longrightarrow> \<not> outranks h (bh_cards b))"
  by (rule best_hand_exists [OF assms])

theorem poker_best_hand_witness:
  "\<exists>b. bestPokerHand [0, 0, 13, 26, 39, 12, 51] = Inr b \<and> \<not> outranks [0, 0, 13, 26, 39] (bh_cards b)"
proof -
  have "subseq [0, 0, 13, 26, 39] [0, 0, 13, 26, 39, 12, 51 :: int]" by simp
  with poker_best_hand [of "[0, 0, 13, 26, 39, 12, 51]"] show ?thesis by auto
qed

text \<open>A flush with a repeated card is ordered by the repeated rank first: the ace-high flush with two
  twos loses to the eight-high flush.\<close>

lemma repeated_card_flush: "outranks [1, 2, 3, 4, 6] [0, 0, 12, 11, 10]"
proof -
  have "handScore [0, 0, 12, 11, 10] < handScore [1, 2, 3, 4, 6]" by code_simp
  then show ?thesis by (simp add: handScore_order)
qed

end
