(* ===== verification/Quantum_Poker.thy ===== *)
theory Quantum_Poker
  imports Protocol Poker_Hands
begin

section \<open>Quantum Poker: dealerless heads-up poker (protocol/quantumPoker.ts)\<close>

text \<open>
  A hand uses nine commit-reveal slots (two holes per seat, five board cards). The state is the record of
  the source, with null as \<open>None\<close>; a move is a datatype with the source's kinds. The in-place updates of the
  cloned state are functions from state to state, and a throw discards the clone. The hash function is the
  parameter \<open>H\<close>; \<open>handCap\<close> and \<open>ante\<close> are the constructor's arguments.
\<close>

subsection \<open>Constants, state, moves\<close>

definition ANTE :: int where "ANTE = 50"
definition DEFAULT_HAND_CAP :: int where "DEFAULT_HAND_CAP = 1000"
definition SLOT_COUNT :: nat where "SLOT_COUNT = 9"

definition A_HOLE_SLOTS :: "int list" where "A_HOLE_SLOTS = [0, 1]"
definition B_HOLE_SLOTS :: "int list" where "B_HOLE_SLOTS = [2, 3]"
definition FLOP_SLOTS :: "int list" where "FLOP_SLOTS = [4, 5, 6]"
definition TURN_SLOTS :: "int list" where "TURN_SLOTS = [7]"
definition RIVER_SLOTS :: "int list" where "RIVER_SLOTS = [8]"

lemmas slot_defs = A_HOLE_SLOTS_def B_HOLE_SLOTS_def FLOP_SLOTS_def TURN_SLOTS_def RIVER_SLOTS_def

datatype PokerPhase =
    CommitPhase | OpenPrivateHoles | PreflopBet | RevealFlop | FlopBet | RevealTurn | TurnBet
  | RevealRiver | RiverBet | Showdown | HandOver | Done

datatype PokerWinner = WonBy Party | Tie
datatype PokerReason = ByShowdown | ByFold

record PokerHandResult =
  hr_winner :: PokerWinner
  hr_reason :: PokerReason
  hr_scoreA :: "int option"
  hr_scoreB :: "int option"
  hr_bestA :: "int list option"
  hr_bestB :: "int list option"
  hr_burnedA :: "int list"
  hr_burnedB :: "int list"

record PokerState =
  pk_phase :: PokerPhase
  pk_handNo :: int
  pk_handCap :: int
  pk_commitA :: "bytes list option"
  pk_commitB :: "bytes list option"
  pk_revealsA :: "SlotReveal option list"
  pk_revealsB :: "SlotReveal option list"
  pk_localSecretsA :: "SlotSecret option list option"
  pk_localSecretsB :: "SlotSecret option list option"
  pk_holeA :: "int list option"
  pk_holeB :: "int list option"
  pk_board :: "int list"
  pk_boardSlots :: "int list"
  pk_boardCounters :: "int list"
  pk_totalBetA :: int
  pk_totalBetB :: int
  pk_streetBetA :: int
  pk_streetBetB :: int
  pk_toAct :: Party
  pk_actedA :: bool
  pk_actedB :: bool
  pk_foldedBy :: "Party option"
  pk_shownA :: bool
  pk_shownB :: bool
  pk_shownHoleA :: "int list option"
  pk_shownHoleB :: "int list option"
  pk_winner :: "PokerWinner option"
  pk_lastResult :: "PokerHandResult option"
  pk_balanceA :: int
  pk_balanceB :: int
  pk_total :: int

datatype PokerMove =
    PkCommitSlots "bytes list" "SlotSecret list option"
  | PkRevealSlots "int list" "SlotReveal list"
  | PkBet int
  | PkCheck
  | PkCall
  | PkFold
  | PkForfeit
  | PkNextHand

fun pk_PHASE_CODE :: "PokerPhase \<Rightarrow> byte" where
  "pk_PHASE_CODE CommitPhase = 0"
| "pk_PHASE_CODE OpenPrivateHoles = 1"
| "pk_PHASE_CODE PreflopBet = 2"
| "pk_PHASE_CODE RevealFlop = 3"
| "pk_PHASE_CODE FlopBet = 4"
| "pk_PHASE_CODE RevealTurn = 5"
| "pk_PHASE_CODE TurnBet = 6"
| "pk_PHASE_CODE RevealRiver = 7"
| "pk_PHASE_CODE RiverBet = 8"
| "pk_PHASE_CODE Showdown = 9"
| "pk_PHASE_CODE HandOver = 10"
| "pk_PHASE_CODE Done = 11"

definition emptyRevealSlots :: "SlotReveal option list" where
  "emptyRevealSlots = replicate SLOT_COUNT None"

definition sameNumberSet :: "int list \<Rightarrow> int list \<Rightarrow> bool" where
  "sameNumberSet a b = (if length a \<noteq> length b then False else sort a = sort b)"

definition validateCommitments :: "bytes list \<Rightarrow> bytes list result" where
  "validateCommitments commitments =
     (if length commitments \<noteq> SLOT_COUNT then Inl (Error ''expected 9 slot commitments'')
      else mapE (\<lambda>c. if length c \<noteq> 32 then Inl (Error ''commitment must be 32 bytes'') else Inr c) commitments)"

definition revealArrayFor :: "PokerState \<Rightarrow> Party \<Rightarrow> SlotReveal option list" where
  "revealArrayFor s party = (if party = PartyA then pk_revealsA s else pk_revealsB s)"

definition localSecretArrayFor :: "PokerState \<Rightarrow> Party \<Rightarrow> SlotSecret option list option" where
  "localSecretArrayFor s party = (if party = PartyA then pk_localSecretsA s else pk_localSecretsB s)"

definition commitArrayFor :: "PokerState \<Rightarrow> Party \<Rightarrow> bytes list option" where
  "commitArrayFor s party = (if party = PartyA then pk_commitA s else pk_commitB s)"

definition hasRevealed :: "PokerState \<Rightarrow> Party \<Rightarrow> int list \<Rightarrow> bool" where
  "hasRevealed s party slots = list_all (\<lambda>slot. revealArrayFor s party ! nat slot \<noteq> None) slots"

definition revealIfMissing :: "PokerState \<Rightarrow> Party \<Rightarrow> int list \<Rightarrow> int list" where
  "revealIfMissing s by1 slots = filter (\<lambda>slot. revealArrayFor s by1 ! nat slot = None) slots"

definition expectedQuantumPokerRevealSlots :: "PokerState \<Rightarrow> Party \<Rightarrow> int list result" where
  "expectedQuantumPokerRevealSlots s by1 =
     (case pk_phase s of
        OpenPrivateHoles \<Rightarrow> Inr (revealIfMissing s by1 (if by1 = PartyA then B_HOLE_SLOTS else A_HOLE_SLOTS))
      | RevealFlop \<Rightarrow> Inr (revealIfMissing s by1 FLOP_SLOTS)
      | RevealTurn \<Rightarrow> Inr (revealIfMissing s by1 TURN_SLOTS)
      | RevealRiver \<Rightarrow> Inr (revealIfMissing s by1 RIVER_SLOTS)
      | Showdown \<Rightarrow> Inr (revealIfMissing s by1 (if by1 = PartyA then A_HOLE_SLOTS else B_HOLE_SLOTS))
      | _ \<Rightarrow> Inl (Error ''no slot reveal legal in phase''))"

definition commitSlotSecrets :: "(bytes \<Rightarrow> bytes) \<Rightarrow> SlotSecret list \<Rightarrow> bytes list result" where
  "commitSlotSecrets H secrets =
     (if length secrets \<noteq> SLOT_COUNT then Inl (Error ''expected 9 slot secrets'')
      else mapE (\<lambda>secret. computeCommitment H (rv_value secret) (rv_salt secret)) secrets)"

definition validateLocalSecretsForCommit ::
  "(bytes \<Rightarrow> bytes) \<Rightarrow> bytes list \<Rightarrow> SlotSecret list \<Rightarrow> SlotSecret list result" where
  "validateLocalSecretsForCommit H commitments secrets =
     (if length secrets \<noteq> SLOT_COUNT then Inl (Error ''expected 9 local slot secrets'')
      else
        bindE (commitSlotSecrets H secrets) (\<lambda>expected.
        if list_ex (\<lambda>i. \<not> bytesEqual (expected ! i) (commitments ! i)) [0..<SLOT_COUNT]
        then Inl (Error ''local secrets do not match commitments'')
        else Inr secrets))"

subsection \<open>Cards of a state\<close>

definition revealForDerivation :: "PokerState \<Rightarrow> Party \<Rightarrow> int \<Rightarrow> bool \<Rightarrow> SlotReveal option" where
  "revealForDerivation s party slot allowLocal =
     (case revealArrayFor s party ! nat slot of
        Some publicReveal \<Rightarrow> Some publicReveal
      | None \<Rightarrow>
          (if allowLocal
           then (case localSecretArrayFor s party of None \<Rightarrow> None | Some secrets \<Rightarrow> secrets ! nat slot)
           else None))"

definition deriveSlotCard :: "(bytes \<Rightarrow> bytes) \<Rightarrow> PokerState \<Rightarrow> int \<Rightarrow> int \<Rightarrow> bool \<Rightarrow> int option result" where
  "deriveSlotCard H s slot counter allowLocal =
     (case (revealForDerivation s PartyA slot allowLocal, revealForDerivation s PartyB slot allowLocal) of
        (Some revealA, Some revealB) \<Rightarrow> bindE (deriveQuantumCard H revealA revealB counter) (\<lambda>c. Inr (Some c))
      | _ \<Rightarrow> Inr None)"

text \<open>The loop over \<open>counter < 10_000\<close>, from \<open>counter\<close> on.\<close>

function deriveUniqueBoardCard ::
  "(bytes \<Rightarrow> bytes) \<Rightarrow> PokerState \<Rightarrow> int \<Rightarrow> int list \<Rightarrow> int \<Rightarrow> (int \<times> int) result" where
  "deriveUniqueBoardCard H s slot used counter =
     (if counter < 10000 then
        (case deriveSlotCard H s slot counter False of
           Inl e \<Rightarrow> Inl e
         | Inr None \<Rightarrow> Inl (Error ''board slot is not revealed'')
         | Inr (Some c) \<Rightarrow>
             if c \<notin> set used then Inr (c, counter)
             else deriveUniqueBoardCard H s slot used (counter + 1))
      else Inl (Error ''could not derive unique board card''))"
  by pat_completeness auto
termination
  by (relation "measure (\<lambda>(H, s, slot, used, counter). nat (10000 - counter))") auto

declare deriveUniqueBoardCard.simps [simp del]

fun deriveCards :: "(bytes \<Rightarrow> bytes) \<Rightarrow> PokerState \<Rightarrow> bool \<Rightarrow> int list \<Rightarrow> int list option result" where
  "deriveCards H s allowLocal [] = Inr (Some [])"
| "deriveCards H s allowLocal (slot # slots) =
     bindE (deriveSlotCard H s slot 0 allowLocal) (\<lambda>card1.
     case card1 of
       None \<Rightarrow> Inr None
     | Some c \<Rightarrow> bindE (deriveCards H s allowLocal slots) (\<lambda>cs. Inr (map_option ((#) c) cs)))"

definition tryDeriveHoleCards :: "(bytes \<Rightarrow> bytes) \<Rightarrow> PokerState \<Rightarrow> Party \<Rightarrow> int list option result" where
  "tryDeriveHoleCards H s owner = deriveCards H s True (if owner = PartyA then A_HOLE_SLOTS else B_HOLE_SLOTS)"

definition derivePublicHoleCards :: "(bytes \<Rightarrow> bytes) \<Rightarrow> PokerState \<Rightarrow> Party \<Rightarrow> int list result" where
  "derivePublicHoleCards H s owner =
     bindE (deriveCards H s False (if owner = PartyA then A_HOLE_SLOTS else B_HOLE_SLOTS)) (\<lambda>cs.
     case cs of None \<Rightarrow> Inl (Error ''hole slot not public'') | Some cards \<Rightarrow> Inr cards)"

subsection \<open>Betting\<close>

definition pk_streetBet :: "PokerState \<Rightarrow> Party \<Rightarrow> int" where
  "pk_streetBet s by1 = (if by1 = PartyA then pk_streetBetA s else pk_streetBetB s)"

definition setStreetBet :: "PokerState \<Rightarrow> Party \<Rightarrow> int \<Rightarrow> PokerState" where
  "setStreetBet s by1 v = (if by1 = PartyA then s\<lparr>pk_streetBetA := v\<rparr> else s\<lparr>pk_streetBetB := v\<rparr>)"

definition pk_totalBet :: "PokerState \<Rightarrow> Party \<Rightarrow> int" where
  "pk_totalBet s by1 = (if by1 = PartyA then pk_totalBetA s else pk_totalBetB s)"

definition addTotalBet :: "PokerState \<Rightarrow> Party \<Rightarrow> int \<Rightarrow> PokerState" where
  "addTotalBet s by1 amount =
     (if by1 = PartyA then s\<lparr>pk_totalBetA := pk_totalBetA s + amount\<rparr> else s\<lparr>pk_totalBetB := pk_totalBetB s + amount\<rparr>)"

definition pk_balance :: "PokerState \<Rightarrow> Party \<Rightarrow> int" where
  "pk_balance s by1 = (if by1 = PartyA then pk_balanceA s else pk_balanceB s)"

definition effectiveStack :: "PokerState \<Rightarrow> int" where
  "effectiveStack s =
     (if pk_balance s PartyA < pk_balance s PartyB then pk_balance s PartyA else pk_balance s PartyB)"

definition availableFor :: "PokerState \<Rightarrow> Party \<Rightarrow> int" where
  "availableFor s by1 = (let remaining = effectiveStack s - pk_totalBet s by1 in if remaining > 0 then remaining else 0)"

definition bettingClosed :: "PokerState \<Rightarrow> bool" where
  "bettingClosed s \<longleftrightarrow> availableFor s PartyA = 0 \<or> availableFor s PartyB = 0"

definition markActed :: "PokerState \<Rightarrow> Party \<Rightarrow> bool \<Rightarrow> PokerState" where
  "markActed s by1 acted = (if by1 = PartyA then s\<lparr>pk_actedA := acted\<rparr> else s\<lparr>pk_actedB := acted\<rparr>)"

definition beginStreet :: "PokerState \<Rightarrow> PokerPhase \<Rightarrow> PokerState" where
  "beginStreet s phase =
     s\<lparr>pk_phase := phase, pk_streetBetA := 0, pk_streetBetB := 0, pk_toAct := PartyA, pk_actedA := False, pk_actedB := False\<rparr>"

definition postAntesAndBeginStreet :: "int \<Rightarrow> PokerState \<Rightarrow> PokerState result" where
  "postAntesAndBeginStreet ante s =
     (if pk_balanceA s < ante \<or> pk_balanceB s < ante then Inl (Error ''insufficient balance for ante'')
      else Inr (beginStreet (s\<lparr>pk_totalBetA := ante, pk_totalBetB := ante\<rparr>) PreflopBet))"

definition advanceStreet :: "PokerState \<Rightarrow> PokerState result" where
  "advanceStreet s =
     bindE (case pk_phase s of
              PreflopBet \<Rightarrow> Inr RevealFlop
            | FlopBet \<Rightarrow> Inr RevealTurn
            | TurnBet \<Rightarrow> Inr RevealRiver
            | RiverBet \<Rightarrow> Inr Showdown
            | _ \<Rightarrow> Inl (Error ''cannot advance'')) (\<lambda>phase.
     Inr (s\<lparr>pk_phase := phase, pk_toAct := PartyA, pk_actedA := False, pk_actedB := False,
            pk_streetBetA := 0, pk_streetBetB := 0\<rparr>))"

definition afterBetAction :: "PokerState \<Rightarrow> PokerState result" where
  "afterBetAction s =
     (if pk_streetBetA s = pk_streetBetB s \<and> pk_actedA s \<and> pk_actedB s then advanceStreet s
      else Inr (s\<lparr>pk_toAct := otherParty (pk_toAct s)\<rparr>))"

definition applyCheck :: "PokerState \<Rightarrow> Party \<Rightarrow> PokerState result" where
  "applyCheck s by1 =
     (let currentMax = (if pk_streetBetA s > pk_streetBetB s then pk_streetBetA s else pk_streetBetB s)
      in if pk_streetBet s by1 \<noteq> currentMax then Inl (Error ''cannot check facing a bet'')
         else afterBetAction (markActed s by1 True))"

definition applyBetOrRaise :: "PokerState \<Rightarrow> Party \<Rightarrow> int \<Rightarrow> PokerState result" where
  "applyBetOrRaise s by1 amount =
     (if amount \<le> 0 then Inl (Error ''bet amount must be positive'')
      else
        let current = pk_streetBet s by1;
            other = pk_streetBet s (otherParty by1);
            nxt = current + amount
        in if nxt \<le> other then Inl (Error ''bet must raise above opponent'')
           else if amount > availableFor s by1 then Inl (Error ''bet exceeds the effective stack'')
           else Inr ((markActed (markActed (addTotalBet (setStreetBet s by1 nxt) by1 amount) by1 True)
                       (otherParty by1) False)\<lparr>pk_toAct := otherParty by1\<rparr>))"

definition applyCall :: "PokerState \<Rightarrow> Party \<Rightarrow> PokerState result" where
  "applyCall s by1 =
     (let diff = pk_streetBet s (otherParty by1) - pk_streetBet s by1
      in if diff \<le> 0 then Inl (Error ''nothing to call'')
         else if diff > availableFor s by1 then Inl (Error ''call exceeds the effective stack'')
         else afterBetAction
                (markActed (addTotalBet (setStreetBet s by1 (pk_streetBet s by1 + diff)) by1 diff) by1 True))"

definition contestedAmount :: "PokerState \<Rightarrow> int" where
  "contestedAmount s = (if pk_totalBetA s < pk_totalBetB s then pk_totalBetA s else pk_totalBetB s)"

definition pk_settle :: "PokerState \<Rightarrow> Party \<Rightarrow> int \<Rightarrow> PokerState" where
  "pk_settle s winner amount =
     (let loserBal = (if winner = PartyA then pk_balanceB s else pk_balanceA s);
          moved = (if amount < loserBal then amount else loserBal)
      in if winner = PartyA
         then s\<lparr>pk_balanceA := pk_balanceA s + moved, pk_balanceB := pk_balanceB s - moved\<rparr>
         else s\<lparr>pk_balanceB := pk_balanceB s + moved, pk_balanceA := pk_balanceA s - moved\<rparr>)"

text \<open>\<open>foldedBy\<close> is set by both callers; \<open>otherParty(null)\<close> would be A.\<close>

definition resolveFold :: "PokerState \<Rightarrow> PokerState" where
  "resolveFold s =
     (let winner = (case pk_foldedBy s of None \<Rightarrow> PartyA | Some p \<Rightarrow> otherParty p)
      in (pk_settle s winner (contestedAmount s))
           \<lparr>pk_winner := Some (WonBy winner),
            pk_lastResult := Some \<lparr>hr_winner = WonBy winner, hr_reason = ByFold, hr_scoreA = None, hr_scoreB = None,
              hr_bestA = None, hr_bestB = None, hr_burnedA = [], hr_burnedB = []\<rparr>,
            pk_phase := HandOver\<rparr>)"

definition applyBet :: "PokerState \<Rightarrow> PokerMove \<Rightarrow> Party \<Rightarrow> PokerState result" where
  "applyBet s move by1 =
     (if pk_toAct s \<noteq> by1 then Inl (Error ''not your turn to act'')
      else
        case move of
          PkCheck \<Rightarrow> applyCheck s by1
        | PkBet amount \<Rightarrow> applyBetOrRaise s by1 amount
        | PkCall \<Rightarrow> applyCall s by1
        | PkFold \<Rightarrow> Inr (resolveFold (s\<lparr>pk_foldedBy := Some by1\<rparr>))
        | _ \<Rightarrow> Inl (Error ''expected betting move''))"

subsection \<open>Commitments, reveals, showdown\<close>

definition applyCommit :: "(bytes \<Rightarrow> bytes) \<Rightarrow> PokerState \<Rightarrow> PokerMove \<Rightarrow> Party \<Rightarrow> PokerState result" where
  "applyCommit H s move by1 =
     (case move of
        PkCommitSlots commitments0 secrets \<Rightarrow>
          bindE (validateCommitments commitments0) (\<lambda>commitments.
          bindE (case secrets of
                   None \<Rightarrow> Inr None
                 | Some ls \<Rightarrow> bindE (validateLocalSecretsForCommit H commitments ls) (\<lambda>l. Inr (Some l))) (\<lambda>localSecrets.
          bindE (if by1 = PartyA then
                   (if pk_commitA s \<noteq> None then Inl (Error ''A already committed'')
                    else Inr (s\<lparr>pk_commitA := Some commitments,
                      pk_localSecretsA := (case localSecrets of None \<Rightarrow> pk_localSecretsA s | Some l \<Rightarrow> Some (map Some l))\<rparr>))
                 else
                   (if pk_commitB s \<noteq> None then Inl (Error ''B already committed'')
                    else Inr (s\<lparr>pk_commitB := Some commitments,
                      pk_localSecretsB := (case localSecrets of None \<Rightarrow> pk_localSecretsB s | Some l \<Rightarrow> Some (map Some l))\<rparr>)))
            (\<lambda>s1. Inr (if pk_commitA s1 \<noteq> None \<and> pk_commitB s1 \<noteq> None then s1\<lparr>pk_phase := OpenPrivateHoles\<rparr> else s1))))
      | _ \<Rightarrow> Inl (Error ''expected commit_slots''))"

text \<open>The loop that checks the reveals and records them in the array of the revealing seat.\<close>

fun recordReveals ::
  "(bytes \<Rightarrow> bytes) \<Rightarrow> bytes list \<Rightarrow> SlotReveal option list \<Rightarrow> (int \<times> SlotReveal) list \<Rightarrow> SlotReveal option list result" where
  "recordReveals H commits target [] = Inr target"
| "recordReveals H commits target ((slot, reveal) # rest) =
     (if slot < 0 \<or> slot \<ge> int SLOT_COUNT then Inl (Error ''invalid slot'')
      else if target ! nat slot \<noteq> None then Inl (Error ''already revealed slot'')
      else
        bindE (verifyCommitment H (commits ! nat slot) (rv_value reveal) (rv_salt reveal)) (\<lambda>ok.
        if \<not> ok then Inl (Error ''slot reveal does not match commitment'')
        else recordReveals H commits (target[nat slot := Some reveal]) rest))"

fun revealBoard :: "(bytes \<Rightarrow> bytes) \<Rightarrow> PokerState \<Rightarrow> int list \<Rightarrow> int list \<Rightarrow> PokerState result" where
  "revealBoard H s used [] = Inr s"
| "revealBoard H s used (slot # slots) =
     (if slot \<in> set (pk_boardSlots s) then revealBoard H s used slots
      else
        bindE (deriveUniqueBoardCard H s slot used 0) (\<lambda>(c, counter).
        revealBoard H
          (s\<lparr>pk_board := pk_board s @ [c], pk_boardSlots := pk_boardSlots s @ [slot],
             pk_boardCounters := pk_boardCounters s @ [counter]\<rparr>) (c # used) slots))"

definition tryRevealBoardThenBet ::
  "(bytes \<Rightarrow> bytes) \<Rightarrow> PokerState \<Rightarrow> int list \<Rightarrow> PokerPhase \<Rightarrow> PokerState result" where
  "tryRevealBoardThenBet H s slots nextPhase =
     (if \<not> hasRevealed s PartyA slots \<or> \<not> hasRevealed s PartyB slots then Inr s
      else
        bindE (revealBoard H s (pk_board s) slots) (\<lambda>s1.
        Inr (if bettingClosed s1
             then s1\<lparr>pk_phase := (if nextPhase = FlopBet then RevealTurn
                                  else if nextPhase = TurnBet then RevealRiver else Showdown)\<rparr>
             else beginStreet s1 nextPhase)))"

definition pk_resolveShowdown :: "PokerState \<Rightarrow> PokerState result" where
  "pk_resolveShowdown s =
     (case (pk_shownHoleA s, pk_shownHoleB s) of
        (Some holesA, Some holesB) \<Rightarrow>
          (let onBoard = (\<lambda>c. c \<in> set (pk_board s));
               burnedA = filter onBoard holesA;
               burnedB = filter onBoard holesB;
               liveA = filter (\<lambda>c. \<not> onBoard c) holesA;
               liveB = filter (\<lambda>c. \<not> onBoard c) holesB
           in bindE (bestPokerHand (liveA @ pk_board s)) (\<lambda>bestA.
              bindE (bestPokerHand (liveB @ pk_board s)) (\<lambda>bestB.
              let winner = (if bh_score bestA > bh_score bestB then WonBy PartyA
                            else if bh_score bestB > bh_score bestA then WonBy PartyB else Tie);
                  s1 = (case winner of Tie \<Rightarrow> s | WonBy p \<Rightarrow> pk_settle s p (contestedAmount s))
              in Inr (s1\<lparr>pk_winner := Some winner,
                   pk_lastResult := Some \<lparr>hr_winner = winner, hr_reason = ByShowdown,
                     hr_scoreA = Some (bh_score bestA), hr_scoreB = Some (bh_score bestB),
                     hr_bestA = Some (bh_cards bestA), hr_bestB = Some (bh_cards bestB),
                     hr_burnedA = burnedA, hr_burnedB = burnedB\<rparr>,
                   pk_phase := HandOver\<rparr>))))
      | _ \<Rightarrow> Inl (TypeError ''Cannot read properties of null''))"

text \<open>What the reveal that was just recorded completes, phase by phase.\<close>

definition afterReveal :: "(bytes \<Rightarrow> bytes) \<Rightarrow> int \<Rightarrow> PokerState \<Rightarrow> PokerState result" where
  "afterReveal H ante s =
     (case pk_phase s of
        OpenPrivateHoles \<Rightarrow>
          (if hasRevealed s PartyA B_HOLE_SLOTS \<and> hasRevealed s PartyB A_HOLE_SLOTS then
             bindE (tryDeriveHoleCards H s PartyA) (\<lambda>hA.
             bindE (tryDeriveHoleCards H (s\<lparr>pk_holeA := hA\<rparr>) PartyB) (\<lambda>hB.
             postAntesAndBeginStreet ante (s\<lparr>pk_holeA := hA, pk_holeB := hB\<rparr>)))
           else Inr s)
      | RevealFlop \<Rightarrow> tryRevealBoardThenBet H s FLOP_SLOTS FlopBet
      | RevealTurn \<Rightarrow> tryRevealBoardThenBet H s TURN_SLOTS TurnBet
      | RevealRiver \<Rightarrow> tryRevealBoardThenBet H s RIVER_SLOTS RiverBet
      | Showdown \<Rightarrow>
          (if hasRevealed s PartyA A_HOLE_SLOTS \<and> hasRevealed s PartyB B_HOLE_SLOTS then
             (let s1 = s\<lparr>pk_shownA := True, pk_shownB := True\<rparr>
              in bindE (derivePublicHoleCards H s1 PartyA) (\<lambda>hA.
                 bindE (derivePublicHoleCards H (s1\<lparr>pk_shownHoleA := Some hA\<rparr>) PartyB) (\<lambda>hB.
                 pk_resolveShowdown (s1\<lparr>pk_shownHoleA := Some hA, pk_shownHoleB := Some hB\<rparr>))))
           else Inr s)
      | _ \<Rightarrow> Inr s)"

definition applyRevealSlots :: "(bytes \<Rightarrow> bytes) \<Rightarrow> int \<Rightarrow> PokerState \<Rightarrow> PokerMove \<Rightarrow> Party \<Rightarrow> PokerState result" where
  "applyRevealSlots H ante s move by1 =
     (case move of
        PkRevealSlots slots reveals \<Rightarrow>
          bindE (expectedQuantumPokerRevealSlots s by1) (\<lambda>expected.
          if \<not> sameNumberSet slots expected then Inl (Error ''expected other slots to be revealed'')
          else if length reveals \<noteq> length slots then Inl (Error ''slots/reveals length mismatch'')
          else
            case commitArrayFor s by1 of
              None \<Rightarrow> Inl (Error ''party has not committed'')
            | Some commits \<Rightarrow>
                bindE (recordReveals H commits (revealArrayFor s by1) (zip slots reveals)) (\<lambda>target.
                afterReveal H ante
                  (if by1 = PartyA then s\<lparr>pk_revealsA := target\<rparr> else s\<lparr>pk_revealsB := target\<rparr>)))
      | _ \<Rightarrow> Inl (Error ''expected reveal_slots''))"

definition pk_claimForfeit :: "PokerState \<Rightarrow> Party \<Rightarrow> PokerState result" where
  "pk_claimForfeit s by1 =
     (let opp = otherParty by1
      in case (expectedQuantumPokerRevealSlots s by1, expectedQuantumPokerRevealSlots s opp) of
           (Inr mineOwes, Inr oppOwes) \<Rightarrow>
             (if mineOwes \<noteq> [] then Inl (Error ''forfeit not claimable: you still owe a reveal'')
              else if oppOwes = [] then Inl (Error ''forfeit not claimable: opponent does not owe a reveal'')
              else Inr (resolveFold (s\<lparr>pk_foldedBy := Some opp\<rparr>)))
         | _ \<Rightarrow> Inl (Error ''forfeit only valid during a pending reveal''))"

definition resetHandFields :: "PokerState \<Rightarrow> PokerState" where
  "resetHandFields s =
     s\<lparr>pk_commitA := None, pk_commitB := None, pk_revealsA := emptyRevealSlots, pk_revealsB := emptyRevealSlots,
       pk_localSecretsA := None, pk_localSecretsB := None, pk_holeA := None, pk_holeB := None,
       pk_board := [], pk_boardSlots := [], pk_boardCounters := [], pk_totalBetA := 0, pk_totalBetB := 0,
       pk_streetBetA := 0, pk_streetBetB := 0, pk_toAct := PartyA, pk_actedA := False, pk_actedB := False,
       pk_foldedBy := None, pk_shownA := False, pk_shownB := False, pk_shownHoleA := None, pk_shownHoleB := None,
       pk_winner := None, pk_lastResult := None\<rparr>"

definition applyNextHand :: "int \<Rightarrow> PokerState \<Rightarrow> PokerMove \<Rightarrow> PokerState result" where
  "applyNextHand ante s move =
     (case move of
        PkNextHand \<Rightarrow>
          (let s1 = s\<lparr>pk_handNo := pk_handNo s + 1\<rparr>;
               canContinue = (pk_handNo s1 < pk_handCap s1 \<and> pk_balanceA s1 \<ge> ante \<and> pk_balanceB s1 \<ge> ante)
           in Inr ((resetHandFields s1)\<lparr>pk_phase := (if canContinue then CommitPhase else Done)\<rparr>))
      | _ \<Rightarrow> Inl (Error ''expected next_hand''))"

subsection \<open>The protocol\<close>

definition pk_initialState :: "int \<Rightarrow> int \<Rightarrow> ProtocolContext \<Rightarrow> PokerState" where
  "pk_initialState handCap ante ctx =
     (let a = bal_a (ctx_initialBalances ctx); b = bal_b (ctx_initialBalances ctx)
      in \<lparr>pk_phase = (if a \<ge> ante \<and> b \<ge> ante then CommitPhase else Done), pk_handNo = 0, pk_handCap = handCap,
          pk_commitA = None, pk_commitB = None, pk_revealsA = emptyRevealSlots, pk_revealsB = emptyRevealSlots,
          pk_localSecretsA = None, pk_localSecretsB = None, pk_holeA = None, pk_holeB = None,
          pk_board = [], pk_boardSlots = [], pk_boardCounters = [], pk_totalBetA = 0, pk_totalBetB = 0,
          pk_streetBetA = 0, pk_streetBetB = 0, pk_toAct = PartyA, pk_actedA = False, pk_actedB = False,
          pk_foldedBy = None, pk_shownA = False, pk_shownB = False, pk_shownHoleA = None, pk_shownHoleB = None,
          pk_winner = None, pk_lastResult = None, pk_balanceA = a, pk_balanceB = b, pk_total = a + b\<rparr>)"

definition pk_applyMove :: "(bytes \<Rightarrow> bytes) \<Rightarrow> int \<Rightarrow> PokerState \<Rightarrow> PokerMove \<Rightarrow> Party \<Rightarrow> PokerState result" where
  "pk_applyMove H ante s move by1 =
     (if move = PkForfeit then pk_claimForfeit s by1
      else
        case pk_phase s of
          CommitPhase \<Rightarrow> applyCommit H s move by1
        | OpenPrivateHoles \<Rightarrow> applyRevealSlots H ante s move by1
        | RevealFlop \<Rightarrow> applyRevealSlots H ante s move by1
        | RevealTurn \<Rightarrow> applyRevealSlots H ante s move by1
        | RevealRiver \<Rightarrow> applyRevealSlots H ante s move by1
        | Showdown \<Rightarrow> applyRevealSlots H ante s move by1
        | PreflopBet \<Rightarrow> applyBet s move by1
        | FlopBet \<Rightarrow> applyBet s move by1
        | TurnBet \<Rightarrow> applyBet s move by1
        | RiverBet \<Rightarrow> applyBet s move by1
        | HandOver \<Rightarrow> applyNextHand ante s move
        | Done \<Rightarrow> Inl (Error ''no moves legal in phase''))"

subsection \<open>The signed encoding\<close>

definition encodeBytes :: "bytes option \<Rightarrow> bytes list result" where
  "encodeBytes bs = (let b = (case bs of None \<Rightarrow> [] | Some x \<Rightarrow> x) in bindE (u64ToBeBytes (int (length b))) (\<lambda>n. Inr [n, b]))"

definition encodeByteList :: "bytes list option \<Rightarrow> bytes list result" where
  "encodeByteList items =
     (let xs = (case items of None \<Rightarrow> [] | Some l \<Rightarrow> l)
      in bindE (u64ToBeBytes (int (length xs))) (\<lambda>n.
         bindE (mapE (\<lambda>item. encodeBytes (Some item)) xs) (\<lambda>ps. Inr (n # concat ps))))"

definition encodeCards :: "int list option \<Rightarrow> bytes list result" where
  "encodeCards cards = encodeBytes (map_option (map word_of_int) cards)"

definition encodeNumbers :: "int list \<Rightarrow> bytes list result" where
  "encodeNumbers nums = mapE u64ToBeBytes (int (length nums) # nums)"

definition encodeRevealSlot :: "SlotReveal option \<Rightarrow> bytes list result" where
  "encodeRevealSlot reveal =
     (case reveal of
        None \<Rightarrow> Inr [[0]]
      | Some r \<Rightarrow>
          bindE (encodeBytes (Some (rv_value r))) (\<lambda>v.
          bindE (encodeBytes (Some (rv_salt r))) (\<lambda>t. Inr ([1] # v @ t))))"

definition encodeRevealSlots :: "SlotReveal option list \<Rightarrow> bytes list result" where
  "encodeRevealSlots slots =
     bindE (u64ToBeBytes (int (length slots))) (\<lambda>n.
     bindE (mapE encodeRevealSlot slots) (\<lambda>ps. Inr (n # concat ps)))"

definition winnerCode :: "PokerWinner option \<Rightarrow> byte" where
  "winnerCode winner =
     (if winner = Some (WonBy PartyA) then 1 else if winner = Some (WonBy PartyB) then 2
      else if winner = Some Tie then 3 else 0)"

definition scoreToU64 :: "int option \<Rightarrow> bytes result" where
  "scoreToU64 score = u64ToBeBytes (case score of None \<Rightarrow> 0 | Some v \<Rightarrow> v)"

definition encodeFlags :: "PokerState \<Rightarrow> bytes" where
  "encodeFlags s =
     [if pk_toAct s = PartyA then 0 else 1,
      if pk_actedA s then 1 else 0,
      if pk_actedB s then 1 else 0,
      (case pk_foldedBy s of None \<Rightarrow> 0 | Some p \<Rightarrow> if p = PartyA then 1 else 2),
      if pk_shownA s then 1 else 0,
      if pk_shownB s then 1 else 0,
      winnerCode (pk_winner s),
      (case pk_lastResult s of None \<Rightarrow> 0 | Some r \<Rightarrow> if hr_reason r = ByFold then 1 else 2)]"

text \<open>The parts of the encoding in order; \<open>r\<close> is the last result.\<close>

definition pk_encodeParts :: "PokerState \<Rightarrow> bytes list result list" where
  "pk_encodeParts s =
     (let r = pk_lastResult s; u = (\<lambda>v. bindE (u64ToBeBytes v) (\<lambda>b. Inr [b]))
      in [Inr [protocolDomain ''quantum_poker.v2''],
          Inr [[pk_PHASE_CODE (pk_phase s)]],
          u (pk_handNo s), u (pk_handCap s), u (pk_balanceA s), u (pk_balanceB s),
          u (pk_totalBetA s), u (pk_totalBetB s), u (pk_streetBetA s), u (pk_streetBetB s),
          Inr [encodeFlags s],
          encodeByteList (pk_commitA s), encodeByteList (pk_commitB s),
          encodeRevealSlots (pk_revealsA s), encodeRevealSlots (pk_revealsB s),
          encodeCards (Some (pk_board s)), encodeNumbers (pk_boardSlots s), encodeNumbers (pk_boardCounters s),
          encodeCards (if pk_shownA s then pk_shownHoleA s else None),
          encodeCards (if pk_shownB s then pk_shownHoleB s else None),
          bindE (scoreToU64 (Option.bind r hr_scoreA)) (\<lambda>b. Inr [b]),
          bindE (scoreToU64 (Option.bind r hr_scoreB)) (\<lambda>b. Inr [b]),
          encodeCards (Option.bind r hr_bestA), encodeCards (Option.bind r hr_bestB),
          encodeCards (map_option hr_burnedA r), encodeCards (map_option hr_burnedB r)])"

definition pk_encodeState :: "PokerState \<Rightarrow> bytes result" where
  "pk_encodeState s = bindE (mapE (\<lambda>p. p) (pk_encodeParts s)) (\<lambda>ps. Inr (concatBytes (concat ps)))"

definition pk_balances :: "PokerState \<Rightarrow> Balances" where
  "pk_balances s = \<lparr>bal_a = pk_balanceA s, bal_b = pk_balanceB s\<rparr>"

definition pk_isTerminal :: "PokerState \<Rightarrow> bool" where
  "pk_isTerminal s \<longleftrightarrow> pk_phase s = Done"

definition QuantumPokerProtocol :: "(bytes \<Rightarrow> bytes) \<Rightarrow> int \<Rightarrow> int \<Rightarrow> (PokerState, PokerMove) Protocol" where
  "QuantumPokerProtocol H handCap ante =
     \<lparr>p_name = ''quantum_poker.v2'', p_movesCarrySecrets = True, p_initialState = pk_initialState handCap ante,
      p_applyMove = pk_applyMove H ante, p_encodeState = pk_encodeState, p_balances = pk_balances,
      p_isTerminal = pk_isTerminal\<rparr>"

end
