(* ===== verification/Poker_Invariant.thy ===== *)
theory Poker_Invariant
  imports Quantum_Poker
begin

section \<open>Invariants of Quantum Poker\<close>

text \<open>
  The money invariant: what a hand can cost is covered by both stacks, and the pots of both seats differ only
  by the open bet of the current street. Every move keeps it and the sum of the balances, so the protocol
  interprets \<open>conserving_protocol\<close>. The case rules of the operations serve the later theories as well.
\<close>

subsection \<open>Money\<close>

definition betPhase :: "PokerPhase \<Rightarrow> bool" where
  "betPhase ph \<longleftrightarrow> ph = PreflopBet \<or> ph = FlopBet \<or> ph = TurnBet \<or> ph = RiverBet"

definition boardPhase :: "PokerPhase \<Rightarrow> bool" where
  "boardPhase ph \<longleftrightarrow> ph = RevealFlop \<or> ph = RevealTurn \<or> ph = RevealRiver \<or> ph = Showdown"

definition pk_acted :: "PokerState \<Rightarrow> Party \<Rightarrow> bool" where
  "pk_acted s by1 = (if by1 = PartyA then pk_actedA s else pk_actedB s)"

text \<open>What each seat has put in is covered by the shorter stack.\<close>

definition potOk :: "PokerState \<Rightarrow> bool" where
  "potOk s \<longleftrightarrow> 0 \<le> pk_totalBetA s \<and> 0 \<le> pk_totalBetB s \<and>
     pk_totalBetA s \<le> effectiveStack s \<and> pk_totalBetB s \<le> effectiveStack s"

text \<open>The seat to act has not acted since the last bet and does not lead; a leading opponent has acted.\<close>

definition streetOk :: "PokerState \<Rightarrow> bool" where
  "streetOk s \<longleftrightarrow>
     (let p = pk_toAct s; q = otherParty p
      in seat p \<and> \<not> pk_acted s p \<and> 0 \<le> pk_streetBet s p \<and> pk_streetBet s p \<le> pk_streetBet s q \<and>
         (pk_streetBet s p < pk_streetBet s q \<longrightarrow> pk_acted s q) \<and> (p = PartyB \<longrightarrow> pk_acted s q)) \<and>
     pk_totalBetA s - pk_streetBetA s = pk_totalBetB s - pk_streetBetB s"

definition betsOk :: "PokerState \<Rightarrow> bool" where
  "betsOk s \<longleftrightarrow>
     (betPhase (pk_phase s) \<longrightarrow> potOk s \<and> streetOk s) \<and>
     (boardPhase (pk_phase s) \<longrightarrow> potOk s \<and> pk_totalBetA s = pk_totalBetB s) \<and>
     (pk_phase s = CommitPhase \<or> pk_phase s = OpenPrivateHoles \<or> pk_phase s = Done \<longrightarrow>
        pk_totalBetA s = 0 \<and> pk_totalBetB s = 0)"

definition moneyOk :: "PokerState \<Rightarrow> bool" where
  "moneyOk s \<longleftrightarrow> 0 \<le> pk_balanceA s \<and> 0 \<le> pk_balanceB s \<and> pk_balanceA s + pk_balanceB s = pk_total s \<and> betsOk s"

lemmas phase_kinds = betPhase_def boardPhase_def

lemma effectiveStack_eq: "effectiveStack s = min (pk_balanceA s) (pk_balanceB s)"
  by (simp add: effectiveStack_def pk_balance_def min_def)

lemma availableFor_eq: "potOk s \<Longrightarrow> seat p \<Longrightarrow> availableFor s p = effectiveStack s - pk_totalBet s p"
  by (auto simp: availableFor_def Let_def potOk_def pk_totalBet_def)

text \<open>Settling a covered pot moves exactly the pot.\<close>

lemma pk_settle_covered:
  assumes "0 \<le> amount" "amount \<le> pk_balanceA s" "amount \<le> pk_balanceB s" "seat w"
  shows "pk_settle s w amount =
    (if w = PartyA then s\<lparr>pk_balanceA := pk_balanceA s + amount, pk_balanceB := pk_balanceB s - amount\<rparr>
     else s\<lparr>pk_balanceB := pk_balanceB s + amount, pk_balanceA := pk_balanceA s - amount\<rparr>)"
  using assms by (simp add: pk_settle_def Let_def)

lemma contested_covered:
  assumes "potOk s \<or> pk_totalBetA s = 0 \<and> pk_totalBetB s = 0 \<and> 0 \<le> pk_balanceA s \<and> 0 \<le> pk_balanceB s"
  shows "0 \<le> contestedAmount s" "contestedAmount s \<le> pk_balanceA s" "contestedAmount s \<le> pk_balanceB s"
  using assms by (auto simp: contestedAmount_def potOk_def effectiveStack_eq)

text \<open>The pot of a hand is covered in every phase in which it can be lost.\<close>

lemma moneyOk_covered:
  assumes "moneyOk s" "pk_phase s \<noteq> HandOver"
  shows "0 \<le> contestedAmount s" "contestedAmount s \<le> pk_balanceA s" "contestedAmount s \<le> pk_balanceB s"
proof -
  have "potOk s \<or> pk_totalBetA s = 0 \<and> pk_totalBetB s = 0 \<and> 0 \<le> pk_balanceA s \<and> 0 \<le> pk_balanceB s"
    using assms by (cases "pk_phase s") (auto simp: moneyOk_def betsOk_def phase_kinds)
  from contested_covered [OF this]
  show "0 \<le> contestedAmount s" "contestedAmount s \<le> pk_balanceA s" "contestedAmount s \<le> pk_balanceB s" .
qed

lemma handOver_moneyOk:
  "0 \<le> pk_balanceA s \<Longrightarrow> 0 \<le> pk_balanceB s \<Longrightarrow> pk_balanceA s + pk_balanceB s = pk_total s \<Longrightarrow>
   pk_phase s = HandOver \<Longrightarrow> moneyOk s"
  by (simp add: moneyOk_def betsOk_def phase_kinds)

lemma pk_settle_facts [simp]:
  "pk_total (pk_settle s w a) = pk_total s" "pk_phase (pk_settle s w a) = pk_phase s"
  "pk_balanceA (pk_settle s w a) + pk_balanceB (pk_settle s w a) = pk_balanceA s + pk_balanceB s"
  by (auto simp: pk_settle_def Let_def)

lemma pk_settle_nonneg:
  "0 \<le> pk_balanceA s \<Longrightarrow> 0 \<le> pk_balanceB s \<Longrightarrow> 0 \<le> amount \<Longrightarrow>
   0 \<le> pk_balanceA (pk_settle s w amount) \<and> 0 \<le> pk_balanceB (pk_settle s w amount)"
  by (auto simp: pk_settle_def Let_def)

lemma resolveFold_money:
  assumes "0 \<le> pk_balanceA s" "0 \<le> pk_balanceB s" "pk_balanceA s + pk_balanceB s = pk_total s" "0 \<le> contestedAmount s"
  shows "moneyOk (resolveFold s) \<and> pk_total (resolveFold s) = pk_total s"
  using assms pk_settle_nonneg [OF assms(1,2,4)] pk_settle_facts(3) [of s _ "contestedAmount s"]
  by (auto simp: resolveFold_def Let_def intro!: handOver_moneyOk)

lemma fold_money:
  assumes "moneyOk s" "pk_phase s \<noteq> HandOver"
  shows "moneyOk (resolveFold (s\<lparr>pk_foldedBy := f\<rparr>)) \<and> pk_total (resolveFold (s\<lparr>pk_foldedBy := f\<rparr>)) = pk_total s"
proof -
  have "contestedAmount (s\<lparr>pk_foldedBy := f\<rparr>) = contestedAmount s" by (simp add: contestedAmount_def)
  then show ?thesis
    using resolveFold_money [of "s\<lparr>pk_foldedBy := f\<rparr>"] moneyOk_covered(1) [OF assms] assms(1) by (simp add: moneyOk_def)
qed

subsection \<open>The betting actions, read per seat\<close>

lemma seat_cases: "seat p \<Longrightarrow> p = PartyA \<or> p = PartyB"
  by (simp add: seat_def)

lemmas bet_setters = setStreetBet_def addTotalBet_def markActed_def pk_streetBet_def pk_totalBet_def pk_acted_def

lemma markActed_simps [simp]:
  "pk_phase (markActed s p b) = pk_phase s" "pk_total (markActed s p b) = pk_total s"
  "pk_balanceA (markActed s p b) = pk_balanceA s" "pk_balanceB (markActed s p b) = pk_balanceB s"
  "pk_streetBet (markActed s p b) q = pk_streetBet s q" "pk_totalBet (markActed s p b) q = pk_totalBet s q"
  "pk_toAct (markActed s p b) = pk_toAct s"
  "seat p \<Longrightarrow> seat q \<Longrightarrow> pk_acted (markActed s p b) q = (if q = p then b else pk_acted s q)"
  by (auto simp: bet_setters seat_def)

lemma setStreetBet_simps [simp]:
  "pk_phase (setStreetBet s p v) = pk_phase s" "pk_total (setStreetBet s p v) = pk_total s"
  "pk_balanceA (setStreetBet s p v) = pk_balanceA s" "pk_balanceB (setStreetBet s p v) = pk_balanceB s"
  "seat p \<Longrightarrow> seat q \<Longrightarrow> pk_streetBet (setStreetBet s p v) q = (if q = p then v else pk_streetBet s q)"
  "pk_totalBet (setStreetBet s p v) q = pk_totalBet s q"
  "pk_toAct (setStreetBet s p v) = pk_toAct s" "pk_acted (setStreetBet s p v) q = pk_acted s q"
  by (auto simp: bet_setters seat_def)

lemma addTotalBet_simps [simp]:
  "pk_phase (addTotalBet s p v) = pk_phase s" "pk_total (addTotalBet s p v) = pk_total s"
  "pk_balanceA (addTotalBet s p v) = pk_balanceA s" "pk_balanceB (addTotalBet s p v) = pk_balanceB s"
  "pk_streetBet (addTotalBet s p v) q = pk_streetBet s q"
  "seat p \<Longrightarrow> seat q \<Longrightarrow> pk_totalBet (addTotalBet s p v) q = pk_totalBet s q + (if q = p then v else 0)"
  "pk_toAct (addTotalBet s p v) = pk_toAct s" "pk_acted (addTotalBet s p v) q = pk_acted s q"
  by (auto simp: bet_setters seat_def)

lemma toAct_simps [simp]:
  "pk_streetBet (s\<lparr>pk_toAct := q\<rparr>) p = pk_streetBet s p" "pk_totalBet (s\<lparr>pk_toAct := q\<rparr>) p = pk_totalBet s p"
  "pk_acted (s\<lparr>pk_toAct := q\<rparr>) p = pk_acted s p"
  by (simp_all add: bet_setters)

text \<open>The conditions for both seats, stated for one of them and its opponent.\<close>

lemma potOk_iff:
  "seat p \<Longrightarrow> potOk s \<longleftrightarrow> 0 \<le> pk_totalBet s p \<and> 0 \<le> pk_totalBet s (otherParty p) \<and>
     pk_totalBet s p \<le> min (pk_balanceA s) (pk_balanceB s) \<and>
     pk_totalBet s (otherParty p) \<le> min (pk_balanceA s) (pk_balanceB s)"
  by (auto simp: potOk_def effectiveStack_eq pk_totalBet_def seat_def)

lemma streetOk_iff:
  "seat (pk_toAct s) \<Longrightarrow> streetOk s \<longleftrightarrow>
     (let p = pk_toAct s; q = otherParty p
      in \<not> pk_acted s p \<and> 0 \<le> pk_streetBet s p \<and> pk_streetBet s p \<le> pk_streetBet s q \<and>
         (pk_streetBet s p < pk_streetBet s q \<longrightarrow> pk_acted s q) \<and> (p = PartyB \<longrightarrow> pk_acted s q) \<and>
         pk_totalBet s p - pk_streetBet s p = pk_totalBet s q - pk_streetBet s q)"
  by (auto simp: streetOk_def Let_def pk_totalBet_def pk_streetBet_def seat_def)

lemma bothActed_iff:
  "seat p \<Longrightarrow> pk_streetBetA s = pk_streetBetB s \<and> pk_actedA s \<and> pk_actedB s \<longleftrightarrow>
     pk_streetBet s p = pk_streetBet s (otherParty p) \<and> pk_acted s p \<and> pk_acted s (otherParty p)"
  by (auto simp: bet_setters seat_def)

lemma totals_equal_iff:
  "seat p \<Longrightarrow> pk_totalBetA s = pk_totalBetB s \<longleftrightarrow> pk_totalBet s p = pk_totalBet s (otherParty p)"
  by (auto simp: pk_totalBet_def seat_def)

definition sameFunds :: "PokerState \<Rightarrow> PokerState \<Rightarrow> bool" where
  "sameFunds s s' \<longleftrightarrow> pk_total s' = pk_total s \<and> pk_balanceA s' = pk_balanceA s \<and> pk_balanceB s' = pk_balanceB s"

text \<open>The next street after a betting phase.\<close>

definition nextReveal :: "PokerPhase \<Rightarrow> PokerPhase" where
  "nextReveal ph =
     (if ph = PreflopBet then RevealFlop else if ph = FlopBet then RevealTurn
      else if ph = TurnBet then RevealRiver else Showdown)"

lemma advanceStreet_eq:
  "betPhase (pk_phase s) \<Longrightarrow>
   advanceStreet s = Inr (s\<lparr>pk_phase := nextReveal (pk_phase s), pk_toAct := PartyA, pk_actedA := False, pk_actedB := False,
     pk_streetBetA := 0, pk_streetBetB := 0\<rparr>)"
  by (cases "pk_phase s") (simp_all add: advanceStreet_def betPhase_def nextReveal_def)

lemma boardPhase_nextReveal: "boardPhase (nextReveal ph)"
  by (simp add: nextReveal_def boardPhase_def)

lemma phase_disjoint:
  "boardPhase ph \<Longrightarrow> \<not> betPhase ph" "betPhase ph \<Longrightarrow> ph \<noteq> CommitPhase \<and> ph \<noteq> OpenPrivateHoles \<and> ph \<noteq> Done \<and> ph \<noteq> HandOver"
  "boardPhase ph \<Longrightarrow> ph \<noteq> CommitPhase \<and> ph \<noteq> OpenPrivateHoles \<and> ph \<noteq> Done \<and> ph \<noteq> HandOver"
  by (auto simp: phase_kinds)

lemma betsOk_bet: "betPhase (pk_phase s) \<Longrightarrow> betsOk s \<longleftrightarrow> potOk s \<and> streetOk s"
  using phase_disjoint [of "pk_phase s"] by (auto simp: betsOk_def)

lemma betsOk_board: "boardPhase (pk_phase s) \<Longrightarrow> betsOk s \<longleftrightarrow> potOk s \<and> pk_totalBetA s = pk_totalBetB s"
  using phase_disjoint [of "pk_phase s"] by (auto simp: betsOk_def)

lemma advanceStreet_money:
  assumes "betPhase (pk_phase s)" "potOk s" "pk_totalBetA s = pk_totalBetB s" "advanceStreet s = Inr s'"
  shows "betsOk s' \<and> sameFunds s s' \<and> pk_phase s' = nextReveal (pk_phase s)"
proof -
  have s': "s' = s\<lparr>pk_phase := nextReveal (pk_phase s), pk_toAct := PartyA, pk_actedA := False, pk_actedB := False,
     pk_streetBetA := 0, pk_streetBetB := 0\<rparr>"
    using assms(4) advanceStreet_eq [OF assms(1)] by simp
  have "potOk s'" "pk_totalBetA s' = pk_totalBetB s'" "pk_phase s' = nextReveal (pk_phase s)" "sameFunds s s'"
    using assms(2,3) by (simp_all add: s' potOk_def effectiveStack_eq sameFunds_def)
  then show ?thesis using betsOk_board [of s'] by (simp add: boardPhase_nextReveal)
qed

lemma applyCheck_money:
  assumes "betPhase (pk_phase s)" "potOk s" "streetOk s" "applyCheck s (pk_toAct s) = Inr s'"
  shows "betsOk s' \<and> sameFunds s s'"
proof -
  define p where "p = pk_toAct s"
  have seat: "seat p" using assms(3) by (simp add: streetOk_def Let_def p_def)
  note st = assms(3) [unfolded streetOk_iff [OF seat [unfolded p_def]] Let_def, folded p_def]
  let ?s = "markActed s p True"
  have eq: "pk_streetBet s p = pk_streetBet s (otherParty p)" and r: "afterBetAction ?s = Inr s'"
    using assms(4) st seat_cases [OF seat] by (auto simp: applyCheck_def Let_def p_def pk_streetBet_def split: if_splits)
  have pot: "potOk ?s" using assms(2) by (simp add: potOk_iff [OF seat])
  show ?thesis
  proof (cases "pk_acted s (otherParty p)")
    case True
    then have "advanceStreet ?s = Inr s'"
      using r eq seat by (simp add: afterBetAction_def bothActed_iff [OF seat])
    with advanceStreet_money [OF _ pot] assms(1) st eq seat show ?thesis
      by (simp add: totals_equal_iff [OF seat] sameFunds_def)
  next
    case False
    then have s': "s' = ?s\<lparr>pk_toAct := otherParty p\<rparr>"
      using r seat by (simp add: afterBetAction_def bothActed_iff [OF seat] p_def)
    have "potOk s'" using pot by (simp add: s' potOk_iff [OF seat])
    moreover have "streetOk s'"
      using False st eq seat seat_cases [OF seat] by (auto simp: streetOk_iff s' Let_def)
    moreover have "betPhase (pk_phase s')" using assms(1) by (simp add: s')
    ultimately show ?thesis by (simp add: betsOk_bet sameFunds_def s')
  qed
qed

lemma applyBetOrRaise_money:
  assumes "betPhase (pk_phase s)" "potOk s" "streetOk s" "applyBetOrRaise s (pk_toAct s) amount = Inr s'"
  shows "betsOk s' \<and> sameFunds s s'"
proof -
  define p where "p = pk_toAct s"
  have seat: "seat p" using assms(3) by (simp add: streetOk_def Let_def p_def)
  note st = assms(3) [unfolded streetOk_iff [OF seat [unfolded p_def]] Let_def, folded p_def]
  have g: "0 < amount" "pk_streetBet s (otherParty p) < pk_streetBet s p + amount" "amount \<le> availableFor s p"
    and s': "s' = (markActed (markActed (addTotalBet (setStreetBet s p (pk_streetBet s p + amount)) p amount) p True)
                       (otherParty p) False)\<lparr>pk_toAct := otherParty p\<rparr>"
    using assms(4) by (auto simp: applyBetOrRaise_def Let_def p_def split: if_splits)
  have "potOk s'"
    using assms(2) g seat availableFor_eq [OF assms(2) seat] by (auto simp: potOk_iff [OF seat] s' effectiveStack_eq min_def)
  moreover have "streetOk s'" using st g seat seat_cases [OF seat] by (auto simp: streetOk_iff s' Let_def)
  moreover have "betPhase (pk_phase s')" using assms(1) by (simp add: s')
  ultimately show ?thesis by (simp add: betsOk_bet sameFunds_def s')
qed

lemma applyCall_money:
  assumes "betPhase (pk_phase s)" "potOk s" "streetOk s" "applyCall s (pk_toAct s) = Inr s'"
  shows "betsOk s' \<and> sameFunds s s' \<and> pk_phase s' = nextReveal (pk_phase s)"
proof -
  define p where "p = pk_toAct s"
  have seat: "seat p" using assms(3) by (simp add: streetOk_def Let_def p_def)
  note st = assms(3) [unfolded streetOk_iff [OF seat [unfolded p_def]] Let_def, folded p_def]
  define d where "d = pk_streetBet s (otherParty p) - pk_streetBet s p"
  let ?s = "markActed (addTotalBet (setStreetBet s p (pk_streetBet s p + d)) p d) p True"
  have g: "0 < d" "d \<le> availableFor s p" and r: "afterBetAction ?s = Inr s'"
    using assms(4) by (auto simp: applyCall_def Let_def p_def d_def split: if_splits)
  have pot: "potOk ?s"
    using assms(2) g seat availableFor_eq [OF assms(2) seat] by (auto simp: potOk_iff [OF seat] effectiveStack_eq min_def)
  have "advanceStreet ?s = Inr s'"
    using r g st seat by (simp add: afterBetAction_def bothActed_iff [OF seat] d_def)
  with advanceStreet_money [OF _ pot] assms(1) st seat show ?thesis
    by (simp add: totals_equal_iff [OF seat] sameFunds_def d_def)
qed

text \<open>A bet of the opponent can always be called: what is missing is left of the shorter stack.\<close>

lemma call_always_covered:
  assumes "betPhase (pk_phase s)" "potOk s" "streetOk s" "pk_streetBet s (pk_toAct s) < pk_streetBet s (otherParty (pk_toAct s))"
  shows "\<exists>s'. applyCall s (pk_toAct s) = Inr s'"
proof -
  define p where "p = pk_toAct s"
  have seat: "seat p" using assms(3) by (simp add: streetOk_def Let_def p_def)
  note st = assms(3) [unfolded streetOk_iff [OF seat [unfolded p_def]] Let_def, folded p_def]
  have "pk_streetBet s (otherParty p) - pk_streetBet s p \<le> availableFor s p"
    using assms(2) st availableFor_eq [OF assms(2) seat] by (auto simp: potOk_iff [OF seat] effectiveStack_eq min_def)
  then show ?thesis
    using assms(1,4) by (auto simp: applyCall_def Let_def afterBetAction_def advanceStreet_eq p_def)
qed

subsection \<open>Moves that leave the money alone\<close>

lemmas money_defs = moneyOk_def betsOk_def potOk_def streetOk_def effectiveStack_eq bet_setters

lemma moneyOk_frame [simp]:
  "moneyOk (s\<lparr>pk_revealsA := x\<rparr>) = moneyOk s" "moneyOk (s\<lparr>pk_revealsB := x\<rparr>) = moneyOk s"
  "moneyOk (s\<lparr>pk_holeA := y\<rparr>) = moneyOk s" "moneyOk (s\<lparr>pk_holeB := y\<rparr>) = moneyOk s"
  "moneyOk (s\<lparr>pk_board := b, pk_boardSlots := bs, pk_boardCounters := bc\<rparr>) = moneyOk s"
  "moneyOk (s\<lparr>pk_shownA := f, pk_shownB := g\<rparr>) = moneyOk s"
  "moneyOk (s\<lparr>pk_shownHoleA := y\<rparr>) = moneyOk s" "moneyOk (s\<lparr>pk_shownHoleB := y\<rparr>) = moneyOk s"
  "moneyOk (s\<lparr>pk_commitA := c, pk_localSecretsA := l\<rparr>) = moneyOk s"
  "moneyOk (s\<lparr>pk_commitB := c, pk_localSecretsB := l\<rparr>) = moneyOk s"
  by (simp_all add: money_defs)

lemma revealBoard_frame:
  "revealBoard H s used slots = Inr s' \<Longrightarrow>
   \<exists>b bs bc. s' = s\<lparr>pk_board := b, pk_boardSlots := bs, pk_boardCounters := bc\<rparr>"
proof (induction H s used slots rule: revealBoard.induct)
  case (1 H s used)
  then show ?case by (intro exI [of _ "pk_board s"] exI [of _ "pk_boardSlots s"] exI [of _ "pk_boardCounters s"]) simp
next
  case (2 H s used slot slots)
  show ?case
  proof (cases "slot \<in> set (pk_boardSlots s)")
    case True
    with 2 show ?thesis by simp
  next
    case False
    then obtain c k where "revealBoard H (s\<lparr>pk_board := pk_board s @ [c], pk_boardSlots := pk_boardSlots s @ [slot],
        pk_boardCounters := pk_boardCounters s @ [k]\<rparr>) (c # used) slots = Inr s'"
        "deriveUniqueBoardCard H s slot used 0 = Inr (c, k)"
      using 2(3) by (auto simp: result_simps)
    with 2(2) [OF False] show ?thesis by fastforce
  qed
qed

lemma beginStreet_money:
  assumes "moneyOk s" "potOk s" "pk_totalBetA s = pk_totalBetB s" "betPhase ph"
  shows "moneyOk (beginStreet s ph) \<and> pk_total (beginStreet s ph) = pk_total s"
proof -
  let ?s = "beginStreet s ph"
  have "potOk ?s" "streetOk ?s" using assms(2,3) by (simp_all add: beginStreet_def potOk_def effectiveStack_eq streetOk_def bet_setters)
  moreover have "pk_phase ?s = ph" by (simp add: beginStreet_def)
  ultimately have "betsOk ?s" using assms(4) by (simp add: betsOk_bet)
  then show ?thesis using assms(1) by (simp add: moneyOk_def beginStreet_def)
qed

lemma moneyOk_board: "moneyOk s \<Longrightarrow> boardPhase (pk_phase s) \<Longrightarrow> potOk s \<and> pk_totalBetA s = pk_totalBetB s"
  by (simp add: moneyOk_def betsOk_board)

lemma tryRevealBoardThenBet_money:
  assumes "moneyOk s" "boardPhase (pk_phase s)" "betPhase ph" "tryRevealBoardThenBet H s slots ph = Inr s'"
  shows "moneyOk s' \<and> pk_total s' = pk_total s"
proof (cases "\<not> hasRevealed s PartyA slots \<or> \<not> hasRevealed s PartyB slots")
  case True
  with assms show ?thesis by (simp add: tryRevealBoardThenBet_def)
next
  case False
  then obtain s1 where s1: "revealBoard H s (pk_board s) slots = Inr s1"
    and s': "s' = (if bettingClosed s1 then s1\<lparr>pk_phase := (if ph = FlopBet then RevealTurn
       else if ph = TurnBet then RevealRiver else Showdown)\<rparr> else beginStreet s1 ph)"
    using assms(4) by (auto simp: tryRevealBoardThenBet_def result_simps)
  obtain b bs bc where e: "s1 = s\<lparr>pk_board := b, pk_boardSlots := bs, pk_boardCounters := bc\<rparr>"
    using revealBoard_frame [OF s1] by auto
  have m: "moneyOk s1" "potOk s1" "pk_totalBetA s1 = pk_totalBetB s1" "pk_total s1 = pk_total s"
    using assms(1) moneyOk_board [OF assms(1,2)] by (simp_all add: e potOk_def effectiveStack_eq)
  show ?thesis
  proof (cases "bettingClosed s1")
    case True
    have "boardPhase (pk_phase s')" by (simp add: s' True boardPhase_def)
    moreover have "potOk s'" "pk_totalBetA s' = pk_totalBetB s'" using m by (simp_all add: s' True potOk_def effectiveStack_eq)
    ultimately have "betsOk s'" by (simp add: betsOk_board)
    with m show ?thesis by (simp add: s' True moneyOk_def)
  next
    case False
    with beginStreet_money [OF m(1-3) assms(3)] m(4) show ?thesis by (simp add: s')
  qed
qed

text \<open>A showdown pays the contested pot to a winner, or nobody.\<close>

lemma showdown_cases:
  assumes "pk_resolveShowdown s = Inr s'"
  obtains w r where "s' = (case w of Tie \<Rightarrow> s | WonBy p \<Rightarrow> pk_settle s p (contestedAmount s))\<lparr>pk_winner := Some w, pk_lastResult := r, pk_phase := HandOver\<rparr>"
  using assms by (auto simp: pk_resolveShowdown_def Let_def result_simps split: option.splits)

lemma showdown_money:
  assumes "moneyOk s" "pk_phase s = Showdown" "pk_resolveShowdown s = Inr s'"
  shows "moneyOk s' \<and> pk_total s' = pk_total s"
proof -
  obtain w r where s': "s' = (case w of Tie \<Rightarrow> s | WonBy p \<Rightarrow> pk_settle s p (contestedAmount s))\<lparr>pk_winner := Some w, pk_lastResult := r, pk_phase := HandOver\<rparr>"
    using assms(3) by (rule showdown_cases)
  have nn: "0 \<le> pk_balanceA s" "0 \<le> pk_balanceB s" "pk_balanceA s + pk_balanceB s = pk_total s" using assms(1) by (simp_all add: moneyOk_def)
  have c: "0 \<le> contestedAmount s" using moneyOk_covered [OF assms(1)] assms(2) by simp
  show ?thesis
    using nn pk_settle_nonneg [OF nn(1,2) c] pk_settle_facts(3) [of s _ "contestedAmount s"]
    by (cases w) (auto simp: s' intro!: handOver_moneyOk)
qed

lemma afterReveal_money:
  assumes "moneyOk s" "0 \<le> ante" "afterReveal H ante s = Inr s'"
  shows "moneyOk s' \<and> pk_total s' = pk_total s"
proof (cases "pk_phase s")
  case OpenPrivateHoles
  show ?thesis
  proof (cases "hasRevealed s PartyA B_HOLE_SLOTS \<and> hasRevealed s PartyB A_HOLE_SLOTS")
    case True
    then obtain hA hB where "postAntesAndBeginStreet ante (s\<lparr>pk_holeA := hA, pk_holeB := hB\<rparr>) = Inr s'"
      using assms(3) OpenPrivateHoles by (auto simp: afterReveal_def result_simps)
    then have b: "ante \<le> pk_balanceA s" "ante \<le> pk_balanceB s"
      and s': "s' = beginStreet (s\<lparr>pk_holeA := hA, pk_holeB := hB, pk_totalBetA := ante, pk_totalBetB := ante\<rparr>) PreflopBet"
      by (auto simp: postAntesAndBeginStreet_def split: if_splits)
    have "betsOk s'"
      using b assms(2) by (simp add: betsOk_bet s' beginStreet_def betPhase_def potOk_def effectiveStack_eq streetOk_def bet_setters)
    then show ?thesis using assms(1) by (simp add: moneyOk_def s' beginStreet_def)
  qed (use assms OpenPrivateHoles in \<open>auto simp: afterReveal_def\<close>)
next
  case Showdown
  show ?thesis
  proof (cases "hasRevealed s PartyA A_HOLE_SLOTS \<and> hasRevealed s PartyB B_HOLE_SLOTS")
    case True
    then obtain hA hB where "pk_resolveShowdown (s\<lparr>pk_shownA := True, pk_shownB := True, pk_shownHoleA := Some hA, pk_shownHoleB := Some hB\<rparr>) = Inr s'"
      using assms(3) Showdown by (auto simp: afterReveal_def Let_def result_simps)
    from showdown_money [OF _ _ this] show ?thesis using assms(1) Showdown by simp
  qed (use assms Showdown in \<open>auto simp: afterReveal_def\<close>)
qed (use assms tryRevealBoardThenBet_money [OF assms(1), of _ H _ s'] in \<open>auto simp: afterReveal_def phase_kinds\<close>)

lemma applyRevealSlots_cases:
  assumes "applyRevealSlots H ante s m by1 = Inr s'"
  obtains slots reveals expected commits target where "m = PkRevealSlots slots reveals"
    "expectedQuantumPokerRevealSlots s by1 = Inr expected" "sameNumberSet slots expected" "length reveals = length slots"
    "commitArrayFor s by1 = Some commits"
    "recordReveals H commits (revealArrayFor s by1) (zip slots reveals) = Inr target"
    "afterReveal H ante (if by1 = PartyA then s\<lparr>pk_revealsA := target\<rparr> else s\<lparr>pk_revealsB := target\<rparr>) = Inr s'"
  using assms by (auto simp: applyRevealSlots_def result_simps split: PokerMove.splits if_splits option.splits)

lemma applyRevealSlots_money:
  assumes "moneyOk s" "0 \<le> ante" "applyRevealSlots H ante s m by1 = Inr s'"
  shows "moneyOk s' \<and> pk_total s' = pk_total s"
  using assms(3)
proof (rule applyRevealSlots_cases)
  fix target assume "afterReveal H ante (if by1 = PartyA then s\<lparr>pk_revealsA := target\<rparr> else s\<lparr>pk_revealsB := target\<rparr>) = Inr s'"
  from afterReveal_money [OF _ assms(2) this] assms(1) show ?thesis by (simp split: if_splits)
qed

lemma applyCommit_cases:
  assumes "applyCommit H s m by1 = Inr s'"
  obtains cs secrets s1 where "m = PkCommitSlots cs secrets" "length cs = 9" "\<And>c. c \<in> set cs \<Longrightarrow> length c = 32"
    "by1 = PartyA \<and> pk_commitA s = None \<and> (\<exists>l. s1 = s\<lparr>pk_commitA := Some cs, pk_localSecretsA := l\<rparr>) \<or>
     by1 \<noteq> PartyA \<and> pk_commitB s = None \<and> (\<exists>l. s1 = s\<lparr>pk_commitB := Some cs, pk_localSecretsB := l\<rparr>)"
    "s' = (if pk_commitA s1 \<noteq> None \<and> pk_commitB s1 \<noteq> None then s1\<lparr>pk_phase := OpenPrivateHoles\<rparr> else s1)"
proof -
  obtain cs0 secrets where m: "m = PkCommitSlots cs0 secrets" using assms by (auto simp: applyCommit_def split: PokerMove.splits)
  then obtain cs l where cs: "validateCommitments cs0 = Inr cs" and
    r: "bindE (if by1 = PartyA then (if pk_commitA s \<noteq> None then Inl (Error ''A already committed'')
                    else Inr (s\<lparr>pk_commitA := Some cs, pk_localSecretsA := (case l of None \<Rightarrow> pk_localSecretsA s | Some l \<Rightarrow> Some (map Some l))\<rparr>))
                 else (if pk_commitB s \<noteq> None then Inl (Error ''B already committed'')
                    else Inr (s\<lparr>pk_commitB := Some cs, pk_localSecretsB := (case l of None \<Rightarrow> pk_localSecretsB s | Some l \<Rightarrow> Some (map Some l))\<rparr>)))
            (\<lambda>s1. Inr (if pk_commitA s1 \<noteq> None \<and> pk_commitB s1 \<noteq> None then s1\<lparr>pk_phase := OpenPrivateHoles\<rparr> else s1)) = Inr s'"
    using assms unfolding applyCommit_def by (auto simp: bindE_eq_Inr)
  have "cs0 = cs" "length cs = 9" "\<And>c. c \<in> set cs \<Longrightarrow> length c = 32"
  proof -
    have a: "length cs0 = 9" "list_all2 (\<lambda>x y. (if length x \<noteq> 32 then Inl (Error ''commitment must be 32 bytes'') else Inr x) = Inr y) cs0 cs"
      using cs by (auto simp: validateCommitments_def mapE_Inr_iff SLOT_COUNT_def split: if_splits)
    then have "list_all2 (\<lambda>x y. x = y \<and> length x = 32) cs0 cs" by (auto elim!: list_all2_mono split: if_splits)
    then have "cs0 = cs \<and> (\<forall>c\<in>set cs. length c = 32)"
      by (induction rule: list_all2_induct) auto
    then show "cs0 = cs" "length cs = 9" "\<And>c. c \<in> set cs \<Longrightarrow> length c = 32" using a(1) by auto
  qed
  note cs' = this
  show thesis
  proof (cases "by1 = PartyA")
    case True
    then have "pk_commitA s = None" using r by (auto split: if_splits)
    with True r show thesis by (intro that [OF m [unfolded cs'(1)] cs'(2,3)]) auto
  next
    case False
    then have "pk_commitB s = None" using r by (auto split: if_splits)
    with False r show thesis by (intro that [OF m [unfolded cs'(1)] cs'(2,3)]) auto
  qed
qed

lemma moneyOk_open:
  "moneyOk s \<Longrightarrow> pk_phase s = CommitPhase \<Longrightarrow> moneyOk (s\<lparr>pk_phase := OpenPrivateHoles\<rparr>)"
  by (simp add: money_defs phase_kinds)

lemma applyCommit_money:
  assumes "moneyOk s" "pk_phase s = CommitPhase" "applyCommit H s m by1 = Inr s'"
  shows "moneyOk s' \<and> pk_total s' = pk_total s"
  using assms(3)
proof (rule applyCommit_cases)
  fix cs s1 assume s1: "by1 = PartyA \<and> pk_commitA s = None \<and> (\<exists>l. s1 = s\<lparr>pk_commitA := Some cs, pk_localSecretsA := l\<rparr>) \<or>
     by1 \<noteq> PartyA \<and> pk_commitB s = None \<and> (\<exists>l. s1 = s\<lparr>pk_commitB := Some cs, pk_localSecretsB := l\<rparr>)"
    and s': "s' = (if pk_commitA s1 \<noteq> None \<and> pk_commitB s1 \<noteq> None then s1\<lparr>pk_phase := OpenPrivateHoles\<rparr> else s1)"
  have "moneyOk s1" "pk_phase s1 = CommitPhase" "pk_total s1 = pk_total s" using s1 assms(1,2) by auto
  with moneyOk_open [of s1] show ?thesis by (simp add: s')
qed

lemma applyBet_money:
  assumes "moneyOk s" "betPhase (pk_phase s)" "applyBet s m by1 = Inr s'"
  shows "moneyOk s' \<and> pk_total s' = pk_total s"
proof -
  have b: "potOk s" "streetOk s" using assms(1,2) by (simp_all add: moneyOk_def betsOk_bet)
  have by1: "by1 = pk_toAct s" using assms(3) by (auto simp: applyBet_def split: if_splits)
  have f: "betsOk s' \<Longrightarrow> sameFunds s s' \<Longrightarrow> ?thesis" using assms(1) by (simp add: moneyOk_def sameFunds_def)
  show ?thesis
  proof (cases m)
    case PkFold
    then show ?thesis using assms(3) fold_money [OF assms(1)] phase_disjoint(2) [OF assms(2)] by (auto simp: applyBet_def by1)
  next
    case (PkBet a)
    then show ?thesis using assms(3) f applyBetOrRaise_money [OF assms(2) b, of a s'] by (simp add: applyBet_def by1)
  next
    case PkCheck
    then show ?thesis using assms(3) f applyCheck_money [OF assms(2) b, of s'] by (simp add: applyBet_def by1)
  next
    case PkCall
    then show ?thesis using assms(3) f applyCall_money [OF assms(2) b, of s'] by (simp add: applyBet_def by1)
  qed (use assms(3) by1 in \<open>simp_all add: applyBet_def\<close>)
qed

text \<open>A forfeit is a fold of the opponent in a reveal phase.\<close>

lemma pk_claimForfeit_cases:
  assumes "pk_claimForfeit s by1 = Inr s'"
  obtains oppOwes where "expectedQuantumPokerRevealSlots s by1 = Inr []"
    "expectedQuantumPokerRevealSlots s (otherParty by1) = Inr oppOwes" "oppOwes \<noteq> []"
    "s' = resolveFold (s\<lparr>pk_foldedBy := Some (otherParty by1)\<rparr>)"
proof (cases "expectedQuantumPokerRevealSlots s by1")
  case (Inr mine)
  show thesis
  proof (cases "expectedQuantumPokerRevealSlots s (otherParty by1)")
    case (Inr opp)
    with \<open>expectedQuantumPokerRevealSlots s by1 = Inr mine\<close> assms show thesis
      by (auto simp: pk_claimForfeit_def Let_def intro!: that split: if_splits)
  qed (use assms in \<open>auto simp: pk_claimForfeit_def Let_def split: sum.splits\<close>)
qed (use assms in \<open>simp add: pk_claimForfeit_def Let_def\<close>)

lemma expected_phase: "expectedQuantumPokerRevealSlots s by1 = Inr xs \<Longrightarrow> pk_phase s = OpenPrivateHoles \<or> boardPhase (pk_phase s)"
  by (auto simp: expectedQuantumPokerRevealSlots_def boardPhase_def split: PokerPhase.splits)

lemma pk_claimForfeit_money:
  assumes "moneyOk s" "pk_claimForfeit s by1 = Inr s'"
  shows "moneyOk s' \<and> pk_total s' = pk_total s"
  using assms(2)
proof (rule pk_claimForfeit_cases)
  assume e: "expectedQuantumPokerRevealSlots s by1 = Inr []" and s': "s' = resolveFold (s\<lparr>pk_foldedBy := Some (otherParty by1)\<rparr>)"
  have "pk_phase s \<noteq> HandOver" using expected_phase [OF e] by (auto simp: boardPhase_def)
  from fold_money [OF assms(1) this] show ?thesis by (simp add: s')
qed

lemma resetHandFields_money:
  "moneyOk s \<Longrightarrow> ph = CommitPhase \<or> ph = Done \<Longrightarrow> moneyOk ((resetHandFields (s\<lparr>pk_handNo := n\<rparr>))\<lparr>pk_phase := ph\<rparr>)"
  by (simp add: resetHandFields_def moneyOk_def betsOk_def phase_kinds) (elim disjE; simp)

lemma applyNextHand_money:
  assumes "moneyOk s" "applyNextHand ante s m = Inr s'"
  shows "moneyOk s' \<and> pk_total s' = pk_total s"
  using assms resetHandFields_money [OF assms(1)]
  by (auto simp: applyNextHand_def Let_def resetHandFields_def split: PokerMove.splits)

lemma pk_step_money:
  assumes "moneyOk s" "0 \<le> ante" "pk_applyMove H ante s m by1 = Inr s'"
  shows "moneyOk s' \<and> pk_total s' = pk_total s"
proof (cases "m = PkForfeit")
  case True
  then show ?thesis using assms(3) pk_claimForfeit_money [OF assms(1)] by (simp add: pk_applyMove_def)
next
  case False
  note R = applyRevealSlots_money [OF assms(1,2), of H m by1 s'] and B = applyBet_money [OF assms(1), of m by1 s']
  show ?thesis
    using False assms(3) R B applyCommit_money [OF assms(1), of H m by1 s'] applyNextHand_money [OF assms(1), of ante m s']
    by (cases "pk_phase s") (simp_all add: pk_applyMove_def betPhase_def)
qed

subsection \<open>The total never changes\<close>

lemma advanceStreet_total: "advanceStreet s = Inr s' \<Longrightarrow> pk_total s' = pk_total s"
  by (cases "pk_phase s") (auto simp: advanceStreet_def)

lemma afterBetAction_total: "afterBetAction s = Inr s' \<Longrightarrow> pk_total s' = pk_total s"
  by (auto simp: afterBetAction_def dest: advanceStreet_total split: if_splits)

lemma resolveFold_total [simp]: "pk_total (resolveFold s) = pk_total s"
  by (simp add: resolveFold_def Let_def)

lemma applyBet_total: "applyBet s m by1 = Inr s' \<Longrightarrow> pk_total s' = pk_total s"
  by (cases m) (auto simp: applyBet_def applyCheck_def applyBetOrRaise_def applyCall_def Let_def
      dest!: afterBetAction_total split: if_splits)

lemma tryRevealBoardThenBet_total: "tryRevealBoardThenBet H s slots ph = Inr s' \<Longrightarrow> pk_total s' = pk_total s"
  using revealBoard_frame [of H s "pk_board s" slots]
  by (fastforce simp: tryRevealBoardThenBet_def result_simps beginStreet_def split: if_splits)

lemma pk_resolveShowdown_total: "pk_resolveShowdown s = Inr s' \<Longrightarrow> pk_total s' = pk_total s"
  by (erule showdown_cases) (simp split: PokerWinner.splits)

lemma afterReveal_total: "afterReveal H ante s = Inr s' \<Longrightarrow> pk_total s' = pk_total s"
  by (cases "pk_phase s")
    (auto simp: afterReveal_def Let_def result_simps postAntesAndBeginStreet_def beginStreet_def
      dest!: tryRevealBoardThenBet_total pk_resolveShowdown_total split: if_splits)

lemma applyRevealSlots_total: "applyRevealSlots H ante s m by1 = Inr s' \<Longrightarrow> pk_total s' = pk_total s"
  by (erule applyRevealSlots_cases) (drule afterReveal_total, simp split: if_splits)

lemma applyCommit_total: "applyCommit H s m by1 = Inr s' \<Longrightarrow> pk_total s' = pk_total s"
  by (erule applyCommit_cases) auto

lemma pk_step_total:
  assumes "pk_applyMove H ante s m by1 = Inr s'"
  shows "pk_total s' = pk_total s"
proof (cases "m = PkForfeit")
  case True
  then show ?thesis using assms by (auto simp: pk_applyMove_def elim!: pk_claimForfeit_cases)
next
  case False
  have "applyNextHand ante s m = Inr s' \<Longrightarrow> pk_total s' = pk_total s"
    by (auto simp: applyNextHand_def Let_def resetHandFields_def split: PokerMove.splits)
  then show ?thesis
    using False assms applyRevealSlots_total [of H ante s m by1 s'] applyBet_total [of s m by1 s'] applyCommit_total [of H s m by1 s']
    by (cases "pk_phase s") (simp_all add: pk_applyMove_def)
qed

lemma QuantumPokerProtocol_simps [simp]:
  "p_applyMove (QuantumPokerProtocol H cap ante) = pk_applyMove H ante"
  "p_initialState (QuantumPokerProtocol H cap ante) = pk_initialState cap ante"
  "p_encodeState (QuantumPokerProtocol H cap ante) = pk_encodeState"
  "p_balances (QuantumPokerProtocol H cap ante) = pk_balances"
  "p_isTerminal (QuantumPokerProtocol H cap ante) = pk_isTerminal"
  by (simp_all add: QuantumPokerProtocol_def)

lemma pk_initialState_money: "funded (ctx_initialBalances ctx) \<Longrightarrow> moneyOk (pk_initialState cap ante ctx)"
  by (auto simp: pk_initialState_def moneyOk_def betsOk_def phase_kinds funded_def Let_def)

text \<open>The ante of the constructor is meant to be non-negative.\<close>

interpretation poker: conserving_protocol "QuantumPokerProtocol H cap (int ante)" moneyOk pk_total for H cap ante
proof unfold_locales
  show "moneyOk (p_initialState (QuantumPokerProtocol H cap (int ante)) ctx)" if "funded (ctx_initialBalances ctx)" for ctx
    using that by (simp add: pk_initialState_money)
  show "moneyOk s'" if "moneyOk s" "seat by1" "p_applyMove (QuantumPokerProtocol H cap (int ante)) s m by1 = Inr s'" for s m by1 s'
    using that pk_step_money [of s "int ante" H m by1 s'] by simp
qed (simp_all add: pk_initialState_def Let_def pk_step_total balanceSum_def pk_balances_def moneyOk_def funded_def)

end
