(* ===== verification/Poker_Slots.thy ===== *)
theory Poker_Slots
  imports Poker_Invariant
begin

section \<open>Slots and board of Quantum Poker\<close>

text \<open>
  Which slots a seat may, must and must not have revealed in each phase, and the invariant that says so:
  own hole cards and later board cards stay hidden until they are due, every public reveal opens the
  commitment of its slot, and the board consists of distinct cards derived from the reveals of both seats.
\<close>

subsection \<open>The slots of a phase\<close>

definition ownHoles :: "Party \<Rightarrow> nat list" where
  "ownHoles p = (if p = PartyA then [0, 1] else [2, 3])"

definition oppHoles :: "Party \<Rightarrow> nat list" where
  "oppHoles p = (if p = PartyA then [2, 3] else [0, 1])"

text \<open>The slots a seat has to reveal in a phase.\<close>

fun dueSlots :: "PokerPhase \<Rightarrow> Party \<Rightarrow> nat list" where
  "dueSlots OpenPrivateHoles p = oppHoles p"
| "dueSlots RevealFlop p = [4, 5, 6]"
| "dueSlots RevealTurn p = [7]"
| "dueSlots RevealRiver p = [8]"
| "dueSlots Showdown p = ownHoles p"
| "dueSlots _ p = []"

text \<open>The slots a seat must not have revealed yet.\<close>

fun hiddenSlots :: "PokerPhase \<Rightarrow> Party \<Rightarrow> nat list" where
  "hiddenSlots CommitPhase p = [0, 1, 2, 3, 4, 5, 6, 7, 8]"
| "hiddenSlots OpenPrivateHoles p = ownHoles p @ [4, 5, 6, 7, 8]"
| "hiddenSlots PreflopBet p = ownHoles p @ [4, 5, 6, 7, 8]"
| "hiddenSlots RevealFlop p = ownHoles p @ [7, 8]"
| "hiddenSlots FlopBet p = ownHoles p @ [7, 8]"
| "hiddenSlots RevealTurn p = ownHoles p @ [8]"
| "hiddenSlots TurnBet p = ownHoles p @ [8]"
| "hiddenSlots RevealRiver p = ownHoles p"
| "hiddenSlots RiverBet p = ownHoles p"
| "hiddenSlots _ p = []"

text \<open>The slots a seat has revealed in earlier phases.\<close>

fun openSlots :: "PokerPhase \<Rightarrow> Party \<Rightarrow> nat list" where
  "openSlots PreflopBet p = oppHoles p"
| "openSlots RevealFlop p = oppHoles p"
| "openSlots FlopBet p = oppHoles p @ [4, 5, 6]"
| "openSlots RevealTurn p = oppHoles p @ [4, 5, 6]"
| "openSlots TurnBet p = oppHoles p @ [4, 5, 6, 7]"
| "openSlots RevealRiver p = oppHoles p @ [4, 5, 6, 7]"
| "openSlots RiverBet p = oppHoles p @ [4, 5, 6, 7, 8]"
| "openSlots Showdown p = oppHoles p @ [4, 5, 6, 7, 8]"
| "openSlots _ p = []"

text \<open>The board slots whose cards are derived before a phase.\<close>

fun boardSlotsAt :: "PokerPhase \<Rightarrow> int list" where
  "boardSlotsAt FlopBet = [4, 5, 6]"
| "boardSlotsAt RevealTurn = [4, 5, 6]"
| "boardSlotsAt TurnBet = [4, 5, 6, 7]"
| "boardSlotsAt RevealRiver = [4, 5, 6, 7]"
| "boardSlotsAt RiverBet = [4, 5, 6, 7, 8]"
| "boardSlotsAt Showdown = [4, 5, 6, 7, 8]"
| "boardSlotsAt _ = []"

definition midHand :: "PokerPhase \<Rightarrow> bool" where
  "midHand ph \<longleftrightarrow> ph \<noteq> CommitPhase \<and> ph \<noteq> HandOver \<and> ph \<noteq> Done"

definition opensCommit :: "(bytes \<Rightarrow> bytes) \<Rightarrow> bytes list option \<Rightarrow> nat \<Rightarrow> SlotReveal \<Rightarrow> bool" where
  "opensCommit H commit i r \<longleftrightarrow>
     (case commit of None \<Rightarrow> False | Some c \<Rightarrow> verifyCommitment H (c ! i) (rv_value r) (rv_salt r) = Inr True)"

definition slotsFor ::
  "(bytes \<Rightarrow> bytes) \<Rightarrow> PokerPhase \<Rightarrow> Party \<Rightarrow> SlotReveal option list \<Rightarrow> bytes list option \<Rightarrow> bool" where
  "slotsFor H ph p reveals commit \<longleftrightarrow>
     length reveals = 9 \<and>
     (\<forall>c. commit = Some c \<longrightarrow> length c = 9) \<and>
     (midHand ph \<longrightarrow> commit \<noteq> None) \<and>
     (\<forall>i\<in>set (hiddenSlots ph p). reveals ! i = None) \<and>
     (\<forall>i\<in>set (openSlots ph p). reveals ! i \<noteq> None) \<and>
     (\<forall>i<9. \<forall>r. reveals ! i = Some r \<longrightarrow> opensCommit H commit i r)"

definition slotsOk :: "(bytes \<Rightarrow> bytes) \<Rightarrow> PokerState \<Rightarrow> bool" where
  "slotsOk H s \<longleftrightarrow> (\<forall>p\<in>{PartyA, PartyB}. slotsFor H (pk_phase s) p (revealArrayFor s p) (commitArrayFor s p)) \<and>
     (pk_phase s = CommitPhase \<longrightarrow> pk_commitA s = None \<or> pk_commitB s = None)"

definition boardCore :: "(bytes \<Rightarrow> bytes) \<Rightarrow> PokerState \<Rightarrow> bool" where
  "boardCore H s \<longleftrightarrow>
     length (pk_board s) = length (pk_boardSlots s) \<and> length (pk_boardCounters s) = length (pk_boardSlots s) \<and>
     distinct (pk_board s) \<and> set (pk_boardSlots s) \<subseteq> {4..8} \<and>
     (\<forall>i<length (pk_boardSlots s).
        deriveSlotCard H s (pk_boardSlots s ! i) (pk_boardCounters s ! i) False = Inr (Some (pk_board s ! i)))"

definition boardOk :: "(bytes \<Rightarrow> bytes) \<Rightarrow> PokerState \<Rightarrow> bool" where
  "boardOk H s \<longleftrightarrow> boardCore H s \<and> (pk_phase s \<noteq> HandOver \<longrightarrow> pk_boardSlots s = boardSlotsAt (pk_phase s))"

subsection \<open>Recording reveals\<close>

lemma sameNumberSet_mset: "sameNumberSet a b \<Longrightarrow> mset a = mset b"
  by (metis mset_sort sameNumberSet_def)

lemma sameNumberSet_set: "sameNumberSet a b \<Longrightarrow> set a = set b \<and> length a = length b"
  by (metis sameNumberSet_mset mset_eq_setD size_mset)

lemma recordReveals_Inr:
  assumes "recordReveals H commits target ps = Inr target'" "length target = 9"
  shows "length target' = 9 \<and>
    (\<forall>i<9. if int i \<in> fst ` set ps
       then target ! i = None \<and> (\<exists>r. target' ! i = Some r \<and> (int i, r) \<in> set ps \<and>
              verifyCommitment H (commits ! i) (rv_value r) (rv_salt r) = Inr True)
       else target' ! i = target ! i)"
  using assms
proof (induction H commits target ps arbitrary: target' rule: recordReveals.induct)
  case (2 H commits target slot reveal rest)
  then have s: "0 \<le> slot" "slot < 9" "target ! nat slot = None"
    and v: "verifyCommitment H (commits ! nat slot) (rv_value reveal) (rv_salt reveal) = Inr True"
    and r: "recordReveals H commits (target[nat slot := Some reveal]) rest = Inr target'"
    by (auto simp: SLOT_COUNT_def result_simps split: if_splits)
  have IH: "length target' = 9 \<and>
    (\<forall>i<9. if int i \<in> fst ` set rest
       then target[nat slot := Some reveal] ! i = None \<and> (\<exists>r. target' ! i = Some r \<and> (int i, r) \<in> set rest \<and>
              verifyCommitment H (commits ! i) (rv_value r) (rv_salt r) = Inr True)
       else target' ! i = target[nat slot := Some reveal] ! i)"
    using s v r 2(3) by (intro 2(1) [of True]) (auto simp: SLOT_COUNT_def)
  show ?case
  proof (intro conjI allI impI)
    fix i :: nat assume i: "i < 9"
    have n: "int (nat slot) = slot" using s by simp
    show "if int i \<in> fst ` set ((slot, reveal) # rest)
       then target ! i = None \<and> (\<exists>r. target' ! i = Some r \<and> (int i, r) \<in> set ((slot, reveal) # rest) \<and>
              verifyCommitment H (commits ! i) (rv_value r) (rv_salt r) = Inr True)
       else target' ! i = target ! i"
    proof (cases "i = nat slot")
      case True
      have u: "target[nat slot := Some reveal] ! i = Some reveal" using True i 2(3) by simp
      have "int i \<notin> fst ` set rest \<and> target' ! i = Some reveal"
        using IH [THEN conjunct2, rule_format, OF i] u by (auto split: if_splits)
      then show ?thesis using True s v n by auto
    next
      case False
      then show ?thesis using IH [THEN conjunct2, rule_format, OF i] n by (auto split: if_splits)
    qed
  qed (use IH in simp)
qed (auto split: if_splits)

subsection \<open>The slot invariant of a seat\<close>

lemma slot_range: "i \<in> set (hiddenSlots ph p) \<Longrightarrow> i < 9" "i \<in> set (openSlots ph p) \<Longrightarrow> i < 9" "i \<in> set (dueSlots ph p) \<Longrightarrow> i < 9"
  by (cases ph; auto simp: ownHoles_def oppHoles_def split: if_splits)+

lemma due_not_hidden: "set (dueSlots ph p) \<inter> set (hiddenSlots ph p) = {}"
  by (cases ph) (auto simp: ownHoles_def oppHoles_def)

text \<open>Passing to a phase that hides no more and asks for nothing that is not revealed.\<close>

lemma slotsFor_phase:
  assumes "slotsFor H ph p reveals commit" "set (hiddenSlots ph' p) \<subseteq> set (hiddenSlots ph p)"
    "\<And>i. i \<in> set (openSlots ph' p) \<Longrightarrow> i \<in> set (openSlots ph p) \<or> reveals ! i \<noteq> None" "midHand ph' \<Longrightarrow> midHand ph"
  shows "slotsFor H ph' p reveals commit"
  using assms unfolding slotsFor_def by blast

lemma expected_due:
  "expectedQuantumPokerRevealSlots s p = Inr e \<Longrightarrow>
   e = filter (\<lambda>slot. revealArrayFor s p ! nat slot = None) (map int (dueSlots (pk_phase s) p))"
  by (cases "pk_phase s") (auto simp: expectedQuantumPokerRevealSlots_def revealIfMissing_def slot_defs ownHoles_def oppHoles_def)

text \<open>Recording the expected reveals keeps the invariant and completes the due slots.\<close>

lemma recordReveals_slotsFor:
  assumes "slotsFor H ph p reveals (Some commits)"
    "recordReveals H commits reveals (zip slots rvs) = Inr target" "length rvs = length slots"
    "set slots = {int i | i. i \<in> set (dueSlots ph p) \<and> reveals ! i = None}"
  shows "slotsFor H ph p target (Some commits)" "\<forall>i\<in>set (dueSlots ph p). target ! i \<noteq> None"
    "\<And>i. i < 9 \<Longrightarrow> reveals ! i \<noteq> None \<Longrightarrow> target ! i = reveals ! i"
proof -
  have l: "length reveals = 9" using assms(1) by (simp add: slotsFor_def)
  have f: "fst ` set (zip slots rvs) = set slots" using assms(3) by (metis map_fst_zip set_map)
  note R = recordReveals_Inr [OF assms(2) l, unfolded f]
  have R2: "target ! i = reveals ! i \<or> i \<in> set (dueSlots ph p) \<and> reveals ! i = None \<and>
      (\<exists>r. target ! i = Some r \<and> verifyCommitment H (commits ! i) (rv_value r) (rv_salt r) = Inr True)" if "i < 9" for i
    using R [THEN conjunct2, rule_format, OF that] assms(4) by (auto split: if_splits)
  show k: "target ! i = reveals ! i" if "i < 9" "reveals ! i \<noteq> None" for i using R2 [OF that(1)] that(2) by auto
  show d: "\<forall>i\<in>set (dueSlots ph p). target ! i \<noteq> None"
  proof
    fix i assume i: "i \<in> set (dueSlots ph p)"
    then have "i < 9" by (rule slot_range)
    with i R [THEN conjunct2, rule_format, of i] assms(4) show "target ! i \<noteq> None"
      by (cases "reveals ! i = None") (auto split: if_splits)
  qed
  have "target ! i = None" if "i \<in> set (hiddenSlots ph p)" for i
    using R2 [OF slot_range(1) [OF that]] that due_not_hidden assms(1) by (auto simp: slotsFor_def)
  moreover have "target ! i \<noteq> None" if "i \<in> set (openSlots ph p)" for i
    using k [OF slot_range(2) [OF that]] that assms(1) by (auto simp: slotsFor_def)
  moreover have "opensCommit H (Some commits) i r" if "i < 9" "target ! i = Some r" for i r
    using R2 [OF that(1)] that assms(1) by (auto simp: slotsFor_def opensCommit_def)
  ultimately show "slotsFor H ph p target (Some commits)"
    using assms(1) R by (simp add: slotsFor_def)
qed

text \<open>The reveals of one seat replaced.\<close>

definition setReveals :: "PokerState \<Rightarrow> Party \<Rightarrow> SlotReveal option list \<Rightarrow> PokerState" where
  "setReveals s p target = (if p = PartyA then s\<lparr>pk_revealsA := target\<rparr> else s\<lparr>pk_revealsB := target\<rparr>)"

lemma setReveals_simps [simp]:
  "seat p \<Longrightarrow> seat q \<Longrightarrow> revealArrayFor (setReveals s p t) q = (if q = p then t else revealArrayFor s q)"
  "commitArrayFor (setReveals s p t) q = commitArrayFor s q" "pk_phase (setReveals s p t) = pk_phase s"
  "pk_board (setReveals s p t) = pk_board s" "pk_boardSlots (setReveals s p t) = pk_boardSlots s"
  "pk_boardCounters (setReveals s p t) = pk_boardCounters s" "pk_commitA (setReveals s p t) = pk_commitA s"
  "pk_commitB (setReveals s p t) = pk_commitB s"
  by (auto simp: setReveals_def revealArrayFor_def commitArrayFor_def seat_def)

lemma slotsOk_seat: "slotsOk H s \<Longrightarrow> seat p \<Longrightarrow> slotsFor H (pk_phase s) p (revealArrayFor s p) (commitArrayFor s p)"
  by (auto simp: slotsOk_def seat_def)

lemma reveal_slots:
  assumes "slotsOk H s" "seat p" "expectedQuantumPokerRevealSlots s p = Inr e" "sameNumberSet slots e"
    "length rvs = length slots" "commitArrayFor s p = Some commits"
    "recordReveals H commits (revealArrayFor s p) (zip slots rvs) = Inr target"
  shows "slotsOk H (setReveals s p target)" "\<forall>i\<in>set (dueSlots (pk_phase s) p). target ! i \<noteq> None"
    "\<And>i. i < 9 \<Longrightarrow> revealArrayFor s p ! i \<noteq> None \<Longrightarrow> target ! i = revealArrayFor s p ! i"
proof -
  have "set e = {int i | i. i \<in> set (dueSlots (pk_phase s) p) \<and> revealArrayFor s p ! i = None}"
    unfolding expected_due [OF assms(3)] by auto
  then have "set slots = {int i | i. i \<in> set (dueSlots (pk_phase s) p) \<and> revealArrayFor s p ! i = None}"
    using sameNumberSet_set [OF assms(4)] by (simp only:)
  note R = recordReveals_slotsFor [OF slotsOk_seat [OF assms(1,2), unfolded assms(6)] assms(7,5) this]
  have "slotsFor H (pk_phase s) q (revealArrayFor (setReveals s p target) q) (commitArrayFor s q)" if "seat q" for q
    using R(1) assms(2,6) that slotsOk_seat [OF assms(1) that] by (cases "q = p") simp_all
  then show "slotsOk H (setReveals s p target)" using assms(1) by (simp add: slotsOk_def)
  show "\<forall>i\<in>set (dueSlots (pk_phase s) p). target ! i \<noteq> None" by (rule R(2))
  show "\<And>i. i < 9 \<Longrightarrow> revealArrayFor s p ! i \<noteq> None \<Longrightarrow> target ! i = revealArrayFor s p ! i" by (rule R(3))
qed

subsection \<open>The board\<close>

lemma deriveUniqueBoardCard_Inr:
  "deriveUniqueBoardCard H s slot used k0 = Inr (c, k) \<Longrightarrow>
   k0 \<le> k \<and> k < 10000 \<and> deriveSlotCard H s slot k False = Inr (Some c) \<and> c \<notin> set used \<and>
   (\<forall>j. k0 \<le> j \<and> j < k \<longrightarrow> (\<exists>d\<in>set used. deriveSlotCard H s slot j False = Inr (Some d)))"
proof (induction H s slot used k0 rule: deriveUniqueBoardCard.induct)
  case (1 H s slot used k0)
  note eq = 1(2) [unfolded deriveUniqueBoardCard.simps [of H s slot used k0]]
  then obtain d where d: "k0 < 10000" "deriveSlotCard H s slot k0 False = Inr (Some d)"
    by (auto split: if_splits sum.splits option.splits)
  show ?case
  proof (cases "d \<in> set used")
    case True
    then have "deriveUniqueBoardCard H s slot used (k0 + 1) = Inr (c, k)" using eq d by simp
    from 1(1) [OF d(1,2) refl _ this] True d(2) show ?thesis by (auto, metis add1_zle_eq order_le_less)
  qed (use eq d in auto)
qed

lemma deriveSlotCard_cong:
  "revealArrayFor s PartyA ! nat slot = revealArrayFor s' PartyA ! nat slot \<Longrightarrow>
   revealArrayFor s PartyB ! nat slot = revealArrayFor s' PartyB ! nat slot \<Longrightarrow>
   deriveSlotCard H s slot k False = deriveSlotCard H s' slot k False"
  by (simp add: deriveSlotCard_def revealForDerivation_def)

lemma deriveSlotCard_public:
  "deriveSlotCard H s slot k False = Inr (Some c) \<Longrightarrow> seat p \<Longrightarrow> revealArrayFor s p ! nat slot \<noteq> None"
  by (auto simp: deriveSlotCard_def revealForDerivation_def seat_def split: option.splits)

lemma boardCore_setReveals:
  assumes "boardCore H s" "seat p" "\<And>i. i < 9 \<Longrightarrow> revealArrayFor s p ! i \<noteq> None \<Longrightarrow> target ! i = revealArrayFor s p ! i"
  shows "boardCore H (setReveals s p target)"
proof -
  have "deriveSlotCard H (setReveals s p target) (pk_boardSlots s ! i) (pk_boardCounters s ! i) False = Inr (Some (pk_board s ! i))"
    if i: "i < length (pk_boardSlots s)" for i
  proof -
    have d: "deriveSlotCard H s (pk_boardSlots s ! i) (pk_boardCounters s ! i) False = Inr (Some (pk_board s ! i))"
      using assms(1) i by (simp add: boardCore_def)
    have "pk_boardSlots s ! i \<in> {4..8}" using assms(1) nth_mem [OF i] by (auto simp: boardCore_def)
    then have "nat (pk_boardSlots s ! i) < 9" by auto
    with assms(3) deriveSlotCard_public [OF d assms(2)] have "target ! nat (pk_boardSlots s ! i) = revealArrayFor s p ! nat (pk_boardSlots s ! i)" by simp
    with d assms(2) show ?thesis
      by (subst deriveSlotCard_cong [of _ _ s]) (auto simp: setReveals_simps(1) [OF assms(2)])
  qed
  with assms(1) show ?thesis by (simp add: boardCore_def)
qed

lemma boardCore_extend:
  assumes "boardCore H s" "deriveSlotCard H s slot k False = Inr (Some c)" "c \<notin> set (pk_board s)" "slot \<in> {4..8}"
  shows "boardCore H (s\<lparr>pk_board := pk_board s @ [c], pk_boardSlots := pk_boardSlots s @ [slot], pk_boardCounters := pk_boardCounters s @ [k]\<rparr>)"
    (is "boardCore H ?s")
proof -
  have e: "deriveSlotCard H ?s sl n False = deriveSlotCard H s sl n False" for sl n
    by (rule deriveSlotCard_cong) (simp_all add: revealArrayFor_def)
  have "deriveSlotCard H s ((pk_boardSlots s @ [slot]) ! i) ((pk_boardCounters s @ [k]) ! i) False = Inr (Some ((pk_board s @ [c]) ! i))"
    if "i < Suc (length (pk_boardSlots s))" for i
    using that assms(1,2) by (cases "i = length (pk_boardSlots s)") (auto simp: boardCore_def nth_append)
  then show ?thesis using assms(1,3,4) unfolding boardCore_def e by auto
qed

lemma revealBoard_core:
  assumes "revealBoard H s used slots = Inr s'" "boardCore H s" "set used = set (pk_board s)"
    "distinct slots" "set slots \<subseteq> {4..8}" "set slots \<inter> set (pk_boardSlots s) = {}"
  shows "boardCore H s' \<and> pk_boardSlots s' = pk_boardSlots s @ slots"
  using assms
proof (induction H s used slots rule: revealBoard.induct)
  case (2 H s used slot slots)
  have n: "slot \<notin> set (pk_boardSlots s)" using 2 by auto
  then obtain c k where ck: "deriveUniqueBoardCard H s slot used 0 = Inr (c, k)"
    and r: "revealBoard H (s\<lparr>pk_board := pk_board s @ [c], pk_boardSlots := pk_boardSlots s @ [slot],
        pk_boardCounters := pk_boardCounters s @ [k]\<rparr>) (c # used) slots = Inr s'"
    using 2(3) by (auto simp: result_simps)
  have "boardCore H (s\<lparr>pk_board := pk_board s @ [c], pk_boardSlots := pk_boardSlots s @ [slot], pk_boardCounters := pk_boardCounters s @ [k]\<rparr>)"
    using deriveUniqueBoardCard_Inr [OF ck] 2 by (intro boardCore_extend) auto
  from 2(2) [OF n r this] 2(5-) n show ?case by auto
qed simp

definition sameCards :: "PokerState \<Rightarrow> PokerState \<Rightarrow> bool" where
  "sameCards s s' \<longleftrightarrow> pk_revealsA s' = pk_revealsA s \<and> pk_revealsB s' = pk_revealsB s \<and> pk_commitA s' = pk_commitA s \<and>
     pk_commitB s' = pk_commitB s \<and> pk_board s' = pk_board s \<and> pk_boardSlots s' = pk_boardSlots s \<and>
     pk_boardCounters s' = pk_boardCounters s"

lemma sameCards_arrays:
  "sameCards s s' \<Longrightarrow> revealArrayFor s' p = revealArrayFor s p" "sameCards s s' \<Longrightarrow> commitArrayFor s' p = commitArrayFor s p"
  by (simp_all add: sameCards_def revealArrayFor_def commitArrayFor_def)

lemma sameCards_boardCore: "sameCards s s' \<Longrightarrow> boardCore H s' = boardCore H s"
  using deriveSlotCard_cong [of s' _ s H] sameCards_arrays [of s s']
  by (simp add: boardCore_def sameCards_def)

text \<open>A later phase over the same cards, after the slots of \<open>slots\<close> were completed.\<close>

definition laterPhase :: "PokerPhase \<Rightarrow> nat list \<Rightarrow> PokerPhase \<Rightarrow> bool" where
  "laterPhase ph slots ph' \<longleftrightarrow> ph' \<noteq> CommitPhase \<and> (midHand ph' \<longrightarrow> midHand ph) \<and>
     (\<forall>p. set (hiddenSlots ph' p) \<subseteq> set (hiddenSlots ph p) \<and> set (openSlots ph' p) \<subseteq> set (openSlots ph p) \<union> set slots)"

lemma slotsOk_later:
  assumes "slotsOk H s" "sameCards s s'" "laterPhase (pk_phase s) slots (pk_phase s')"
    "\<And>p i. seat p \<Longrightarrow> i \<in> set slots \<Longrightarrow> revealArrayFor s p ! i \<noteq> None"
  shows "slotsOk H s'"
proof -
  have "slotsFor H (pk_phase s') p (revealArrayFor s p) (commitArrayFor s p)" if "seat p" for p
  proof (rule slotsFor_phase [OF slotsOk_seat [OF assms(1) that]])
    show "i \<in> set (openSlots (pk_phase s) p) \<or> revealArrayFor s p ! i \<noteq> None" if "i \<in> set (openSlots (pk_phase s') p)" for i
      using assms(3,4) that \<open>seat p\<close> unfolding laterPhase_def by blast
  qed (use assms(3) in \<open>auto simp: laterPhase_def\<close>)
  then show ?thesis using assms(2,3) sameCards_arrays [OF assms(2)] by (simp add: slotsOk_def laterPhase_def)
qed

definition cardsOk :: "(bytes \<Rightarrow> bytes) \<Rightarrow> PokerState \<Rightarrow> bool" where
  "cardsOk H s \<longleftrightarrow> slotsOk H s \<and> boardOk H s"

lemma cardsOk_later:
  assumes "cardsOk H s" "sameCards s s'" "laterPhase (pk_phase s) [] (pk_phase s')" "pk_phase s \<noteq> HandOver"
    "pk_phase s' = HandOver \<or> boardSlotsAt (pk_phase s') = boardSlotsAt (pk_phase s)"
  shows "cardsOk H s'"
  using assms slotsOk_later [of H s s' "[]"] sameCards_boardCore [OF assms(2), of H]
  by (auto simp: cardsOk_def boardOk_def sameCards_def)

lemma laterPhase_HandOver: "laterPhase ph [] HandOver"
  by (simp add: laterPhase_def midHand_def)

lemma laterPhase_same: "ph \<noteq> CommitPhase \<Longrightarrow> laterPhase ph [] ph"
  by (simp add: laterPhase_def)

lemma laterPhase_nextReveal:
  "betPhase ph \<Longrightarrow> laterPhase ph [] (nextReveal ph) \<and> boardSlotsAt (nextReveal ph) = boardSlotsAt ph"
  by (auto simp: laterPhase_def betPhase_def nextReveal_def midHand_def)

subsection \<open>Betting, folding and forfeiting keep the cards\<close>

lemma bet_setters_cards [simp]:
  "sameCards s (markActed t p b) = sameCards s t" "sameCards s (setStreetBet t p v) = sameCards s t"
  "sameCards s (addTotalBet t p v) = sameCards s t" "sameCards s (t\<lparr>pk_toAct := q\<rparr>) = sameCards s t"
  "sameCards s (pk_settle t w a) = sameCards s t" "sameCards s s"
  by (auto simp: sameCards_def bet_setters pk_settle_def Let_def)

lemma afterBetAction_cards:
  assumes "afterBetAction t = Inr s'" "betPhase (pk_phase t)"
  shows "(\<forall>s. sameCards s s' = sameCards s t) \<and> (pk_phase s' = pk_phase t \<or> pk_phase s' = nextReveal (pk_phase t))"
  using assms by (auto simp: afterBetAction_def advanceStreet_eq sameCards_def split: if_splits)

lemma resolveFold_cards: "sameCards s (resolveFold (s\<lparr>pk_foldedBy := f\<rparr>)) \<and> pk_phase (resolveFold (s\<lparr>pk_foldedBy := f\<rparr>)) = HandOver"
  by (simp add: resolveFold_def Let_def sameCards_def pk_settle_def)

lemma applyBet_cards:
  assumes "applyBet s m by1 = Inr s'" "betPhase (pk_phase s)"
  shows "sameCards s s' \<and> (pk_phase s' = pk_phase s \<or> pk_phase s' = nextReveal (pk_phase s) \<or> pk_phase s' = HandOver)"
proof (cases m)
  case PkFold
  then show ?thesis using assms(1) resolveFold_cards [of s] by (auto simp: applyBet_def split: if_splits)
next
  case PkCheck
  then have "afterBetAction (markActed s by1 True) = Inr s'"
    using assms(1) by (simp add: applyBet_def applyCheck_def Let_def split: if_splits)
  from afterBetAction_cards [OF this] assms(2) show ?thesis by auto
next
  case PkCall
  then obtain t where "afterBetAction t = Inr s'" "pk_phase t = pk_phase s" "sameCards s t"
    using assms(1) by (simp add: applyBet_def applyCall_def Let_def split: if_splits)
  with afterBetAction_cards [of t s'] assms(2) show ?thesis by auto
next
  case (PkBet a)
  then show ?thesis using assms by (auto simp: applyBet_def applyBetOrRaise_def Let_def split: if_splits)
qed (use assms in \<open>simp_all add: applyBet_def split: if_splits\<close>)

lemma applyBet_cardsOk:
  assumes "cardsOk H s" "applyBet s m by1 = Inr s'" "betPhase (pk_phase s)"
  shows "cardsOk H s'"
  using applyBet_cards [OF assms(2,3)] laterPhase_same [of "pk_phase s"] laterPhase_nextReveal [OF assms(3)]
    laterPhase_HandOver [of "pk_phase s"] phase_disjoint(2) [OF assms(3)]
  by (intro cardsOk_later [OF assms(1)]) auto

lemma pk_claimForfeit_cardsOk:
  assumes "cardsOk H s" "pk_claimForfeit s by1 = Inr s'"
  shows "cardsOk H s'"
  using assms(2)
proof (rule pk_claimForfeit_cases)
  assume e: "expectedQuantumPokerRevealSlots s by1 = Inr []" and s': "s' = resolveFold (s\<lparr>pk_foldedBy := Some (otherParty by1)\<rparr>)"
  have "pk_phase s \<noteq> HandOver" using expected_phase [OF e] by (auto simp: boardPhase_def)
  with resolveFold_cards [of s] show ?thesis
    by (intro cardsOk_later [OF assms(1)]) (auto simp: s' laterPhase_HandOver)
qed

subsection \<open>Reveals\<close>

lemma hasRevealed_nat: "hasRevealed s p slots \<longleftrightarrow> (\<forall>i\<in>set slots. revealArrayFor s p ! nat i \<noteq> None)"
  by (simp add: hasRevealed_def list_all_iff)

lemma tryRevealBoardThenBet_cardsOk:
  assumes "cardsOk H s" "tryRevealBoardThenBet H s slots ph' = Inr s'" "pk_phase s \<noteq> HandOver"
    and slots: "distinct slots" "set slots \<subseteq> {4..8}" "set slots \<inter> set (boardSlotsAt (pk_phase s)) = {}"
    and later: "\<And>ph2. ph2 = ph' \<or> ph2 = (if ph' = FlopBet then RevealTurn else if ph' = TurnBet then RevealRiver else Showdown) \<Longrightarrow>
      laterPhase (pk_phase s) (map nat slots) ph2 \<and> boardSlotsAt ph2 = boardSlotsAt (pk_phase s) @ slots"
  shows "cardsOk H s'"
proof (cases "\<not> hasRevealed s PartyA slots \<or> \<not> hasRevealed s PartyB slots")
  case True
  with assms show ?thesis by (simp add: tryRevealBoardThenBet_def)
next
  case False
  then obtain s1 where s1: "revealBoard H s (pk_board s) slots = Inr s1"
    and s': "s' = (if bettingClosed s1 then s1\<lparr>pk_phase := (if ph' = FlopBet then RevealTurn
       else if ph' = TurnBet then RevealRiver else Showdown)\<rparr> else beginStreet s1 ph')"
    using assms(2) by (auto simp: tryRevealBoardThenBet_def result_simps)
  have bs: "pk_boardSlots s = boardSlotsAt (pk_phase s)" "boardCore H s" using assms(1,3) by (simp_all add: cardsOk_def boardOk_def)
  then have core: "boardCore H s1 \<and> pk_boardSlots s1 = boardSlotsAt (pk_phase s) @ slots"
    using revealBoard_core [OF s1 bs(2)] slots by simp
  obtain b bl bc where e: "s1 = s\<lparr>pk_board := b, pk_boardSlots := bl, pk_boardCounters := bc\<rparr>"
    using revealBoard_frame [OF s1] by auto
  define ph2 where "ph2 = pk_phase s'"
  have same: "sameCards s1 s'" by (simp add: s' sameCards_def beginStreet_def)
  have ph2: "ph2 = ph' \<or> ph2 = (if ph' = FlopBet then RevealTurn else if ph' = TurnBet then RevealRiver else Showdown)"
    by (simp add: ph2_def s' beginStreet_def)
  have rv: "revealArrayFor s1 p ! i \<noteq> None" if "seat p" "i \<in> set (map nat slots)" for p i
    using False that by (auto simp: hasRevealed_nat e revealArrayFor_def seat_def)
  have so: "slotsOk H s1" using assms(1) by (simp add: e cardsOk_def slotsOk_def revealArrayFor_def commitArrayFor_def)
  have "slotsOk H s'"
    using later [OF ph2] by (intro slotsOk_later [OF so same, of "map nat slots"] rv) (simp_all add: e ph2_def)
  moreover have "boardOk H s'"
    using core sameCards_boardCore [OF same] same later [OF ph2] by (simp add: boardOk_def sameCards_def ph2_def)
  ultimately show ?thesis by (simp add: cardsOk_def)
qed

lemma board_tables:
  "laterPhase RevealFlop (map nat FLOP_SLOTS) FlopBet" "laterPhase RevealFlop (map nat FLOP_SLOTS) RevealTurn"
  "laterPhase RevealTurn (map nat TURN_SLOTS) TurnBet" "laterPhase RevealTurn (map nat TURN_SLOTS) RevealRiver"
  "laterPhase RevealRiver (map nat RIVER_SLOTS) RiverBet" "laterPhase RevealRiver (map nat RIVER_SLOTS) Showdown"
  by (auto simp: laterPhase_def midHand_def slot_defs)

lemma afterReveal_cardsOk:
  assumes "cardsOk H s" "afterReveal H ante s = Inr s'"
  shows "cardsOk H s'"
proof (cases "pk_phase s")
  case OpenPrivateHoles
  show ?thesis
  proof (cases "hasRevealed s PartyA B_HOLE_SLOTS \<and> hasRevealed s PartyB A_HOLE_SLOTS")
    case True
    then obtain hA hB where "postAntesAndBeginStreet ante (s\<lparr>pk_holeA := hA, pk_holeB := hB\<rparr>) = Inr s'"
      using assms(2) OpenPrivateHoles by (auto simp: afterReveal_def result_simps)
    then have s': "sameCards s s'" "pk_phase s' = PreflopBet"
      by (auto simp: postAntesAndBeginStreet_def beginStreet_def sameCards_def split: if_splits)
    have "slotsFor H PreflopBet p (revealArrayFor s p) (commitArrayFor s p)" if "seat p" for p
      using True that OpenPrivateHoles
      by (intro slotsFor_phase [OF slotsOk_seat [OF _ that]])
        (use assms(1) in \<open>auto simp: cardsOk_def midHand_def hasRevealed_nat slot_defs oppHoles_def seat_def\<close>)
    then have "slotsOk H s'" using s' sameCards_arrays [OF s'(1)] by (simp add: slotsOk_def)
    then show ?thesis
      using s' sameCards_boardCore [OF s'(1), of H] assms(1) OpenPrivateHoles by (simp add: cardsOk_def boardOk_def sameCards_def)
  qed (use assms OpenPrivateHoles in \<open>auto simp: afterReveal_def\<close>)
next
  case Showdown
  show ?thesis
  proof (cases "hasRevealed s PartyA A_HOLE_SLOTS \<and> hasRevealed s PartyB B_HOLE_SLOTS")
    case True
    then obtain hA hB where "pk_resolveShowdown (s\<lparr>pk_shownA := True, pk_shownB := True, pk_shownHoleA := Some hA, pk_shownHoleB := Some hB\<rparr>) = Inr s'"
      using assms(2) Showdown by (auto simp: afterReveal_def Let_def result_simps)
    then have "sameCards s s' \<and> pk_phase s' = HandOver"
      by (rule showdown_cases) (auto simp: sameCards_def pk_settle_def Let_def split: PokerWinner.splits)
    then show ?thesis using Showdown by (intro cardsOk_later [OF assms(1)]) (auto simp: laterPhase_HandOver)
  qed (use assms Showdown in \<open>auto simp: afterReveal_def\<close>)
next
  case RevealFlop
  then show ?thesis using assms(2) board_tables(1,2)
    by (intro tryRevealBoardThenBet_cardsOk [OF assms(1), of FLOP_SLOTS FlopBet]) (auto simp: afterReveal_def slot_defs)
next
  case RevealTurn
  then show ?thesis using assms(2) board_tables(3,4)
    by (intro tryRevealBoardThenBet_cardsOk [OF assms(1), of TURN_SLOTS TurnBet]) (auto simp: afterReveal_def slot_defs)
next
  case RevealRiver
  then show ?thesis using assms(2) board_tables(5,6)
    by (intro tryRevealBoardThenBet_cardsOk [OF assms(1), of RIVER_SLOTS RiverBet]) (auto simp: afterReveal_def slot_defs)
qed (use assms in \<open>simp_all add: afterReveal_def\<close>)

lemma applyRevealSlots_cardsOk:
  assumes "cardsOk H s" "seat by1" "pk_phase s \<noteq> HandOver" "applyRevealSlots H ante s m by1 = Inr s'"
  shows "cardsOk H s'"
  using assms(4)
proof (rule applyRevealSlots_cases)
  fix slots rvs e commits target
  assume r: "expectedQuantumPokerRevealSlots s by1 = Inr e" "sameNumberSet slots e" "length rvs = length slots"
    "commitArrayFor s by1 = Some commits" "recordReveals H commits (revealArrayFor s by1) (zip slots rvs) = Inr target"
    and a: "afterReveal H ante (if by1 = PartyA then s\<lparr>pk_revealsA := target\<rparr> else s\<lparr>pk_revealsB := target\<rparr>) = Inr s'"
  have so: "slotsOk H s" "boardCore H s" "pk_boardSlots s = boardSlotsAt (pk_phase s)"
    using assms(1,3) by (simp_all add: cardsOk_def boardOk_def)
  note R = reveal_slots [OF so(1) assms(2) r]
  have "boardCore H (setReveals s by1 target)"
    by (rule boardCore_setReveals [OF so(2) assms(2)]) (rule R(3))
  then have "cardsOk H (setReveals s by1 target)"
    using R(1) so(3) by (simp add: cardsOk_def boardOk_def)
  then show ?thesis by (rule afterReveal_cardsOk) (use a in \<open>simp add: setReveals_def\<close>)
qed

subsection \<open>Commitments and the next hand\<close>

lemma commit_slotsFor:
  "slotsFor H CommitPhase p reveals None \<Longrightarrow> length cs = 9 \<Longrightarrow> slotsFor H CommitPhase p reveals (Some cs)"
  by (auto simp: slotsFor_def midHand_def opensCommit_def)

lemma open_slotsFor:
  "slotsFor H CommitPhase p reveals (Some cs) \<Longrightarrow> slotsFor H OpenPrivateHoles p reveals (Some cs)"
  by (auto simp: slotsFor_def ownHoles_def)

lemma applyCommit_cardsOk:
  assumes "cardsOk H s" "pk_phase s = CommitPhase" "applyCommit H s m by1 = Inr s'"
  shows "cardsOk H s'"
  using assms(3)
proof (rule applyCommit_cases)
  fix cs s1
  assume len: "length cs = 9" and s1: "by1 = PartyA \<and> pk_commitA s = None \<and> (\<exists>l. s1 = s\<lparr>pk_commitA := Some cs, pk_localSecretsA := l\<rparr>) \<or>
     by1 \<noteq> PartyA \<and> pk_commitB s = None \<and> (\<exists>l. s1 = s\<lparr>pk_commitB := Some cs, pk_localSecretsB := l\<rparr>)"
    and s': "s' = (if pk_commitA s1 \<noteq> None \<and> pk_commitB s1 \<noteq> None then s1\<lparr>pk_phase := OpenPrivateHoles\<rparr> else s1)"
  have f: "slotsFor H CommitPhase PartyA (pk_revealsA s) (pk_commitA s)" "slotsFor H CommitPhase PartyB (pk_revealsB s) (pk_commitB s)"
    using assms(1,2) by (simp_all add: cardsOk_def slotsOk_def revealArrayFor_def commitArrayFor_def)
  have e: "pk_board s' = pk_board s" "pk_boardSlots s' = pk_boardSlots s" "pk_boardCounters s' = pk_boardCounters s"
      "pk_revealsA s' = pk_revealsA s" "pk_revealsB s' = pk_revealsB s"
    using s1 by (auto simp: s')
  have ph: "pk_phase s' = (if pk_commitA s' \<noteq> None \<and> pk_commitB s' \<noteq> None then OpenPrivateHoles else CommitPhase)"
    using s1 assms(2) by (auto simp: s')
  have b: "boardOk H s'"
  proof -
    have "pk_boardSlots s = []" using assms(1,2) by (simp add: cardsOk_def boardOk_def)
    then show ?thesis using assms(1) e ph by (auto simp: cardsOk_def boardOk_def boardCore_def)
  qed
  have c: "slotsFor H CommitPhase PartyA (pk_revealsA s) (pk_commitA s')" "slotsFor H CommitPhase PartyB (pk_revealsB s) (pk_commitB s')"
    using s1 f commit_slotsFor [OF _ len] by (auto simp: s')
  have "slotsOk H s'"
    using c open_slotsFor by (auto simp: slotsOk_def revealArrayFor_def commitArrayFor_def ph e)
  with b show ?thesis by (simp add: cardsOk_def)
qed

lemma fresh_cardsOk:
  assumes "pk_phase s = CommitPhase \<or> pk_phase s = Done" "pk_commitA s = None" "pk_commitB s = None" "pk_revealsA s = emptyRevealSlots"
    "pk_revealsB s = emptyRevealSlots" "pk_board s = []" "pk_boardSlots s = []" "pk_boardCounters s = []"
  shows "cardsOk H s"
proof -
  have n: "replicate 9 None ! i = (None :: SlotReveal option)" if "i < 9" for i using that by simp
  have "slotsFor H (pk_phase s) p (replicate 9 None) None" for p
    using assms(1) n slot_range(1) by (auto simp: slotsFor_def midHand_def)
  then show ?thesis
    using assms by (auto simp: cardsOk_def boardOk_def boardCore_def slotsOk_def revealArrayFor_def commitArrayFor_def emptyRevealSlots_def SLOT_COUNT_def)
qed

lemma applyNextHand_cardsOk:
  assumes "applyNextHand ante s m = Inr s'"
  shows "cardsOk H s'"
proof -
  obtain t ph where "s' = (resetHandFields t)\<lparr>pk_phase := ph\<rparr>" "ph = CommitPhase \<or> ph = Done"
    using assms by (auto simp: applyNextHand_def Let_def split: PokerMove.splits)
  then show ?thesis by (intro fresh_cardsOk) (simp_all add: resetHandFields_def)
qed

lemma pk_step_cards:
  assumes "cardsOk H s" "seat by1" "pk_applyMove H ante s m by1 = Inr s'"
  shows "cardsOk H s'"
proof (cases "m = PkForfeit")
  case True
  then show ?thesis using assms(3) pk_claimForfeit_cardsOk [OF assms(1)] by (simp add: pk_applyMove_def)
next
  case False
  note R = applyRevealSlots_cardsOk [OF assms(1,2), of ante m s'] and B = applyBet_cardsOk [OF assms(1), of m by1 s']
  show ?thesis
    using False assms(3) R B applyCommit_cardsOk [OF assms(1), of m by1 s'] applyNextHand_cardsOk [of ante s m s' H]
    by (cases "pk_phase s") (simp_all add: pk_applyMove_def betPhase_def)
qed

definition pk_inv :: "(bytes \<Rightarrow> bytes) \<Rightarrow> PokerState \<Rightarrow> bool" where
  "pk_inv H s \<longleftrightarrow> moneyOk s \<and> cardsOk H s"

lemma pk_initialState_cards: "cardsOk H (pk_initialState cap ante ctx)"
  by (rule fresh_cardsOk) (simp_all add: pk_initialState_def Let_def)

lemma pk_step_inv:
  "pk_inv H s \<Longrightarrow> 0 \<le> ante \<Longrightarrow> seat by1 \<Longrightarrow> pk_applyMove H ante s m by1 = Inr s' \<Longrightarrow> pk_inv H s'"
  using pk_step_money pk_step_cards by (metis pk_inv_def)

text \<open>The same contract with the invariant of money and cards.\<close>

interpretation poker_cards: conserving_protocol "QuantumPokerProtocol H cap (int ante)" "pk_inv H" pk_total for H cap ante
proof unfold_locales
  show "pk_inv H (p_initialState (QuantumPokerProtocol H cap (int ante)) ctx)" if "funded (ctx_initialBalances ctx)" for ctx
    using that by (simp add: pk_inv_def pk_initialState_money pk_initialState_cards)
  show "pk_inv H s'" if "pk_inv H s" "seat by1" "p_applyMove (QuantumPokerProtocol H cap (int ante)) s m by1 = Inr s'" for s m by1 s'
    using that pk_step_inv [of H s "int ante" by1 m s'] by simp
qed (use poker.init_tot poker.step_tot poker.inv_sum poker.inv_nonneg in \<open>auto simp: pk_inv_def\<close>)

lemma poker_run_inv:
  assumes "funded (ctx_initialBalances ctx)" "list_all (\<lambda>(m, by1). seat by1) ms"
    "applyMoves (QuantumPokerProtocol H cap (int ante)) (pk_initialState cap (int ante) ctx) ms = Inr s"
  shows "pk_inv H s" "pk_total s = bal_a (ctx_initialBalances ctx) + bal_b (ctx_initialBalances ctx)"
  using poker_cards.run_inv [OF _ assms(2,3)] poker_cards.init_inv [OF assms(1), of H cap ante]
  by (simp_all add: pk_initialState_def Let_def)

end
