(* ===== verification/Poker_Seats.thy ===== *)
theory Poker_Seats
  imports Poker_Slots Move_Codec Sample_Hash
begin

section \<open>The two seats of Quantum Poker (protocol/quantumPoker.ts, protocol/quantumPokerCodec.ts)\<close>

text \<open>
  The relay codec, which strips the local secrets of a commitment, and the seat driver that keeps the secrets
  of each hand and chooses moves. The lemmas show that what a seat keeps to itself never influences the
  signed state, that the codec delivers every move without its secrets, and that a reveal of committed
  secrets is recorded.
\<close>

subsection \<open>The relay codec\<close>

definition expectInteger :: "json option \<Rightarrow> string \<Rightarrow> int result" where
  "expectInteger v label = (case v of Some (JNum n) \<Rightarrow> Inr n | _ \<Rightarrow> Inl (Error label))"

definition expectArray :: "json option \<Rightarrow> string \<Rightarrow> json list result" where
  "expectArray v label = (case v of Some (JArr xs) \<Rightarrow> Inr xs | _ \<Rightarrow> Inl (Error label))"

definition pk_revealToJson :: "SlotReveal \<Rightarrow> json" where
  "pk_revealToJson reveal = JObj [(''value'', JStr (hex0x (rv_value reveal))), (''salt'', JStr (hex0x (rv_salt reveal)))]"

definition pk_revealFromJson :: "json option \<Rightarrow> SlotReveal result" where
  "pk_revealFromJson v =
     bindE (expectRecord v ''reveal must be an object'') (\<lambda>reveal.
     bindE (jget reveal ''value'') (\<lambda>jv.
     bindE (bytesFromHex jv ''reveal.value must be 32 bytes'' (Some 32)) (\<lambda>value1.
     bindE (jget reveal ''salt'') (\<lambda>js.
     bindE (bytesFromHex js ''reveal.salt must be 16 bytes'' (Some 16)) (\<lambda>salt.
     Inr \<lparr>rv_value = value1, rv_salt = salt\<rparr>)))))"

definition kindJson :: "string \<Rightarrow> (string \<times> json) list \<Rightarrow> json option result" where
  "kindJson kind ps = Inr (Some (JObj ((''kind'', JStr kind) # ps)))"

fun pokerMoveToJson :: "PokerMove \<Rightarrow> json option result" where
  "pokerMoveToJson (PkCommitSlots commitments localSecrets) =
     kindJson ''commit_slots'' [(''commitments'', JArr (map (\<lambda>c. JStr (hex0x c)) commitments))]"
| "pokerMoveToJson (PkRevealSlots slots reveals) =
     kindJson ''reveal_slots'' [(''slots'', JArr (map JNum slots)), (''reveals'', JArr (map pk_revealToJson reveals))]"
| "pokerMoveToJson (PkBet amount) = kindJson ''bet'' [(''amount'', JStr (toStringInt amount))]"
| "pokerMoveToJson PkCheck = kindJson ''check'' []"
| "pokerMoveToJson PkCall = kindJson ''call'' []"
| "pokerMoveToJson PkFold = kindJson ''fold'' []"
| "pokerMoveToJson PkForfeit = kindJson ''forfeit'' []"
| "pokerMoveToJson PkNextHand = kindJson ''next_hand'' []"

definition pokerMoveFromJson :: "json option \<Rightarrow> PokerMove result" where
  "pokerMoveFromJson v =
     bindE (expectRecord v ''move must be an object'') (\<lambda>move.
     bindE (jget move ''kind'') (\<lambda>k.
     bindE (expectString k ''move.kind must be a string'') (\<lambda>kind.
     if kind = ''commit_slots'' then
       bindE (jget move ''commitments'') (\<lambda>jc.
       bindE (expectArray jc ''move.commitments must be an array'') (\<lambda>xs.
       bindE (mapE (\<lambda>c. bytesFromHex (Some c) ''commitment must be 32 bytes'' (Some 32)) xs) (\<lambda>cs.
       Inr (PkCommitSlots cs None))))
     else if kind = ''reveal_slots'' then
       bindE (jget move ''slots'') (\<lambda>js.
       bindE (expectArray js ''move.slots must be an array'') (\<lambda>xs.
       bindE (mapE (\<lambda>x. expectInteger (Some x) ''slot must be an integer'') xs) (\<lambda>slots.
       bindE (jget move ''reveals'') (\<lambda>jr.
       bindE (expectArray jr ''move.reveals must be an array'') (\<lambda>ys.
       bindE (mapE (\<lambda>y. pk_revealFromJson (Some y)) ys) (\<lambda>reveals.
       Inr (PkRevealSlots slots reveals)))))))
     else if kind = ''bet'' then
       bindE (jget move ''amount'') (\<lambda>ja.
       bindE (expectString ja ''move.amount must be a string'') (\<lambda>a.
       bindE (BigInt (Some (JStr a))) (\<lambda>amount. Inr (PkBet amount))))
     else if kind = ''check'' then Inr PkCheck
     else if kind = ''call'' then Inr PkCall
     else if kind = ''fold'' then Inr PkFold
     else if kind = ''forfeit'' then Inr PkForfeit
     else if kind = ''next_hand'' then Inr PkNextHand
     else Inl (Error ''unsupported poker move kind''))))"

definition pokerMoveCodec :: "PokerMove MoveCodec" where
  "pokerMoveCodec = \<lparr>mc_encode = pokerMoveToJson, mc_decode = pokerMoveFromJson\<rparr>"

subsection \<open>The seat driver\<close>

record QuantumPokerSeatDriver =
  sd_party :: Party
  sd_secretsByHand :: "string \<Rightarrow> SlotSecret list option"

text \<open>What the random source decides in one call: the secrets of \<open>randomSlotSecrets\<close>, the two comparisons
  with a probability, and \<open>Math.floor(rng() * n)\<close>.\<close>

record PokerDraws =
  dr_secrets :: "SlotSecret list"
  dr_call :: bool
  dr_bet :: bool
  dr_floor :: "int \<Rightarrow> int"

definition secretMapKey :: "int \<Rightarrow> string" where
  "secretMapKey handNo = toStringInt handNo"

definition secretsFor :: "QuantumPokerSeatDriver \<Rightarrow> PokerState \<Rightarrow> QuantumPokerSeatDriver \<times> SlotSecret list option" where
  "secretsFor d state =
     (let key = secretMapKey (pk_handNo state)
      in case sd_secretsByHand d key of
           Some cached \<Rightarrow> (d, Some cached)
         | None \<Rightarrow>
             (case localSecretArrayFor state (sd_party d) of
                None \<Rightarrow> (d, None)
              | Some localSecrets \<Rightarrow>
                  (if list_ex (\<lambda>x. x = None) localSecrets then (d, None)
                   else let secrets = map the localSecrets
                        in (d\<lparr>sd_secretsByHand := (sd_secretsByHand d)(key := Some secrets)\<rparr>, Some secrets))))"

definition makeCommitMove ::
  "(bytes \<Rightarrow> bytes) \<Rightarrow> QuantumPokerSeatDriver \<Rightarrow> PokerState \<Rightarrow> PokerDraws \<Rightarrow> QuantumPokerSeatDriver \<times> PokerMove option result" where
  "makeCommitMove H d state draws =
     (if pk_phase state \<noteq> CommitPhase \<or> (if sd_party d = PartyA then pk_commitA state else pk_commitB state) \<noteq> None
      then (d, Inr None)
      else
        let secrets = dr_secrets draws
        in (d\<lparr>sd_secretsByHand := (sd_secretsByHand d)(secretMapKey (pk_handNo state) := Some secrets)\<rparr>,
            bindE (commitSlotSecrets H secrets) (\<lambda>cs. Inr (Some (PkCommitSlots cs (Some secrets))))))"

definition makeRevealMove ::
  "QuantumPokerSeatDriver \<Rightarrow> PokerState \<Rightarrow> QuantumPokerSeatDriver \<times> PokerMove option result" where
  "makeRevealMove d state =
     (case expectedQuantumPokerRevealSlots state (sd_party d) of
        Inl e \<Rightarrow> (d, Inl e)
      | Inr slots \<Rightarrow>
          (if slots = [] then (d, Inr None)
           else
             case secretsFor d state of
               (d1, None) \<Rightarrow> (d1, Inr None)
             | (d1, Some secrets) \<Rightarrow>
                 (d1, bindE (mapE (\<lambda>slot. if nat slot < length secrets then Inr (secrets ! nat slot)
                                         else Inl (Error ''missing local secret for slot'')) slots) (\<lambda>reveals.
                      Inr (Some (PkRevealSlots slots reveals))))))"

fun holeCardsFrom ::
  "(bytes \<Rightarrow> bytes) \<Rightarrow> Party \<Rightarrow> PokerState \<Rightarrow> SlotSecret list \<Rightarrow> int list \<Rightarrow> int list option result" where
  "holeCardsFrom H party state secrets [] = Inr (Some [])"
| "holeCardsFrom H party state secrets (slot # slots) =
     (if nat slot < length secrets then
        (case revealArrayFor state (otherParty party) ! nat slot of
           None \<Rightarrow> Inr None
         | Some other \<Rightarrow>
             (let own = secrets ! nat slot
              in bindE (if party = PartyA then deriveQuantumCard H own other 0 else deriveQuantumCard H other own 0) (\<lambda>c.
                 bindE (holeCardsFrom H party state secrets slots) (\<lambda>cs. Inr (map_option ((#) c) cs)))))
      else Inr None)"

definition knownHoleCards ::
  "(bytes \<Rightarrow> bytes) \<Rightarrow> QuantumPokerSeatDriver \<Rightarrow> PokerState \<Rightarrow> QuantumPokerSeatDriver \<times> int list option result" where
  "knownHoleCards H d state =
     (case secretsFor d state of
        (d1, None) \<Rightarrow> (d1, Inr None)
      | (d1, Some secrets) \<Rightarrow>
          (d1, holeCardsFrom H (sd_party d) state secrets (if sd_party d = PartyA then A_HOLE_SLOTS else B_HOLE_SLOTS)))"

definition chooseBet :: "QuantumPokerSeatDriver \<Rightarrow> PokerState \<Rightarrow> PokerDraws \<Rightarrow> PokerMove option" where
  "chooseBet d s draws =
     (if pk_toAct s \<noteq> sd_party d then None
      else
        let diff = pk_streetBet s (otherParty (sd_party d)) - pk_streetBet s (sd_party d)
        in if diff > 0 then Some (if dr_call draws then PkCall else PkFold)
           else
             let available = pk_balance s (sd_party d) - pk_totalBet s (sd_party d)
             in if available > 0 \<and> dr_bet draws
                then let cap = (if available < 200 then available else 200) in Some (PkBet (1 + dr_floor draws cap))
                else Some PkCheck)"

definition chooseMove ::
  "(bytes \<Rightarrow> bytes) \<Rightarrow> QuantumPokerSeatDriver \<Rightarrow> PokerState \<Rightarrow> PokerDraws \<Rightarrow> QuantumPokerSeatDriver \<times> PokerMove option result" where
  "chooseMove H d s draws =
     (case pk_phase s of
        CommitPhase \<Rightarrow> makeCommitMove H d s draws
      | OpenPrivateHoles \<Rightarrow> makeRevealMove d s
      | RevealFlop \<Rightarrow> makeRevealMove d s
      | RevealTurn \<Rightarrow> makeRevealMove d s
      | RevealRiver \<Rightarrow> makeRevealMove d s
      | Showdown \<Rightarrow> makeRevealMove d s
      | PreflopBet \<Rightarrow> (d, Inr (chooseBet d s draws))
      | FlopBet \<Rightarrow> (d, Inr (chooseBet d s draws))
      | TurnBet \<Rightarrow> (d, Inr (chooseBet d s draws))
      | RiverBet \<Rightarrow> (d, Inr (chooseBet d s draws))
      | HandOver \<Rightarrow> (d, Inr (if sd_party d = PartyA then Some PkNextHand else None))
      | Done \<Rightarrow> (d, Inr None))"

text \<open>The drivers the protocol object keeps per party, created on first use.\<close>

definition pk_randomMove ::
  "(bytes \<Rightarrow> bytes) \<Rightarrow> (Party \<Rightarrow> QuantumPokerSeatDriver option) \<Rightarrow> PokerState \<Rightarrow> Party \<Rightarrow> PokerDraws \<Rightarrow>
   (Party \<Rightarrow> QuantumPokerSeatDriver option) \<times> PokerMove option result" where
  "pk_randomMove H drivers s by1 draws =
     (let d = (case drivers by1 of Some d \<Rightarrow> d | None \<Rightarrow> \<lparr>sd_party = by1, sd_secretsByHand = (\<lambda>_. None)\<rparr>)
      in case chooseMove H d s draws of (d1, r) \<Rightarrow> (drivers(by1 := Some d1), r))"

subsection \<open>The private part of a state\<close>

text \<open>The fields a seat keeps to itself: the local secrets and the hole cards it can derive.\<close>

definition withLocal ::
  "SlotSecret option list option \<Rightarrow> SlotSecret option list option \<Rightarrow> int list option \<Rightarrow> int list option \<Rightarrow> PokerState \<Rightarrow> PokerState" where
  "withLocal la lb ha hb s = s\<lparr>pk_localSecretsA := la, pk_localSecretsB := lb, pk_holeA := ha, pk_holeB := hb\<rparr>"

definition pk_public :: "PokerState \<Rightarrow> PokerState" where
  "pk_public s = withLocal None None None None s"

lemma withLocal_sel [simp]:
  "pk_phase (withLocal la lb ha hb s) = pk_phase s"
  "pk_handNo (withLocal la lb ha hb s) = pk_handNo s"
  "pk_handCap (withLocal la lb ha hb s) = pk_handCap s"
  "pk_commitA (withLocal la lb ha hb s) = pk_commitA s"
  "pk_commitB (withLocal la lb ha hb s) = pk_commitB s"
  "pk_revealsA (withLocal la lb ha hb s) = pk_revealsA s"
  "pk_revealsB (withLocal la lb ha hb s) = pk_revealsB s"
  "pk_board (withLocal la lb ha hb s) = pk_board s"
  "pk_boardSlots (withLocal la lb ha hb s) = pk_boardSlots s"
  "pk_boardCounters (withLocal la lb ha hb s) = pk_boardCounters s"
  "pk_totalBetA (withLocal la lb ha hb s) = pk_totalBetA s"
  "pk_totalBetB (withLocal la lb ha hb s) = pk_totalBetB s"
  "pk_streetBetA (withLocal la lb ha hb s) = pk_streetBetA s"
  "pk_streetBetB (withLocal la lb ha hb s) = pk_streetBetB s"
  "pk_toAct (withLocal la lb ha hb s) = pk_toAct s"
  "pk_actedA (withLocal la lb ha hb s) = pk_actedA s"
  "pk_actedB (withLocal la lb ha hb s) = pk_actedB s"
  "pk_foldedBy (withLocal la lb ha hb s) = pk_foldedBy s"
  "pk_shownA (withLocal la lb ha hb s) = pk_shownA s"
  "pk_shownB (withLocal la lb ha hb s) = pk_shownB s"
  "pk_shownHoleA (withLocal la lb ha hb s) = pk_shownHoleA s"
  "pk_shownHoleB (withLocal la lb ha hb s) = pk_shownHoleB s"
  "pk_winner (withLocal la lb ha hb s) = pk_winner s"
  "pk_lastResult (withLocal la lb ha hb s) = pk_lastResult s"
  "pk_balanceA (withLocal la lb ha hb s) = pk_balanceA s"
  "pk_balanceB (withLocal la lb ha hb s) = pk_balanceB s"
  "pk_total (withLocal la lb ha hb s) = pk_total s"
  by (simp_all add: withLocal_def)

lemma withLocal_upd [simp]:
  "(withLocal la lb ha hb s)\<lparr>pk_phase := x0\<rparr> = withLocal la lb ha hb (s\<lparr>pk_phase := x0\<rparr>)"
  "(withLocal la lb ha hb s)\<lparr>pk_handNo := x1\<rparr> = withLocal la lb ha hb (s\<lparr>pk_handNo := x1\<rparr>)"
  "(withLocal la lb ha hb s)\<lparr>pk_handCap := x2\<rparr> = withLocal la lb ha hb (s\<lparr>pk_handCap := x2\<rparr>)"
  "(withLocal la lb ha hb s)\<lparr>pk_commitA := x3\<rparr> = withLocal la lb ha hb (s\<lparr>pk_commitA := x3\<rparr>)"
  "(withLocal la lb ha hb s)\<lparr>pk_commitB := x4\<rparr> = withLocal la lb ha hb (s\<lparr>pk_commitB := x4\<rparr>)"
  "(withLocal la lb ha hb s)\<lparr>pk_revealsA := x5\<rparr> = withLocal la lb ha hb (s\<lparr>pk_revealsA := x5\<rparr>)"
  "(withLocal la lb ha hb s)\<lparr>pk_revealsB := x6\<rparr> = withLocal la lb ha hb (s\<lparr>pk_revealsB := x6\<rparr>)"
  "(withLocal la lb ha hb s)\<lparr>pk_board := x7\<rparr> = withLocal la lb ha hb (s\<lparr>pk_board := x7\<rparr>)"
  "(withLocal la lb ha hb s)\<lparr>pk_boardSlots := x8\<rparr> = withLocal la lb ha hb (s\<lparr>pk_boardSlots := x8\<rparr>)"
  "(withLocal la lb ha hb s)\<lparr>pk_boardCounters := x9\<rparr> = withLocal la lb ha hb (s\<lparr>pk_boardCounters := x9\<rparr>)"
  "(withLocal la lb ha hb s)\<lparr>pk_totalBetA := x10\<rparr> = withLocal la lb ha hb (s\<lparr>pk_totalBetA := x10\<rparr>)"
  "(withLocal la lb ha hb s)\<lparr>pk_totalBetB := x11\<rparr> = withLocal la lb ha hb (s\<lparr>pk_totalBetB := x11\<rparr>)"
  "(withLocal la lb ha hb s)\<lparr>pk_streetBetA := x12\<rparr> = withLocal la lb ha hb (s\<lparr>pk_streetBetA := x12\<rparr>)"
  "(withLocal la lb ha hb s)\<lparr>pk_streetBetB := x13\<rparr> = withLocal la lb ha hb (s\<lparr>pk_streetBetB := x13\<rparr>)"
  "(withLocal la lb ha hb s)\<lparr>pk_toAct := x14\<rparr> = withLocal la lb ha hb (s\<lparr>pk_toAct := x14\<rparr>)"
  "(withLocal la lb ha hb s)\<lparr>pk_actedA := x15\<rparr> = withLocal la lb ha hb (s\<lparr>pk_actedA := x15\<rparr>)"
  "(withLocal la lb ha hb s)\<lparr>pk_actedB := x16\<rparr> = withLocal la lb ha hb (s\<lparr>pk_actedB := x16\<rparr>)"
  "(withLocal la lb ha hb s)\<lparr>pk_foldedBy := x17\<rparr> = withLocal la lb ha hb (s\<lparr>pk_foldedBy := x17\<rparr>)"
  "(withLocal la lb ha hb s)\<lparr>pk_shownA := x18\<rparr> = withLocal la lb ha hb (s\<lparr>pk_shownA := x18\<rparr>)"
  "(withLocal la lb ha hb s)\<lparr>pk_shownB := x19\<rparr> = withLocal la lb ha hb (s\<lparr>pk_shownB := x19\<rparr>)"
  "(withLocal la lb ha hb s)\<lparr>pk_shownHoleA := x20\<rparr> = withLocal la lb ha hb (s\<lparr>pk_shownHoleA := x20\<rparr>)"
  "(withLocal la lb ha hb s)\<lparr>pk_shownHoleB := x21\<rparr> = withLocal la lb ha hb (s\<lparr>pk_shownHoleB := x21\<rparr>)"
  "(withLocal la lb ha hb s)\<lparr>pk_winner := x22\<rparr> = withLocal la lb ha hb (s\<lparr>pk_winner := x22\<rparr>)"
  "(withLocal la lb ha hb s)\<lparr>pk_lastResult := x23\<rparr> = withLocal la lb ha hb (s\<lparr>pk_lastResult := x23\<rparr>)"
  "(withLocal la lb ha hb s)\<lparr>pk_balanceA := x24\<rparr> = withLocal la lb ha hb (s\<lparr>pk_balanceA := x24\<rparr>)"
  "(withLocal la lb ha hb s)\<lparr>pk_balanceB := x25\<rparr> = withLocal la lb ha hb (s\<lparr>pk_balanceB := x25\<rparr>)"
  "(withLocal la lb ha hb s)\<lparr>pk_total := x26\<rparr> = withLocal la lb ha hb (s\<lparr>pk_total := x26\<rparr>)"
  by (simp_all add: withLocal_def)

lemma withLocal_local [simp]:
  "(withLocal la lb ha hb s)\<lparr>pk_localSecretsA := x\<rparr> = withLocal x lb ha hb s"
  "(withLocal la lb ha hb s)\<lparr>pk_localSecretsB := x\<rparr> = withLocal la x ha hb s"
  "(withLocal la lb ha hb s)\<lparr>pk_holeA := y\<rparr> = withLocal la lb y hb s"
  "(withLocal la lb ha hb s)\<lparr>pk_holeB := y\<rparr> = withLocal la lb ha y s"
  "withLocal la lb ha hb (s\<lparr>pk_localSecretsA := x\<rparr>) = withLocal la lb ha hb s"
  "withLocal la lb ha hb (s\<lparr>pk_localSecretsB := x\<rparr>) = withLocal la lb ha hb s"
  "withLocal la lb ha hb (s\<lparr>pk_holeA := y\<rparr>) = withLocal la lb ha hb s"
  "withLocal la lb ha hb (s\<lparr>pk_holeB := y\<rparr>) = withLocal la lb ha hb s"
  "withLocal la lb ha hb (withLocal la' lb' ha' hb' s) = withLocal la lb ha hb s"
  "pk_localSecretsA (withLocal la lb ha hb s) = la" "pk_localSecretsB (withLocal la lb ha hb s) = lb"
  by (simp_all add: withLocal_def)

lemma pk_public_withLocal [simp]: "pk_public (withLocal la lb ha hb s) = pk_public s"
  by (simp add: pk_public_def)

lemma withLocal_self: "\<exists>la lb ha hb. s = withLocal la lb ha hb s"
  by (rule exI [of _ "pk_localSecretsA s"], rule exI [of _ "pk_localSecretsB s"], rule exI [of _ "pk_holeA s"],
      rule exI [of _ "pk_holeB s"]) (simp add: withLocal_def)

text \<open>The operations on the public part commute with a change of the private part.\<close>

abbreviation mapR :: "('a \<Rightarrow> 'b) \<Rightarrow> 'a result \<Rightarrow> 'b result" where
  "mapR f r \<equiv> map_sum id f r"

lemma mapR_Inr_iff: "mapR f r = Inr y \<longleftrightarrow> (\<exists>x. r = Inr x \<and> y = f x)"
  by (cases r) auto

lemma withLocal_reads [simp]:
  "revealArrayFor (withLocal la lb ha hb s) p = revealArrayFor s p"
  "commitArrayFor (withLocal la lb ha hb s) p = commitArrayFor s p"
  "hasRevealed (withLocal la lb ha hb s) p slots = hasRevealed s p slots"
  "pk_streetBet (withLocal la lb ha hb s) p = pk_streetBet s p" "pk_totalBet (withLocal la lb ha hb s) p = pk_totalBet s p"
  "availableFor (withLocal la lb ha hb s) p = availableFor s p" "bettingClosed (withLocal la lb ha hb s) = bettingClosed s"
  "contestedAmount (withLocal la lb ha hb s) = contestedAmount s"
  "expectedQuantumPokerRevealSlots (withLocal la lb ha hb s) p = expectedQuantumPokerRevealSlots s p"
  "deriveSlotCard H (withLocal la lb ha hb s) slot k False = deriveSlotCard H s slot k False"
  by (simp_all add: revealArrayFor_def commitArrayFor_def hasRevealed_def pk_streetBet_def pk_totalBet_def availableFor_def
      bettingClosed_def contestedAmount_def expectedQuantumPokerRevealSlots_def revealIfMissing_def effectiveStack_def
      pk_balance_def deriveSlotCard_def revealForDerivation_def cong: PokerPhase.case_cong)

lemma withLocal_setters [simp]:
  "markActed (withLocal la lb ha hb s) p b = withLocal la lb ha hb (markActed s p b)"
  "setStreetBet (withLocal la lb ha hb s) p v = withLocal la lb ha hb (setStreetBet s p v)"
  "addTotalBet (withLocal la lb ha hb s) p v = withLocal la lb ha hb (addTotalBet s p v)"
  "pk_settle (withLocal la lb ha hb s) p v = withLocal la lb ha hb (pk_settle s p v)"
  "beginStreet (withLocal la lb ha hb s) ph = withLocal la lb ha hb (beginStreet s ph)"
  "resolveFold (withLocal la lb ha hb s) = withLocal la lb ha hb (resolveFold s)"
  by (simp_all add: markActed_def setStreetBet_def addTotalBet_def pk_settle_def beginStreet_def resolveFold_def Let_def)

lemma advanceStreet_local: "advanceStreet (withLocal la lb ha hb s) = mapR (withLocal la lb ha hb) (advanceStreet s)"
  by (cases "pk_phase s") (simp_all add: advanceStreet_def)

lemma afterBetAction_local: "afterBetAction (withLocal la lb ha hb s) = mapR (withLocal la lb ha hb) (afterBetAction s)"
  by (simp add: afterBetAction_def advanceStreet_local)

lemma applyBet_local: "applyBet (withLocal la lb ha hb s) m by1 = mapR (withLocal la lb ha hb) (applyBet s m by1)"
  by (cases m) (simp_all add: applyBet_def applyCheck_def applyBetOrRaise_def applyCall_def afterBetAction_local Let_def)

lemma pk_claimForfeit_local: "pk_claimForfeit (withLocal la lb ha hb s) by1 = mapR (withLocal la lb ha hb) (pk_claimForfeit s by1)"
  by (simp add: pk_claimForfeit_def Let_def split: sum.splits)

lemma deriveUniqueBoardCard_local:
  "deriveUniqueBoardCard H (withLocal la lb ha hb s) slot used k = deriveUniqueBoardCard H s slot used k"
proof (induction H s slot used k rule: deriveUniqueBoardCard.induct)
  case (1 H s slot used k)
  show ?case
    by (subst (1 2) deriveUniqueBoardCard.simps) (auto simp: 1 split: sum.splits option.splits)
qed

lemma revealBoard_local:
  "revealBoard H (withLocal la lb ha hb s) used slots = mapR (withLocal la lb ha hb) (revealBoard H s used slots)"
proof (induction H s used slots rule: revealBoard.induct)
  case (2 H s used slot slots)
  show ?case
  proof (cases "slot \<in> set (pk_boardSlots s)")
    case True
    with 2(1) show ?thesis by simp
  next
    case False
    show ?thesis
    proof (cases "deriveUniqueBoardCard H s slot used 0")
      case (Inr ck)
      obtain c k where "ck = (c, k)" by (cases ck)
      with Inr False 2(2) [OF False, of k c] show ?thesis by (simp add: deriveUniqueBoardCard_local)
    qed (simp add: False deriveUniqueBoardCard_local)
  qed
qed simp

lemma tryRevealBoardThenBet_local:
  "tryRevealBoardThenBet H (withLocal la lb ha hb s) slots ph = mapR (withLocal la lb ha hb) (tryRevealBoardThenBet H s slots ph)"
  by (cases "revealBoard H s (pk_board s) slots") (simp_all add: tryRevealBoardThenBet_def revealBoard_local)

lemma deriveCards_local: "deriveCards H (withLocal la lb ha hb s) False slots = deriveCards H s False slots"
  by (induction slots) simp_all

lemma derivePublicHoleCards_local: "derivePublicHoleCards H (withLocal la lb ha hb s) p = derivePublicHoleCards H s p"
  by (simp add: derivePublicHoleCards_def deriveCards_local)

lemma pk_resolveShowdown_local: "pk_resolveShowdown (withLocal la lb ha hb s) = mapR (withLocal la lb ha hb) (pk_resolveShowdown s)"
proof -
  have b: "mapR f (bindE r g) = bindE r (\<lambda>x. mapR f (g x))" for f :: "PokerState \<Rightarrow> PokerState" and r :: "BestHand result" and g
    by (cases r) simp_all
  have c: "(case w of WonBy p \<Rightarrow> pk_settle (withLocal la lb ha hb s) p (contestedAmount (withLocal la lb ha hb s))
       | Tie \<Rightarrow> withLocal la lb ha hb s) = withLocal la lb ha hb (case w of WonBy p \<Rightarrow> pk_settle s p (contestedAmount s) | Tie \<Rightarrow> s)" for w
    by (cases w) simp_all
  show ?thesis
    unfolding pk_resolveShowdown_def Let_def c by (simp add: b split: option.splits)
qed

lemma applyNextHand_local: "\<exists>la' lb' ha' hb'. \<forall>s'. applyNextHand ante s m = Inr s' \<longrightarrow>
    applyNextHand ante (withLocal la lb ha hb s) m = Inr (withLocal la' lb' ha' hb' s')"
proof -
  have "applyNextHand ante (withLocal la lb ha hb s) m = Inr (withLocal None None None None s')" if "applyNextHand ante s m = Inr s'" for s'
    using that by (auto simp: applyNextHand_def Let_def resetHandFields_def withLocal_def split: PokerMove.splits)
  then show ?thesis by blast
qed

subsection \<open>Deriving the own hole cards never fails\<close>

definition smallReveal :: "SlotReveal \<Rightarrow> bool" where
  "smallReveal r \<longleftrightarrow> u64 (int (length (rv_value r))) \<and> u64 (int (length (rv_salt r)))"

definition smallSecrets :: "SlotSecret option list option \<Rightarrow> bool" where
  "smallSecrets l \<longleftrightarrow> (\<forall>xs. l = Some xs \<longrightarrow> length xs = 9 \<and> (\<forall>r. Some r \<in> set xs \<longrightarrow> smallReveal r))"

lemma hashCommitment_small: "hashCommitment H v t = Inr h \<Longrightarrow> u64 (int (length v)) \<and> u64 (int (length t))"
  by (auto simp: hashCommitment_def commitPreimage_def result_simps)

lemma computeCommitment_small: "computeCommitment H v t = Inr h \<Longrightarrow> u64 (int (length v)) \<and> u64 (int (length t))"
  using hashCommitment_small by (auto simp: computeCommitment_def split: if_splits)

lemma opensCommit_small: "opensCommit H c i r \<Longrightarrow> smallReveal r"
  using hashCommitment_small by (auto simp: opensCommit_def verifyCommitment_def smallReveal_def result_simps split: option.splits)

lemma combineReveals_small:
  "smallReveal a \<Longrightarrow> smallReveal b \<Longrightarrow> \<exists>h. combineReveals H (rv_value a) (rv_salt a) (rv_value b) (rv_salt b) = Inr h"
  by (auto simp: combineReveals_def commitPreimage_def lengthPrefixed_def smallReveal_def)

lemma deriveQuantumCard_small: "smallReveal a \<Longrightarrow> smallReveal b \<Longrightarrow> \<exists>c. deriveQuantumCard H a b 0 = Inr c"
  using combineReveals_small [of a b H] by (auto simp: deriveQuantumCard_def)

lemma slotsOk_small: "slotsOk H s \<Longrightarrow> seat p \<Longrightarrow> i < 9 \<Longrightarrow> revealArrayFor s p ! i = Some r \<Longrightarrow> smallReveal r"
  using slotsOk_seat [of H s p] opensCommit_small by (auto simp: slotsFor_def)

lemma revealForDerivation_small:
  assumes "slotsOk H s" "seat p" "nat slot < 9" "smallSecrets (localSecretArrayFor s p)" "revealForDerivation s p slot True = Some r"
  shows "smallReveal r"
proof (cases "revealArrayFor s p ! nat slot")
  case (Some a)
  then show ?thesis using assms slotsOk_small by (simp add: revealForDerivation_def)
next
  case None
  then obtain xs where "localSecretArrayFor s p = Some xs" "xs ! nat slot = Some r"
    using assms(5) by (auto simp: revealForDerivation_def split: option.splits)
  then show ?thesis using assms(3,4) unfolding smallSecrets_def by (metis nth_mem)
qed

lemma deriveCards_small:
  assumes "slotsOk H s" "smallSecrets (pk_localSecretsA s)" "smallSecrets (pk_localSecretsB s)" "\<And>slot. slot \<in> set slots \<Longrightarrow> nat slot < 9"
  shows "\<exists>cs. deriveCards H s True slots = Inr cs"
  using assms(4)
proof (induction slots)
  case (Cons slot slots)
  have ls: "smallSecrets (localSecretArrayFor s PartyA)" "smallSecrets (localSecretArrayFor s PartyB)"
    using assms(2,3) by (simp_all add: localSecretArrayFor_def)
  have sl: "nat slot < 9" using Cons.prems by simp
  have "\<exists>c. deriveSlotCard H s slot 0 True = Inr c"
  proof (cases "\<exists>a b. revealForDerivation s PartyA slot True = Some a \<and> revealForDerivation s PartyB slot True = Some b")
    case True
    then obtain a b where ab: "revealForDerivation s PartyA slot True = Some a" "revealForDerivation s PartyB slot True = Some b" by blast
    have "smallReveal a" "smallReveal b"
      using revealForDerivation_small [OF assms(1) _ sl ls(1) ab(1)] revealForDerivation_small [OF assms(1) _ sl ls(2) ab(2)] by simp_all
    with deriveQuantumCard_small obtain c where "deriveQuantumCard H a b 0 = Inr c" by blast
    then show ?thesis by (simp add: deriveSlotCard_def ab)
  qed (auto simp: deriveSlotCard_def split: option.splits)
  moreover have "\<exists>cs. deriveCards H s True slots = Inr cs" using Cons by simp
  ultimately show ?case by (auto split: option.splits)
qed simp

lemma tryDeriveHoleCards_small:
  assumes "slotsOk H s" "smallSecrets (pk_localSecretsA s)" "smallSecrets (pk_localSecretsB s)"
  shows "\<exists>cs. tryDeriveHoleCards H s p = Inr cs"
  unfolding tryDeriveHoleCards_def by (rule deriveCards_small [OF assms]) (auto simp: slot_defs split: if_splits)

subsection \<open>Private data never reach the signed state\<close>

text \<open>What the counterparty sees of a move, and how a seat may receive it.\<close>

fun pk_publicMove :: "PokerMove \<Rightarrow> PokerMove" where
  "pk_publicMove (PkCommitSlots cs ls) = PkCommitSlots cs None"
| "pk_publicMove m = m"

definition seatView :: "PokerMove \<times> Party \<Rightarrow> PokerMove \<times> Party \<Rightarrow> bool" where
  "seatView x y \<longleftrightarrow> snd y = snd x \<and> (fst y = fst x \<or> fst y = pk_publicMove (fst x))"

lemma slotsOk_withLocal [simp]: "slotsOk H (withLocal la lb ha hb s) = slotsOk H s"
  by (simp add: slotsOk_def)

lemma afterReveal_local:
  assumes "slotsOk H s" "smallSecrets la" "smallSecrets lb" "afterReveal H ante s = Inr s'"
  shows "\<exists>ha' hb'. afterReveal H ante (withLocal la lb ha hb s) = Inr (withLocal la lb ha' hb' s')"
proof (cases "pk_phase s")
  case OpenPrivateHoles
  show ?thesis
  proof (cases "hasRevealed s PartyA B_HOLE_SLOTS \<and> hasRevealed s PartyB A_HOLE_SLOTS")
    case True
    then obtain hA hB where p: "postAntesAndBeginStreet ante (s\<lparr>pk_holeA := hA, pk_holeB := hB\<rparr>) = Inr s'"
      using assms(4) OpenPrivateHoles by (auto simp: afterReveal_def result_simps)
    obtain cA where cA: "tryDeriveHoleCards H (withLocal la lb ha hb s) PartyA = Inr cA"
      using tryDeriveHoleCards_small [of H "withLocal la lb ha hb s"] assms by auto
    obtain cB where cB: "tryDeriveHoleCards H (withLocal la lb cA hb s) PartyB = Inr cB"
      using tryDeriveHoleCards_small [of H "withLocal la lb cA hb s"] assms by auto
    have "postAntesAndBeginStreet ante (withLocal la lb cA cB s) = Inr (withLocal la lb cA cB s')"
      using p by (auto simp: postAntesAndBeginStreet_def beginStreet_def withLocal_def split: if_splits)
    then have "afterReveal H ante (withLocal la lb ha hb s) = Inr (withLocal la lb cA cB s')"
      using True OpenPrivateHoles by (simp add: afterReveal_def cA cB)
    then show ?thesis by blast
  next
    case False
    then have "afterReveal H ante (withLocal la lb ha hb s) = Inr (withLocal la lb ha hb s')"
      using assms(4) OpenPrivateHoles by (auto simp: afterReveal_def)
    then show ?thesis by blast
  qed
next
  case Showdown
  have h: "(withLocal la lb ha hb t)\<lparr>pk_shownHoleA := x, pk_shownHoleB := y\<rparr> = withLocal la lb ha hb (t\<lparr>pk_shownHoleA := x, pk_shownHoleB := y\<rparr>)" for t x y
    by simp
  have "afterReveal H ante (withLocal la lb ha hb s) = Inr (withLocal la lb ha hb s')"
    using assms(4) Showdown
    by (auto simp: afterReveal_def Let_def result_simps derivePublicHoleCards_local pk_resolveShowdown_local mapR_Inr_iff)
  then show ?thesis by blast
qed (use assms(4) in \<open>auto simp: afterReveal_def tryRevealBoardThenBet_local\<close>)

lemma applyRevealSlots_local:
  assumes "cardsOk H s" "seat by1" "smallSecrets la" "smallSecrets lb" "applyRevealSlots H ante s m by1 = Inr s'"
  shows "\<exists>ha' hb'. applyRevealSlots H ante (withLocal la lb ha hb s) m by1 = Inr (withLocal la lb ha' hb' s')"
  using assms(5)
proof (rule applyRevealSlots_cases)
  fix slots rvs e commits target
  assume m: "m = PkRevealSlots slots rvs" and r: "expectedQuantumPokerRevealSlots s by1 = Inr e" "sameNumberSet slots e" "length rvs = length slots"
    "commitArrayFor s by1 = Some commits" "recordReveals H commits (revealArrayFor s by1) (zip slots rvs) = Inr target"
    and a: "afterReveal H ante (if by1 = PartyA then s\<lparr>pk_revealsA := target\<rparr> else s\<lparr>pk_revealsB := target\<rparr>) = Inr s'"
  have "slotsOk H (setReveals s by1 target)" using reveal_slots(1) [OF _ assms(2) r] assms(1) by (simp add: cardsOk_def)
  from afterReveal_local [OF this assms(3,4) a [folded setReveals_def]]
  obtain ha' hb' where "afterReveal H ante (withLocal la lb ha hb (setReveals s by1 target)) = Inr (withLocal la lb ha' hb' s')" by blast
  moreover have "(if by1 = PartyA then (withLocal la lb ha hb s)\<lparr>pk_revealsA := target\<rparr> else (withLocal la lb ha hb s)\<lparr>pk_revealsB := target\<rparr>) =
      withLocal la lb ha hb (setReveals s by1 target)" by (simp add: setReveals_def)
  ultimately have "applyRevealSlots H ante (withLocal la lb ha hb s) m by1 = Inr (withLocal la lb ha' hb' s')"
    using r by (simp add: applyRevealSlots_def m)
  then show ?thesis by blast
qed

lemma validateLocalSecrets_small:
  assumes "validateLocalSecretsForCommit H cs ls = Inr l"
  shows "l = ls \<and> smallSecrets (Some (map Some l))"
proof -
  obtain ex where ex: "commitSlotSecrets H ls = Inr ex" "length ls = 9" "l = ls"
    using assms by (auto simp: validateLocalSecretsForCommit_def SLOT_COUNT_def result_simps split: if_splits)
  then have "list_all2 (\<lambda>x y. computeCommitment H (rv_value x) (rv_salt x) = Inr y) ls ex"
    by (simp add: commitSlotSecrets_def SLOT_COUNT_def mapE_Inr_iff)
  then have "\<forall>x\<in>set ls. smallReveal x"
    by (induction rule: list_all2_induct) (auto simp: smallReveal_def dest: computeCommitment_small)
  then show ?thesis using ex by (auto simp: smallSecrets_def)
qed

lemma applyCommit_local:
  assumes "applyCommit H s m by1 = Inr s'" "m' = m \<or> m' = pk_publicMove m" "smallSecrets la" "smallSecrets lb"
  shows "\<exists>la' lb'. applyCommit H (withLocal la lb ha hb s) m' by1 = Inr (withLocal la' lb' ha hb s') \<and> smallSecrets la' \<and> smallSecrets lb'"
proof -
  obtain cs0 ls where m: "m = PkCommitSlots cs0 ls" using assms(1) by (auto simp: applyCommit_def split: PokerMove.splits)
  obtain cs l0 where cs: "validateCommitments cs0 = Inr cs"
    and l0: "(case ls of None \<Rightarrow> Inr None | Some ls \<Rightarrow> bindE (validateLocalSecretsForCommit H cs ls) (\<lambda>l. Inr (Some l))) = Inr l0"
    and r: "bindE (if by1 = PartyA then (if pk_commitA s \<noteq> None then Inl (Error ''A already committed'')
                    else Inr (s\<lparr>pk_commitA := Some cs, pk_localSecretsA := (case l0 of None \<Rightarrow> pk_localSecretsA s | Some l \<Rightarrow> Some (map Some l))\<rparr>))
                 else (if pk_commitB s \<noteq> None then Inl (Error ''B already committed'')
                    else Inr (s\<lparr>pk_commitB := Some cs, pk_localSecretsB := (case l0 of None \<Rightarrow> pk_localSecretsB s | Some l \<Rightarrow> Some (map Some l))\<rparr>)))
            (\<lambda>s1. Inr (if pk_commitA s1 \<noteq> None \<and> pk_commitB s1 \<noteq> None then s1\<lparr>pk_phase := OpenPrivateHoles\<rparr> else s1)) = Inr s'"
    using assms(1) unfolding applyCommit_def m by (auto simp: bindE_eq_Inr)
  define l1 where "l1 = (if m' = m then l0 else None)"
  obtain ls' where m': "m' = PkCommitSlots cs0 ls'" "(case ls' of None \<Rightarrow> Inr None | Some ls \<Rightarrow> bindE (validateLocalSecretsForCommit H cs ls) (\<lambda>l. Inr (Some l))) = Inr l1"
  proof (cases "m' = m")
    case True
    then show ?thesis using that [of ls] l0 by (simp add: m l1_def)
  next
    case False
    then show ?thesis using that [of None] assms(2) by (simp add: m l1_def)
  qed
  have sm: "smallSecrets (Some (map Some l))" if "l1 = Some l" for l
    using that l0 validateLocalSecrets_small by (auto simp: l1_def result_simps split: if_splits option.splits)
  let ?la = "if by1 = PartyA then (case l1 of None \<Rightarrow> la | Some l \<Rightarrow> Some (map Some l)) else la"
  let ?lb = "if by1 = PartyA then lb else (case l1 of None \<Rightarrow> lb | Some l \<Rightarrow> Some (map Some l))"
  have "smallSecrets ?la" "smallSecrets ?lb" using assms(3,4) sm by (auto split: option.splits)
  moreover have "applyCommit H (withLocal la lb ha hb s) m' by1 = Inr (withLocal ?la ?lb ha hb s')"
    unfolding applyCommit_def m'(1) PokerMove.case cs bindE_Inr m'(2) using r
    by (cases "by1 = PartyA"; cases l1) (auto simp: withLocal_def split: if_splits)
  ultimately show ?thesis by blast
qed

lemma pk_publicMove_same: "(\<nexists>cs ls. m = PkCommitSlots cs ls) \<Longrightarrow> pk_publicMove m = m"
  by (cases m) auto

lemma smallSecrets_None [simp]: "smallSecrets None"
  by (simp add: smallSecrets_def)

lemma applyNextHand_withLocal:
  "applyNextHand ante s m = Inr s' \<Longrightarrow> applyNextHand ante (withLocal la lb ha hb s) m = Inr (withLocal None None None None s')"
  by (auto simp: applyNextHand_def Let_def resetHandFields_def withLocal_def split: PokerMove.splits)

lemma pk_step_local:
  assumes "cardsOk H s" "seat by1" "smallSecrets la" "smallSecrets lb" "m' = m \<or> m' = pk_publicMove m"
    "pk_applyMove H ante s m by1 = Inr s'"
  shows "\<exists>la' lb' ha' hb'. pk_applyMove H ante (withLocal la lb ha hb s) m' by1 = Inr (withLocal la' lb' ha' hb' s') \<and>
    smallSecrets la' \<and> smallSecrets lb'"
proof (cases "m = PkForfeit")
  case True
  then show ?thesis
    using assms pk_claimForfeit_local [of la lb ha hb s by1] by (auto simp: pk_applyMove_def)
next
  case False
  then have f': "m' \<noteq> PkForfeit" using assms(5) by (cases m) auto
  have same: "m' = m" if "pk_phase s \<noteq> CommitPhase"
  proof -
    have "\<nexists>cs ls. m = PkCommitSlots cs ls"
      using that assms(6) by (cases "pk_phase s") (auto simp: pk_applyMove_def applyRevealSlots_def applyBet_def applyNextHand_def split: if_splits)
    with pk_publicMove_same assms(5) show ?thesis by auto
  qed
  have R: "\<exists>la' lb' ha' hb'. applyRevealSlots H ante (withLocal la lb ha hb s) m by1 = Inr (withLocal la' lb' ha' hb' s') \<and> smallSecrets la' \<and> smallSecrets lb'"
    if "applyRevealSlots H ante s m by1 = Inr s'"
    using applyRevealSlots_local [OF assms(1-4) that] assms(3,4) by blast
  have B: "\<exists>la' lb' ha' hb'. applyBet (withLocal la lb ha hb s) m by1 = Inr (withLocal la' lb' ha' hb' s') \<and> smallSecrets la' \<and> smallSecrets lb'"
    if "applyBet s m by1 = Inr s'"
    using applyBet_local [of la lb ha hb s m by1] that assms(3,4) by auto
  have N: "\<exists>la' lb' ha' hb'. applyNextHand ante (withLocal la lb ha hb s) m = Inr (withLocal la' lb' ha' hb' s') \<and> smallSecrets la' \<and> smallSecrets lb'"
    if "applyNextHand ante s m = Inr s'"
    using applyNextHand_withLocal [OF that] smallSecrets_None by blast
  have C: "\<exists>la' lb' ha' hb'. applyCommit H (withLocal la lb ha hb s) m' by1 = Inr (withLocal la' lb' ha' hb' s') \<and> smallSecrets la' \<and> smallSecrets lb'"
    if "applyCommit H s m by1 = Inr s'"
    using applyCommit_local [OF that assms(5,3,4)] by blast
  show ?thesis
    using False f' assms(6) same R B N C by (cases "pk_phase s") (simp_all add: pk_applyMove_def)
qed

lemma pk_encodeState_local: "pk_encodeState (withLocal la lb ha hb s) = pk_encodeState s"
  by (simp add: pk_encodeState_def pk_encodeParts_def encodeFlags_def)

lemma poker_run_local:
  assumes "list_all2 seatView ms ms'" "list_all (\<lambda>(m, by1). seat by1) ms" "cardsOk H s" "smallSecrets la" "smallSecrets lb"
    "applyMoves (QuantumPokerProtocol H cap ante) s ms = Inr t"
  shows "\<exists>la' lb' ha' hb'. applyMoves (QuantumPokerProtocol H cap ante) (withLocal la lb ha hb s) ms' = Inr (withLocal la' lb' ha' hb' t)"
  using assms
proof (induction ms ms' arbitrary: s la lb ha hb rule: list_all2_induct)
  case (Cons x xs y ys)
  obtain m p m' where xy: "x = (m, p)" "y = (m', p)" "m' = m \<or> m' = pk_publicMove m"
    using Cons(1) by (cases x; cases y) (auto simp: seatView_def)
  obtain s1 where s1: "pk_applyMove H ante s m p = Inr s1" "applyMoves (QuantumPokerProtocol H cap ante) s1 xs = Inr t"
    using Cons.prems(5) by (auto simp: xy result_simps)
  have p: "seat p" using Cons.prems(1) by (simp add: xy)
  from pk_step_local [OF Cons.prems(2) p Cons.prems(3,4) xy(3) s1(1)]
  obtain la' lb' ha' hb' where l: "pk_applyMove H ante (withLocal la lb ha hb s) m' p = Inr (withLocal la' lb' ha' hb' s1)"
    "smallSecrets la'" "smallSecrets lb'" by blast
  have "cardsOk H s1" by (rule pk_step_cards [OF Cons.prems(2) p s1(1)])
  from Cons.IH [OF _ this l(2,3) s1(2)] Cons.prems(1) l(1) show ?case by (simp add: xy)
qed auto

subsection \<open>What the relay delivers\<close>

lemma bytesFromHex_hex0x_Inr: "bytesFromHex (Some (JStr (hex0x c))) label len = Inr c' \<Longrightarrow> c' = c"
  by (auto simp: bytesFromHex_def expectString_def hex0x_def fromHex_0x_toHex split: option.splits if_splits)

lemma mapE_inverse: "(\<And>x y. f (g x) = Inr y \<Longrightarrow> y = x) \<Longrightarrow> mapE f (map g xs) = Inr ys \<Longrightarrow> ys = xs"
  by (induction xs arbitrary: ys) (auto simp: result_simps)

lemma pk_revealFromJson_Inr: "pk_revealFromJson (Some (pk_revealToJson r)) = Inr r' \<Longrightarrow> r' = r"
  by (auto simp: pk_revealFromJson_def pk_revealToJson_def result_simps jget_def dest!: bytesFromHex_hex0x_Inr)

lemma pokerMoveCodec_delivers:
  assumes "bindE (mc_encode pokerMoveCodec m) (mc_decode pokerMoveCodec) = Inr m'"
  shows "m' = pk_publicMove m"
proof (cases m)
  case (PkCommitSlots cs ls)
  have "cs' = cs" if "mapE (\<lambda>c. bytesFromHex (Some c) l n) (map (\<lambda>c. JStr (hex0x c)) cs) = Inr cs'" for cs' l n
    using that by (rule mapE_inverse [rotated]) (rule bytesFromHex_hex0x_Inr)
  with assms PkCommitSlots show ?thesis
    by (auto simp: pokerMoveCodec_def pokerMoveFromJson_def kindJson_def jget_def expectArray_def result_simps)
next
  case (PkRevealSlots slots rvs)
  have "ys = slots" if "mapE (\<lambda>x. expectInteger (Some x) l) (map JNum slots) = Inr ys" for ys l
    using that by (rule mapE_inverse [rotated]) (simp add: expectInteger_def)
  moreover have "zs = rvs" if "mapE (\<lambda>y. pk_revealFromJson (Some y)) (map pk_revealToJson rvs) = Inr zs" for zs
    using that by (rule mapE_inverse [rotated]) (rule pk_revealFromJson_Inr)
  ultimately show ?thesis using assms PkRevealSlots
    by (auto simp: pokerMoveCodec_def pokerMoveFromJson_def kindJson_def jget_def expectArray_def result_simps)
qed (use assms in \<open>auto simp: pokerMoveCodec_def pokerMoveFromJson_def kindJson_def jget_def result_simps\<close>)

text \<open>A seat applies its own moves as it made them and the peer's as the codec delivers them.\<close>

definition relayed :: "PokerMove \<times> Party \<Rightarrow> PokerMove \<times> Party \<Rightarrow> bool" where
  "relayed x y \<longleftrightarrow> snd y = snd x \<and>
     (fst y = fst x \<or> bindE (mc_encode pokerMoveCodec (fst x)) (mc_decode pokerMoveCodec) = Inr (fst y))"

lemma relayed_seatView: "relayed x y \<Longrightarrow> seatView x y"
  using pokerMoveCodec_delivers by (auto simp: relayed_def seatView_def)

subsection \<open>An honest reveal is accepted\<close>

lemma commitSlotSecrets_opens:
  assumes "commitSlotSecrets H secrets = Inr cs"
  shows "length secrets = 9" "length cs = 9"
    "i < 9 \<Longrightarrow> verifyCommitment H (cs ! i) (rv_value (secrets ! i)) (rv_salt (secrets ! i)) = Inr True"
proof -
  have l: "length secrets = 9" and m: "list_all2 (\<lambda>x y. computeCommitment H (rv_value x) (rv_salt x) = Inr y) secrets cs"
    using assms by (auto simp: commitSlotSecrets_def SLOT_COUNT_def mapE_Inr_iff split: if_splits)
  show "length secrets = 9" "length cs = 9" using l list_all2_lengthD [OF m] by simp_all
  show "verifyCommitment H (cs ! i) (rv_value (secrets ! i)) (rv_salt (secrets ! i)) = Inr True" if "i < 9"
    using list_all2_nthD [OF m, of i] that l by (auto simp: computeCommitment_def verifyCommitment_def split: if_splits)
qed

lemma recordReveals_honest:
  assumes "commitSlotSecrets H secrets = Inr cs" "distinct slots" "length target = 9"
    "\<And>i. i \<in> set slots \<Longrightarrow> 0 \<le> i \<and> i < 9 \<and> target ! nat i = None"
  shows "\<exists>t. recordReveals H cs target (zip slots (map (\<lambda>i. secrets ! nat i) slots)) = Inr t"
  using assms(2-4)
proof (induction slots arbitrary: target)
  case (Cons i slots)
  have i: "0 \<le> i" "i < 9" "target ! nat i = None" using Cons.prems(3) [of i] by simp_all
  have "\<exists>t. recordReveals H cs (target[nat i := Some (secrets ! nat i)]) (zip slots (map (\<lambda>i. secrets ! nat i) slots)) = Inr t"
  proof (rule Cons.IH)
    fix j assume j: "j \<in> set slots"
    have "i \<noteq> j" "0 \<le> j" using Cons.prems(1) Cons.prems(3) [of j] j by auto
    then have "nat i \<noteq> nat j" using i(1) by (simp add: eq_nat_nat_iff)
    then show "0 \<le> j \<and> j < 9 \<and> target[nat i := Some (secrets ! nat i)] ! nat j = None"
      using Cons.prems(3) [of j] j i by (simp add: nth_list_update)
  qed (use Cons.prems in auto)
  with i commitSlotSecrets_opens(3) [OF assms(1), of "nat i"] show ?case by (simp add: SLOT_COUNT_def nat_less_iff)
qed simp

lemma dueSlots_distinct: "distinct (dueSlots ph p)"
  by (cases ph) (auto simp: ownHoles_def oppHoles_def)

lemma sameNumberSet_refl [simp]: "sameNumberSet e e"
  by (simp add: sameNumberSet_def)

text \<open>The honest reveal of everything that is due reaches the completion step.\<close>

lemma honest_reveal_recorded:
  assumes "slotsOk H s" "seat p" "expectedQuantumPokerRevealSlots s p = Inr e" "commitArrayFor s p = Some cs"
    "commitSlotSecrets H secrets = Inr cs"
  obtains t where "recordReveals H cs (revealArrayFor s p) (zip e (map (\<lambda>i. secrets ! nat i) e)) = Inr t"
    "applyRevealSlots H ante s (PkRevealSlots e (map (\<lambda>i. secrets ! nat i) e)) p = afterReveal H ante (setReveals s p t)"
proof -
  have e: "e = filter (\<lambda>slot. revealArrayFor s p ! nat slot = None) (map int (dueSlots (pk_phase s) p))"
    by (rule expected_due [OF assms(3)])
  have "\<exists>t. recordReveals H cs (revealArrayFor s p) (zip e (map (\<lambda>i. secrets ! nat i) e)) = Inr t"
  proof (rule recordReveals_honest [OF assms(5)])
    show "distinct e" unfolding e using dueSlots_distinct by (auto simp: distinct_map inj_on_def intro!: distinct_filter)
    show "length (revealArrayFor s p) = 9" using slotsOk_seat [OF assms(1,2)] by (simp add: slotsFor_def)
    show "0 \<le> i \<and> i < 9 \<and> revealArrayFor s p ! nat i = None" if "i \<in> set e" for i
      using that slot_range(3) [of _ "pk_phase s" p] unfolding e by auto
  qed
  then obtain t where t: "recordReveals H cs (revealArrayFor s p) (zip e (map (\<lambda>i. secrets ! nat i) e)) = Inr t" by blast
  then have "applyRevealSlots H ante s (PkRevealSlots e (map (\<lambda>i. secrets ! nat i) e)) p = afterReveal H ante (setReveals s p t)"
    using assms(3,4) by (simp add: applyRevealSlots_def setReveals_def)
  with t that show thesis by blast
qed

end
