(* ===== verification/Poker_Play.thy ===== *)
theory Poker_Play
  imports Poker_Seats
begin

section \<open>Playing Quantum Poker: progress, termination, and the properties\<close>

text \<open>
  Completing a reveal never fails (except when ten thousand derivations of a board card all collide), a
  session ends after finitely many moves that are not empty reveals, and the properties of the protocol with
  their witnesses.
\<close>

subsection \<open>Completing a reveal\<close>

definition boardExhausted :: "'a result \<Rightarrow> bool" where
  "boardExhausted r \<longleftrightarrow> r = Inl (Error ''could not derive unique board card'')"

definition bothPublic :: "PokerState \<Rightarrow> int \<Rightarrow> bool" where
  "bothPublic s slot \<longleftrightarrow> revealArrayFor s PartyA ! nat slot \<noteq> None \<and> revealArrayFor s PartyB ! nat slot \<noteq> None"

lemma deriveSlotCard_bothPublic:
  assumes "slotsOk H s" "bothPublic s slot" "nat slot < 9" "0 \<le> k" "k < 10000"
  shows "\<exists>c. deriveSlotCard H s slot k False = Inr (Some c) \<and> 0 \<le> c \<and> c < 52"
proof -
  obtain a b where ab: "revealArrayFor s PartyA ! nat slot = Some a" "revealArrayFor s PartyB ! nat slot = Some b"
    using assms(2) by (auto simp: bothPublic_def)
  then have "smallReveal a" "smallReveal b"
    using slotsOk_small [OF assms(1) seat_simps(1) assms(3)] slotsOk_small [OF assms(1) seat_simps(2) assms(3)] by simp_all
  then obtain h where "combineReveals H (rv_value a) (rv_salt a) (rv_value b) (rv_salt b) = Inr h" using combineReveals_small by blast
  moreover have "u64 k" using assms(4,5) by (simp add: u64_def)
  ultimately have "\<exists>c. deriveQuantumCard H a b k = Inr c" using assms(4) by (simp add: deriveQuantumCard_def)
  then show ?thesis using deriveQuantumCard_range by (fastforce simp: deriveSlotCard_def revealForDerivation_def ab)
qed

lemma deriveUniqueBoardCard_progress:
  assumes "slotsOk H s" "bothPublic s slot" "nat slot < 9" "0 \<le> k"
  shows "boardExhausted (deriveUniqueBoardCard H s slot used k) \<or> (\<exists>c n. deriveUniqueBoardCard H s slot used k = Inr (c, n))"
  using assms
proof (induction H s slot used k rule: deriveUniqueBoardCard.induct)
  case (1 H s slot used k)
  show ?case
  proof (cases "k < 10000")
    case True
    then obtain c where c: "deriveSlotCard H s slot k False = Inr (Some c)" using deriveSlotCard_bothPublic [OF 1(2-5)] by blast
    from 1(1) [OF True c refl _ 1(2-4)] 1(5) c show ?thesis
      by (cases "c \<in> set used") (simp_all add: deriveUniqueBoardCard.simps [of H s slot used k] True)
  qed (simp add: boardExhausted_def deriveUniqueBoardCard.simps [of H s slot used k])
qed

lemma revealBoard_progress:
  assumes "slotsOk H s" "\<And>slot. slot \<in> set slots \<Longrightarrow> bothPublic s slot \<and> nat slot < 9"
  shows "boardExhausted (revealBoard H s used slots) \<or> (\<exists>s'. revealBoard H s used slots = Inr s')"
  using assms
proof (induction H s used slots rule: revealBoard.induct)
  case (2 H s used slot slots)
  show ?case
  proof (cases "slot \<in> set (pk_boardSlots s)")
    case True
    with 2(1) [OF True] 2(3,4) show ?thesis by simp
  next
    case False
    from deriveUniqueBoardCard_progress [OF 2(3), of slot 0 used] 2(4)
    consider "boardExhausted (deriveUniqueBoardCard H s slot used 0)" | c k where "deriveUniqueBoardCard H s slot used 0 = Inr (c, k)" by auto
    then show ?thesis
    proof cases
      case 1
      then show ?thesis using False by (simp add: boardExhausted_def)
    next
      case (2 c k)
      let ?s = "s\<lparr>pk_board := pk_board s @ [c], pk_boardSlots := pk_boardSlots s @ [slot], pk_boardCounters := pk_boardCounters s @ [k]\<rparr>"
      have "slotsOk H ?s" using \<open>slotsOk H s\<close> by (simp add: slotsOk_def revealArrayFor_def commitArrayFor_def)
      moreover have "bothPublic ?s sl = bothPublic s sl" for sl by (simp add: bothPublic_def revealArrayFor_def)
      ultimately have "boardExhausted (revealBoard H ?s (c # used) slots) \<or> (\<exists>s'. revealBoard H ?s (c # used) slots = Inr s')"
        using "2.prems"(2) by (intro "2.IH"(2) [OF False]) auto
      then show ?thesis using False 2 by (simp add: boardExhausted_def)
    qed
  qed
qed simp

lemma tryRevealBoardThenBet_progress:
  assumes "slotsOk H s" "set slots \<subseteq> {4..8}"
  shows "boardExhausted (tryRevealBoardThenBet H s slots ph) \<or> (\<exists>s'. tryRevealBoardThenBet H s slots ph = Inr s')"
proof (cases "hasRevealed s PartyA slots \<and> hasRevealed s PartyB slots")
  case True
  have "boardExhausted (revealBoard H s (pk_board s) slots) \<or> (\<exists>s'. revealBoard H s (pk_board s) slots = Inr s')"
    by (rule revealBoard_progress [OF assms(1)]) (use True assms(2) in \<open>fastforce simp: hasRevealed_nat bothPublic_def\<close>)
  with True show ?thesis
    by (auto simp: tryRevealBoardThenBet_def boardExhausted_def)
qed (auto simp: tryRevealBoardThenBet_def)

lemma deriveCards_public:
  assumes "slotsOk H s" "\<And>slot. slot \<in> set slots \<Longrightarrow> bothPublic s slot \<and> nat slot < 9"
  shows "\<exists>cs. deriveCards H s False slots = Inr (Some cs) \<and> length cs = length slots \<and> list_all (\<lambda>c. 0 \<le> c \<and> c \<le> 51) cs"
  using assms(2)
proof (induction slots)
  case (Cons slot slots)
  obtain c where c: "deriveSlotCard H s slot 0 False = Inr (Some c)" "0 \<le> c" "c < 52"
    using deriveSlotCard_bothPublic [OF assms(1), of slot 0] Cons.prems [of slot] by auto
  obtain cs where "deriveCards H s False slots = Inr (Some cs)" "length cs = length slots" "list_all (\<lambda>c. 0 \<le> c \<and> c \<le> 51) cs"
    using Cons by auto
  with c show ?case by auto
qed simp

lemma board_valid:
  assumes "boardCore H s" "c \<in> set (pk_board s)"
  shows "0 \<le> c \<and> c \<le> 51"
proof -
  obtain i where i: "i < length (pk_boardSlots s)" "c = pk_board s ! i"
    using assms by (auto simp: boardCore_def in_set_conv_nth)
  then have "deriveSlotCard H s (pk_boardSlots s ! i) (pk_boardCounters s ! i) False = Inr (Some c)"
    using assms(1) by (simp add: boardCore_def)
  then obtain a b where "deriveQuantumCard H a b (pk_boardCounters s ! i) = Inr c"
    by (auto simp: deriveSlotCard_def result_simps split: option.splits)
  then show ?thesis using deriveQuantumCard_range by fastforce
qed

text \<open>From two hole cards of each seat and a full board the showdown is always decided.\<close>

lemma bestPokerHand_total:
  assumes "length holes = 2" "list_all (\<lambda>c. 0 \<le> c \<and> c \<le> 51) holes" "length board = 5" "\<And>c. c \<in> set board \<Longrightarrow> 0 \<le> c \<and> c \<le> 51"
  shows "\<exists>b. bestPokerHand (filter (\<lambda>c. c \<notin> set board) holes @ board) = Inr b"
proof -
  have "length (filter (\<lambda>c. c \<notin> set board) holes) \<le> 2" using length_filter_le [of _ holes] assms(1) by (metis)
  then show ?thesis
    using best_hand_exists [of "filter (\<lambda>c. c \<notin> set board) holes @ board"] assms by (auto simp: list_all_iff)
qed

lemma pk_resolveShowdown_total':
  assumes "boardCore H s" "length (pk_board s) = 5" "pk_shownHoleA s = Some hA" "pk_shownHoleB s = Some hB"
    "length hA = 2" "list_all (\<lambda>c. 0 \<le> c \<and> c \<le> 51) hA" "length hB = 2" "list_all (\<lambda>c. 0 \<le> c \<and> c \<le> 51) hB"
  shows "\<exists>s'. pk_resolveShowdown s = Inr s'"
  using bestPokerHand_total [OF assms(5,6,2) board_valid [OF assms(1)]] bestPokerHand_total [OF assms(7,8,2) board_valid [OF assms(1)]]
  by (auto simp: pk_resolveShowdown_def assms(3,4) Let_def)

lemma sameCards_slotsOk: "sameCards s s' \<Longrightarrow> pk_phase s' = pk_phase s \<Longrightarrow> slotsOk H s' = slotsOk H s"
  using sameCards_arrays [of s s'] by (simp add: slotsOk_def sameCards_def)

lemma showdown_progress:
  assumes "cardsOk H s" "pk_phase s = Showdown" "hasRevealed s PartyA A_HOLE_SLOTS" "hasRevealed s PartyB B_HOLE_SLOTS"
  shows "\<exists>s'. afterReveal H ante s = Inr s'"
proof -
  let ?s1 = "s\<lparr>pk_shownA := True, pk_shownB := True\<rparr>"
  have so: "slotsOk H s" "boardCore H s" "pk_boardSlots s = [4, 5, 6, 7, 8]" using assms(1,2) by (simp_all add: cardsOk_def boardOk_def)
  have open1: "revealArrayFor s p ! i \<noteq> None" if "seat p" "i \<in> set (oppHoles p)" for p i
    using slotsOk_seat [OF so(1) that(1)] assms(2) that(2) by (auto simp: slotsFor_def)
  have pub: "bothPublic s slot \<and> nat slot < 9" if "slot \<in> set A_HOLE_SLOTS \<or> slot \<in> set B_HOLE_SLOTS" for slot
    using that assms(3,4) open1 [of PartyA "nat slot"] open1 [of PartyB "nat slot"]
    by (auto simp: bothPublic_def hasRevealed_nat slot_defs oppHoles_def)
  have len5: "length (pk_board s) = 5" using so(2,3) by (simp add: boardCore_def)
  have holes: "\<exists>h. derivePublicHoleCards H t p = Inr h \<and> length h = 2 \<and> list_all (\<lambda>c. 0 \<le> c \<and> c \<le> 51) h"
    if t: "sameCards s t" "pk_phase t = pk_phase s" for t p
  proof -
    have "bothPublic t slot = bothPublic s slot" for slot using sameCards_arrays [OF t(1)] by (simp add: bothPublic_def)
    then have "\<exists>cs. deriveCards H t False (if p = PartyA then A_HOLE_SLOTS else B_HOLE_SLOTS) = Inr (Some cs) \<and>
        length cs = length (if p = PartyA then A_HOLE_SLOTS else B_HOLE_SLOTS) \<and> list_all (\<lambda>c. 0 \<le> c \<and> c \<le> 51) cs"
      using pub sameCards_slotsOk [OF t] so(1) by (intro deriveCards_public) (auto split: if_splits)
    then show ?thesis by (auto simp: derivePublicHoleCards_def slot_defs)
  qed
  obtain hA where hA: "derivePublicHoleCards H ?s1 PartyA = Inr hA" "length hA = 2" "list_all (\<lambda>c. 0 \<le> c \<and> c \<le> 51) hA"
    using holes [of ?s1 PartyA] by (auto simp: sameCards_def)
  obtain hB where hB: "derivePublicHoleCards H (?s1\<lparr>pk_shownHoleA := Some hA\<rparr>) PartyB = Inr hB" "length hB = 2" "list_all (\<lambda>c. 0 \<le> c \<and> c \<le> 51) hB"
    using holes [of "?s1\<lparr>pk_shownHoleA := Some hA\<rparr>" PartyB] by (auto simp: sameCards_def)
  let ?s2 = "?s1\<lparr>pk_shownHoleA := Some hA, pk_shownHoleB := Some hB\<rparr>"
  have "boardCore H ?s2" using so(2) sameCards_boardCore [of s ?s2 H] by (simp add: sameCards_def)
  then have "\<exists>s'. pk_resolveShowdown ?s2 = Inr s'"
    by (rule pk_resolveShowdown_total' [where hA = hA and hB = hB]) (use len5 hA(2,3) hB(2,3) in simp_all)
  then show ?thesis using assms(2-4) hA(1) hB(1) by (simp add: afterReveal_def Let_def)
qed

text \<open>Once both seats have opened the private cards, the antes are posted and the first street begins.\<close>

lemma open_holes_ante:
  assumes "slotsOk H s" "smallSecrets (pk_localSecretsA s)" "smallSecrets (pk_localSecretsB s)" "pk_phase s = OpenPrivateHoles"
    "hasRevealed s PartyA B_HOLE_SLOTS" "hasRevealed s PartyB A_HOLE_SLOTS" "ante \<le> pk_balanceA s" "ante \<le> pk_balanceB s"
  shows "\<exists>hA hB. afterReveal H ante s =
    Inr (beginStreet (s\<lparr>pk_holeA := hA, pk_holeB := hB, pk_totalBetA := ante, pk_totalBetB := ante\<rparr>) PreflopBet)"
proof -
  obtain hA where hA: "tryDeriveHoleCards H s PartyA = Inr hA" using tryDeriveHoleCards_small [OF assms(1-3)] by blast
  obtain hB where hB: "tryDeriveHoleCards H (s\<lparr>pk_holeA := hA\<rparr>) PartyB = Inr hB"
    using tryDeriveHoleCards_small [of H "s\<lparr>pk_holeA := hA\<rparr>" PartyB] sameCards_slotsOk [of s "s\<lparr>pk_holeA := hA\<rparr>" H] assms(1-3)
    by (auto simp: sameCards_def)
  show ?thesis using assms(4-8) by (auto simp: afterReveal_def hA hB postAntesAndBeginStreet_def)
qed

lemma afterReveal_progress:
  assumes "cardsOk H s" "smallSecrets (pk_localSecretsA s)" "smallSecrets (pk_localSecretsB s)"
    "pk_phase s = OpenPrivateHoles \<Longrightarrow> ante \<le> pk_balanceA s \<and> ante \<le> pk_balanceB s"
  shows "boardExhausted (afterReveal H ante s) \<or> (\<exists>s'. afterReveal H ante s = Inr s')"
proof (cases "pk_phase s")
  case OpenPrivateHoles
  have "slotsOk H s" using assms(1) by (simp add: cardsOk_def)
  from open_holes_ante [OF this assms(2,3) OpenPrivateHoles] OpenPrivateHoles assms(4) show ?thesis
    by (cases "hasRevealed s PartyA B_HOLE_SLOTS \<and> hasRevealed s PartyB A_HOLE_SLOTS") (auto simp: afterReveal_def)
next
  case Showdown
  then show ?thesis using showdown_progress [OF assms(1)] by (cases "hasRevealed s PartyA A_HOLE_SLOTS \<and> hasRevealed s PartyB B_HOLE_SLOTS") (auto simp: afterReveal_def)
next
  case RevealFlop
  then show ?thesis using assms(1) tryRevealBoardThenBet_progress [of H s FLOP_SLOTS FlopBet] by (simp add: afterReveal_def cardsOk_def slot_defs)
next
  case RevealTurn
  then show ?thesis using assms(1) tryRevealBoardThenBet_progress [of H s TURN_SLOTS TurnBet] by (simp add: afterReveal_def cardsOk_def slot_defs)
next
  case RevealRiver
  then show ?thesis using assms(1) tryRevealBoardThenBet_progress [of H s RIVER_SLOTS RiverBet] by (simp add: afterReveal_def cardsOk_def slot_defs)
qed (simp_all add: afterReveal_def)

subsection \<open>Local secrets and antes along a run\<close>

definition pk_ready :: "int \<Rightarrow> PokerState \<Rightarrow> bool" where
  "pk_ready ante s \<longleftrightarrow> smallSecrets (pk_localSecretsA s) \<and> smallSecrets (pk_localSecretsB s) \<and>
     (pk_phase s = CommitPhase \<or> pk_phase s = OpenPrivateHoles \<longrightarrow> ante \<le> pk_balanceA s \<and> ante \<le> pk_balanceB s)"

lemma pk_step_small:
  assumes "cardsOk H s" "seat by1" "smallSecrets (pk_localSecretsA s)" "smallSecrets (pk_localSecretsB s)" "pk_applyMove H ante s m by1 = Inr s'"
  shows "smallSecrets (pk_localSecretsA s') \<and> smallSecrets (pk_localSecretsB s')"
proof -
  have s: "withLocal (pk_localSecretsA s) (pk_localSecretsB s) (pk_holeA s) (pk_holeB s) s = s" by (simp add: withLocal_def)
  from pk_step_local [OF assms(1-4) disjI1 [OF refl] assms(5), of "pk_holeA s" "pk_holeB s"]
  obtain la lb ha hb where "s' = withLocal la lb ha hb s'" "smallSecrets la" "smallSecrets lb" using assms(5) by (auto simp: s)
  then show ?thesis by (metis withLocal_local(10,11))
qed

text \<open>The phases of a hand in order.\<close>

fun phaseRank :: "PokerPhase \<Rightarrow> nat" where
  "phaseRank CommitPhase = 11"
| "phaseRank OpenPrivateHoles = 10"
| "phaseRank PreflopBet = 9"
| "phaseRank RevealFlop = 8"
| "phaseRank FlopBet = 7"
| "phaseRank RevealTurn = 6"
| "phaseRank TurnBet = 5"
| "phaseRank RevealRiver = 4"
| "phaseRank RiverBet = 3"
| "phaseRank Showdown = 2"
| "phaseRank HandOver = 1"
| "phaseRank Done = 0"

definition sameSession :: "PokerState \<Rightarrow> PokerState \<Rightarrow> bool" where
  "sameSession s s' \<longleftrightarrow> pk_handNo s' = pk_handNo s \<and> pk_handCap s' = pk_handCap s"

lemma tryRevealBoardThenBet_phase:
  assumes "tryRevealBoardThenBet H s slots ph = Inr s'"
  shows "s' = s \<or> sameSession s s' \<and>
    (pk_phase s' = ph \<or> pk_phase s' = (if ph = FlopBet then RevealTurn else if ph = TurnBet then RevealRiver else Showdown))"
proof (cases "\<not> hasRevealed s PartyA slots \<or> \<not> hasRevealed s PartyB slots")
  case False
  then obtain s1 where s1: "revealBoard H s (pk_board s) slots = Inr s1" and s': "s' = (if bettingClosed s1 then s1\<lparr>pk_phase := (if ph = FlopBet then RevealTurn
       else if ph = TurnBet then RevealRiver else Showdown)\<rparr> else beginStreet s1 ph)"
    using assms by (auto simp: tryRevealBoardThenBet_def result_simps)
  have "sameSession s s1" using revealBoard_frame [OF s1] by (auto simp: sameSession_def)
  then show ?thesis by (simp add: s' beginStreet_def sameSession_def)
qed (use assms in \<open>simp add: tryRevealBoardThenBet_def\<close>)

lemma afterReveal_phase:
  assumes "afterReveal H ante s = Inr s'"
  shows "s' = s \<or> sameSession s s' \<and> phaseRank (pk_phase s') < phaseRank (pk_phase s) \<and> phaseRank (pk_phase s') < 10"
proof (cases "pk_phase s")
  case Showdown
  show ?thesis
  proof (cases "hasRevealed s PartyA A_HOLE_SLOTS \<and> hasRevealed s PartyB B_HOLE_SLOTS")
    case True
    then obtain hA hB where "pk_resolveShowdown (s\<lparr>pk_shownA := True, pk_shownB := True, pk_shownHoleA := Some hA, pk_shownHoleB := Some hB\<rparr>) = Inr s'"
      using assms Showdown by (auto simp: afterReveal_def Let_def result_simps)
    then have "pk_phase s' = HandOver \<and> sameSession s s'"
      by (rule showdown_cases) (auto simp: sameSession_def pk_settle_def Let_def split: PokerWinner.splits)
    then show ?thesis by (simp add: Showdown)
  qed (use assms Showdown in \<open>auto simp: afterReveal_def\<close>)
next
  case OpenPrivateHoles
  show ?thesis
  proof (cases "hasRevealed s PartyA B_HOLE_SLOTS \<and> hasRevealed s PartyB A_HOLE_SLOTS")
    case True
    then obtain hA hB where "postAntesAndBeginStreet ante (s\<lparr>pk_holeA := hA, pk_holeB := hB\<rparr>) = Inr s'"
      using assms OpenPrivateHoles by (auto simp: afterReveal_def result_simps)
    then have "pk_phase s' = PreflopBet \<and> sameSession s s'"
      by (auto simp: postAntesAndBeginStreet_def beginStreet_def sameSession_def split: if_splits)
    then show ?thesis by (simp add: OpenPrivateHoles)
  qed (use assms OpenPrivateHoles in \<open>auto simp: afterReveal_def\<close>)
qed (use assms tryRevealBoardThenBet_phase [of H s FLOP_SLOTS FlopBet s'] tryRevealBoardThenBet_phase [of H s TURN_SLOTS TurnBet s']
    tryRevealBoardThenBet_phase [of H s RIVER_SLOTS RiverBet s'] in \<open>auto simp: afterReveal_def\<close>)

lemma pk_step_ante:
  assumes "pk_phase s = CommitPhase \<or> pk_phase s = OpenPrivateHoles \<Longrightarrow> ante \<le> pk_balanceA s \<and> ante \<le> pk_balanceB s"
    "pk_applyMove H ante s m by1 = Inr s'" "pk_phase s' = CommitPhase \<or> pk_phase s' = OpenPrivateHoles"
  shows "ante \<le> pk_balanceA s' \<and> ante \<le> pk_balanceB s'"
proof (cases "m = PkForfeit")
  case True
  then show ?thesis using assms(2,3) resolveFold_cards [of s] by (auto simp: pk_applyMove_def elim!: pk_claimForfeit_cases)
next
  case False
  have R: ?thesis if "applyRevealSlots H ante s m by1 = Inr s'" "pk_phase s \<noteq> CommitPhase"
    using that(1)
  proof (rule applyRevealSlots_cases)
    fix target assume a: "afterReveal H ante (if by1 = PartyA then s\<lparr>pk_revealsA := target\<rparr> else s\<lparr>pk_revealsB := target\<rparr>) = Inr s'"
    have "s' = setReveals s by1 target" using afterReveal_phase [OF a] assms(3) by (auto simp: setReveals_def)
    then have "pk_phase s' = pk_phase s" "pk_balanceA s' = pk_balanceA s" "pk_balanceB s' = pk_balanceB s"
      by (simp_all add: setReveals_def)
    then show ?thesis using assms(1,3) by simp
  qed
  have B: ?thesis if "applyBet s m by1 = Inr s'" "betPhase (pk_phase s)"
    using applyBet_cards [OF that] assms(3) phase_disjoint(2) [OF that(2)] boardPhase_nextReveal [of "pk_phase s"] phase_disjoint(3) by auto
  have C: ?thesis if "applyCommit H s m by1 = Inr s'" "pk_phase s = CommitPhase"
    using that(1) assms(1) that(2) by (auto elim!: applyCommit_cases)
  have N: ?thesis if "applyNextHand ante s m = Inr s'"
    using that assms(3) by (auto simp: applyNextHand_def Let_def resetHandFields_def split: PokerMove.splits if_splits)
  show ?thesis using False assms(2) R B C N by (cases "pk_phase s") (simp_all add: pk_applyMove_def betPhase_def)
qed

lemma pk_step_ready:
  assumes "cardsOk H s" "seat by1" "pk_ready ante s" "pk_applyMove H ante s m by1 = Inr s'"
  shows "pk_ready ante s'"
  using pk_step_small [OF assms(1,2) _ _ assms(4)] pk_step_ante [OF _ assms(4)] assms(3) by (auto simp: pk_ready_def)

lemma poker_run_ready:
  "applyMoves (QuantumPokerProtocol H cap ante) s ms = Inr t \<Longrightarrow> cardsOk H s \<Longrightarrow> pk_ready ante s \<Longrightarrow>
   list_all (\<lambda>(m, by1). seat by1) ms \<Longrightarrow> pk_ready ante t"
proof (induction ms arbitrary: s)
  case (Cons x ms)
  obtain m p where x: "x = (m, p)" by (cases x)
  then obtain s1 where s1: "pk_applyMove H ante s m p = Inr s1" "applyMoves (QuantumPokerProtocol H cap ante) s1 ms = Inr t"
    using Cons.prems(1) by (auto simp: result_simps)
  have p: "seat p" using Cons.prems(4) x by simp
  show ?case
    by (rule Cons.IH [OF s1(2) pk_step_cards [OF Cons.prems(2) p s1(1)] pk_step_ready [OF Cons.prems(2) p Cons.prems(3) s1(1)]])
      (use Cons.prems(4) in simp)
qed simp

lemma pk_initialState_ready: "pk_ready ante (pk_initialState cap ante ctx)"
  by (auto simp: pk_ready_def pk_initialState_def Let_def)

subsection \<open>A session is finite\<close>

definition missing :: "PokerState \<Rightarrow> Party \<Rightarrow> nat" where
  "missing s p = length (filter (\<lambda>i. revealArrayFor s p ! i = None) (dueSlots (pk_phase s) p))"

text \<open>The small steps left in a phase: commitments, due reveals, actions.\<close>

definition smallSteps :: "PokerState \<Rightarrow> nat" where
  "smallSteps s = missing s PartyA + missing s PartyB +
     (if pk_commitA s = None then 1 else 0) + (if pk_commitB s = None then 1 else 0) +
     (if pk_actedA s then 0 else 1) + (if pk_actedB s then 0 else 1)"

definition sessionOrder :: "(PokerState \<times> PokerState) set" where
  "sessionOrder = measures [\<lambda>s. nat (pk_handCap s - pk_handNo s), \<lambda>s. phaseRank (pk_phase s),
     \<lambda>s. nat (availableFor s PartyA + availableFor s PartyB), smallSteps]"

lemma sessionOrder_phase:
  "sameSession s s' \<Longrightarrow> phaseRank (pk_phase s') < phaseRank (pk_phase s) \<Longrightarrow> (s', s) \<in> sessionOrder"
  by (simp add: sessionOrder_def sameSession_def)

lemma sessionOrder_small:
  "sameSession s s' \<Longrightarrow> pk_phase s' = pk_phase s \<Longrightarrow> availableFor s' PartyA = availableFor s PartyA \<Longrightarrow>
   availableFor s' PartyB = availableFor s PartyB \<Longrightarrow> smallSteps s' < smallSteps s \<Longrightarrow> (s', s) \<in> sessionOrder"
  by (simp add: sessionOrder_def sameSession_def)

lemma resolveFold_session: "sameSession s (resolveFold (s\<lparr>pk_foldedBy := f\<rparr>))"
  by (simp add: sameSession_def resolveFold_def Let_def pk_settle_def)

lemma forfeit_decreases:
  assumes "pk_claimForfeit s by1 = Inr s'"
  shows "(s', s) \<in> sessionOrder"
  using assms
proof (rule pk_claimForfeit_cases)
  assume e: "expectedQuantumPokerRevealSlots s by1 = Inr []" and s': "s' = resolveFold (s\<lparr>pk_foldedBy := Some (otherParty by1)\<rparr>)"
  have "1 < phaseRank (pk_phase s)" using expected_phase [OF e] by (auto simp: boardPhase_def)
  then show ?thesis using resolveFold_cards [of s] resolveFold_session [of s] by (intro sessionOrder_phase) (simp_all add: s')
qed

lemma missing_setReveals:
  assumes "seat p" "seat q"
  shows "missing (setReveals s p t) q = (if q = p then length (filter (\<lambda>i. t ! i = None) (dueSlots (pk_phase s) p)) else missing s q)"
  using assms by (simp add: missing_def)

lemma setReveals_frame [simp]:
  "pk_actedA (setReveals s p t) = pk_actedA s" "pk_actedB (setReveals s p t) = pk_actedB s"
  "availableFor (setReveals s p t) q = availableFor s q" "sameSession s (setReveals s p t)"
  by (simp_all add: setReveals_def availableFor_def effectiveStack_def pk_balance_def pk_totalBet_def sameSession_def)

lemma reveal_decreases:
  assumes "slotsOk H s" "seat by1" "m \<noteq> PkRevealSlots [] []" "applyRevealSlots H ante s m by1 = Inr s'"
  shows "(s', s) \<in> sessionOrder"
  using assms(4)
proof (rule applyRevealSlots_cases)
  fix slots rvs e commits target
  assume m: "m = PkRevealSlots slots rvs" and r: "expectedQuantumPokerRevealSlots s by1 = Inr e" "sameNumberSet slots e" "length rvs = length slots"
    "commitArrayFor s by1 = Some commits" "recordReveals H commits (revealArrayFor s by1) (zip slots rvs) = Inr target"
    and a: "afterReveal H ante (if by1 = PartyA then s\<lparr>pk_revealsA := target\<rparr> else s\<lparr>pk_revealsB := target\<rparr>) = Inr s'"
  have ne: "e \<noteq> []" using sameNumberSet_set [OF r(2)] r(3) assms(3) m by auto
  note R = reveal_slots [OF assms(1,2) r]
  have z: "filter (\<lambda>i. target ! i = None) (dueSlots (pk_phase s) by1) = []" using R(2) by (simp add: filter_empty_conv)
  have "0 < missing s by1"
    using ne expected_due [OF r(1)] by (auto simp: missing_def filter_map comp_def)
  then have small: "smallSteps (setReveals s by1 target) < smallSteps s"
    using z seat_cases [OF assms(2)] by (auto simp: smallSteps_def missing_setReveals)
  show ?thesis
  proof (cases "s' = setReveals s by1 target")
    case True
    with small show ?thesis by (intro sessionOrder_small) simp_all
  next
    case False
    with afterReveal_phase [OF a [folded setReveals_def]]
    have "sameSession (setReveals s by1 target) s'" "phaseRank (pk_phase s') < phaseRank (pk_phase s)" by simp_all
    then show ?thesis by (intro sessionOrder_phase) (auto simp: sameSession_def setReveals_def split: if_splits)
  qed
qed

lemma commit_decreases:
  assumes "pk_phase s = CommitPhase" "applyCommit H s m by1 = Inr s'"
  shows "(s', s) \<in> sessionOrder"
  using assms(2)
proof (rule applyCommit_cases)
  fix cs s1
  assume s1: "by1 = PartyA \<and> pk_commitA s = None \<and> (\<exists>l. s1 = s\<lparr>pk_commitA := Some cs, pk_localSecretsA := l\<rparr>) \<or>
     by1 \<noteq> PartyA \<and> pk_commitB s = None \<and> (\<exists>l. s1 = s\<lparr>pk_commitB := Some cs, pk_localSecretsB := l\<rparr>)"
    and s': "s' = (if pk_commitA s1 \<noteq> None \<and> pk_commitB s1 \<noteq> None then s1\<lparr>pk_phase := OpenPrivateHoles\<rparr> else s1)"
  have f: "sameSession s s1" "pk_phase s1 = CommitPhase" "availableFor s1 PartyA = availableFor s PartyA" "availableFor s1 PartyB = availableFor s PartyB"
    "smallSteps s1 < smallSteps s"
    using s1 assms(1) by (auto simp: sameSession_def availableFor_def effectiveStack_def pk_balance_def pk_totalBet_def smallSteps_def missing_def)
  show ?thesis
  proof (cases "pk_commitA s1 \<noteq> None \<and> pk_commitB s1 \<noteq> None")
    case True
    then show ?thesis using f(1) assms(1) by (intro sessionOrder_phase) (simp_all add: s' sameSession_def)
  next
    case False
    then have "s' = s1" using s' by auto
    then show ?thesis using f assms(1) by (intro sessionOrder_small) simp_all
  qed
qed

lemma bet_setters_session [simp]:
  "sameSession s (markActed t p b) = sameSession s t" "sameSession s (setStreetBet t p v) = sameSession s t"
  "sameSession s (addTotalBet t p v) = sameSession s t" "sameSession s (t\<lparr>pk_toAct := q\<rparr>) = sameSession s t" "sameSession s s"
  by (auto simp: sameSession_def bet_setters)

lemma afterBetAction_session:
  assumes "afterBetAction t = Inr s'" "betPhase (pk_phase t)"
  shows "sameSession t s' \<and> (s' = t\<lparr>pk_toAct := otherParty (pk_toAct t)\<rparr> \<or> pk_phase s' = nextReveal (pk_phase t))"
  using assms by (auto simp: afterBetAction_def advanceStreet_eq sameSession_def split: if_splits)

lemma nextReveal_rank: "betPhase ph \<Longrightarrow> phaseRank (nextReveal ph) < phaseRank ph \<and> 1 < phaseRank ph"
  by (auto simp: betPhase_def nextReveal_def)

lemma check_decreases:
  assumes "betPhase (pk_phase s)" "streetOk s" "applyCheck s (pk_toAct s) = Inr s'"
  shows "(s', s) \<in> sessionOrder"
proof -
  define p where "p = pk_toAct s"
  have seat: "seat p" using assms(2) by (simp add: streetOk_def Let_def p_def)
  have na: "\<not> pk_acted s p" using assms(2) by (simp add: streetOk_def Let_def p_def)
  have "afterBetAction (markActed s p True) = Inr s'" using assms(3) by (simp add: applyCheck_def Let_def p_def split: if_splits)
  note A = afterBetAction_session [OF this, simplified, OF assms(1)]
  have t: "sameSession s (markActed s p True)" by simp
  have "sameSession s s'" using A t unfolding sameSession_def by simp
  with A consider "s' = (markActed s p True)\<lparr>pk_toAct := otherParty p\<rparr>" | "sameSession s s'" "pk_phase s' = nextReveal (pk_phase s)"
    by (auto simp: p_def)
  then show ?thesis
  proof cases
    case 1
    have "availableFor s' q = availableFor s q" for q
      by (simp add: 1 availableFor_def effectiveStack_eq)
    moreover have "smallSteps s' < smallSteps s"
      using na seat_cases [OF seat] by (auto simp: 1 smallSteps_def missing_def markActed_def pk_acted_def revealArrayFor_def)
    ultimately show ?thesis by (intro sessionOrder_small) (simp_all add: 1)
  next
    case 2
    then show ?thesis using nextReveal_rank [OF assms(1)] by (intro sessionOrder_phase) simp_all
  qed
qed

lemma bet_decreases:
  assumes "betPhase (pk_phase s)" "potOk s" "streetOk s" "applyBetOrRaise s (pk_toAct s) amount = Inr s'"
  shows "(s', s) \<in> sessionOrder"
proof -
  define p where "p = pk_toAct s"
  have seat: "seat p" using assms(3) by (simp add: streetOk_def Let_def p_def)
  have g: "0 < amount" "amount \<le> availableFor s p"
    and s': "s' = (markActed (markActed (addTotalBet (setStreetBet s p (pk_streetBet s p + amount)) p amount) p True)
                       (otherParty p) False)\<lparr>pk_toAct := otherParty p\<rparr>"
    using assms(4) by (auto simp: applyBetOrRaise_def Let_def p_def split: if_splits)
  have "effectiveStack s' = effectiveStack s" by (simp add: effectiveStack_eq s')
  then have a: "availableFor s' q = (if q = p then availableFor s q - amount else availableFor s q)" if "seat q" for q
    using g that seat by (auto simp: s' availableFor_def Let_def split: if_splits)
  have nn: "0 \<le> availableFor s q" for q by (simp add: availableFor_def Let_def)
  have "nat (availableFor s' PartyA + availableFor s' PartyB) < nat (availableFor s PartyA + availableFor s PartyB)"
    using a g nn [of PartyA] nn [of PartyB] seat_cases [OF seat] by auto
  moreover have "sameSession s s'" "pk_phase s' = pk_phase s" by (simp_all add: s')
  ultimately show ?thesis by (simp add: sessionOrder_def sameSession_def)
qed

lemma applyBet_decreases:
  assumes "moneyOk s" "betPhase (pk_phase s)" "applyBet s m by1 = Inr s'"
  shows "(s', s) \<in> sessionOrder"
proof -
  have b: "potOk s" "streetOk s" using assms(1,2) by (simp_all add: moneyOk_def betsOk_bet)
  have by1: "by1 = pk_toAct s" using assms(3) by (auto simp: applyBet_def split: if_splits)
  note r = nextReveal_rank [OF assms(2)]
  show ?thesis
  proof (cases m)
    case PkFold
    then have s': "s' = resolveFold (s\<lparr>pk_foldedBy := Some by1\<rparr>)" using assms(3) by (simp add: applyBet_def by1)
    show ?thesis using r resolveFold_cards [of s] resolveFold_session [of s] by (intro sessionOrder_phase) (simp_all add: s')
  next
    case PkCall
    then have c: "applyCall s (pk_toAct s) = Inr s'" using assms(3) by (simp add: applyBet_def by1)
    obtain t where "afterBetAction t = Inr s'" "sameSession s t" "pk_phase t = pk_phase s"
      using c by (simp add: applyCall_def Let_def split: if_splits)
    then have "sameSession s s'" using afterBetAction_session [of t s'] assms(2) by (auto simp: sameSession_def)
    then show ?thesis using applyCall_money [OF assms(2) b c] r by (intro sessionOrder_phase) simp_all
  qed (use assms(3) by1 check_decreases [OF assms(2) b(2)] bet_decreases [OF assms(2) b] in \<open>simp_all add: applyBet_def\<close>)
qed

lemma nextHand_decreases:
  assumes "pk_phase s = HandOver" "applyNextHand ante s m = Inr s'"
  shows "(s', s) \<in> sessionOrder"
proof -
  have "pk_handNo s' = pk_handNo s + 1" "pk_handCap s' = pk_handCap s"
    "pk_phase s' = (if pk_handNo s + 1 < pk_handCap s \<and> ante \<le> pk_balanceA s \<and> ante \<le> pk_balanceB s then CommitPhase else Done)"
    using assms(2) by (auto simp: applyNextHand_def Let_def resetHandFields_def split: PokerMove.splits)
  then show ?thesis using assms(1) by (auto simp: sessionOrder_def)
qed

lemma pk_step_decreases:
  assumes "pk_inv H s" "seat by1" "m \<noteq> PkRevealSlots [] []" "pk_applyMove H ante s m by1 = Inr s'"
  shows "(s', s) \<in> sessionOrder"
proof (cases "m = PkForfeit")
  case True
  then show ?thesis using assms(4) forfeit_decreases by (simp add: pk_applyMove_def)
next
  case False
  have i: "moneyOk s" "slotsOk H s" using assms(1) by (simp_all add: pk_inv_def cardsOk_def)
  show ?thesis
    using False assms(4) reveal_decreases [OF i(2) assms(2,3), of ante s'] commit_decreases [of s H m by1 s']
      applyBet_decreases [OF i(1), of m by1 s'] nextHand_decreases [of s ante m s']
    by (cases "pk_phase s") (simp_all add: pk_applyMove_def betPhase_def)
qed

text \<open>While a seat still owes a reveal, the phase waits for it.\<close>

lemma afterReveal_waits:
  assumes "seat p" "expectedQuantumPokerRevealSlots s p = Inr e" "e \<noteq> []"
  shows "afterReveal H ante s = Inr s"
proof -
  have "\<not> (hasRevealed s PartyA (map int (dueSlots (pk_phase s) PartyA)) \<and> hasRevealed s PartyB (map int (dueSlots (pk_phase s) PartyB)))"
    using expected_due [OF assms(2)] assms(3) seat_cases [OF assms(1)] by (auto simp: hasRevealed_nat filter_empty_conv filter_map)
  then show ?thesis
    using expected_phase [OF assms(2)]
    by (auto simp: boardPhase_def afterReveal_def tryRevealBoardThenBet_def slot_defs ownHoles_def oppHoles_def)
qed

text \<open>The empty reveal of a seat that owes nothing changes nothing and is accepted as often as it is made.\<close>

lemma poker_empty_reveal_accepted:
  assumes "pk_inv H s" "seat by1" "expectedQuantumPokerRevealSlots s by1 = Inr []"
    "expectedQuantumPokerRevealSlots s (otherParty by1) = Inr e" "e \<noteq> []"
  shows "pk_applyMove H ante s (PkRevealSlots [] []) by1 = Inr s"
proof -
  have mid: "pk_phase s = OpenPrivateHoles \<or> boardPhase (pk_phase s)" by (rule expected_phase [OF assms(3)])
  then have "midHand (pk_phase s)" by (auto simp: midHand_def boardPhase_def)
  then obtain cs where cs: "commitArrayFor s by1 = Some cs"
    using assms(1,2) slotsOk_seat [of H s by1] by (auto simp: pk_inv_def cardsOk_def slotsFor_def)
  have "afterReveal H ante s = Inr s"
    using assms(2) by (intro afterReveal_waits [OF _ assms(4,5)]) (auto simp: seat_def)
  moreover have "s\<lparr>pk_revealsA := pk_revealsA s\<rparr> = s" "s\<lparr>pk_revealsB := pk_revealsB s\<rparr> = s" by simp_all
  ultimately show ?thesis
    using mid assms(3) cs by (auto simp: pk_applyMove_def applyRevealSlots_def boardPhase_def revealArrayFor_def)
qed

lemma expected_other:
  "seat p \<Longrightarrow> expectedQuantumPokerRevealSlots (setReveals s p t) (otherParty p) = expectedQuantumPokerRevealSlots s (otherParty p)"
  by (cases "pk_phase s") (auto simp: expectedQuantumPokerRevealSlots_def revealIfMissing_def seat_def)

text \<open>A reveal made while the opponent still owes one completes the own slots and changes nothing else.\<close>

lemma first_reveal:
  assumes "slotsOk H s" "seat p" "expectedQuantumPokerRevealSlots s (otherParty p) = Inr e" "e \<noteq> []"
    "pk_applyMove H ante s (PkRevealSlots slots rvs) p = Inr s1"
  obtains target where "s1 = setReveals s p target" "expectedQuantumPokerRevealSlots s1 p = Inr []"
    "expectedQuantumPokerRevealSlots s1 (otherParty p) = Inr e"
proof -
  have mid: "pk_phase s = OpenPrivateHoles \<or> boardPhase (pk_phase s)" by (rule expected_phase [OF assms(3)])
  then have "applyRevealSlots H ante s (PkRevealSlots slots rvs) p = Inr s1"
    using assms(5) by (auto simp: pk_applyMove_def boardPhase_def)
  then show thesis
  proof (rule applyRevealSlots_cases)
    fix slots' rvs' e' commits target
    assume r: "expectedQuantumPokerRevealSlots s p = Inr e'" "sameNumberSet slots' e'" "length rvs' = length slots'"
      "commitArrayFor s p = Some commits" "recordReveals H commits (revealArrayFor s p) (zip slots' rvs') = Inr target"
      and a: "afterReveal H ante (if p = PartyA then s\<lparr>pk_revealsA := target\<rparr> else s\<lparr>pk_revealsB := target\<rparr>) = Inr s1"
    let ?t = "setReveals s p target"
    have q: "seat (otherParty p)" "otherParty p \<noteq> p" using assms(2) by (auto simp: seat_def)
    have own: "expectedQuantumPokerRevealSlots ?t p = Inr x \<Longrightarrow> x = []" for x
      using expected_due [of ?t p x] reveal_slots(2) [OF assms(1,2) r] assms(2) by (auto simp: filter_empty_conv)
    have "expectedQuantumPokerRevealSlots ?t (otherParty p) = Inr e" using assms(3) expected_other [OF assms(2)] by simp
    moreover have "expectedQuantumPokerRevealSlots ?t p = Inr []"
      using own mid by (cases "expectedQuantumPokerRevealSlots ?t p") (auto simp: expectedQuantumPokerRevealSlots_def boardPhase_def)
    moreover have "s1 = ?t" using a afterReveal_waits [OF q(1) calculation(1) assms(4), of H ante] by (simp add: setReveals_def)
    ultimately show thesis using that by simp
  qed
qed

text \<open>The driver's move in a betting round, on any state that satisfies the betting invariant.\<close>

lemma betPhase_applyBet: "betPhase (pk_phase s) \<Longrightarrow> m \<noteq> PkForfeit \<Longrightarrow> pk_applyMove H ante s m p = applyBet s m p"
  by (auto simp: pk_applyMove_def betPhase_def)

lemma betPhase_choose: "betPhase (pk_phase s) \<Longrightarrow> chooseMove H d s draws = (d, Inr (chooseBet d s draws))"
  by (auto simp: chooseMove_def betPhase_def)

lemma check_accepted:
  assumes "betPhase (pk_phase s)" "streetOk s" "\<not> pk_streetBet s (pk_toAct s) < pk_streetBet s (otherParty (pk_toAct s))"
  shows "\<exists>s'. applyCheck s (pk_toAct s) = Inr s'"
proof -
  have "pk_streetBetA s = pk_streetBetB s" using assms(2,3) by (auto simp: streetOk_def Let_def pk_streetBet_def seat_def)
  then show ?thesis using assms(1) by (auto simp: applyCheck_def Let_def pk_streetBet_def afterBetAction_def advanceStreet_eq)
qed

lemma bet_accepted_iff:
  assumes "potOk s" "streetOk s" "\<not> pk_streetBet s (pk_toAct s) < pk_streetBet s (otherParty (pk_toAct s))"
    "0 < amount" "amount \<le> pk_balance s (pk_toAct s) - pk_totalBet s (pk_toAct s)"
  shows "(\<exists>s'. applyBetOrRaise s (pk_toAct s) amount = Inr s') \<or>
    (availableFor s (pk_toAct s) < amount \<and> pk_balance s (otherParty (pk_toAct s)) < pk_balance s (pk_toAct s) \<and>
     applyBetOrRaise s (pk_toAct s) amount = Inl (Error ''bet exceeds the effective stack''))"
proof -
  have "seat (pk_toAct s)" using assms(2) by (simp add: streetOk_def Let_def)
  then have "pk_balance s (otherParty (pk_toAct s)) < pk_balance s (pk_toAct s)" if "availableFor s (pk_toAct s) < amount"
    using that assms(5) availableFor_eq [OF assms(1)] by (auto simp: effectiveStack_eq pk_balance_def min_def seat_def split: if_splits)
  then show ?thesis using assms(3,4) by (auto simp: applyBetOrRaise_def Let_def not_less)
qed

lemma driver_betting:
  assumes "betPhase (pk_phase s)" "potOk s" "streetOk s" "pk_toAct s = sd_party d" "\<forall>n>0. 0 \<le> dr_floor draws n \<and> dr_floor draws n < n"
  shows "\<exists>m. chooseMove H d s draws = (d, Inr (Some m)) \<and>
    ((\<exists>s'. pk_applyMove H ante s m (sd_party d) = Inr s') \<or>
     (\<exists>amount. m = PkBet amount \<and> availableFor s (sd_party d) < amount \<and>
        pk_balance s (otherParty (sd_party d)) < pk_balance s (sd_party d) \<and>
        pk_applyMove H ante s m (sd_party d) = Inl (Error ''bet exceeds the effective stack'')))"
proof (cases "pk_streetBet s (sd_party d) < pk_streetBet s (otherParty (sd_party d))")
  case True
  with call_always_covered [OF assms(1-3)] show ?thesis
    by (auto simp: betPhase_choose [OF assms(1)] chooseBet_def Let_def assms(4) betPhase_applyBet [OF assms(1)] applyBet_def)
next
  case False
  define available where "available = pk_balance s (sd_party d) - pk_totalBet s (sd_party d)"
  define amount where "amount = 1 + dr_floor draws (if available < 200 then available else 200)"
  show ?thesis
  proof (cases "available > 0 \<and> dr_bet draws")
    case True
    have "0 < amount \<and> amount \<le> available"
      using True assms(5) [rule_format, of available] assms(5) [rule_format, of 200] by (simp add: amount_def)
    then have "(\<exists>s'. applyBetOrRaise s (sd_party d) amount = Inr s') \<or>
        (availableFor s (sd_party d) < amount \<and> pk_balance s (otherParty (sd_party d)) < pk_balance s (sd_party d) \<and>
         applyBetOrRaise s (sd_party d) amount = Inl (Error ''bet exceeds the effective stack''))"
      using bet_accepted_iff [OF assms(2,3), of amount] False by (simp add: assms(4) available_def)
    moreover have "chooseMove H d s draws = (d, Inr (Some (PkBet amount)))"
      using True False by (auto simp: betPhase_choose [OF assms(1)] chooseBet_def Let_def assms(4) amount_def available_def)
    ultimately show ?thesis by (simp add: betPhase_applyBet [OF assms(1)] applyBet_def assms(4))
  next
    case no: False
    have "chooseMove H d s draws = (d, Inr (Some PkCheck))"
      using no False by (auto simp: betPhase_choose [OF assms(1)] chooseBet_def Let_def assms(4) available_def)
    then show ?thesis
      using check_accepted [OF assms(1,3)] False by (simp add: betPhase_applyBet [OF assms(1)] applyBet_def assms(4))
  qed
qed

text \<open>The exception is real: a driver with the longer stack may draw a bet that is refused.\<close>

lemma driver_overbet:
  assumes "betPhase (pk_phase s)" "pk_toAct s = sd_party d" "pk_streetBet s (sd_party d) = pk_streetBet s (otherParty (sd_party d))"
    "dr_bet draws" "dr_floor draws 200 = 199" "pk_totalBet s (sd_party d) + 200 \<le> pk_balance s (sd_party d)"
    "availableFor s (sd_party d) < 200"
  shows "chooseMove H d s draws = (d, Inr (Some (PkBet 200))) \<and>
    pk_applyMove H ante s (PkBet 200) (sd_party d) = Inl (Error ''bet exceeds the effective stack'')"
  using assms
  by (simp add: betPhase_choose [OF assms(1)] chooseBet_def Let_def betPhase_applyBet [OF assms(1)] applyBet_def applyBetOrRaise_def)

subsection \<open>An example session\<close>

definition exampleSecrets :: "byte \<Rightarrow> SlotSecret list" where
  "exampleSecrets b = replicate 9 \<lparr>rv_value = replicate 32 b, rv_salt = replicate 16 b\<rparr>"

definition exampleCommits :: "byte \<Rightarrow> bytes list" where
  "exampleCommits b = (case commitSlotSecrets sampleHash (exampleSecrets b) of Inr cs \<Rightarrow> cs | Inl e \<Rightarrow> [])"

definition examplePokerContext :: ProtocolContext where
  "examplePokerContext = \<lparr>ctx_tunnelId = ''0x1'', ctx_initialBalances = \<lparr>bal_a = 1000, bal_b = 100\<rparr>\<rparr>"

definition examplePokerStart :: PokerState where
  "examplePokerStart = pk_initialState 10 50 examplePokerContext"

definition examplePokerMoves :: "(PokerMove \<times> Party) list" where
  "examplePokerMoves =
     [(PkCommitSlots (exampleCommits 1) (Some (exampleSecrets 1)), PartyA),
      (PkCommitSlots (exampleCommits 2) (Some (exampleSecrets 2)), PartyB)]"

lemma exampleSecret_small: "smallReveal \<lparr>rv_value = replicate 32 b, rv_salt = replicate 16 b\<rparr>"
  by (simp add: smallReveal_def u64_def)

lemma exampleCommits_ok:
  "commitSlotSecrets sampleHash (exampleSecrets b) = Inr (exampleCommits b)" "length (exampleCommits b) = 9"
  "\<And>c. c \<in> set (exampleCommits b) \<Longrightarrow> length c = 32"
proof -
  have "\<exists>p. commitPreimage [replicate 32 b, replicate 16 b] = Inr p"
    using exampleSecret_small [of b] by (simp add: commitPreimage_def lengthPrefixed_def smallReveal_def)
  then obtain h where h: "computeCommitment sampleHash (replicate 32 b) (replicate 16 b) = Inr h" "length h = 32"
    by (auto simp: computeCommitment_def MIN_SALT_LEN_def hashCommitment_def)
  have "commitSlotSecrets sampleHash (exampleSecrets b) = Inr (map (\<lambda>_. h) (exampleSecrets b))"
    using mapE_all_Inr [of "exampleSecrets b" "\<lambda>secret. computeCommitment sampleHash (rv_value secret) (rv_salt secret)" "\<lambda>_. h"] h(1)
    by (simp add: commitSlotSecrets_def exampleSecrets_def SLOT_COUNT_def)
  then have e: "commitSlotSecrets sampleHash (exampleSecrets b) = Inr (replicate 9 h)" by (simp add: exampleSecrets_def map_replicate_const)
  show "commitSlotSecrets sampleHash (exampleSecrets b) = Inr (exampleCommits b)" "length (exampleCommits b) = 9"
    "\<And>c. c \<in> set (exampleCommits b) \<Longrightarrow> length c = 32"
    using e h(2) by (auto simp: exampleCommits_def)
qed

lemma validateCommitments_ok:
  assumes "length cs = 9" "\<And>c. c \<in> set cs \<Longrightarrow> length c = 32"
  shows "validateCommitments cs = Inr cs"
  using mapE_all_Inr [of cs "\<lambda>c. if length c \<noteq> 32 then Inl (Error ''commitment must be 32 bytes'') else Inr c" "\<lambda>c. c"] assms
  by (simp add: validateCommitments_def SLOT_COUNT_def)

lemma validateLocalSecrets_ok:
  "commitSlotSecrets H secrets = Inr cs \<Longrightarrow> validateLocalSecretsForCommit H cs secrets = Inr secrets"
  using commitSlotSecrets_opens(1) [of H secrets cs] by (simp add: validateLocalSecretsForCommit_def SLOT_COUNT_def list_ex_iff)

lemma examplePoker_run:
  obtains s where "applyMoves (QuantumPokerProtocol sampleHash 10 50) examplePokerStart examplePokerMoves = Inr s"
    "pk_phase s = OpenPrivateHoles" "pk_commitA s = Some (exampleCommits 1)" "pk_commitB s = Some (exampleCommits 2)"
    "pk_revealsA s = replicate 9 None" "pk_revealsB s = replicate 9 None" "pk_handNo s = 0" "pk_balanceA s = 1000" "pk_balanceB s = 100"
proof -
  have v: "validateCommitments (exampleCommits b) = Inr (exampleCommits b)"
    "validateLocalSecretsForCommit sampleHash (exampleCommits b) (exampleSecrets b) = Inr (exampleSecrets b)" for b
    using exampleCommits_ok [where b = b] by (simp_all add: validateCommitments_ok validateLocalSecrets_ok)
  show thesis
    by (rule that, simp add: examplePokerMoves_def examplePokerStart_def pk_initialState_def Let_def examplePokerContext_def
        pk_applyMove_def applyCommit_def v emptyRevealSlots_def SLOT_COUNT_def, simp_all)
qed

lemma examplePoker_funded: "funded (ctx_initialBalances examplePokerContext)" "list_all (\<lambda>(m, by1). seat by1) examplePokerMoves"
  by (simp_all add: funded_def examplePokerContext_def examplePokerMoves_def)

lemma examplePoker_opens:
  obtains s s1 where "applyMoves (QuantumPokerProtocol sampleHash 10 50) examplePokerStart examplePokerMoves = Inr s"
    "pk_applyMove sampleHash 50 s (PkRevealSlots [2, 3] (take 2 (exampleSecrets 1))) PartyA = Inr s1"
    "expectedQuantumPokerRevealSlots s PartyB = Inr [0, 1]" "\<exists>t. s1 = setReveals s PartyA t"
    "expectedQuantumPokerRevealSlots s1 PartyA = Inr []" "expectedQuantumPokerRevealSlots s1 PartyB = Inr [0, 1]"
    "pk_phase s1 = OpenPrivateHoles" "pk_commitB s1 = Some (exampleCommits 2)" "pk_balanceA s1 = 1000" "pk_balanceB s1 = 100"
proof (rule examplePoker_run)
  fix s assume r: "applyMoves (QuantumPokerProtocol sampleHash 10 50) examplePokerStart examplePokerMoves = Inr s" "pk_phase s = OpenPrivateHoles"
    "pk_commitA s = Some (exampleCommits 1)" "pk_commitB s = Some (exampleCommits 2)" "pk_revealsA s = replicate 9 None" "pk_revealsB s = replicate 9 None"
    "pk_balanceA s = 1000" "pk_balanceB s = 100"
  have e: "expectedQuantumPokerRevealSlots s PartyA = Inr [2, 3]" "expectedQuantumPokerRevealSlots s PartyB = Inr [0, 1]"
    using r by (simp_all add: expectedQuantumPokerRevealSlots_def revealIfMissing_def revealArrayFor_def slot_defs)
  have inv: "slotsOk sampleHash s"
    using poker_run_inv(1) [of examplePokerContext examplePokerMoves sampleHash 10 50 s] examplePoker_funded r(1)
    by (simp add: pk_inv_def cardsOk_def examplePokerStart_def)
  have c: "commitArrayFor s PartyA = Some (exampleCommits 1)" using r(3) by (simp add: commitArrayFor_def)
  have "map (\<lambda>i. exampleSecrets 1 ! nat i) [2, 3] = take 2 (exampleSecrets 1)" by (simp add: exampleSecrets_def numeral_2_eq_2)
  then obtain t where a: "applyRevealSlots sampleHash 50 s (PkRevealSlots [2, 3] (take 2 (exampleSecrets 1))) PartyA = afterReveal sampleHash 50 (setReveals s PartyA t)"
    by (metis honest_reveal_recorded [OF inv seat_simps(1) e(1) c exampleCommits_ok(1)])
  have "expectedQuantumPokerRevealSlots (setReveals s PartyA t) PartyB = Inr [0, 1]"
    using e(2) expected_other [of PartyA s t] by simp
  then have m: "pk_applyMove sampleHash 50 s (PkRevealSlots [2, 3] (take 2 (exampleSecrets 1))) PartyA = Inr (setReveals s PartyA t)"
    using r(2) a afterReveal_waits [of PartyB "setReveals s PartyA t" "[0, 1]" sampleHash 50] by (simp add: pk_applyMove_def)
  have "expectedQuantumPokerRevealSlots (setReveals s PartyA t) PartyA = Inr [] \<and> expectedQuantumPokerRevealSlots (setReveals s PartyA t) PartyB = Inr [0, 1]"
    by (rule first_reveal [OF inv _ _ _ m]) (simp_all add: e(2))
  then show thesis using r e m by (intro that [of s "setReveals s PartyA t"]) (auto simp: setReveals_def)
qed

text \<open>Both seats open the other's hole cards, and the first betting round begins.\<close>

definition examplePokerOpens :: "(PokerMove \<times> Party) list" where
  "examplePokerOpens =
     [(PkRevealSlots [2, 3] (take 2 (exampleSecrets 1)), PartyA), (PkRevealSlots [0, 1] (take 2 (exampleSecrets 2)), PartyB)]"

lemma applyMoves_append: "applyMoves P s (ms @ ms') = bindE (applyMoves P s ms) (\<lambda>s1. applyMoves P s1 ms')"
  by (induction P s ms rule: applyMoves.induct) (auto simp: bindE_def split: sum.splits)

lemma examplePoker_bets:
  obtains s where "applyMoves (QuantumPokerProtocol sampleHash 10 50) examplePokerStart (examplePokerMoves @ examplePokerOpens) = Inr s"
    "pk_phase s = PreflopBet" "pk_toAct s = PartyA" "pk_balanceA s = 1000" "pk_balanceB s = 100" "pk_totalBetA s = 50" "pk_totalBetB s = 50"
    "pk_streetBetA s = 0" "pk_streetBetB s = 0"
proof (rule examplePoker_opens)
  fix s s1 assume r: "applyMoves (QuantumPokerProtocol sampleHash 10 50) examplePokerStart examplePokerMoves = Inr s"
    "pk_applyMove sampleHash 50 s (PkRevealSlots [2, 3] (take 2 (exampleSecrets 1))) PartyA = Inr s1"
    "expectedQuantumPokerRevealSlots s1 PartyA = Inr []" "expectedQuantumPokerRevealSlots s1 PartyB = Inr [0, 1]"
    "pk_phase s1 = OpenPrivateHoles" "pk_commitB s1 = Some (exampleCommits 2)" "pk_balanceA s1 = 1000" "pk_balanceB s1 = 100"
  have run: "applyMoves (QuantumPokerProtocol sampleHash 10 50) examplePokerStart (examplePokerMoves @ [hd examplePokerOpens]) = Inr s1"
    using r by (simp add: applyMoves_append examplePokerOpens_def)
  have seats: "list_all (\<lambda>(m, by1). seat by1) (examplePokerMoves @ [hd examplePokerOpens])"
    using examplePoker_funded(2) by (simp add: examplePokerOpens_def)
  have inv: "slotsOk sampleHash s1"
    using poker_run_inv(1) [OF examplePoker_funded(1) seats, of sampleHash 10 50 s1] run by (simp add: pk_inv_def cardsOk_def examplePokerStart_def)
  have small: "smallSecrets (pk_localSecretsA s1)" "smallSecrets (pk_localSecretsB s1)"
    using poker_run_ready [OF run] seats pk_initialState_cards pk_initialState_ready by (simp_all add: examplePokerStart_def pk_ready_def)
  have c: "commitArrayFor s1 PartyB = Some (exampleCommits 2)" using r(6) by (simp add: commitArrayFor_def)
  have mp: "map (\<lambda>i. exampleSecrets 2 ! nat i) [0, 1] = take 2 (exampleSecrets 2)" by (simp add: exampleSecrets_def numeral_2_eq_2)
  obtain t where t: "recordReveals sampleHash (exampleCommits 2) (revealArrayFor s1 PartyB) (zip [0, 1] (map (\<lambda>i. exampleSecrets 2 ! nat i) [0, 1])) = Inr t"
    "applyRevealSlots sampleHash 50 s1 (PkRevealSlots [0, 1] (map (\<lambda>i. exampleSecrets 2 ! nat i) [0, 1])) PartyB = afterReveal sampleHash 50 (setReveals s1 PartyB t)"
    by (rule honest_reveal_recorded [OF inv seat_simps(2) r(4) c exampleCommits_ok(1)])
  let ?t = "setReveals s1 PartyB t"
  note R = reveal_slots [OF inv seat_simps(2) r(4) sameNumberSet_refl _ c t(1)]
  have "hasRevealed ?t PartyB A_HOLE_SLOTS" using R(2) r(5) by (simp add: hasRevealed_nat slot_defs oppHoles_def)
  moreover have "hasRevealed ?t PartyA B_HOLE_SLOTS"
    using expected_due [OF r(3)] r(5) by (simp add: hasRevealed_nat slot_defs oppHoles_def split: if_splits)
  ultimately have "\<exists>hA hB. afterReveal sampleHash 50 ?t =
      Inr (beginStreet (?t\<lparr>pk_holeA := hA, pk_holeB := hB, pk_totalBetA := 50, pk_totalBetB := 50\<rparr>) PreflopBet)"
    using R(1) small r(5,7,8) by (intro open_holes_ante) (simp_all add: setReveals_def)
  then obtain hA hB where a: "pk_applyMove sampleHash 50 s1 (PkRevealSlots [0, 1] (take 2 (exampleSecrets 2))) PartyB =
      Inr (beginStreet (?t\<lparr>pk_holeA := hA, pk_holeB := hB, pk_totalBetA := 50, pk_totalBetB := 50\<rparr>) PreflopBet)"
    using t(2) r(5) unfolding mp by (auto simp: pk_applyMove_def)
  show thesis
    by (rule that, use r a in \<open>simp add: applyMoves_append examplePokerOpens_def\<close>) (simp_all add: beginStreet_def setReveals_def r)
qed

subsection \<open>Properties\<close>

text \<open>C31. Quantum Poker conserves and covers: whatever the two seats play from non-negative deposits with a
  non-negative ante, the balances stay non-negative and sum to the deposits, in every phase but the end of a
  hand what each seat has put in is covered by both stacks, so the loser can always pay the pot in full, and
  outside a betting round both seats have put in the same.\<close>

theorem poker_conserves:
  assumes "funded (ctx_initialBalances ctx)" "list_all (\<lambda>(m, by1). seat by1) ms"
    "applyMoves (QuantumPokerProtocol H cap (int ante)) (pk_initialState cap (int ante) ctx) ms = Inr s"
  shows "0 \<le> pk_balanceA s \<and> 0 \<le> pk_balanceB s \<and>
    pk_balanceA s + pk_balanceB s = bal_a (ctx_initialBalances ctx) + bal_b (ctx_initialBalances ctx) \<and>
    (pk_phase s = HandOver \<or>
       0 \<le> pk_totalBetA s \<and> 0 \<le> pk_totalBetB s \<and>
       pk_totalBetA s \<le> min (pk_balanceA s) (pk_balanceB s) \<and> pk_totalBetB s \<le> min (pk_balanceA s) (pk_balanceB s) \<and>
       (betPhase (pk_phase s) \<or> pk_totalBetA s = pk_totalBetB s))"
proof -
  have m: "moneyOk s" "pk_total s = bal_a (ctx_initialBalances ctx) + bal_b (ctx_initialBalances ctx)"
    using poker_run_inv [OF assms] by (simp_all add: pk_inv_def)
  then show ?thesis
    by (cases "pk_phase s") (auto simp: moneyOk_def betsOk_def potOk_def effectiveStack_eq phase_kinds)
qed

theorem poker_conserves_witness:
  "\<exists>s. applyMoves (QuantumPokerProtocol sampleHash 10 50) examplePokerStart examplePokerMoves = Inr s \<and>
     pk_balanceA s + pk_balanceB s = 1100 \<and> pk_totalBetA s = pk_totalBetB s"
proof (rule examplePoker_run)
  fix s assume r: "applyMoves (QuantumPokerProtocol sampleHash 10 50) examplePokerStart examplePokerMoves = Inr s" "pk_phase s = OpenPrivateHoles"
  from poker_conserves [OF examplePoker_funded, of sampleHash 10 50 s] r show ?thesis
    by (auto simp: examplePokerStart_def examplePokerContext_def betPhase_def)
qed

text \<open>C32. Cards are hidden until they are due and belong to both seats: in every state the two seats can
  reach, the slots that the phase hides from the opponent (the own hole cards before the showdown, the board
  cards before their street) are not public, every public reveal opens the commitment of its slot, and the
  board is a list of distinct cards, each derived from the public reveals of both seats.\<close>

theorem poker_cards_hidden_until_due:
  assumes "funded (ctx_initialBalances ctx)" "list_all (\<lambda>(m, by1). seat by1) ms"
    "applyMoves (QuantumPokerProtocol H cap (int ante)) (pk_initialState cap (int ante) ctx) ms = Inr s" "seat p"
  shows "(\<forall>i\<in>set (hiddenSlots (pk_phase s) p). revealArrayFor s p ! i = None) \<and>
    (\<forall>i<9. \<forall>r. revealArrayFor s p ! i = Some r \<longrightarrow> opensCommit H (commitArrayFor s p) i r) \<and>
    distinct (pk_board s) \<and>
    (\<forall>i<length (pk_board s).
       deriveSlotCard H s (pk_boardSlots s ! i) (pk_boardCounters s ! i) False = Inr (Some (pk_board s ! i)))"
proof -
  have c: "slotsOk H s" "boardCore H s" using poker_run_inv(1) [OF assms(1-3)] by (simp_all add: pk_inv_def cardsOk_def boardOk_def)
  show ?thesis using slotsOk_seat [OF c(1) assms(4)] c(2) by (simp add: slotsFor_def boardCore_def)
qed

theorem poker_cards_hidden_until_due_witness:
  "\<exists>s. applyMoves (QuantumPokerProtocol sampleHash 10 50) examplePokerStart examplePokerMoves = Inr s \<and>
     revealArrayFor s PartyB ! 2 = None \<and> revealArrayFor s PartyB ! 3 = None \<and> revealArrayFor s PartyB ! 8 = None"
proof (rule examplePoker_run)
  fix s assume r: "applyMoves (QuantumPokerProtocol sampleHash 10 50) examplePokerStart examplePokerMoves = Inr s" "pk_phase s = OpenPrivateHoles"
  from poker_cards_hidden_until_due [OF examplePoker_funded, of sampleHash 10 50 s PartyB] r show ?thesis
    by (auto simp: examplePokerStart_def ownHoles_def)
qed

text \<open>C33. What a seat keeps to itself never reaches the signed state: whatever moves are played, a seat that
  applies its own moves with their secrets and the moves of the peer as the relay codec delivers them, without
  any secret, accepts the same moves and arrives at the same public state, the same signed bytes and the same
  balances.\<close>

theorem poker_seats_sign_the_same:
  assumes "list_all (\<lambda>(m, by1). seat by1) ms" "list_all2 relayed ms received"
    "applyMoves (QuantumPokerProtocol H cap ante) (pk_initialState cap ante ctx) ms = Inr s"
  shows "\<exists>s'. applyMoves (QuantumPokerProtocol H cap ante) (pk_initialState cap ante ctx) received = Inr s' \<and>
    pk_public s' = pk_public s \<and> pk_encodeState s' = pk_encodeState s \<and> pk_balances s' = pk_balances s"
proof -
  have "list_all2 seatView ms received" using assms(2) relayed_seatView by (rule list_all2_mono)
  moreover have "withLocal None None None None (pk_initialState cap ante ctx) = pk_initialState cap ante ctx"
    by (simp add: withLocal_def pk_initialState_def Let_def)
  ultimately obtain la lb ha hb where
    "applyMoves (QuantumPokerProtocol H cap ante) (pk_initialState cap ante ctx) received = Inr (withLocal la lb ha hb s)"
    using poker_run_local [OF _ assms(1) pk_initialState_cards smallSecrets_None smallSecrets_None assms(3), of received None None] by auto
  then show ?thesis by (auto simp: pk_encodeState_local pk_balances_def)
qed

lemma examplePoker_relayed:
  "list_all2 relayed examplePokerMoves
     [(PkCommitSlots (exampleCommits 1) (Some (exampleSecrets 1)), PartyA), (PkCommitSlots (exampleCommits 2) None, PartyB)]"
proof -
  have "mapE (\<lambda>c. bytesFromHex (Some c) l (Some 32)) (map (\<lambda>c. JStr (hex0x c)) (exampleCommits 2)) = Inr (exampleCommits 2)" for l
    using exampleCommits_ok(3) [where b = 2] by (simp add: mapE_Inr_iff list_all2_map1 list_all2_same)
  then show ?thesis
    by (simp add: examplePokerMoves_def relayed_def pokerMoveCodec_def pokerMoveFromJson_def kindJson_def jget_def expectArray_def)
qed

theorem poker_seats_sign_the_same_witness:
  "\<exists>s s'. applyMoves (QuantumPokerProtocol sampleHash 10 50) examplePokerStart examplePokerMoves = Inr s \<and>
     applyMoves (QuantumPokerProtocol sampleHash 10 50) examplePokerStart
       [(PkCommitSlots (exampleCommits 1) (Some (exampleSecrets 1)), PartyA), (PkCommitSlots (exampleCommits 2) None, PartyB)] = Inr s' \<and>
     pk_encodeState s' = pk_encodeState s"
proof (rule examplePoker_run)
  fix s assume r: "applyMoves (QuantumPokerProtocol sampleHash 10 50) examplePokerStart examplePokerMoves = Inr s"
  from poker_seats_sign_the_same [OF examplePoker_funded(2) examplePoker_relayed r [unfolded examplePokerStart_def]] r show ?thesis
    unfolding examplePokerStart_def by blast
qed

text \<open>C34. An honest seat can always answer: in every reachable state in which a seat owes a reveal and has
  committed to the secrets its driver keeps for the hand, the driver makes a reveal move, and the protocol
  accepts it, unless ten thousand derivations of a board card all collide with cards on the board.\<close>

theorem poker_driver_reveal_accepted:
  assumes "funded (ctx_initialBalances ctx)" "list_all (\<lambda>(m, by1). seat by1) ms"
    "applyMoves (QuantumPokerProtocol H cap (int ante)) (pk_initialState cap (int ante) ctx) ms = Inr s"
    "seat (sd_party d)" "sd_secretsByHand d (secretMapKey (pk_handNo s)) = Some secrets"
    "commitSlotSecrets H secrets = Inr cs" "commitArrayFor s (sd_party d) = Some cs"
    "expectedQuantumPokerRevealSlots s (sd_party d) = Inr e" "e \<noteq> []"
  shows "\<exists>m. makeRevealMove d s = (d, Inr (Some m)) \<and>
    (boardExhausted (pk_applyMove H (int ante) s m (sd_party d)) \<or> (\<exists>s'. pk_applyMove H (int ante) s m (sd_party d) = Inr s'))"
proof -
  let ?p = "sd_party d" and ?m = "PkRevealSlots e (map (\<lambda>i. secrets ! nat i) e)"
  have inv: "cardsOk H s" using poker_run_inv(1) [OF assms(1-3)] by (simp add: pk_inv_def)
  then have so: "slotsOk H s" by (simp add: cardsOk_def)
  have ready: "pk_ready (int ante) s"
    by (rule poker_run_ready [OF assms(3) pk_initialState_cards pk_initialState_ready assms(2)])
  have e9: "nat i < 9" if "i \<in> set e" for i
    using that slot_range(3) unfolding expected_due [OF assms(8)] by auto
  have "mapE (\<lambda>slot. if nat slot < length secrets then Inr (secrets ! nat slot) else Inl (Error ''missing local secret for slot'')) e =
      Inr (map (\<lambda>i. secrets ! nat i) e)"
    using e9 commitSlotSecrets_opens(1) [OF assms(6)] by (intro mapE_all_Inr) simp
  then have mv: "makeRevealMove d s = (d, Inr (Some ?m))"
    using assms(5,8,9) by (simp add: makeRevealMove_def secretsFor_def Let_def)
  obtain t where t: "recordReveals H cs (revealArrayFor s ?p) (zip e (map (\<lambda>i. secrets ! nat i) e)) = Inr t"
    and a: "applyRevealSlots H (int ante) s ?m ?p = afterReveal H (int ante) (setReveals s ?p t)"
    by (rule honest_reveal_recorded [OF so assms(4,8,7,6)])
  have ph: "pk_phase s = OpenPrivateHoles \<or> boardPhase (pk_phase s)" by (rule expected_phase [OF assms(8)])
  have bs: "boardCore H s" "pk_boardSlots s = boardSlotsAt (pk_phase s)"
    using inv ph by (auto simp: cardsOk_def boardOk_def boardPhase_def)
  note R = reveal_slots [OF so assms(4,8) sameNumberSet_refl _ assms(7) t, simplified]
  have "boardCore H (setReveals s ?p t)"
    by (rule boardCore_setReveals [OF bs(1) assms(4)]) (use R(3) in auto)
  then have c: "cardsOk H (setReveals s ?p t)" using R(1) bs(2) by (simp add: cardsOk_def boardOk_def)
  have "boardExhausted (afterReveal H (int ante) (setReveals s ?p t)) \<or> (\<exists>s'. afterReveal H (int ante) (setReveals s ?p t) = Inr s')"
    by (rule afterReveal_progress [OF c]) (use ready in \<open>simp_all add: pk_ready_def setReveals_def split: if_splits\<close>)
  moreover have "pk_applyMove H (int ante) s ?m ?p = applyRevealSlots H (int ante) s ?m ?p"
    using ph by (auto simp: pk_applyMove_def boardPhase_def)
  ultimately show ?thesis using mv a by auto
qed

theorem poker_driver_reveal_accepted_witness:
  "\<exists>s m. applyMoves (QuantumPokerProtocol sampleHash 10 50) examplePokerStart examplePokerMoves = Inr s \<and>
     makeRevealMove \<lparr>sd_party = PartyA, sd_secretsByHand = (\<lambda>k. Some (exampleSecrets 1))\<rparr> s =
       (\<lparr>sd_party = PartyA, sd_secretsByHand = (\<lambda>k. Some (exampleSecrets 1))\<rparr>, Inr (Some m))"
proof (rule examplePoker_run)
  fix s assume r: "applyMoves (QuantumPokerProtocol sampleHash 10 50) examplePokerStart examplePokerMoves = Inr s" "pk_phase s = OpenPrivateHoles"
    "pk_commitA s = Some (exampleCommits 1)" "pk_revealsA s = replicate 9 None"
  have "expectedQuantumPokerRevealSlots s PartyA = Inr [2, 3]"
    using r by (simp add: expectedQuantumPokerRevealSlots_def revealIfMissing_def revealArrayFor_def slot_defs)
  from poker_driver_reveal_accepted [OF examplePoker_funded, of sampleHash 10 50 s
      "\<lparr>sd_party = PartyA, sd_secretsByHand = (\<lambda>k. Some (exampleSecrets 1))\<rparr>" "exampleSecrets 1" "exampleCommits 1", simplified, OF _ _ _ this]
  show ?thesis using r exampleCommits_ok(1) [of 1] by (auto simp: examplePokerStart_def commitArrayFor_def)
qed

text \<open>C38. The pot of a withheld reveal goes to the seat that revealed, at once: in every reachable reveal phase
  in which the opponent still owes a reveal, a seat whose own reveal has just been accepted can claim the
  forfeit as the very next move, without any delay for the opponent to answer. The hand ends with this seat as
  the winner, and the contested amount moves to it from the opponent, who can pay it in full.\<close>

theorem poker_forfeit_without_delay:
  assumes "funded (ctx_initialBalances ctx)" "list_all (\<lambda>(m, by1). seat by1) ms"
    "applyMoves (QuantumPokerProtocol H cap (int ante)) (pk_initialState cap (int ante) ctx) ms = Inr s" "seat p"
    "expectedQuantumPokerRevealSlots s (otherParty p) = Inr e" "e \<noteq> []"
    "pk_applyMove H (int ante) s (PkRevealSlots slots rvs) p = Inr s1"
  shows "\<exists>s2. pk_applyMove H (int ante) s1 PkForfeit p = Inr s2 \<and> pk_phase s2 = HandOver \<and> pk_winner s2 = Some (WonBy p) \<and>
    pk_balance s2 p = pk_balance s p + contestedAmount s \<and>
    pk_balance s2 (otherParty p) = pk_balance s (otherParty p) - contestedAmount s"
proof -
  have inv: "moneyOk s" "slotsOk H s" using poker_run_inv(1) [OF assms(1-3)] by (simp_all add: pk_inv_def cardsOk_def)
  obtain target where s1: "s1 = setReveals s p target" and e: "expectedQuantumPokerRevealSlots s1 p = Inr []"
    "expectedQuantumPokerRevealSlots s1 (otherParty p) = Inr e"
    by (rule first_reveal [OF inv(2) assms(4-7)])
  have "pk_phase s \<noteq> HandOver" using expected_phase [OF assms(5)] by (auto simp: boardPhase_def)
  note covered = moneyOk_covered [OF inv(1) this]
  have "pk_applyMove H (int ante) s1 PkForfeit p = Inr (resolveFold (s1\<lparr>pk_foldedBy := Some (otherParty p)\<rparr>))"
    using e assms(6) by (simp add: pk_applyMove_def pk_claimForfeit_def)
  then show ?thesis
    using seat_cases [OF assms(4)] covered
    by (auto simp: s1 setReveals_def resolveFold_def Let_def pk_settle_def pk_balance_def contestedAmount_def)
qed

theorem poker_forfeit_without_delay_witness:
  "\<exists>s s1 s2. applyMoves (QuantumPokerProtocol sampleHash 10 50) examplePokerStart examplePokerMoves = Inr s \<and>
     pk_applyMove sampleHash 50 s (PkRevealSlots [2, 3] (take 2 (exampleSecrets 1))) PartyA = Inr s1 \<and>
     pk_applyMove sampleHash 50 s1 PkForfeit PartyA = Inr s2 \<and> pk_winner s2 = Some (WonBy PartyA)"
proof (rule examplePoker_opens)
  fix s s1 assume r: "applyMoves (QuantumPokerProtocol sampleHash 10 50) examplePokerStart examplePokerMoves = Inr s"
    "pk_applyMove sampleHash 50 s (PkRevealSlots [2, 3] (take 2 (exampleSecrets 1))) PartyA = Inr s1"
    "expectedQuantumPokerRevealSlots s PartyB = Inr [0, 1]"
  with poker_forfeit_without_delay [OF examplePoker_funded, of sampleHash 10 50 s PartyA "[0, 1]" "[2, 3]" "take 2 (exampleSecrets 1)" s1] show ?thesis
    by (auto simp: examplePokerStart_def)
qed

text \<open>C37. The seat driver in a betting round: in every reachable betting state in which it is its turn, the driver
  always proposes a move, and the protocol accepts it, with one exception. A bet is sized by the driver's own
  stack, so a seat with the longer stack can propose more than the shorter stack covers; exactly that bet is
  refused.\<close>

theorem poker_driver_betting:
  assumes "funded (ctx_initialBalances ctx)" "list_all (\<lambda>(m, by1). seat by1) ms"
    "applyMoves (QuantumPokerProtocol H cap (int ante)) (pk_initialState cap (int ante) ctx) ms = Inr s"
    "betPhase (pk_phase s)" "pk_toAct s = sd_party d" "\<forall>n>0. 0 \<le> dr_floor draws n \<and> dr_floor draws n < n"
  shows "\<exists>m. chooseMove H d s draws = (d, Inr (Some m)) \<and>
    ((\<exists>s'. pk_applyMove H (int ante) s m (sd_party d) = Inr s') \<or>
     (\<exists>amount. m = PkBet amount \<and> availableFor s (sd_party d) < amount \<and>
        pk_balance s (otherParty (sd_party d)) < pk_balance s (sd_party d) \<and>
        pk_applyMove H (int ante) s m (sd_party d) = Inl (Error ''bet exceeds the effective stack'')))"
proof -
  let ?p = "sd_party d"
  have inv: "moneyOk s" using poker_run_inv(1) [OF assms(1-3)] by (simp add: pk_inv_def)
  then have ok: "potOk s" "streetOk s" using assms(4) by (simp_all add: moneyOk_def betsOk_def)
  show ?thesis by (rule driver_betting [OF assms(4) ok assms(5,6)])
qed

theorem poker_driver_betting_witness:
  "\<exists>s. applyMoves (QuantumPokerProtocol sampleHash 10 50) examplePokerStart (examplePokerMoves @ examplePokerOpens) = Inr s \<and>
     chooseMove sampleHash \<lparr>sd_party = PartyA, sd_secretsByHand = (\<lambda>k. None)\<rparr> s
       \<lparr>dr_secrets = [], dr_call = True, dr_bet = True, dr_floor = (\<lambda>n. n - 1)\<rparr> =
       (\<lparr>sd_party = PartyA, sd_secretsByHand = (\<lambda>k. None)\<rparr>, Inr (Some (PkBet 200))) \<and>
     pk_applyMove sampleHash 50 s (PkBet 200) PartyA = Inl (Error ''bet exceeds the effective stack'')"
proof (rule examplePoker_bets)
  let ?d = "\<lparr>sd_party = PartyA, sd_secretsByHand = (\<lambda>k. None)\<rparr>"
  let ?draws = "\<lparr>dr_secrets = [], dr_call = True, dr_bet = True, dr_floor = (\<lambda>n. n - 1)\<rparr>"
  fix s assume r: "applyMoves (QuantumPokerProtocol sampleHash 10 50) examplePokerStart (examplePokerMoves @ examplePokerOpens) = Inr s"
    "pk_phase s = PreflopBet" "pk_toAct s = PartyA" "pk_balanceA s = 1000" "pk_balanceB s = 100" "pk_totalBetA s = 50" "pk_totalBetB s = 50"
    "pk_streetBetA s = 0" "pk_streetBetB s = 0"
  have seats: "list_all (\<lambda>(m, by1). seat by1) (examplePokerMoves @ examplePokerOpens)"
    using examplePoker_funded(2) by (simp add: examplePokerOpens_def)
  have c: "chooseMove sampleHash ?d s ?draws = (?d, Inr (Some (PkBet 200)))"
    using r by (simp add: chooseMove_def chooseBet_def Let_def pk_streetBet_def pk_balance_def pk_totalBet_def)
  have "availableFor s PartyA = 50" using r by (simp add: availableFor_def Let_def effectiveStack_def pk_balance_def pk_totalBet_def)
  then have "pk_applyMove sampleHash 50 s (PkBet 200) PartyA \<noteq> Inr s'" for s'
    using r by (simp add: pk_applyMove_def applyBet_def applyBetOrRaise_def Let_def pk_streetBet_def)
  with poker_driver_betting [OF examplePoker_funded(1) seats, of sampleHash 10 50 s ?d ?draws] r c show ?thesis
    by (simp add: examplePokerStart_def betPhase_def)
qed

text \<open>C36. A session ends: from any state the two seats can reach, whatever they play, only finitely many moves
  are accepted, not counting the empty reveal of a seat that owes nothing. The steps that the protocol accepts
  in reachable states form a well-founded relation.\<close>

theorem poker_session_finite:
  "wf {(s', s).
     (\<exists>ctx ms. funded (ctx_initialBalances ctx) \<and> list_all (\<lambda>(m, by1). seat by1) ms \<and>
        applyMoves (QuantumPokerProtocol H cap (int ante)) (pk_initialState cap (int ante) ctx) ms = Inr s) \<and>
     (\<exists>m p. seat p \<and> m \<noteq> PkRevealSlots [] [] \<and> pk_applyMove H (int ante) s m p = Inr s')}"
proof (rule wf_subset [of sessionOrder])
  show "wf sessionOrder" by (simp add: sessionOrder_def)
qed (use poker_run_inv(1) pk_step_decreases in blast)

end
