(* ===== verification/Spec2Isabelle.thy ===== *)
theory Spec2Isabelle
  imports Concrete Seat_On_Chain Htlc_Effects Blackjack Battleship_Encoding Poker_Play
begin

text \<open>
  This development verifies the state channels ("tunnels") of the arena. Two parties lock deposits in a
  tunnel on chain, play a protocol (a game or a stream of payments) off chain by exchanging co-signed state
  updates, and settle on chain with the last one. The parts and their theories, with the files under src/:

  \<^item> Shared vocabulary: \<open>Prelude\<close> (errors as \<open>js_error + 'a\<close>, sequencing, bytes as 8-bit words), \<open>Json\<close>
    (JSON text and decimal integers, as the language defines them).
  \<^item> Bytes and messages, sui-tunnel-ts/src/core: \<open>Bytes\<close> (bytes.ts), \<open>Wire\<close> (wire.ts: every signed message, the
    parser, the reused buffer), \<open>Commitment\<close> (commitment.ts), \<open>Randomness\<close> (randomness.ts).
  \<^item> The protocol interface: \<open>Protocol\<close> (protocol/Protocol.ts) with the locale \<open>conserving_protocol\<close>, its contract.
    Every game interprets it on its own definitions.
  \<^item> The engines: \<open>Offchain_Tunnel\<close> (core/tunnel.ts, both seats in one process), \<open>Distributed_Frame\<close> and
    \<open>Distributed_Tunnel\<close> (core/distributedFrame.ts, core/distributedTunnel.ts, one seat of two processes),
    \<open>Reconcile\<close> (core/reconcile.ts). \<open>Two_Seats\<close> composes two seats over a relay that loses, repeats and reorders
    frames, as an inductive step relation, with the locale \<open>turn_protocol\<close> for protocols that enforce turns.
  \<^item> The proofs of play: \<open>Settle_Binary\<close> (proof/settleBinary.ts), \<open>Transcript\<close> (proof/transcript.ts), and
    \<open>End_To_End\<close> (frontend/src/backend/settleRequest.ts and the chain from a run to an accepted proof).
  \<^item> The protocols, sui-tunnel-ts/src/protocol: \<open>Payments\<close>, \<open>Api_Credits\<close>, \<open>Tic_Tac_Toe\<close>, \<open>Blackjack\<close>,
    \<open>Battleship_Fleet\<close>, \<open>Battleship\<close> and \<open>Battleship_Encoding\<close>, and Quantum Poker (quantumPoker.ts and its codec)
    in six theories: \<open>Poker_Hands\<close> (cards and hand ranking), \<open>Quantum_Poker\<close> (state, moves, encoding),
    \<open>Poker_Invariant\<close> (money), \<open>Poker_Slots\<close> (hidden and public cards), \<open>Poker_Seats\<close> (codec, seat driver, what a seat
    keeps to itself) and \<open>Poker_Play\<close> (progress, termination, properties). \<open>Move_Codec\<close> holds what the codecs share.
  \<^item> The contract, sui_tunnel/sources: \<open>Move_Signature\<close> (signature.move), \<open>On_Chain\<close> (tunnel.move). \<open>Chain_Runs\<close> makes
    every public call a value, so histories of arbitrary senders are lists of calls; \<open>Chain_Solvency\<close>,
    \<open>Chain_Messages\<close>, \<open>Dispute_Safety\<close> and \<open>Htlc_Effects\<close> prove what the contract promises.
  \<^item> Recovery: \<open>Watchtower\<close> (recovery/watchtower.ts), \<open>Recovery\<close> (the watchtower against the contract) and
    \<open>Seat_On_Chain\<close> (a seat, its watchtower and the contract together).
  \<^item> \<open>Sample_Hash\<close> and \<open>Concrete\<close> instantiate the parameters for the witnesses; no component depends on them for its
    definitions.

  How code becomes definitions. A class or interface is a record, a union of kinds a datatype, a method a
  function from the object and its arguments to the object it leaves behind. A throw or a Move abort is an
  \<open>Inl\<close>. JavaScript bigints and numbers are \<open>int\<close>, and the 64-bit range is checked where the source checks
  it; Move's checked arithmetic is \<open>addU64\<close> and its kin. The hash function, the signature scheme, the random draws
  and the verification natives of the chain are parameters; what is assumed of them (no collision among the
  inputs at hand, signatures that verify) stands as a hypothesis in each property that needs it.

  What the properties show. Agreement and integrity of play: two seats never disagree, every seat keeps
  its co-signed state, exchanges and reconnects complete, and turn-free protocols can fork. Safety of
  money on chain: the contract is solvent, a party can always exit, an answered dispute protects the latest
  state, an abandoned seat is paid, and the SDK and the contract sign the same bytes. Proofs of play: an honest
  run is accepted, the Merkle root binds the transcript, and the verifier accepts exactly the valid bodies. Per
  protocol: conservation of the deposits and coverage of every bet, termination, fairness of reveals, hidden
  cards that stay hidden, encodings that determine the state, seats that sign the same bytes without seeing
  each other's secrets, and a reference ranking for poker hands. Several properties state where the code does
  something else than it means to: crossing payment proposals, ghost fleets, states voided by a hash-locked
  payment, the penalty the watchtower does not avoid, forfeits without delay, bets the driver should not make.

  Bounds and loops. Loops are structural recursions or functions with a termination proof (flood fill, Merkle
  levels, entry runs, the search for an unused board card, which the source bounds by ten thousand attempts). Rejection sampling is
  a \<^theory_text>\<open>partial_function\<close>; that it returns is proved from an acceptable value in the hash chain. Only
  the JSON parser uses fuel, \<open>2 * length + 2\<close> units for a text; \<open>pVal_fuel\<close> shows that more changes nothing.
  Runs of any length are lists of moves or reflexive-transitive closures of steps.

  What is not modelled: network, storage, wallets and user interface (I/O), the other protocols (chat, cross,
  bomb-it, world canvas), the Rust ports of the TypeScript code, the contract's modules next to the tunnel (hops,
  referee registry, streaming payments, the poker referee, zero-knowledge verifier), bots' personas and timers.
  JSON codecs of battleship pass untyped fields through and are not modelled.
\<close>

section \<open>Two seats over an unreliable relay\<close>

text \<open>C1. Two honest processes that play tic-tac-toe over a relay which may lose, repeat, delay and
  reorder frames, with reconnects in which they exchange and adopt checkpoints, never disagree: their
  nonces differ by at most one, and at equal nonces they hold the same game state.\<close>

theorem ticTacToe_seats_agree:
  assumes "newDistributedTunnel idc (TicTacToeProtocol H stake) cfgA ib = Inr a"
    and "newDistributedTunnel idc (TicTacToeProtocol H stake) cfgB ib = Inr b"
    and "peerConfigs cfgA cfgB"
    and "(jointStep H edV)\<^sup>*\<^sup>* (startPair a b) (x, y)"
  shows "\<bar>dt_nonce (sd_tunnel x) - dt_nonce (sd_tunnel y)\<bar> \<le> 1 \<and>
    (dt_nonce (sd_tunnel x) = dt_nonce (sd_tunnel y) \<longrightarrow> dt_state (sd_tunnel x) = dt_state (sd_tunnel y))"
  using ticTacToe_turn.agreement [OF assms(4)] newPair_fresh [OF assms(1-3)] by blast

theorem ticTacToe_seats_agree_witness:
  "\<exists>a b x y. newDistributedTunnel sampleTttCodec (TicTacToeProtocol sampleHash 100)
      (sampleConfig sampleTttCodec PartyA) sampleBalances = Inr a \<and>
    newDistributedTunnel sampleTttCodec (TicTacToeProtocol sampleHash 100)
      (sampleConfig sampleTttCodec PartyB) sampleBalances = Inr b \<and>
    (jointStep sampleHash sampleVerify)\<^sup>*\<^sup>* (startPair a b) (x, y) \<and>
    dt_nonce (sd_tunnel x) = 1 \<and> dt_nonce (sd_tunnel y) = 1 \<and> dt_state (sd_tunnel x) = dt_state (sd_tunnel y)"
proof -
  let ?P = "TicTacToeProtocol sampleHash 100"
  obtain q where q: "makeProposal sampleHash (sampleSeat ?P sampleTttCodec PartyA) (sampleTttMove 4) 7 = Inr q"
    using sampleTtt_proposal by blast
  obtain x y where run: "(jointStep sampleHash sampleVerify)\<^sup>*\<^sup>*
      (startPair (sampleSeat ?P sampleTttCodec PartyA) (sampleSeat ?P sampleTttCodec PartyB)) (x, y)"
    and n: "dt_nonce (sd_tunnel x) = 1" "dt_nonce (sd_tunnel y) = 1"
    using sample_exchange [OF q] by auto
  show ?thesis
    using ticTacToe_seats_agree [OF sampleTtt_new sampleTtt_new sampleConfig_peers run] run n
    by (auto simp: sampleTtt_new)
qed

text \<open>C2. Whatever an opponent sends and in whatever order the application calls the engine, a seat that
  was constructed with a working signer keeps the channel's invariants: its nonce never decreases, the
  update it could submit is signed by both parties and binds the state it holds at its nonce with
  balances that sum to the locked total, its pending proposal is for the next nonce and signed, and the
  confirmed updates it reported have strictly increasing nonces and two valid signatures.\<close>

theorem seat_keeps_invariant:
  assumes "newDistributedTunnel idc P cfg ib = Inr t"
    and "correctEndpoint (cfg_self cfg)" "verifies edV (cfg_self cfg)" "verifies edV (cfg_opponent cfg)"
    and "(seatStep H edV)\<^sup>*\<^sup>* t t'" "(seatStep H edV)\<^sup>*\<^sup>* t' t''"
  shows "seatOk H t'' \<and> logOk t'' \<and> dt_nonce t' \<le> dt_nonce t'' \<and> dt_total t'' = bal_a ib + bal_b ib"
proof -
  note n = newDistributedTunnel_ok [OF assms(1)]
  have e: "endpointsOk edV t" using assms(2-4) n(5,6) by (simp add: endpointsOk_def)
  have k: "keeps H t t'" "keeps H t t''"
    using keeps_reachable [OF _ e n(1)] assms(5,6) by (auto intro: rtranclp_trans)
  then have "endpointsOk edV t'" "seatOk H t'"
    using e n(1) by (auto simp: keeps_def sameSeat_def endpointsOk_def)
  then have "keeps H t' t''" using keeps_reachable [OF assms(6)] by blast
  then show ?thesis using k n(1,2,4) by (auto simp: keeps_def sameSeat_def)
qed

theorem seat_keeps_invariant_witness:
  "\<exists>t t' t'' q. newDistributedTunnel sampleTttCodec (TicTacToeProtocol sampleHash 100)
      (sampleConfig sampleTttCodec PartyA) sampleBalances = Inr t \<and>
    (seatStep sampleHash sampleVerify)\<^sup>*\<^sup>* t t' \<and> (seatStep sampleHash sampleVerify)\<^sup>*\<^sup>* t' t'' \<and>
    dt_pending t' = Some q \<and> seatOk sampleHash t'' \<and> logOk t'' \<and> dt_total t'' = 2000"
proof -
  let ?a = "sampleSeat (TicTacToeProtocol sampleHash 100) sampleTttCodec PartyA"
  let ?t = "fst (seatPending sampleHash ?a (sampleTttMove 4) 7)"
  obtain q where q: "makeProposal sampleHash ?a (sampleTttMove 4) 7 = Inr q"
    using sampleTtt_proposal by blast
  have p: "dt_pending ?t = Some q"
    using q by (simp add: seatPending_def) (simp add: sampleSeat_def)
  have s: "(seatStep sampleHash sampleVerify)\<^sup>*\<^sup>* ?a ?t"
    by (intro r_into_rtranclp step_seat)
  have s': "(seatStep sampleHash sampleVerify)\<^sup>*\<^sup>* ?t (fst (resendPending ?t))"
    by (intro r_into_rtranclp step_resend)
  have "correctEndpoint (cfg_self (sampleConfig sampleTttCodec PartyA))"
    "verifies sampleVerify (cfg_self (sampleConfig sampleTttCodec PartyA))"
    "verifies sampleVerify (cfg_opponent (sampleConfig sampleTttCodec PartyA))"
    by (simp_all add: sampleConfig_def)
  from seat_keeps_invariant [OF sampleTtt_new this s s'] show ?thesis
    using s s' p sampleTtt_new by (fastforce simp: sampleBalances_def)
qed

text \<open>C13. An exchange completes: if the two seats are level and one makes a legal proposal, then delivering
  its MOVE frame to the peer and the peer's ACK frame back takes both seats to the next nonce and the
  proposed state, with the same co-signed update, level again.\<close>

theorem exchange_completes:
  assumes "level a b" "makeProposal H a m ts = Inr p" "moveRoundTrips (dt_codec a) m"
  shows "\<exists>a1 f b1 g a2 u. propose H a m ts = (a1, Inr ()) \<and> dt_sent a1 = dt_sent a @ [f] \<and>
    onFrame H b f = (b1, Inr ()) \<and> dt_sent b1 = dt_sent b @ [g] \<and>
    onFrame H a1 g = (a2, Inr ()) \<and> level a2 b1 \<and> dt_nonce a2 = dt_nonce a + 1 \<and>
    dt_state a2 = pp_next p \<and> dt_latest a2 = Some u \<and> dt_latest b1 = Some u \<and> cu_update u = pp_update p"
  by (rule exchange_progress [OF assms])

theorem exchange_completes_witness:
  "\<exists>a1 f b1 g a2. propose sampleHash (sampleSeat (TicTacToeProtocol sampleHash 100) sampleTttCodec PartyA) (sampleTttMove 4) 7 = (a1, Inr ()) \<and>
    dt_sent a1 = [f] \<and>
    onFrame sampleHash (sampleSeat (TicTacToeProtocol sampleHash 100) sampleTttCodec PartyB) f = (b1, Inr ()) \<and>
    dt_sent b1 = [g] \<and> onFrame sampleHash a1 g = (a2, Inr ()) \<and> level a2 b1 \<and> dt_nonce a2 = 1"
proof -
  obtain q where q: "makeProposal sampleHash (sampleSeat (TicTacToeProtocol sampleHash 100) sampleTttCodec PartyA) (sampleTttMove 4) 7 = Inr q"
    using sampleTtt_proposal by blast
  show ?thesis
    using exchange_completes [OF sampleSeat_level q] by (fastforce simp: sampleSeat_def)
qed

text \<open>C14. A reconnect converges: when the decision for a lagging seat is to adopt, adopting the peer's
  checkpoint succeeds and leaves it at the peer's nonce, state and co-signed update, after which both
  decide to carry on.\<close>

theorem reconnect_adopt_converges:
  assumes "mirrored a b" "ep_publicKey (partyAOf a) = ep_publicKey (partyAOf b)"
    and "ep_publicKey (partyBOf a) = ep_publicKey (partyBOf b)"
    and "ep_scheme (partyAOf a) = ED25519" "ep_scheme (partyBOf a) = ED25519"
    and "verifies edV (partyAOf b)" "verifies edV (partyBOf b)"
    and "seatOk H b" "decideReconcile (viewOf a) (viewOf b) = ActAdopt" "dt_latest b = Some c"
  shows "\<exists>a'. adoptCheckpoint H edV a (dt_state b) c = (a', Inr ()) \<and> dt_nonce a' = dt_nonce b \<and>
    dt_state a' = dt_state b \<and> dt_latest a' = dt_latest b \<and>
    decideReconcile (viewOf a') (viewOf b) \<in> {ActRePropose, ActNoop}"
  by (rule adopt_converges [OF assms])

theorem reconnect_adopt_converges_witness:
  "\<exists>a b c a'. mirrored a b \<and> dt_latest b = Some c \<and> dt_nonce a = 0 \<and> dt_nonce b = 1 \<and>
    decideReconcile (viewOf a) (viewOf b) = ActAdopt \<and>
    adoptCheckpoint sampleHash sampleVerify a (dt_state b) c = (a', Inr ()) \<and>
    dt_state a' = (dt_state b :: TicTacToeState) \<and> dt_protocol a' = TicTacToeProtocol sampleHash 100"
proof -
  let ?a = "sampleSeat (TicTacToeProtocol sampleHash 100) sampleTttCodec PartyA"
  obtain b c where b: "mirrored ?a b" "ep_publicKey (partyAOf ?a) = ep_publicKey (partyAOf b)"
    "ep_publicKey (partyBOf ?a) = ep_publicKey (partyBOf b)" "seatOk sampleHash b" "dt_nonce b = 1" "dt_latest b = Some c"
    "verifies sampleVerify (partyAOf b)" "verifies sampleVerify (partyBOf b)"
    using sampleTtt_ahead by blast
  have act: "decideReconcile (viewOf ?a) (viewOf b) = ActAdopt"
    using b(5) by (simp add: decideReconcile_def viewOf_def) (simp add: sampleSeat_def)
  have ep: "ep_scheme (partyAOf ?a) = ED25519" "ep_scheme (partyBOf ?a) = ED25519"
    by (simp_all add: partyAOf_def partyBOf_def selfIsA_def sampleSeat_def)
  obtain a' where a': "adoptCheckpoint sampleHash sampleVerify ?a (dt_state b) c = (a', Inr ())" "dt_state a' = dt_state b"
    using reconnect_adopt_converges [OF b(1-3) ep b(7,8,4) act b(6)] by blast
  have "dt_protocol a' = dt_protocol ?a"
    using a'(1) by (auto simp: adoptCheckpoint_def dropPendingUpTo_def Let_def split: if_splits sum.splits option.splits)
  then have "dt_protocol a' = TicTacToeProtocol sampleHash 100" "dt_nonce ?a = 0" by (simp_all add: sampleSeat_def)
  with a' b act show ?thesis by blast
qed

text \<open>C15. Protocols without turns can fork two honest seats. In the payment protocol, if both seats propose
  a payment before either proposal is delivered, each accepts the other's in place of its own: they end
  at the same nonce with different balances, each holding an update signed by both parties.\<close>

theorem payments_crossing_proposals_fork:
  assumes "level a b" "dt_protocol a = PaymentsProtocol" "dt_codec a = paymentsMoveCodec" "dt_selfParty a = PartyA"
    and "makeProposal H a \<lparr>pm_from = PartyA, pm_amount = x\<rparr> ts = Inr p"
    and "makeProposal H b \<lparr>pm_from = PartyB, pm_amount = y\<rparr> ts' = Inr q"
  shows "\<exists>a1 f b1 g a2 b2 u v.
    propose H a \<lparr>pm_from = PartyA, pm_amount = x\<rparr> ts = (a1, Inr ()) \<and> dt_sent a1 = dt_sent a @ [f] \<and>
    propose H b \<lparr>pm_from = PartyB, pm_amount = y\<rparr> ts' = (b1, Inr ()) \<and> dt_sent b1 = dt_sent b @ [g] \<and>
    onFrame H a1 g = (a2, Inr ()) \<and> onFrame H b1 f = (b2, Inr ()) \<and>
    dt_nonce a2 = dt_nonce b2 \<and> pay_balanceA (dt_state b2) < pay_balanceA (dt_state a2) \<and>
    dt_latest a2 = Some u \<and> coSignedBy (partyAOf a) (partyBOf a) u \<and>
    dt_latest b2 = Some v \<and> coSignedBy (partyAOf b) (partyBOf b) v \<and>
    su_partyABalance (cu_update v) < su_partyABalance (cu_update u)"
proof -
  have rt: "moveRoundTrips (dt_codec a) \<lparr>pm_from = PartyA, pm_amount = x\<rparr>"
    "moveRoundTrips (dt_codec a) \<lparr>pm_from = PartyB, pm_amount = y\<rparr>"
    using assms(3) by (simp_all add: paymentsMoveCodec_round_trip)
  have b: "dt_protocol b = PaymentsProtocol" "dt_selfParty b = PartyB" "dt_state b = dt_state a"
    using assms(1,2,4) by (auto simp: level_def mirrored_def)
  have lt: "pay_balanceA (pp_next p) < pay_balanceA (pp_next q)"
    using makeProposal_Inr(1) [OF assms(5)] makeProposal_Inr(1) [OF assms(6)] assms(2,4) b
      payments_crossing_states [of "dt_state a" x "pp_next p" y "pp_next q"] by simp
  have d: "su_partyABalance (pp_update p) = pay_balanceA (pp_next p)"
    "su_partyABalance (pp_update q) = pay_balanceA (pp_next q)"
    using makeProposal_Inr(4) [OF assms(5)] makeProposal_Inr(4) [OF assms(6)] assms(2) b(1)
    by (simp_all add: proposalOk_def describes_def payments_balances_def)
  show ?thesis
    using crossing_proposals [OF assms(1,5,6) rt] lt d by metis
qed

theorem payments_crossing_proposals_fork_witness:
  "\<exists>a1 f b1 g a2 b2 u v.
    propose sampleHash (sampleSeat PaymentsProtocol paymentsMoveCodec PartyA) \<lparr>pm_from = PartyA, pm_amount = 10\<rparr> 7 =
      (a1, Inr ()) \<and> dt_sent a1 = [f] \<and>
    propose sampleHash (sampleSeat PaymentsProtocol paymentsMoveCodec PartyB) \<lparr>pm_from = PartyB, pm_amount = 20\<rparr> 8 =
      (b1, Inr ()) \<and> dt_sent b1 = [g] \<and>
    onFrame sampleHash a1 g = (a2, Inr ()) \<and> onFrame sampleHash b1 f = (b2, Inr ()) \<and>
    dt_nonce a2 = dt_nonce b2 \<and> dt_latest a2 = Some u \<and> dt_latest b2 = Some v \<and>
    su_partyABalance (cu_update v) < su_partyABalance (cu_update u)"
proof -
  let ?a = "sampleSeat PaymentsProtocol paymentsMoveCodec PartyA"
  let ?b = "sampleSeat PaymentsProtocol paymentsMoveCodec PartyB"
  obtain p q where p: "makeProposal sampleHash ?a \<lparr>pm_from = PartyA, pm_amount = 10\<rparr> 7 = Inr p"
    "makeProposal sampleHash ?b \<lparr>pm_from = PartyB, pm_amount = 20\<rparr> 8 = Inr q"
    using samplePay_proposals by blast
  have s: "dt_protocol ?a = PaymentsProtocol" "dt_codec ?a = paymentsMoveCodec" "dt_selfParty ?a = PartyA"
    by (simp_all add: sampleSeat_def)
  have sent: "dt_sent ?a = []" "dt_sent ?b = []" by (simp_all add: sampleSeat_def)
  show ?thesis
    using payments_crossing_proposals_fork [OF sampleSeat_level s p] unfolding sent by (simp only: append_Nil) blast
qed

section \<open>The self-play engine\<close>

text \<open>C12. Every successful step of the engine in its default mode is settleable. After any sequence of
  attempted steps, failed ones included, a step that returns has advanced the nonce by one, has applied
  the protocol's move, and holds an update at the new nonce that both parties' verifiers accept, which
  carries the hash of the new state's encoding and its balances, summing to the locked total.\<close>

theorem engine_step_cosigned:
  assumes "newOffchainTunnel P tid pA pB ib = Inr t0" "t = attempts H t0 ms"
    and "tunnelStep H t m by1 opts = (t', Inr r)" "stepMode opts = ModeFull"
  shows "\<exists>u. ot_latest t' = Some u \<and> sr_signed r = Some u \<and> coSignedBy pA pB u \<and>
    ot_nonce t' = ot_nonce t + 1 \<and> su_nonce (cu_update u) = ot_nonce t' \<and> su_tunnelId (cu_update u) = tid \<and>
    p_applyMove P (ot_state t) m by1 = Inr (ot_state t') \<and> describes H P (ot_state t') (cu_update u) \<and>
    su_partyABalance (cu_update u) + su_partyBBalance (cu_update u) = bal_a ib + bal_b ib"
proof -
  have t0: "tunnelOk t0" "ot_protocol t0 = P" "ot_partyA t0 = pA" "ot_partyB t0 = pB" "ot_tunnelId t0 = tid"
    "ot_total t0 = bal_a ib + bal_b ib"
    using newOffchainTunnel_ok [OF assms(1)] by auto
  have t: "tunnelOk t" "sameChannel t0 t" using attempts_ok [OF t0(1), of H ms] assms(2) by auto
  have mv: "p_applyMove (ot_protocol t) (ot_state t) m by1 = Inr (ot_state t')" "ot_nonce t' = ot_nonce t + 1"
    using assms(3) by (auto elim!: tunnelStep_success)
  show ?thesis
    using tunnelStep_full_cosigned [OF t(1) assms(3,4)] mv t(2) t0 by (auto simp: sameChannel_def)
qed

theorem engine_step_cosigned_witness:
  "\<exists>t0 t' r u. newOffchainTunnel (ApiCreditsProtocol 10) sampleId (sampleEndpoint PartyA True) (sampleEndpoint PartyB True)
       sampleBalances = Inr t0 \<and>
     tunnelStep sampleHash (attempts sampleHash t0 [(sampleCall, PartyB, sampleOpts)]) sampleCall PartyA sampleOpts = (t', Inr r) \<and>
     ot_latest t' = Some u \<and> coSignedBy (sampleEndpoint PartyA True) (sampleEndpoint PartyB True) u \<and>
     su_nonce (cu_update u) = 1"
proof -
  obtain t where t: "newOffchainTunnel (ApiCreditsProtocol 10) sampleId (sampleEndpoint PartyA True)
      (sampleEndpoint PartyB True) sampleBalances = Inr t"
    using sample_engine by blast
  have p: "ot_protocol t = ApiCreditsProtocol 10" "ot_nonce t = 0" using newOffchainTunnel_ok [OF t] by auto
  have a: "attempts sampleHash t [(sampleCall, PartyB, sampleOpts)] = t"
    by (simp add: attempts_def tunnelStep_def p apiCredits_applyMove_def Let_def)
  obtain t' r where st: "tunnelStep sampleHash t sampleCall PartyA sampleOpts = (t', Inr r)"
    using sample_run [OF t] by (auto split: prod.splits sum.splits)
  have "stepMode sampleOpts = ModeFull" by (simp add: stepMode_def sampleOpts_def)
  from engine_step_cosigned [OF t a [symmetric] st this] t st a p show ?thesis by auto
qed

text \<open>The engine makes progress, and never half-applies a step: with working signers, a legal move
  whose balances sum to the locked total and fit u64 is signed and applied; a step that throws leaves
  state, nonce and latest update unchanged.\<close>

lemma engine_step_atomic:
  assumes "newOffchainTunnel P tid pA pB ib = Inr t0" "t = attempts H t0 ms"
    and "correctEndpoint pA" "correctEndpoint pB" "\<And>x. length (H x) = 32"
    and "tunnelStep H t m by1 opts = (t', res)"
  shows "(case res of
      Inr r \<Rightarrow> p_applyMove P (ot_state t) m by1 = Inr (ot_state t')
    | Inl e \<Rightarrow> ot_state t' = ot_state t \<and> ot_nonce t' = ot_nonce t \<and> ot_latest t' = ot_latest t \<and>
        \<not> (\<exists>nxt es. p_applyMove P (ot_state t) m by1 = Inr nxt \<and> balanceSum P nxt = bal_a ib + bal_b ib \<and>
             p_encodeState P nxt = Inr es \<and> list_all u64 [ot_nonce t + 1, stepTimestamp opts,
               bal_a (p_balances P nxt), bal_b (p_balances P nxt)]))"
proof -
  have t0: "tunnelOk t0" "ot_protocol t0 = P" "ot_partyA t0 = pA" "ot_partyB t0 = pB"
    "ot_total t0 = bal_a ib + bal_b ib"
    using newOffchainTunnel_ok [OF assms(1)] by auto
  have t: "tunnelOk t" "ot_protocol t = P" "ot_partyA t = pA" "ot_partyB t = pB" "ot_total t = bal_a ib + bal_b ib"
    using attempts_ok [OF t0(1), of H ms] assms(2) t0 by (auto simp: sameChannel_def)
  show ?thesis
  proof (cases res)
    case (Inl e)
    have "False" if "p_applyMove P (ot_state t) m by1 = Inr nxt" "balanceSum P nxt = bal_a ib + bal_b ib"
      "p_encodeState P nxt = Inr es" "list_all u64 [ot_nonce t + 1, stepTimestamp opts,
         bal_a (p_balances P nxt), bal_b (p_balances P nxt)]" for nxt es
      using tunnelStep_progress [OF t(1), of m by1 nxt es H opts] that assms(3-6) t Inl by simp
    then show ?thesis
      using tunnelStep_failed [of H t m by1 opts t' e] assms(6) Inl by auto
  next
    case (Inr r)
    then show ?thesis using assms(6) t(2) by (auto elim!: tunnelStep_success)
  qed
qed

section \<open>Tic-tac-toe\<close>

text \<open>C25. A game of tic-tac-toe ends: from a funded opening no more than nine moves are accepted, after
  nine the game is over, and at every point the balances are non-negative and sum to the deposits.\<close>

theorem ticTacToe_ends_and_conserves:
  assumes "newTicTacToeProtocol H k = Inr P" "funded (ctx_initialBalances ctx)" "list_all (\<lambda>(m, by1). seat by1) ms"
    and "applyMoves P (p_initialState P ctx) ms = Inr s"
  shows "length ms \<le> 9 \<and> (length ms = 9 \<longrightarrow> ttt_isTerminal s) \<and> 0 \<le> tt_balanceA s \<and> 0 \<le> tt_balanceB s \<and>
    tt_balanceA s + tt_balanceB s = bal_a (ctx_initialBalances ctx) + bal_b (ctx_initialBalances ctx)"
proof -
  have k: "0 \<le> k" "P = TicTacToeProtocol H k"
    using assms(1) by (auto simp: newTicTacToeProtocol_def split: if_splits)
  have r: "applyMoves (TicTacToeProtocol H k) (ttt_initialState H k ctx) ms = Inr s"
    using assms(4) k(2) by simp
  have "conserving_protocol P ttt_inv tt_total"
    using newTicTacToeProtocol_conserves [OF assms(1)] .
  from conserving_protocol.run_conserves [OF this assms(2,3,4)] show ?thesis
    using ttt_at_most_nine [OF k(1) assms(2) r] k(2)
    by (auto simp: funded_def balanceSum_def ttt_balances_def)
qed

theorem ticTacToe_ends_and_conserves_witness:
  "\<exists>s. applyMoves (TicTacToeProtocol sampleHash 100) (ttt_initialState sampleHash 100 sampleContext)
      sampleTttGame = Inr s \<and> length sampleTttGame = 5 \<and> tt_balanceA s + tt_balanceB s = 2000"
proof -
  obtain s where s: "applyMoves (TicTacToeProtocol sampleHash 100) (ttt_initialState sampleHash 100 sampleContext)
      sampleTttGame = Inr s"
    using sampleTttGame_ok by (auto simp: isOk_iff)
  have n: "newTicTacToeProtocol sampleHash 100 = Inr (TicTacToeProtocol sampleHash 100)"
    by (simp add: newTicTacToeProtocol_def)
  have "list_all (\<lambda>(m, by1). seat by1) sampleTttGame" "length sampleTttGame = 5"
    by (simp_all add: sampleTttGame_def)
  with ticTacToe_ends_and_conserves [OF n sample_funded(2) this(1)] s show ?thesis
    by (auto simp: sampleContext_def sampleBalances_def)
qed

text \<open>C26. The rolling accumulator of tic-tac-toe commits to the whole game: if the hash does not collide on
  the inputs of the two chains, two games from the same opening end in the same accumulator exactly if
  they are the same sequence of moves, salts and movers.\<close>

theorem ticTacToe_accumulator_binds:
  assumes "\<And>x. length (H x) = 32"
    and "applyMoves (TicTacToeProtocol H k) (ttt_initialState H k ctx) ms = Inr s"
    and "applyMoves (TicTacToeProtocol H k) (ttt_initialState H k ctx) ms' = Inr s'"
    and "inj_on H (accInputs H (rev (historyOf 0 ms)) \<union> accInputs H (rev (historyOf 0 ms')))"
  shows "tt_moveAccumulator s = tt_moveAccumulator s' \<longleftrightarrow> ms = ms'"
proof
  let ?s = "ttt_initialState H k ctx"
  have i: "tt_moveAccumulator ?s = accOf H []" "tt_movesCount ?s = 0"
    by (simp_all add: ttt_initialState_def Let_def initialAccumulator_pre)
  note a = ttt_run_acc [OF assms(2) i(1)] and b = ttt_run_acc [OF assms(3) i(1)]
  assume "tt_moveAccumulator s = tt_moveAccumulator s'"
  then have "accOf H (rev (historyOf 0 ms)) = accOf H (rev (historyOf 0 ms'))"
    using a b i(2) by simp
  then have "rev (historyOf 0 ms) = rev (historyOf 0 ms')"
    using a b i(2) by (intro accOf_inj [OF assms(1) _ assms(4)]) auto
  then show "ms = ms'"
    using historyOf_inj [OF assms(2,3)] i(2) by simp
next
  assume "ms = ms'"
  then show "tt_moveAccumulator s = tt_moveAccumulator s'" using assms(2,3) by simp
qed

theorem ticTacToe_accumulator_binds_witness:
  "\<exists>s s'. applyMoves (TicTacToeProtocol sampleHash 100) (ttt_initialState sampleHash 100 sampleContext)
      [(sampleTttMove 4, PartyA)] = Inr s \<and>
    applyMoves (TicTacToeProtocol sampleHash 100) (ttt_initialState sampleHash 100 sampleContext)
      [(sampleTttMove 5, PartyA)] = Inr s' \<and> tt_moveAccumulator s \<noteq> tt_moveAccumulator s'"
proof -
  obtain s s' where s: "applyMoves (TicTacToeProtocol sampleHash 100) (ttt_initialState sampleHash 100 sampleContext)
      [(sampleTttMove 4, PartyA)] = Inr s"
    "applyMoves (TicTacToeProtocol sampleHash 100) (ttt_initialState sampleHash 100 sampleContext)
      [(sampleTttMove 5, PartyA)] = Inr s'"
    using sampleTtt_two_openings by (auto simp: isOk_iff)
  from ticTacToe_accumulator_binds [OF _ s sampleTtt_no_collision] s show ?thesis
    by (auto simp: sampleTttMove_def)
qed

section \<open>From play to an accepted proof\<close>

text \<open>C9. An honest run of the self-play engine in its default mode settles: the transcript of its co-signed
  updates, encoded into the binary settlement body together with the root-anchored settlement, is
  accepted by the off-chain verifier under the two public keys, the anchored root and the locked total,
  with one verified step per move. This holds for every protocol.\<close>

theorem honest_run_accepted:
  assumes "newOffchainTunnel P tid pA pB ib = Inr t"
    and "tunnelRun H t ms = Inr (t', us)" "fullMode ms" "length ms < 2 ^ 32"
    and "appendAll H (newTranscript tid) us = Inr tr"
    and "buildSettlementWithRoot t' ts (transcriptRootOf H tr) n = Inr co"
    and "\<And>x. length (H x) = 32"
    and "\<And>m. length (signOrEmpty pA m) = 64" "\<And>m. length (signOrEmpty pB m) = 64"
    and "verifies edV pA" "verifies edV pB"
    and "paramsFor t (transcriptRootOf H tr) params"
  shows "\<exists>blob r. coSignedToSettleBody co (rawEntries tr) = Inr blob \<and>
    verifyTranscript H edV blob params = Inr r \<and> tv_ok r \<and> tv_stepCount r = length ms"
proof -
  have t: "tunnelOk t" "ot_partyA t = pA" "ot_partyB t = pB"
    using newOffchainTunnel_ok [OF assms(1)] by auto
  show ?thesis
    by (rule run_accepted [OF t(1) assms(2,3,5,4,6,7)]) (use assms(8-12) t in simp_all)
qed

theorem honest_run_accepted_witness:
  "\<exists>t t' u tr co params blob r.
     newOffchainTunnel (ApiCreditsProtocol 10) sampleId (sampleEndpoint PartyA True) (sampleEndpoint PartyB True)
       sampleBalances = Inr t \<and>
     tunnelRun sampleHash t [(sampleCall, PartyA, sampleOpts)] = Inr (t', [u]) \<and>
     appendAll sampleHash (newTranscript sampleId) [u] = Inr tr \<and>
     buildSettlementWithRoot t' 9 (transcriptRootOf sampleHash tr) 0 = Inr co \<and>
     coSignedToSettleBody co (rawEntries tr) = Inr blob \<and> vp_lockedTotal params = Some 2000 \<and>
     verifyTranscript sampleHash sampleVerify blob params = Inr r \<and> tv_ok r \<and> tv_stepCount r = 1"
proof -
  obtain t where t: "newOffchainTunnel (ApiCreditsProtocol 10) sampleId (sampleEndpoint PartyA True)
      (sampleEndpoint PartyB True) sampleBalances = Inr t"
    using sample_engine by blast
  obtain t' u where run: "tunnelRun sampleHash t [(sampleCall, PartyA, sampleOpts)] = Inr (t', [u])"
    and st: "ot_state t' = \<lparr>ac_client = 990, ac_provider = 1010, ac_total = 2000, ac_calls = 1\<rparr>"
    using sample_run [OF t] by blast
  obtain tr co where tr: "appendAll sampleHash (newTranscript sampleId) [u] = Inr tr"
    and co: "buildSettlementWithRoot t' 9 (transcriptRootOf sampleHash tr) 0 = Inr co"
    using sample_settlement [OF t run st] by blast
  let ?params = "\<lparr>vp_partyA = \<lparr>pk_publicKey = kp_publicKey (sampleKey PartyA), pk_scheme = ED25519\<rparr>,
      vp_partyB = \<lparr>pk_publicKey = kp_publicKey (sampleKey PartyB), pk_scheme = ED25519\<rparr>,
      vp_onchainRoot = toHex (transcriptRootOf sampleHash tr), vp_lockedTotal = Some 2000\<rparr>"
  have p: "paramsFor t (transcriptRootOf sampleHash tr) ?params"
    using newOffchainTunnel_ok [OF t] by (simp add: paramsFor_def sampleBalances_def)
  have full: "fullMode [(sampleCall, PartyA, sampleOpts)]"
    by (simp add: fullMode_def stepMode_def sampleOpts_def)
  have "\<exists>blob r. coSignedToSettleBody co (rawEntries tr) = Inr blob \<and>
      verifyTranscript sampleHash sampleVerify blob ?params = Inr r \<and> tv_ok r \<and>
      tv_stepCount r = length [(sampleCall, PartyA, sampleOpts)]"
    by (rule honest_run_accepted [OF t run full _ tr co _ _ _ _ _ p]) (simp_all add: signOrEmpty_def)
  then obtain blob r where "coSignedToSettleBody co (rawEntries tr) = Inr blob"
    "verifyTranscript sampleHash sampleVerify blob ?params = Inr r" "tv_ok r" "tv_stepCount r = 1"
    by auto
  with t run tr co show ?thesis
    by (intro exI [of _ t] exI [of _ t'] exI [of _ u] exI [of _ tr] exI [of _ co] exI [of _ ?params]
        exI [of _ blob] exI [of _ r]) simp
qed

end
